(* ===== verification/Prelude.thy ===== *)
theory Prelude
  imports Main "HOL-Library.Word" "HOL-Library.Char_ord" "HOL-Library.List_Lexorder"
    "HOL-Library.Product_Lexorder" "HOL-Library.Code_Target_Numeral"
begin

text \<open>
  The vocabulary the component theories share: the machine types of the
  program, results with explicit errors, the operations of the Rust standard
  library on strings that the program calls (strings are the lists of their
  UTF-8 bytes, so that lengths and slices are byte lengths and byte slices),
  decimal numbers, checked integer arithmetic, and the contracts (locales) of
  the encoders and decoders of the program.
\<close>

section \<open>Machine types and results\<close>

type_synonym byte = "8 word"
type_synonym u16 = "16 word"
type_synonym u32 = "32 word"
type_synonym u64 = "64 word"

named_theorems result_simps \<open>evaluation of fallible code\<close>
named_theorems str_simps \<open>facts about the string operations\<close>

text \<open>\<open>bindE\<close> is the question mark operator: the first error ends the computation.\<close>

definition bindE :: "'e + 'a \<Rightarrow> ('a \<Rightarrow> 'e + 'b) \<Rightarrow> 'e + 'b" where
  "bindE r f = (case r of Inl e \<Rightarrow> Inl e | Inr a \<Rightarrow> f a)"

definition failIf :: "bool \<Rightarrow> 'e \<Rightarrow> 'e + unit" where
  "failIf b e = (if b then Inl e else Inr ())"

definition mapErr :: "('e \<Rightarrow> 'f) \<Rightarrow> 'e + 'a \<Rightarrow> 'f + 'a" where
  "mapErr f r = (case r of Inl e \<Rightarrow> Inl (f e) | Inr a \<Rightarrow> Inr a)"

definition okOr :: "'e \<Rightarrow> 'a option \<Rightarrow> 'e + 'a" where
  "okOr e x = (case x of None \<Rightarrow> Inl e | Some a \<Rightarrow> Inr a)"

fun isOk :: "'e + 'a \<Rightarrow> bool" where
  "isOk (Inl _) = False"
| "isOk (Inr _) = True"

fun okOf :: "'e + 'a \<Rightarrow> 'a option" where
  "okOf (Inl _) = None"
| "okOf (Inr a) = Some a"

text \<open>Collecting an iterator of results: the first error wins.\<close>

fun traverseE :: "('a \<Rightarrow> 'e + 'b) \<Rightarrow> 'a list \<Rightarrow> 'e + 'b list" where
  "traverseE f [] = Inr []"
| "traverseE f (x # xs) =
     (case f x of Inl e \<Rightarrow> Inl e
      | Inr y \<Rightarrow> (case traverseE f xs of Inl e \<Rightarrow> Inl e | Inr ys \<Rightarrow> Inr (y # ys)))"

text \<open>A loop that checks every element and stops at the first error.\<close>

fun checkAll :: "('a \<Rightarrow> 'e + unit) \<Rightarrow> 'a list \<Rightarrow> 'e + unit" where
  "checkAll f [] = Inr ()"
| "checkAll f (x # xs) = (case f x of Inl e \<Rightarrow> Inl e | Inr _ \<Rightarrow> checkAll f xs)"

text \<open>A loop that threads a state and stops at the first error.\<close>

fun foldE :: "('s \<Rightarrow> 'a \<Rightarrow> 'e + 's) \<Rightarrow> 's \<Rightarrow> 'a list \<Rightarrow> 'e + 's" where
  "foldE f s [] = Inr s"
| "foldE f s (x # xs) = (case f s x of Inl e \<Rightarrow> Inl e | Inr s' \<Rightarrow> foldE f s' xs)"

lemma bindE_simps [simp, result_simps]:
  "bindE (Inl e) f = Inl e" "bindE (Inr a) f = f a"
  by (simp_all add: bindE_def)

lemma bindE_Inr_iff [result_simps]:
  "bindE r f = Inr b \<longleftrightarrow> (\<exists>a. r = Inr a \<and> f a = Inr b)"
  by (cases r) auto

lemma bindE_Inl_iff:
  "bindE r f = Inl e \<longleftrightarrow> r = Inl e \<or> (\<exists>a. r = Inr a \<and> f a = Inl e)"
  by (cases r) auto

lemma failIf_simps [simp, result_simps]:
  "failIf b e = Inr u \<longleftrightarrow> \<not> b"
  "failIf b e = Inl e' \<longleftrightarrow> b \<and> e' = e"
  "failIf True e = Inl e" "failIf False e = Inr ()"
  by (auto simp: failIf_def)

lemma mapErr_simps [simp, result_simps]:
  "mapErr f (Inl e) = Inl (f e)" "mapErr f (Inr a) = Inr a"
  "mapErr f r = Inr b \<longleftrightarrow> r = Inr b"
  by (simp_all add: mapErr_def split: sum.splits)

lemma mapErr_Inl_iff: "mapErr f r = Inl e \<longleftrightarrow> (\<exists>x. r = Inl x \<and> e = f x)"
  by (cases r) auto

lemma okOr_simps [simp, result_simps]:
  "okOr e None = Inl e" "okOr e (Some a) = Inr a"
  "okOr e x = Inr b \<longleftrightarrow> x = Some b"
  by (simp_all add: okOr_def split: option.splits)

lemma okOf_Some_iff [simp, result_simps]: "okOf r = Some a \<longleftrightarrow> r = Inr a"
  by (cases r) auto

lemma isOk_iff: "isOk r \<longleftrightarrow> (\<exists>a. r = Inr a)"
  by (cases r) auto

lemma traverseE_Inr_iff:
  "traverseE f xs = Inr ys \<longleftrightarrow> list_all2 (\<lambda>x y. f x = Inr y) xs ys"
proof
  show "traverseE f xs = Inr ys \<Longrightarrow> list_all2 (\<lambda>x y. f x = Inr y) xs ys"
    by (induction xs arbitrary: ys) (auto split: sum.splits)
  show "list_all2 (\<lambda>x y. f x = Inr y) xs ys \<Longrightarrow> traverseE f xs = Inr ys"
    by (induction rule: list_all2_induct) auto
qed

lemma traverseE_mem:
  "traverseE f xs = Inr ys \<Longrightarrow> y \<in> set ys \<Longrightarrow> \<exists>x\<in>set xs. f x = Inr y"
  by (induction xs arbitrary: ys) (auto split: sum.splits)

lemma traverseE_length: "traverseE f xs = Inr ys \<Longrightarrow> length ys = length xs"
  by (simp add: traverseE_Inr_iff list_all2_lengthD)

lemma traverseE_map_Inr:
  assumes "\<And>x. x \<in> set xs \<Longrightarrow> f x = Inr (g x)"
  shows "traverseE f xs = Inr (map g xs)"
  using assms by (induction xs) auto

lemma checkAll_Inr_iff [result_simps]:
  "checkAll f xs = Inr u \<longleftrightarrow> (\<forall>x\<in>set xs. f x = Inr ())"
  by (induction xs) (auto split: sum.splits)

lemma checkAll_InlD:
  "checkAll f xs = Inl e \<Longrightarrow>
     \<exists>ys x zs. xs = ys @ x # zs \<and> f x = Inl e \<and> (\<forall>y\<in>set ys. f y = Inr ())"
proof (induction xs)
  case Nil
  then show ?case by simp
next
  case (Cons x xs)
  show ?case
  proof (cases "f x")
    case (Inl e')
    with Cons.prems have "x # xs = [] @ x # xs \<and> f x = Inl e" by simp
    then show ?thesis by (metis empty_iff empty_set)
  next
    case (Inr u)
    with Cons obtain ys y zs where "xs = ys @ y # zs" "f y = Inl e" "\<forall>y\<in>set ys. f y = Inr ()"
      by auto
    then have "x # xs = (x # ys) @ y # zs \<and> f y = Inl e \<and> (\<forall>y\<in>set (x # ys). f y = Inr ())"
      using Inr by simp
    then show ?thesis by blast
  qed
qed

lemma foldE_invariant:
  assumes "foldE f s xs = Inr s'" and "P s"
    and "\<And>s x s'. x \<in> set xs \<Longrightarrow> P s \<Longrightarrow> f s x = Inr s' \<Longrightarrow> P s'"
  shows "P s'"
  using assms
proof (induction xs arbitrary: s)
  case (Cons x xs)
  then obtain s1 where "f s x = Inr s1" "foldE f s1 xs = Inr s'"
    by (auto split: sum.splits)
  with Cons show ?case by (metis list.set_intros)
qed simp

lemma traverseE_InlD: "traverseE f xs = Inl e \<Longrightarrow> \<exists>x\<in>set xs. f x = Inl e"
  by (induction xs) (auto split: sum.splits)

lemma foldE_InlD: "foldE f s xs = Inl e \<Longrightarrow> \<exists>s' x. x \<in> set xs \<and> f s' x = Inl e"
proof (induction xs arbitrary: s)
  case (Cons x xs)
  then show ?case by (cases "f s x") (fastforce, simp, blast)
qed simp

lemma foldE_append [simp]:
  "foldE f s (xs @ ys) = bindE (foldE f s xs) (\<lambda>s'. foldE f s' ys)"
  by (induction xs arbitrary: s) (auto split: sum.splits)

section \<open>Strings\<close>

definition chr_code :: "char \<Rightarrow> nat" where
  "chr_code c = of_char c"

definition is_digit :: "char \<Rightarrow> bool" where
  "is_digit c \<longleftrightarrow> 48 \<le> chr_code c \<and> chr_code c \<le> 57"

definition is_lower :: "char \<Rightarrow> bool" where
  "is_lower c \<longleftrightarrow> 97 \<le> chr_code c \<and> chr_code c \<le> 122"

definition is_upper :: "char \<Rightarrow> bool" where
  "is_upper c \<longleftrightarrow> 65 \<le> chr_code c \<and> chr_code c \<le> 90"

definition is_alphanumeric :: "char \<Rightarrow> bool" where
  "is_alphanumeric c \<longleftrightarrow> is_digit c \<or> is_lower c \<or> is_upper c"

text \<open>\<open>str::find(c)\<close> and \<open>str::rfind(c)\<close> for one ASCII character.\<close>

fun str_find :: "char \<Rightarrow> string \<Rightarrow> nat option" where
  "str_find c [] = None"
| "str_find c (x # xs) = (if x = c then Some 0 else map_option Suc (str_find c xs))"

fun str_rfind :: "char \<Rightarrow> string \<Rightarrow> nat option" where
  "str_rfind c [] = None"
| "str_rfind c (x # xs) =
     (case str_rfind c xs of Some i \<Rightarrow> Some (Suc i)
      | None \<Rightarrow> if x = c then Some 0 else None)"

text \<open>\<open>str::split(c)\<close>: always at least one piece.\<close>

fun split_on :: "char \<Rightarrow> string \<Rightarrow> string list" where
  "split_on c [] = [[]]"
| "split_on c (x # xs) =
     (if x = c then [] # split_on c xs
      else (x # hd (split_on c xs)) # tl (split_on c xs))"

fun join_with :: "char \<Rightarrow> string list \<Rightarrow> string" where
  "join_with c [] = []"
| "join_with c [x] = x"
| "join_with c (x # y # ys) = x @ c # join_with c (y # ys)"

definition starts_with :: "string \<Rightarrow> string \<Rightarrow> bool" where
  "starts_with p s \<longleftrightarrow> take (length p) s = p"

definition strip_prefix :: "string \<Rightarrow> string \<Rightarrow> string option" where
  "strip_prefix p s = (if starts_with p s then Some (drop (length p) s) else None)"

definition ends_with :: "string \<Rightarrow> string \<Rightarrow> bool" where
  "ends_with p s \<longleftrightarrow> length p \<le> length s \<and> drop (length s - length p) s = p"

definition strip_suffix :: "string \<Rightarrow> string \<Rightarrow> string option" where
  "strip_suffix p s = (if ends_with p s then Some (take (length s - length p) s) else None)"

definition split_once :: "char \<Rightarrow> string \<Rightarrow> (string \<times> string) option" where
  "split_once c s = map_option (\<lambda>i. (take i s, drop (Suc i) s)) (str_find c s)"

lemma str_find_None: "str_find c s = None \<longleftrightarrow> c \<notin> set s"
  by (induction s) auto

lemma str_find_absent [simp]: "c \<notin> set s \<Longrightarrow> str_find c s = None"
  by (simp add: str_find_None)

lemma str_find_append [str_simps]:
  "c \<notin> set a \<Longrightarrow> str_find c (a @ c # b) = Some (length a)"
  by (induction a) auto

lemma str_find_SomeD:
  "str_find c s = Some i \<Longrightarrow>
     i < length s \<and> s = take i s @ c # drop (Suc i) s \<and> c \<notin> set (take i s)"
  by (induction s arbitrary: i) (auto split: if_splits)

lemma str_find_SomeE:
  assumes "str_find c s = Some i"
  obtains a b where "s = a @ c # b" "c \<notin> set a" "i = length a"
proof -
  from str_find_SomeD [OF assms] have "s = take i s @ c # drop (Suc i) s"
    "c \<notin> set (take i s)" "i = length (take i s)" by auto
  then show thesis by (rule that)
qed

lemma str_rfind_None: "str_rfind c s = None \<longleftrightarrow> c \<notin> set s"
  by (induction s) (auto split: option.splits)

lemma str_rfind_absent [simp]: "c \<notin> set s \<Longrightarrow> str_rfind c s = None"
  by (simp add: str_rfind_None)

lemma str_rfind_append [str_simps]:
  "c \<notin> set b \<Longrightarrow> str_rfind c (a @ c # b) = Some (length a)"
proof (induction a)
  case Nil
  then show ?case by simp
qed simp

lemma str_rfind_SomeE:
  assumes "str_rfind c s = Some i"
  obtains a b where "s = a @ c # b" "c \<notin> set b" "i = length a"
proof -
  from assms have "c \<in> set s"
    by (metis option.distinct(1) str_rfind_None)
  then obtain a b where s: "s = a @ c # b" "c \<notin> set b"
    by (meson split_list_last)
  with str_rfind_append assms have "i = length a" by force
  with s show thesis by (rule that)
qed

lemma split_on_not_Nil [simp]: "split_on c s \<noteq> []"
  by (induction s) auto

lemma split_on_no_sep: "c \<notin> set s \<Longrightarrow> split_on c s = [s]"
  by (induction s) auto

lemma split_on_append [str_simps]:
  "c \<notin> set a \<Longrightarrow> split_on c (a @ c # b) = a # split_on c b"
  by (induction a) auto

lemma split_on_append_gen:
  "split_on c (a @ c # b) = split_on c a @ split_on c b"
proof (induction a)
  case (Cons x a)
  then show ?case
    by (cases "split_on c a") auto
qed simp

lemma split_on_parts: "p \<in> set (split_on c s) \<Longrightarrow> c \<notin> set p"
proof (induction s arbitrary: p)
  case (Cons x xs)
  then show ?case
    by (cases "split_on c xs") (auto split: if_splits)
qed simp

lemma split_on_subset: "p \<in> set (split_on c s) \<Longrightarrow> set p \<subseteq> set s"
proof (induction s arbitrary: p)
  case (Cons x xs)
  show ?case
  proof (cases "x = c")
    case True
    with Cons show ?thesis by fastforce
  next
    case False
    obtain y ys where yys: "split_on c xs = y # ys"
      by (meson neq_Nil_conv split_on_not_Nil)
    then have "set y \<subseteq> set xs" "\<And>q. q \<in> set ys \<Longrightarrow> set q \<subseteq> set xs"
      using Cons.IH by auto
    with False yys Cons.prems show ?thesis by (auto; blast)
  qed
qed simp

lemma join_split [simp]: "join_with c (split_on c s) = s"
proof (induction s)
  case (Cons x xs)
  then show ?case
    by (cases "split_on c xs"; cases "tl (split_on c xs)") auto
qed simp

lemma split_join:
  "ps \<noteq> [] \<Longrightarrow> (\<And>p. p \<in> set ps \<Longrightarrow> c \<notin> set p) \<Longrightarrow> split_on c (join_with c ps) = ps"
  by (induction c ps rule: join_with.induct) (auto simp: split_on_append split_on_no_sep)

lemma starts_with_iff [str_simps]: "starts_with p s \<longleftrightarrow> (\<exists>r. s = p @ r)"
  by (auto simp: starts_with_def) (metis append_take_drop_id)

lemma strip_prefix_append [simp, str_simps]: "strip_prefix p (p @ r) = Some r"
  by (simp add: strip_prefix_def starts_with_def)

lemma strip_prefix_Some [simp]: "strip_prefix p s = Some r \<longleftrightarrow> s = p @ r"
  by (auto simp: strip_prefix_def starts_with_iff)

lemma strip_prefix_None: "strip_prefix p s = None \<longleftrightarrow> \<not> starts_with p s"
  by (simp add: strip_prefix_def)

lemma ends_with_iff [str_simps]: "ends_with p s \<longleftrightarrow> (\<exists>r. s = r @ p)"
  by (auto simp: ends_with_def) (metis append_take_drop_id)

lemma strip_suffix_Some [simp]: "strip_suffix p s = Some r \<longleftrightarrow> s = r @ p"
  by (auto simp: strip_suffix_def ends_with_iff)

lemma split_once_Some:
  "split_once c s = Some (a, b) \<longleftrightarrow> s = a @ c # b \<and> c \<notin> set a"
proof
  assume "split_once c s = Some (a, b)"
  then obtain i where "str_find c s = Some i" "a = take i s" "b = drop (Suc i) s"
    by (auto simp: split_once_def)
  then show "s = a @ c # b \<and> c \<notin> set a" using str_find_SomeD by metis
next
  assume "s = a @ c # b \<and> c \<notin> set a"
  then show "split_once c s = Some (a, b)" by (simp add: split_once_def str_find_append)
qed

lemma split_once_None: "split_once c s = None \<longleftrightarrow> c \<notin> set s"
  by (simp add: split_once_def str_find_None)

section \<open>Decimal numbers and checked arithmetic\<close>

definition digit_value :: "char \<Rightarrow> nat" where
  "digit_value c = chr_code c - 48"

definition digit_char :: "nat \<Rightarrow> char" where
  "digit_char n = char_of (n + 48)"

definition dec_value :: "string \<Rightarrow> nat" where
  "dec_value s = foldl (\<lambda>n c. 10 * n + digit_value c) 0 s"

fun show_dec :: "nat \<Rightarrow> string" where
  "show_dec n = (if n < 10 then [digit_char n] else show_dec (n div 10) @ [digit_char (n mod 10)])"

declare show_dec.simps [simp del]

text \<open>\<open>str::parse\<close> at an unsigned type: an optional plus sign, digits, no overflow.\<close>

definition parse_uint :: "nat \<Rightarrow> string \<Rightarrow> nat option" where
  "parse_uint m s =
     (let digits = (case s of [] \<Rightarrow> [] | c # r \<Rightarrow> if c = CHR ''+'' then r else s) in
      if digits \<noteq> [] \<and> list_all is_digit digits \<and> dec_value digits \<le> m
      then Some (dec_value digits) else None)"

definition u16_max :: nat where "u16_max = 2 ^ 16 - 1"
definition u32_max :: nat where "u32_max = 2 ^ 32 - 1"
definition u64_max :: nat where "u64_max = 2 ^ 64 - 1"

definition checked_add :: "nat \<Rightarrow> nat \<Rightarrow> nat \<Rightarrow> nat option" where
  "checked_add m a b = (if a + b \<le> m then Some (a + b) else None)"

definition checked_mul :: "nat \<Rightarrow> nat \<Rightarrow> nat \<Rightarrow> nat option" where
  "checked_mul m a b = (if a * b \<le> m then Some (a * b) else None)"

definition checked_sub :: "nat \<Rightarrow> nat \<Rightarrow> nat option" where
  "checked_sub a b = (if b \<le> a then Some (a - b) else None)"

lemma checked_simps [simp]:
  "checked_add m a b = Some c \<longleftrightarrow> c = a + b \<and> a + b \<le> m"
  "checked_mul m a b = Some c \<longleftrightarrow> c = a * b \<and> a * b \<le> m"
  "checked_sub a b = Some c \<longleftrightarrow> b \<le> a \<and> c = a - b"
  "checked_add m a b = None \<longleftrightarrow> m < a + b"
  "checked_mul m a b = None \<longleftrightarrow> m < a * b"
  "checked_sub a b = None \<longleftrightarrow> a < b"
  by (auto simp: checked_add_def checked_mul_def checked_sub_def)

lemma chr_code_digit: "n < 10 \<Longrightarrow> chr_code (digit_char n) = n + 48"
  by (simp add: chr_code_def digit_char_def)

lemma digit_value_char [simp]: "n < 10 \<Longrightarrow> digit_value (digit_char n) = n"
  by (simp add: digit_value_def chr_code_digit)

lemma is_digit_char [simp]: "n < 10 \<Longrightarrow> is_digit (digit_char n)"
  by (simp add: is_digit_def chr_code_digit)

lemma show_dec_not_Nil [simp]: "show_dec n \<noteq> []"
  by (subst show_dec.simps) simp

lemma show_dec_digits [simp]: "list_all is_digit (show_dec n)"
  by (induction n rule: show_dec.induct) (subst show_dec.simps, simp)

lemma show_dec_in_digits: "c \<in> set (show_dec n) \<Longrightarrow> is_digit c"
  using show_dec_digits by (auto simp: list_all_iff simp del: show_dec_digits)

lemma dec_value_snoc: "dec_value (s @ [c]) = 10 * dec_value s + digit_value c"
  by (simp add: dec_value_def)

lemma dec_value_show [simp]: "dec_value (show_dec n) = n"
proof (induction n rule: show_dec.induct)
  case (1 n)
  show ?case
  proof (cases "n < 10")
    case True
    then show ?thesis by (subst show_dec.simps) (simp add: dec_value_def)
  next
    case False
    then show ?thesis using 1 by (subst show_dec.simps) (simp add: dec_value_snoc)
  qed
qed

lemma is_digit_not [simp]: "\<not> is_digit CHR ''+''" "\<not> is_digit CHR ''.''" "\<not> is_digit CHR ''/''"
  "\<not> is_digit CHR '':''" "\<not> is_digit CHR ''-''"
  by (simp_all add: is_digit_def chr_code_def)

lemma parse_uint_digits:
  "list_all is_digit s \<Longrightarrow> s \<noteq> [] \<Longrightarrow>
     parse_uint m s = (if dec_value s \<le> m then Some (dec_value s) else None)"
  by (cases s) (auto simp: parse_uint_def)

lemma parse_uint_show: "n \<le> m \<Longrightarrow> parse_uint m (show_dec n) = Some n"
  by (simp add: parse_uint_digits)

lemma parse_uint_bound: "parse_uint m s = Some n \<Longrightarrow> n \<le> m"
  by (auto simp: parse_uint_def Let_def split: if_splits)

section \<open>Ordered maps\<close>

text \<open>
  A \<open>BTreeMap\<close> is the list of its entries in ascending order of the keys;
  iteration is the list itself.
\<close>

type_synonym ('k, 'v) btree = "('k \<times> 'v) list"

definition bt_keys :: "('k, 'v) btree \<Rightarrow> 'k list" where
  "bt_keys m = map fst m"

definition bt_wf :: "('k::linorder, 'v) btree \<Rightarrow> bool" where
  "bt_wf m \<longleftrightarrow> sorted_wrt (<) (bt_keys m)"

fun bt_insert :: "'k::linorder \<Rightarrow> 'v \<Rightarrow> ('k, 'v) btree \<Rightarrow> ('k, 'v) btree" where
  "bt_insert k v [] = [(k, v)]"
| "bt_insert k v ((k', v') # m) =
     (if k < k' then (k, v) # (k', v') # m
      else if k = k' then (k, v) # m
      else (k', v') # bt_insert k v m)"

fun bt_delete :: "'k::linorder \<Rightarrow> ('k, 'v) btree \<Rightarrow> ('k, 'v) btree" where
  "bt_delete k [] = []"
| "bt_delete k ((k', v') # m) = (if k = k' then m else (k', v') # bt_delete k m)"

abbreviation bt_get :: "('k, 'v) btree \<Rightarrow> 'k \<Rightarrow> 'v option" where
  "bt_get m k \<equiv> map_of m k"

text \<open>Iterating a set of names in ascending order (\<open>BTreeSet\<close>).\<close>

fun set_insert :: "'k::linorder \<Rightarrow> 'k list \<Rightarrow> 'k list" where
  "set_insert k [] = [k]"
| "set_insert k (x # xs) =
     (if k < x then k # x # xs else if k = x then x # xs else x # set_insert k xs)"

lemma bt_get_insert [simp]: "bt_get (bt_insert k v m) k' = (if k' = k then Some v else bt_get m k')"
  by (induction k v m rule: bt_insert.induct) auto

lemma bt_keys_insert: "set (bt_keys (bt_insert k v m)) = insert k (set (bt_keys m))"
  by (induction k v m rule: bt_insert.induct) (auto simp: bt_keys_def)

lemma bt_wf_insert [simp]: "bt_wf m \<Longrightarrow> bt_wf (bt_insert k v m)"
proof (induction k v m rule: bt_insert.induct)
  case (2 k v k' v' m)
  then show ?case
    using bt_keys_insert [of k v m] by (auto simp: bt_wf_def bt_keys_def)
qed (simp add: bt_wf_def bt_keys_def)

lemma bt_wf_Nil [simp]: "bt_wf []"
  by (simp add: bt_wf_def bt_keys_def)

lemma bt_wf_distinct: "bt_wf m \<Longrightarrow> distinct (map fst m)"
  by (simp add: bt_wf_def bt_keys_def strict_sorted_iff)

lemma bt_get_iff: "bt_wf m \<Longrightarrow> bt_get m k = Some v \<longleftrightarrow> (k, v) \<in> set m"
  by (simp add: bt_wf_distinct)

text \<open>Filling a map in ascending order; deleting and filtering.\<close>

lemma bt_insert_last: "\<forall>e\<in>set xs. fst e < k \<Longrightarrow> bt_insert k v xs = xs @ [(k, v)]"
  by (induction xs) auto

lemma bt_insert_replace: "\<forall>e\<in>set xs. fst e < k \<Longrightarrow> bt_insert k v (xs @ [(k, w)]) = xs @ [(k, v)]"
  by (induction xs) auto

lemma bt_get_last: "\<forall>e\<in>set xs. fst e < (k::'a::linorder) \<Longrightarrow> bt_get xs k = None"
  by (induction xs) auto

lemma bt_delete_subset: "set (bt_delete k m) \<subseteq> set m"
  by (induction k m rule: bt_delete.induct) auto

lemma bt_wf_delete: "bt_wf m \<Longrightarrow> bt_wf (bt_delete k m)"
proof (induction k m rule: bt_delete.induct)
  case (2 k k' v m)
  then show ?case using bt_delete_subset [of k m] by (auto simp: bt_wf_def bt_keys_def)
qed simp

lemma bt_get_delete: "bt_wf m \<Longrightarrow> bt_get (bt_delete k m) k' = (if k' = k then None else bt_get m k')"
proof (induction k m rule: bt_delete.induct)
  case (2 k k1 v m)
  then have "bt_wf m" "\<forall>x\<in>set m. k1 < fst x" by (auto simp: bt_wf_def bt_keys_def)
  then have "bt_get m k1 = None" by (force simp: map_of_eq_None_iff)
  with 2 \<open>bt_wf m\<close> show ?case by auto
qed simp

lemma bt_wf_filter: "bt_wf es \<Longrightarrow> bt_wf (filter P es)"
  by (induction es) (auto simp: bt_wf_def bt_keys_def)

lemma set_set_insert [simp]: "set (set_insert k xs) = insert k (set xs)"
  by (induction xs) auto

lemma sorted_set_insert [simp]: "sorted_wrt (<) xs \<Longrightarrow> sorted_wrt (<) (set_insert k xs)"
proof (induction xs)
  case (Cons x xs)
  then show ?case by auto
qed simp

section \<open>Contracts of encoders and decoders\<close>

text \<open>
  \<open>codec\<close>: what is written is read back.  \<open>canonical_codec\<close>: beside that,
  nothing is read that would not be written the same way, so that a value has
  exactly one accepted encoding.
\<close>

locale codec =
  fixes valid :: "'a \<Rightarrow> bool"
    and enc :: "'a \<Rightarrow> 'b"
    and dec :: "'b \<Rightarrow> 'e + 'a"
  assumes dec_enc: "valid a \<Longrightarrow> dec (enc a) = Inr a"
begin

lemma enc_inj: "valid a \<Longrightarrow> valid a' \<Longrightarrow> enc a = enc a' \<Longrightarrow> a = a'"
  by (metis dec_enc sum.inject(2))

lemma inj_on_enc: "inj_on enc {a. valid a}"
  by (auto intro: inj_onI enc_inj)

end

locale sound_codec = codec valid enc dec
  for valid :: "'a \<Rightarrow> bool" and enc :: "'a \<Rightarrow> 'b" and dec :: "'b \<Rightarrow> 'e + 'a" +
  assumes dec_valid: "dec b = Inr a \<Longrightarrow> valid a"
begin

lemma reparse: "dec b = Inr a \<Longrightarrow> dec (enc a) = Inr a"
  by (simp add: dec_enc dec_valid)

lemma range_dec: "(\<exists>b. dec b = Inr a) \<longleftrightarrow> valid a"
  using dec_enc dec_valid by blast

end

locale canonical_codec = sound_codec valid enc dec
  for valid :: "'a \<Rightarrow> bool" and enc :: "'a \<Rightarrow> 'b" and dec :: "'b \<Rightarrow> 'e + 'a" +
  assumes enc_dec: "dec b = Inr a \<Longrightarrow> enc a = b"
begin

lemma dec_iff: "dec b = Inr a \<longleftrightarrow> valid a \<and> enc a = b"
  using dec_enc dec_valid enc_dec by blast

lemma dec_inj: "dec b = Inr a \<Longrightarrow> dec b' = Inr a \<Longrightarrow> b = b'"
  by (metis enc_dec)

lemma accepts_iff: "isOk (dec b) \<longleftrightarrow> b \<in> enc ` {a. valid a}"
  using dec_iff by (auto simp: isOk_iff image_iff)

end

text \<open>
  A newtype over a string with a validating constructor: the text of a value is
  the text it was made of, so that printing and reading again is the identity.
\<close>

locale validated_string =
  fixes mk :: "string \<Rightarrow> 'a option"
    and text_of :: "'a \<Rightarrow> string"
  assumes mk_text: "mk s = Some a \<Longrightarrow> text_of a = s"
begin

lemma mk_inj: "mk s = Some a \<Longrightarrow> mk s' = Some a \<Longrightarrow> s = s'"
  using mk_text by metis

lemma remake: "mk s = Some a \<Longrightarrow> mk (text_of a) = Some a"
  using mk_text by metis

end

end
