(* ===== verification/Bytes.thy ===== *)
theory Bytes
  imports Prelude
begin

text \<open>
  Byte strings as the disk and the packet formats use them: slices of fixed
  width, little-endian integers (a codec for every width), and a growing file
  of bytes with positioned reads and writes.
\<close>

named_theorems slice_simps \<open>slices of concatenations\<close>

section \<open>Slices\<close>

definition slice :: "nat \<Rightarrow> nat \<Rightarrow> 'a list \<Rightarrow> 'a list" where
  "slice off len bs = take len (drop off bs)"

lemma slice_length [simp]: "off + len \<le> length bs \<Longrightarrow> length (slice off len bs) = len"
  by (simp add: slice_def)

lemma slice_front [slice_simps]: "length a = n \<Longrightarrow> slice 0 n (a @ b) = a"
  by (simp add: slice_def)

lemma slice_all [slice_simps]: "length a = n \<Longrightarrow> slice 0 n a = a"
  by (simp add: slice_def)

lemma slice_skip [slice_simps]:
  "length a \<le> off \<Longrightarrow> slice off n (a @ b) = slice (off - length a) n b"
  by (simp add: slice_def)

lemma slice_Cons [slice_simps]: "0 < off \<Longrightarrow> slice off n (x # b) = slice (off - 1) n b"
  by (cases off) (simp_all add: slice_def)

lemma slice_join [slice_simps]:
  "p = off + a \<Longrightarrow> slice off a bs @ slice p c bs = slice off (a + c) bs"
  by (simp add: slice_def take_add add.commute)

lemma slice_join_more [slice_simps]:
  "p = off + a \<Longrightarrow> slice off a bs @ slice p c bs @ r = slice off (a + c) bs @ r"
  by (simp add: slice_def take_add add.commute)

lemma slice_slice: "o2 + l2 \<le> l1 \<Longrightarrow> slice o2 l2 (slice o1 l1 bs) = slice (o1 + o2) l2 bs"
  by (simp add: slice_def drop_take min_def add.commute)

section \<open>Little-endian integers\<close>

fun le_bytes :: "nat \<Rightarrow> nat \<Rightarrow> byte list" where
  "le_bytes 0 v = []"
| "le_bytes (Suc k) v = word_of_nat v # le_bytes k (v div 256)"

fun le_value :: "byte list \<Rightarrow> nat" where
  "le_value [] = 0"
| "le_value (b # bs) = unat b + 256 * le_value bs"

definition le_decode :: "nat \<Rightarrow> byte list \<Rightarrow> unit + nat" where
  "le_decode k bs = (if length bs = k then Inr (le_value bs) else Inl ())"

lemma unat_byte: "unat (b :: byte) < 256"
  using unsigned_less [where 'a = nat and w = b] by simp

lemma length_le_bytes [simp]: "length (le_bytes k v) = k"
  by (induction k v rule: le_bytes.induct) auto

lemma le_value_bytes_mod: "le_value (le_bytes k v) = v mod 256 ^ k"
proof (induction k v rule: le_bytes.induct)
  case (2 k v)
  have "unat (word_of_nat v :: byte) = v mod 256"
    by (simp add: unsigned_of_nat take_bit_eq_mod)
  then show ?case using 2 by (simp add: mod_mult2_eq)
qed simp

lemma le_value_bytes [simp]: "v < 256 ^ k \<Longrightarrow> le_value (le_bytes k v) = v"
  by (simp add: le_value_bytes_mod)

lemma le_value_bound: "le_value bs < 256 ^ length bs"
proof (induction bs)
  case (Cons b bs)
  have "unat b + 256 * le_value bs < 256 + 256 * le_value bs" using unat_byte [of b] by simp
  also have "\<dots> \<le> 256 * 256 ^ length bs" using Cons by simp
  finally show ?case by simp
qed simp

lemma le_bytes_value [simp]: "length bs = k \<Longrightarrow> le_bytes k (le_value bs) = bs"
proof (induction bs arbitrary: k)
  case (Cons b bs)
  have "(word_of_nat (unat b + 256 * le_value bs) :: byte) = b"
  proof -
    have "unat (word_of_nat (unat b + 256 * le_value bs) :: byte) = unat b"
      using unat_byte [of b] by (simp add: unsigned_of_nat take_bit_eq_mod del: of_nat_add of_nat_mult)
    then show ?thesis by (metis word_unat_eq_iff)
  qed
  moreover have "(unat b + 256 * le_value bs) div 256 = le_value bs" using unat_byte [of b] by simp
  ultimately show ?case using Cons by auto
qed simp

interpretation little_endian: canonical_codec "\<lambda>v. v < 256 ^ k" "le_bytes k" "le_decode k" for k
  using le_value_bound by unfold_locales (auto simp: le_decode_def split: if_splits)

section \<open>A file of bytes\<close>

text \<open>A write beyond the end fills the gap with zeros, as a regular file does.\<close>

definition write_at :: "nat \<Rightarrow> byte list \<Rightarrow> byte list \<Rightarrow> byte list" where
  "write_at off bs f = take off f @ replicate (off - length f) 0 @ bs @ drop (off + length bs) f"

lemma length_write_at [simp]: "length (write_at off bs f) = max (length f) (off + length bs)"
  by (auto simp: write_at_def)

lemma write_at_prefix:
  obtains pre where "write_at off bs f = pre @ bs @ drop (off + length bs) f" "length pre = off"
    "take off f = take (length f) pre"
proof
  show "write_at off bs f =
      (take off f @ replicate (off - length f) 0) @ bs @ drop (off + length bs) f"
    by (simp add: write_at_def)
  show "take off f = take (length f) (take off f @ replicate (off - length f) 0)"
    by (cases "off \<le> length f") auto
qed simp

lemma nth_write_at_in:
  assumes "off \<le> i" "i < off + length bs"
  shows "write_at off bs f ! i = bs ! (i - off)"
proof -
  obtain pre where "write_at off bs f = pre @ bs @ drop (off + length bs) f" "length pre = off"
    by (rule write_at_prefix)
  moreover have "i - off < length bs" using assms by arith
  ultimately show ?thesis using assms by (simp add: nth_append)
qed

lemma nth_write_at_out:
  assumes "i < length f" "i < off \<or> off + length bs \<le> i"
  shows "write_at off bs f ! i = f ! i"
proof -
  obtain pre where w: "write_at off bs f = pre @ bs @ drop (off + length bs) f"
    "length pre = off" "take off f = take (length f) pre"
    by (rule write_at_prefix)
  show ?thesis
  proof (cases "i < off")
    case True
    then have "f ! i = take off f ! i" by simp
    also have "\<dots> = pre ! i" using w assms by simp
    finally show ?thesis using w True by (simp add: nth_append)
  next
    case False
    with assms have "off + length bs \<le> i" by simp
    moreover from this have "\<not> i - off < length bs" by arith
    ultimately show ?thesis using w assms by (simp add: nth_append)
  qed
qed

lemma slice_write_at_same:
  assumes "off \<le> p" "p + n \<le> off + length bs"
  shows "slice p n (write_at off bs f) = slice (p - off) n bs"
  using assms by (intro nth_equalityI) (auto simp: slice_def nth_write_at_in)

lemma slice_write_at_other:
  assumes "p + n \<le> length f" "p + n \<le> off \<or> off + length bs \<le> p"
  shows "slice p n (write_at off bs f) = slice p n f"
  using assms by (intro nth_equalityI) (auto simp: slice_def nth_write_at_out)

end
