(* ===== verification/Disk_Format.thy ===== *)
theory Disk_Format
  imports Bytes
begin

text \<open>
  The wire structures of a GPT disk: \<open>disk/header.rs\<close>, \<open>disk/record.rs\<close>,
  \<open>disk/mbr_entry.rs\<close>, \<open>disk/entry.rs\<close> and \<open>disk/partition.rs\<close>.  An integer field
  is the number it holds; the field's width is in the structure's
  well-formedness predicate.  A UUID is its sixteen little-endian bytes.  Each
  structure is a canonical codec on strings of its size.
\<close>

type_synonym uuid = "byte list"

definition sector_size :: nat where "sector_size = 4096"

definition max_entries :: nat where "max_entries = 8192"

definition esp_partition_type :: uuid where
  "esp_partition_type =
     [0x28, 0x73, 0x2a, 0xc1, 0x1f, 0xf8, 0xd2, 0x11, 0xba, 0x4b, 0x00, 0xa0, 0xc9, 0x3e, 0xc9, 0x3b]"

definition root_type_x86_64 :: uuid where
  "root_type_x86_64 =
     [0xe3, 0xbc, 0x68, 0x4f, 0xcd, 0xe8, 0xb1, 0x4d, 0x96, 0xe7, 0xfb, 0xca, 0xf9, 0x84, 0xb7, 0x09]"

definition root_type_aarch64 :: uuid where
  "root_type_aarch64 =
     [0x45, 0xb0, 0x21, 0xb9, 0xf0, 0x1d, 0xc3, 0x41, 0xaf, 0x44, 0x4c, 0x6f, 0x28, 0x0d, 0x3f, 0xae]"

section \<open>Errors\<close>

text \<open>One constructor for each message of the reader.\<close>

datatype disk_error =
    BackingCapacity
  | PrimaryBounds
  | BlockOverflow nat
  | BlockUnreadable nat
  | GptSignature nat
  | GptGeometry nat
  | HeaderChecksum nat
  | HeadersDisagree
  | MetadataOverlap
  | MbrReserved
  | MbrSignature
  | MbrHybrid nat
  | MbrCount nat
  | EntryReversed nat
  | EntryOutside nat
  | TableChecksum string
  | TablesDisagree nat
  | EntriesOverlap nat nat
  | NoRoot
  | MultipleRoots
  | MultipleEsps
  | ExtentOverflow nat

section \<open>The GPT header\<close>

record header =
  h_signature :: "byte list"
  h_revision :: nat
  h_size :: nat
  h_crc32 :: nat
  h_reserved :: nat
  h_current_lba :: nat
  h_backup_lba :: nat
  h_first_usable :: nat
  h_last_usable :: nat
  h_disk_guid :: uuid
  h_part_start :: nat
  h_num_parts :: nat
  h_part_size :: nat
  h_crc32_parts :: nat

definition header_wf :: "header \<Rightarrow> bool" where
  "header_wf h \<longleftrightarrow> length (h_signature h) = 8 \<and> h_revision h < 256 ^ 4 \<and> h_size h < 256 ^ 4 \<and>
     h_crc32 h < 256 ^ 4 \<and> h_reserved h < 256 ^ 4 \<and> h_current_lba h < 256 ^ 8 \<and>
     h_backup_lba h < 256 ^ 8 \<and> h_first_usable h < 256 ^ 8 \<and> h_last_usable h < 256 ^ 8 \<and>
     length (h_disk_guid h) = 16 \<and> h_part_start h < 256 ^ 8 \<and> h_num_parts h < 256 ^ 4 \<and>
     h_part_size h < 256 ^ 4 \<and> h_crc32_parts h < 256 ^ 4"

definition header_bytes :: "header \<Rightarrow> byte list" where
  "header_bytes h =
     h_signature h @ le_bytes 4 (h_revision h) @ le_bytes 4 (h_size h) @ le_bytes 4 (h_crc32 h) @
     le_bytes 4 (h_reserved h) @ le_bytes 8 (h_current_lba h) @ le_bytes 8 (h_backup_lba h) @
     le_bytes 8 (h_first_usable h) @ le_bytes 8 (h_last_usable h) @ h_disk_guid h @
     le_bytes 8 (h_part_start h) @ le_bytes 4 (h_num_parts h) @ le_bytes 4 (h_part_size h) @
     le_bytes 4 (h_crc32_parts h)"

definition header_from_bytes :: "byte list \<Rightarrow> header" where
  "header_from_bytes b =
     \<lparr>h_signature = slice 0 8 b, h_revision = le_value (slice 8 4 b), h_size = le_value (slice 12 4 b),
      h_crc32 = le_value (slice 16 4 b), h_reserved = le_value (slice 20 4 b),
      h_current_lba = le_value (slice 24 8 b), h_backup_lba = le_value (slice 32 8 b),
      h_first_usable = le_value (slice 40 8 b), h_last_usable = le_value (slice 48 8 b),
      h_disk_guid = slice 56 16 b, h_part_start = le_value (slice 72 8 b),
      h_num_parts = le_value (slice 80 4 b), h_part_size = le_value (slice 84 4 b),
      h_crc32_parts = le_value (slice 88 4 b)\<rparr>"

lemma le_value_slice_bound:
  "off + n \<le> length b \<Longrightarrow> le_value (slice off n b) < 256 ^ n"
  using le_value_bound [of "slice off n b"] by simp

lemma header_from_bytes_wf: "length b = 92 \<Longrightarrow> header_wf (header_from_bytes b)"
  unfolding header_wf_def header_from_bytes_def header.simps
  by (intro conjI le_value_slice_bound slice_length) simp_all

lemma header_from_to_bytes: "header_wf h \<Longrightarrow> header_from_bytes (header_bytes h) = h"
  by (simp add: header_from_bytes_def header_bytes_def header_wf_def slice_simps)

lemma header_to_from_bytes: "length b = 92 \<Longrightarrow> header_bytes (header_from_bytes b) = b"
  by (simp add: header_from_bytes_def header_bytes_def slice_simps)

lemma header_bytes_length: "header_wf h \<Longrightarrow> length (header_bytes h) = 92"
  by (simp add: header_bytes_def header_wf_def)

definition sized :: "nat \<Rightarrow> (byte list \<Rightarrow> 'a) \<Rightarrow> byte list \<Rightarrow> unit + 'a" where
  "sized n dec b = (if length b = n then Inr (dec b) else Inl ())"

interpretation gpt_header: canonical_codec header_wf header_bytes "sized 92 header_from_bytes"
  by unfold_locales
    (auto simp: sized_def header_bytes_length header_from_to_bytes header_from_bytes_wf
      header_to_from_bytes split: if_splits)

section \<open>Partition records\<close>

record gpt_record =
  r_kind :: uuid
  r_identity :: uuid
  r_start :: nat
  r_end :: nat
  r_attributes :: u64
  r_name :: "byte list"

definition record_wf :: "gpt_record \<Rightarrow> bool" where
  "record_wf r \<longleftrightarrow> length (r_kind r) = 16 \<and> length (r_identity r) = 16 \<and> r_start r < 256 ^ 8 \<and>
     r_end r < 256 ^ 8 \<and> length (r_name r) = 72"

definition record_bytes :: "gpt_record \<Rightarrow> byte list" where
  "record_bytes r =
     r_kind r @ r_identity r @ le_bytes 8 (r_start r) @ le_bytes 8 (r_end r) @
     le_bytes 8 (unat (r_attributes r)) @ r_name r"

definition record_from_bytes :: "byte list \<Rightarrow> gpt_record" where
  "record_from_bytes b =
     \<lparr>r_kind = slice 0 16 b, r_identity = slice 16 16 b, r_start = le_value (slice 32 8 b),
      r_end = le_value (slice 40 8 b), r_attributes = word_of_nat (le_value (slice 48 8 b)),
      r_name = slice 56 72 b\<rparr>"

definition record_is_used :: "gpt_record \<Rightarrow> bool" where
  "record_is_used r \<longleftrightarrow> r_kind r \<noteq> replicate 16 0"

lemma unat_u64: "unat (w :: u64) < 256 ^ 8"
  using unsigned_less [where 'a = nat and w = w] by simp

lemma record_from_bytes_wf: "length b = 128 \<Longrightarrow> record_wf (record_from_bytes b)"
  unfolding record_wf_def record_from_bytes_def gpt_record.simps
  by (intro conjI le_value_slice_bound slice_length) simp_all

lemma record_from_to_bytes: "record_wf r \<Longrightarrow> record_from_bytes (record_bytes r) = r"
  using unat_u64 [of "r_attributes r"]
  by (simp add: record_from_bytes_def record_bytes_def record_wf_def slice_simps)

lemma record_to_from_bytes:
  assumes "length b = 128"
  shows "record_bytes (record_from_bytes b) = b"
proof -
  have "le_value (slice 48 8 b) < 2 ^ 64" using le_value_slice_bound [of 48 8 b] assms by simp
  then have "unat (word_of_nat (le_value (slice 48 8 b)) :: u64) = le_value (slice 48 8 b)"
    by (simp add: unsigned_of_nat take_bit_nat_eq_self)
  with assms show ?thesis
    by (simp add: record_from_bytes_def record_bytes_def slice_simps)
qed

lemma record_bytes_length: "record_wf r \<Longrightarrow> length (record_bytes r) = 128"
  by (simp add: record_bytes_def record_wf_def)

interpretation gpt_records: canonical_codec record_wf record_bytes "sized 128 record_from_bytes"
  by unfold_locales
    (auto simp: sized_def record_bytes_length record_from_to_bytes record_from_bytes_wf
      record_to_from_bytes split: if_splits)

section \<open>Protective MBR slots\<close>

record mbr_entry =
  m_boot_indicator :: byte
  m_start_chs :: "byte list"
  m_os_type :: byte
  m_end_chs :: "byte list"
  m_start :: nat
  m_size :: nat

definition mbr_wf :: "mbr_entry \<Rightarrow> bool" where
  "mbr_wf m \<longleftrightarrow> length (m_start_chs m) = 3 \<and> length (m_end_chs m) = 3 \<and>
     m_start m < 256 ^ 4 \<and> m_size m < 256 ^ 4"

definition mbr_bytes :: "mbr_entry \<Rightarrow> byte list" where
  "mbr_bytes m =
     [m_boot_indicator m] @ m_start_chs m @ [m_os_type m] @ m_end_chs m @
     le_bytes 4 (m_start m) @ le_bytes 4 (m_size m)"

definition mbr_from_bytes :: "byte list \<Rightarrow> mbr_entry" where
  "mbr_from_bytes b =
     \<lparr>m_boot_indicator = b ! 0, m_start_chs = slice 1 3 b, m_os_type = b ! 4,
      m_end_chs = slice 5 3 b, m_start = le_value (slice 8 4 b), m_size = le_value (slice 12 4 b)\<rparr>"

definition mbr_protects :: "mbr_entry \<Rightarrow> nat \<Rightarrow> bool" where
  "mbr_protects m sectors \<longleftrightarrow>
     m_os_type m = 0xee \<and> m_boot_indicator m = 0 \<and> m_start m = 1 \<and>
     m_size m = min (sectors - 1) u32_max"

lemma mbr_bytes_length: "mbr_wf m \<Longrightarrow> length (mbr_bytes m) = 16"
  by (simp add: mbr_bytes_def mbr_wf_def)

lemma slice_one: "i < length b \<Longrightarrow> slice i 1 b = [b ! i]"
  by (simp add: slice_def take_Suc_conv_app_nth hd_drop_conv_nth take_Suc)

lemma mbr_from_to_bytes:
  assumes "mbr_wf m"
  shows "mbr_from_bytes (mbr_bytes m) = m"
proof -
  have i: "mbr_bytes m ! 0 = m_boot_indicator m" "mbr_bytes m ! 4 = m_os_type m"
    using assms by (auto simp: mbr_bytes_def mbr_wf_def nth_append)
  show ?thesis
    using assms unfolding mbr_from_bytes_def i
    by (simp add: mbr_bytes_def mbr_wf_def slice_simps)
qed

lemma mbr_to_from_bytes:
  assumes "length b = 16"
  shows "mbr_bytes (mbr_from_bytes b) = b"
proof -
  have "[b ! 0] = slice 0 1 b" "[b ! 4] = slice 4 1 b"
    using assms slice_one [of 0 b] slice_one [of 4 b] by auto
  then have "mbr_bytes (mbr_from_bytes b) =
      slice 0 1 b @ slice 1 3 b @ slice 4 1 b @ slice 5 3 b @ slice 8 4 b @ slice 12 4 b"
    using assms by (simp add: mbr_bytes_def mbr_from_bytes_def)
  then show ?thesis using assms by (simp add: slice_simps)
qed

lemma mbr_from_bytes_wf: "length b = 16 \<Longrightarrow> mbr_wf (mbr_from_bytes b)"
  unfolding mbr_wf_def mbr_from_bytes_def mbr_entry.simps
  by (intro conjI le_value_slice_bound slice_length) simp_all

interpretation mbr_slots: canonical_codec mbr_wf mbr_bytes "sized 16 mbr_from_bytes"
  by unfold_locales
    (auto simp: sized_def mbr_bytes_length mbr_from_to_bytes mbr_from_bytes_wf
      mbr_to_from_bytes split: if_splits)

section \<open>Entries and partitions\<close>

record gpt_entry =
  e_number :: nat
  e_kind :: uuid
  e_start :: nat
  e_end :: nat
  e_eligible :: bool

definition no_auto :: u64 where "no_auto = push_bit 63 1"

definition entry_new :: "nat \<Rightarrow> gpt_record \<Rightarrow> disk_error + gpt_entry" where
  "entry_new number r =
     (let entry = \<lparr>e_number = number, e_kind = r_kind r, e_start = r_start r, e_end = r_end r,
        e_eligible = (and (r_attributes r) no_auto = 0)\<rparr> in
      if e_end entry < e_start entry then Inl (EntryReversed number) else Inr entry)"

text \<open>An extent in sectors of 512 bytes.\<close>

record partition =
  p_start :: nat
  p_sectors :: nat

definition partition_try_from :: "gpt_entry \<Rightarrow> disk_error + partition" where
  "partition_try_from e =
     (case checked_mul u64_max (e_start e) (sector_size div 512) of
        None \<Rightarrow> Inl (ExtentOverflow (e_number e))
      | Some start \<Rightarrow>
          (case Option.bind (Option.bind (checked_sub (e_end e) (e_start e))
                  (\<lambda>len. checked_add u64_max len 1))
                (\<lambda>len. checked_mul u64_max len (sector_size div 512)) of
             None \<Rightarrow> Inl (ExtentOverflow (e_number e))
           | Some sectors \<Rightarrow> Inr \<lparr>p_start = start, p_sectors = sectors\<rparr>))"

lemma partition_try_from_Inr:
  "partition_try_from e = Inr p \<longleftrightarrow>
     e_start e \<le> e_end e \<and> e_start e * 8 \<le> u64_max \<and> (e_end e - e_start e + 1) * 8 \<le> u64_max \<and>
     p = \<lparr>p_start = e_start e * 8, p_sectors = (e_end e - e_start e + 1) * 8\<rparr>"
  by (auto simp: partition_try_from_def sector_size_def checked_mul_def checked_sub_def
      checked_add_def split: if_splits option.splits)

end
