(* ===== verification/Disk_Layout.thy ===== *)
theory Disk_Layout
  imports Disk_Format
begin

text \<open>
  Planning and writing the partition table of a new disk: \<open>disk/layout.rs\<close>.  The
  extent of the backing device (\<open>carapace::ZERO_SIZE_SECTORS\<close> and
  \<open>carapace::ZERO_SIZE_BYTES\<close>), the CRC-32 checksum and the random identifiers
  come from other crates and are parameters.
\<close>

record carapace_limits =
  zero_sectors :: nat
  zero_bytes :: nat

text \<open>The two constants of the crate describe the same extent, in 64 bits.\<close>

definition carapace_ok :: "carapace_limits \<Rightarrow> bool" where
  "carapace_ok Z \<longleftrightarrow> zero_bytes Z = 512 * zero_sectors Z \<and> zero_bytes Z < 2 ^ 64"

definition alignment :: nat where "alignment = 2048"

definition next_multiple_of :: "nat \<Rightarrow> nat \<Rightarrow> nat" where
  "next_multiple_of n m = (if n mod m = 0 then n else n + (m - n mod m))"

datatype layout_error = ExceedsExtent | CapacityMismatch | BadPartitionCapacity

record layout =
  l_root :: partition
  l_esp :: "partition option"
  l_sectors :: nat

definition partition_sectors :: "carapace_limits \<Rightarrow> nat \<Rightarrow> layout_error + nat" where
  "partition_sectors Z bytes =
     (if bytes = 0 \<or> bytes mod sector_size \<noteq> 0 \<or> bytes > zero_bytes Z
      then Inl BadPartitionCapacity else Inr (bytes div 512))"

definition layout_new :: "carapace_limits \<Rightarrow> nat \<Rightarrow> nat option \<Rightarrow> layout_error + layout" where
  "layout_new Z root_bytes esp_bytes =
     bindE (case esp_bytes of None \<Rightarrow> Inr None
            | Some b \<Rightarrow> bindE (partition_sectors Z b)
                (\<lambda>sectors. Inr (Some \<lparr>p_start = alignment, p_sectors = sectors\<rparr>)))
       (\<lambda>esp. bindE (partition_sectors Z root_bytes) (\<lambda>root_sectors.
          let root = \<lparr>p_start = (case esp of None \<Rightarrow> alignment
                        | Some p \<Rightarrow> next_multiple_of (p_start p + p_sectors p) alignment),
                      p_sectors = root_sectors\<rparr>;
              sectors = next_multiple_of (p_start root + p_sectors root + 40) alignment
          in if sectors > zero_sectors Z then Inl ExceedsExtent
             else Inr \<lparr>l_root = root, l_esp = esp, l_sectors = sectors\<rparr>))"

definition layout_bytes :: "layout \<Rightarrow> nat" where
  "layout_bytes l = l_sectors l * 512"

section \<open>The metadata that is written\<close>

text \<open>The identifiers drawn for one disk: of the disk, and of each slot.\<close>

record identities =
  id_disk :: uuid
  id_slot :: "nat \<Rightarrow> uuid"

definition protective_block :: "nat \<Rightarrow> byte list" where
  "protective_block last_lba =
     (let protective = \<lparr>m_boot_indicator = 0, m_start_chs = [0, 2, 0], m_os_type = 0xee,
            m_end_chs = [0xff, 0xff, 0xff], m_start = 1, m_size = min last_lba u32_max\<rparr> in
      write_at 510 [0x55, 0xaa] (write_at 446 (mbr_bytes protective) (replicate 4096 0)))"

definition partition_record :: "uuid \<Rightarrow> uuid \<Rightarrow> partition \<Rightarrow> gpt_record" where
  "partition_record kind identity p =
     \<lparr>r_kind = kind, r_identity = identity, r_start = p_start p div 8,
      r_end = (p_start p + p_sectors p) div 8 - 1, r_attributes = 0, r_name = replicate 72 0\<rparr>"

definition layout_slots :: "uuid \<Rightarrow> layout \<Rightarrow> (uuid \<times> partition) list" where
  "layout_slots root_type l =
     (root_type, l_root l) # (case l_esp l of None \<Rightarrow> [] | Some esp \<Rightarrow> [(esp_partition_type, esp)])"

definition layout_table :: "uuid \<Rightarrow> identities \<Rightarrow> layout \<Rightarrow> byte list" where
  "layout_table root_type ids l =
     foldl (\<lambda>table (slot, kind, p).
              write_at (slot * 128) (record_bytes (partition_record kind (id_slot ids slot) p)) table)
       (replicate (128 * 128) 0) (enumerate 0 (layout_slots root_type l))"

definition layout_header ::
    "(byte list \<Rightarrow> nat) \<Rightarrow> identities \<Rightarrow> nat \<Rightarrow> nat \<Rightarrow> nat \<Rightarrow> nat \<Rightarrow> nat \<Rightarrow> header" where
  "layout_header crc ids table_crc last_lba current backup part_start =
     (let h = \<lparr>h_signature = [0x45, 0x46, 0x49, 0x20, 0x50, 0x41, 0x52, 0x54],
            h_revision = 0x10000, h_size = 92, h_crc32 = 0, h_reserved = 0,
            h_current_lba = current, h_backup_lba = backup, h_first_usable = 6,
            h_last_usable = last_lba - 5, h_disk_guid = id_disk ids, h_part_start = part_start,
            h_num_parts = 128, h_part_size = 128, h_crc32_parts = table_crc\<rparr>
      in h\<lparr>h_crc32 := crc (header_bytes h)\<rparr>)"

definition header_block :: "header \<Rightarrow> byte list" where
  "header_block h = write_at 0 (header_bytes h) (replicate 4096 0)"

text \<open>The blocks in the order they are written, each with its LBA.\<close>

definition layout_writes ::
    "(byte list \<Rightarrow> nat) \<Rightarrow> uuid \<Rightarrow> identities \<Rightarrow> layout \<Rightarrow> (nat \<times> byte list) list" where
  "layout_writes crc root_type ids l =
     (let last_lba = l_sectors l div 8 - 1; table = layout_table root_type ids l;
          table_crc = crc table
      in [(0, protective_block last_lba), (2, table), (last_lba - 4, table),
          (1, header_block (layout_header crc ids table_crc last_lba 1 last_lba 2)),
          (last_lba, header_block (layout_header crc ids table_crc last_lba last_lba 1 (last_lba - 4)))])"

definition apply_writes :: "(nat \<times> byte list) list \<Rightarrow> byte list \<Rightarrow> byte list" where
  "apply_writes ws dev = foldl (\<lambda>dev (lba, bytes). write_at (lba * sector_size) bytes dev) dev ws"

definition layout_write ::
    "carapace_limits \<Rightarrow> (byte list \<Rightarrow> nat) \<Rightarrow> uuid \<Rightarrow> identities \<Rightarrow> layout \<Rightarrow> nat \<Rightarrow> byte list \<Rightarrow>
     layout_error + byte list" where
  "layout_write Z crc root_type ids l capacity dev =
     (if capacity < layout_bytes l \<or> capacity > zero_bytes Z \<or> capacity mod sector_size \<noteq> 0
      then Inl CapacityMismatch
      else Inr (apply_writes (layout_writes crc root_type ids l) dev))"

section \<open>Geometry\<close>

lemma next_multiple_of_props:
  assumes "0 < m"
  shows "n \<le> next_multiple_of n m" "next_multiple_of n m mod m = 0" "next_multiple_of n m < n + m"
proof -
  have lt: "n mod m < m" using assms by simp
  have "n div m * m + n mod m = n" by simp
  with lt have "n + (m - n mod m) = n div m * m + m" by linarith
  then have "(n + (m - n mod m)) mod m = 0" by simp
  moreover note lt
  ultimately show "n \<le> next_multiple_of n m" "next_multiple_of n m mod m = 0"
    "next_multiple_of n m < n + m"
    by (auto simp: next_multiple_of_def)
qed

text \<open>What a layout promises of the extents it gives out.\<close>

definition layout_wf :: "layout \<Rightarrow> bool" where
  "layout_wf l \<longleftrightarrow>
     alignment \<le> p_start (l_root l) \<and> p_start (l_root l) mod alignment = 0 \<and>
     0 < p_sectors (l_root l) \<and> p_sectors (l_root l) mod 8 = 0 \<and>
     p_start (l_root l) + p_sectors (l_root l) + 40 \<le> l_sectors l \<and> l_sectors l mod alignment = 0 \<and>
     (case l_esp l of None \<Rightarrow> True
      | Some e \<Rightarrow> p_start e = alignment \<and> 0 < p_sectors e \<and> p_sectors e mod 8 = 0 \<and>
          p_start e + p_sectors e \<le> p_start (l_root l))"

lemma partition_sectors_ok:
  "partition_sectors Z b = Inr n \<longleftrightarrow>
     0 < b \<and> b mod 4096 = 0 \<and> b \<le> zero_bytes Z \<and> n = b div 512"
  by (auto simp: partition_sectors_def sector_size_def)

lemma sectors_of_bytes:
  fixes b :: nat
  assumes "b mod 4096 = 0" "0 < b"
  shows "0 < b div 512 \<and> b div 512 mod 8 = 0 \<and> b div 512 * 512 = b"
proof -
  obtain k where k: "b = 4096 * k" using assms(1) mod_eq_0_iff_dvd dvdE by blast
  have "b = 8 * k * 512" unfolding k by simp
  then have d: "b div 512 = 8 * k" by (simp only: nonzero_mult_div_cancel_right)
  have "0 < k" using assms(2) k by (cases k) auto
  then show ?thesis unfolding d unfolding k by simp
qed

lemma partition_sectors_props:
  "partition_sectors Z b = Inr n \<Longrightarrow> 0 < n \<and> n mod 8 = 0 \<and> n * 512 = b"
  by (simp only: partition_sectors_ok sectors_of_bytes simp_thms)

lemma layout_new_wf:
  assumes "layout_new Z rb eb = Inr l"
  shows "layout_wf l \<and> l_sectors l \<le> zero_sectors Z \<and> p_sectors (l_root l) * 512 = rb \<and>
     map_option (\<lambda>e. p_sectors e * 512) (l_esp l) = eb"
proof -
  have al: "0 < alignment" "alignment mod alignment = 0" by (simp_all add: alignment_def)
  note nm = next_multiple_of_props [OF al(1)]
  show ?thesis
  proof (cases eb)
    case None
    with assms obtain rs where rs: "partition_sectors Z rb = Inr rs"
      and l: "l = \<lparr>l_root = \<lparr>p_start = alignment, p_sectors = rs\<rparr>, l_esp = None,
          l_sectors = next_multiple_of (alignment + rs + 40) alignment\<rparr>"
        "next_multiple_of (alignment + rs + 40) alignment \<le> zero_sectors Z"
      by (auto simp: layout_new_def bindE_Inr_iff Let_def split: if_splits)
    show ?thesis
      using None partition_sectors_props [OF rs] l nm [of "alignment + rs + 40"] al
      by (simp add: layout_wf_def)
  next
    case (Some b)
    let ?m = "\<lambda>es. next_multiple_of (alignment + es) alignment"
    from Some assms obtain es rs where rs: "partition_sectors Z rb = Inr rs"
      and es: "partition_sectors Z b = Inr es"
      and l: "l = \<lparr>l_root = \<lparr>p_start = ?m es, p_sectors = rs\<rparr>,
          l_esp = Some \<lparr>p_start = alignment, p_sectors = es\<rparr>,
          l_sectors = next_multiple_of (?m es + rs + 40) alignment\<rparr>"
        "next_multiple_of (?m es + rs + 40) alignment \<le> zero_sectors Z"
      by (auto simp: layout_new_def bindE_Inr_iff Let_def split: if_splits)
    have "alignment \<le> ?m es" using nm(1) [of "alignment + es"] by linarith
    then show ?thesis
      using Some partition_sectors_props [OF rs] partition_sectors_props [OF es] l
        nm [of "alignment + es"] nm [of "?m es + rs + 40"] al
      by (simp add: layout_wf_def)
  qed
qed

text \<open>The sums the source computes in 64 bits do not wrap.\<close>

lemma layout_new_no_wrap:
  assumes "carapace_ok Z" "partition_sectors Z rb = Inr rs" "partition_sectors Z b = Inr es"
  shows "next_multiple_of (next_multiple_of (alignment + es) alignment + rs + 40) alignment < 2 ^ 64"
proof -
  have "rs \<le> 2 ^ 55" "es \<le> 2 ^ 55"
    using assms by (auto simp: partition_sectors_ok carapace_ok_def)
  then show ?thesis
    using next_multiple_of_props(3) [of 2048 "2048 + es"]
      next_multiple_of_props(3) [of 2048 "next_multiple_of (2048 + es) 2048 + rs + 40"]
    by (simp add: alignment_def)
qed

end
