(* ===== verification/Disk_Read.thy ===== *)
theory Disk_Read
  imports Disk_Layout
begin

text \<open>
  Reading a partition table back: \<open>disk/mod.rs\<close> and the header reader of
  \<open>disk/header.rs\<close>.  The device is its bytes; a block that is not wholly inside
  it is unreadable.  The incremental checksum of the crc crate is the checksum
  of everything it was fed.
\<close>

record disk =
  d_root :: partition
  d_esp :: "partition option"

definition div_ceil :: "nat \<Rightarrow> nat \<Rightarrow> nat" where
  "div_ceil a b = (a + b - 1) div b"

definition disk_block :: "byte list \<Rightarrow> nat \<Rightarrow> disk_error + byte list" where
  "disk_block dev lba =
     (case checked_mul u64_max lba sector_size of
        None \<Rightarrow> Inl (BlockOverflow lba)
      | Some offset \<Rightarrow>
          if offset + 4096 \<le> length dev then Inr (slice offset 4096 dev)
          else Inl (BlockUnreadable lba))"

definition header_read :: "(byte list \<Rightarrow> nat) \<Rightarrow> nat \<Rightarrow> byte list \<Rightarrow> disk_error + header" where
  "header_read crc lba bytes =
     (let h = header_from_bytes (slice 0 92 bytes) in
      if h_signature h \<noteq> [0x45, 0x46, 0x49, 0x20, 0x50, 0x41, 0x52, 0x54] then Inl (GptSignature lba)
      else if h_revision h \<noteq> 0x10000 \<or> h_size h \<noteq> 92 \<or> h_reserved h \<noteq> 0 \<or> h_part_size h \<noteq> 128 \<or>
              \<not> (128 \<le> h_num_parts h \<and> h_num_parts h \<le> max_entries) \<or>
              h_disk_guid h = replicate 16 0 \<or> list_ex (\<lambda>b. b \<noteq> 0) (drop 92 bytes)
      then Inl (GptGeometry lba)
      else if crc (slice 0 16 bytes @ [0, 0, 0, 0] @ slice 20 72 bytes) \<noteq> h_crc32 h
      then Inl (HeaderChecksum lba)
      else Inr h)"

definition disk_header :: "(byte list \<Rightarrow> nat) \<Rightarrow> byte list \<Rightarrow> nat \<Rightarrow> disk_error + header" where
  "disk_header crc dev lba = bindE (disk_block dev lba) (header_read crc lba)"

definition validate_headers :: "header \<Rightarrow> header \<Rightarrow> disk_error + unit" where
  "validate_headers primary backup =
     (if h_current_lba backup \<noteq> h_backup_lba primary \<or> h_backup_lba backup \<noteq> h_current_lba primary \<or>
         h_disk_guid backup \<noteq> h_disk_guid primary \<or>
         h_first_usable backup \<noteq> h_first_usable primary \<or>
         h_last_usable backup \<noteq> h_last_usable primary \<or>
         h_num_parts backup \<noteq> h_num_parts primary \<or>
         h_crc32_parts backup \<noteq> h_crc32_parts primary
      then Inl HeadersDisagree
      else
        (let table_blocks = div_ceil (h_num_parts primary * 128) sector_size;
             start = h_part_start primary; first = h_first_usable primary;
             last_usable = h_last_usable primary; backup_start = h_part_start backup;
             end_lba = h_current_lba backup in
         if start < 2 \<or> start > end_lba \<or> start + table_blocks > first \<or> first > last_usable \<or>
            last_usable \<ge> backup_start \<or> backup_start > end_lba \<or> backup_start + table_blocks > end_lba
         then Inl MetadataOverlap else Inr ()))"

definition count_mbr_slot :: "nat \<Rightarrow> nat \<Rightarrow> nat \<times> byte list \<Rightarrow> disk_error + nat" where
  "count_mbr_slot sectors protective islot =
     (case islot of (index, raw) \<Rightarrow>
        if mbr_protects (mbr_from_bytes raw) sectors then Inr (protective + 1)
        else if raw \<noteq> replicate 16 0 then Inl (MbrHybrid (index + 1))
        else Inr protective)"

definition protective_mbr :: "byte list \<Rightarrow> nat \<Rightarrow> disk_error + unit" where
  "protective_mbr dev sectors =
     bindE (disk_block dev 0) (\<lambda>bytes.
       if list_ex (\<lambda>b. b \<noteq> 0) (drop 512 bytes) then Inl MbrReserved
       else if slice 510 2 bytes \<noteq> [0x55, 0xaa] then Inl MbrSignature
       else bindE (foldE (count_mbr_slot sectors) 0
                     (map (\<lambda>i. (i, slice (446 + i * 16) 16 bytes)) [0..<4]))
              (\<lambda>protective. if protective \<noteq> 1 then Inl (MbrCount protective) else Inr ()))"

section \<open>The partition table\<close>

text \<open>The slots of one block of the table.\<close>

definition read_slot :: "header \<Rightarrow> nat \<Rightarrow> byte list \<Rightarrow> gpt_entry list \<Rightarrow> nat \<Rightarrow> disk_error + gpt_entry list" where
  "read_slot primary offset block entries slot =
     (let raw = record_from_bytes (slice (slot * 128) 128 block) in
      if record_is_used raw then
        bindE (entry_new (offset div 128 + slot + 1) raw) (\<lambda>entry.
          if e_start entry < h_first_usable primary \<or> e_end entry > h_last_usable primary
          then Inl (EntryOutside (e_number entry))
          else Inr (entries @ [entry]))
      else Inr entries)"

record table_scan =
  ts_primary :: "byte list"
  ts_backup :: "byte list"
  ts_disagreement :: "nat option"
  ts_entries :: "gpt_entry list"

fun first_difference :: "byte list \<Rightarrow> byte list \<Rightarrow> nat option" where
  "first_difference (x # xs) (y # ys) =
     (if x \<noteq> y then Some 0 else map_option Suc (first_difference xs ys))"
| "first_difference _ _ = None"

definition scan_block ::
    "byte list \<Rightarrow> header \<Rightarrow> header \<Rightarrow> table_scan \<Rightarrow> nat \<Rightarrow> disk_error + table_scan" where
  "scan_block dev primary backup s index =
     (let table_length = h_num_parts primary * 128; offset = index * sector_size in
      bindE (disk_block dev (h_part_start primary + index)) (\<lambda>block.
        bindE (disk_block dev (h_part_start backup + index)) (\<lambda>other.
          let used = min (table_length - offset) sector_size in
          bindE (foldE (read_slot primary offset block) (ts_entries s) [0..<used div 128]) (\<lambda>entries.
            Inr \<lparr>ts_primary = ts_primary s @ take used block,
                 ts_backup = ts_backup s @ take used other,
                 ts_disagreement =
                   (case ts_disagreement s of Some n \<Rightarrow> Some n
                    | None \<Rightarrow> map_option (\<lambda>byte. (offset + byte) div 128 + 1)
                                (first_difference (take used block) (take used other))),
                 ts_entries = entries\<rparr>))))"

fun check_overlaps :: "gpt_entry list \<Rightarrow> disk_error + unit" where
  "check_overlaps (a # b # es) =
     (if e_end a \<ge> e_start b then Inl (EntriesOverlap (e_number a) (e_number b))
      else check_overlaps (b # es))"
| "check_overlaps _ = Inr ()"

definition disk_entries ::
    "(byte list \<Rightarrow> nat) \<Rightarrow> byte list \<Rightarrow> header \<Rightarrow> header \<Rightarrow> disk_error + gpt_entry list" where
  "disk_entries crc dev primary backup =
     bindE (foldE (scan_block dev primary backup)
              \<lparr>ts_primary = [], ts_backup = [], ts_disagreement = None, ts_entries = []\<rparr>
              [0..<div_ceil (h_num_parts primary * 128) sector_size]) (\<lambda>s.
       if crc (ts_primary s) \<noteq> h_crc32_parts primary then Inl (TableChecksum ''primary'')
       else if crc (ts_backup s) \<noteq> h_crc32_parts backup then Inl (TableChecksum ''backup'')
       else (case ts_disagreement s of Some n \<Rightarrow> Inl (TablesDisagree n)
         | None \<Rightarrow>
             (let entries = sort_key e_start (ts_entries s) in
              bindE (check_overlaps entries) (\<lambda>_. Inr entries))))"

definition select_root :: "uuid \<Rightarrow> gpt_entry list \<Rightarrow> disk_error + gpt_entry" where
  "select_root root_type entries =
     (case filter (\<lambda>e. e_kind e = root_type \<and> e_eligible e) entries of
        [] \<Rightarrow> Inl NoRoot
      | [root] \<Rightarrow> Inr root
      | _ \<Rightarrow> Inl MultipleRoots)"

definition select_esp :: "gpt_entry list \<Rightarrow> disk_error + partition option" where
  "select_esp entries =
     (case filter (\<lambda>e. e_kind e = esp_partition_type) entries of
        [] \<Rightarrow> Inr None
      | e # es \<Rightarrow> bindE (partition_try_from e) (\<lambda>p.
          if es \<noteq> [] then Inl MultipleEsps else Inr (Some p)))"

definition disk_read ::
    "carapace_limits \<Rightarrow> (byte list \<Rightarrow> nat) \<Rightarrow> byte list \<Rightarrow> nat \<Rightarrow> uuid \<Rightarrow> disk_error + disk" where
  "disk_read Z crc dev capacity root_type =
     (if capacity > zero_bytes Z \<or> capacity mod sector_size \<noteq> 0 \<or> capacity < 12 * sector_size
      then Inl BackingCapacity
      else bindE (disk_header crc dev 1) (\<lambda>primary.
        let end_lba = h_backup_lba primary in
        if h_current_lba primary \<noteq> 1 \<or> \<not> (11 \<le> end_lba \<and> end_lba < capacity div sector_size)
        then Inl PrimaryBounds
        else bindE (disk_header crc dev end_lba) (\<lambda>backup.
          bindE (validate_headers primary backup) (\<lambda>_.
            bindE (protective_mbr dev (end_lba + 1)) (\<lambda>_.
              bindE (disk_entries crc dev primary backup) (\<lambda>entries.
                bindE (select_root root_type entries) (\<lambda>root.
                  bindE (select_esp entries) (\<lambda>esp.
                    bindE (partition_try_from root) (\<lambda>p.
                      Inr \<lparr>d_root = p, d_esp = esp\<rparr>)))))))))"

section \<open>What a successful read guarantees\<close>

definition entry_within :: "nat \<Rightarrow> nat \<Rightarrow> gpt_entry \<Rightarrow> bool" where
  "entry_within first last_usable e \<longleftrightarrow> first \<le> e_start e \<and> e_start e \<le> e_end e \<and> e_end e \<le> last_usable"

definition entries_disjoint :: "gpt_entry list \<Rightarrow> bool" where
  "entries_disjoint es \<longleftrightarrow> sorted_wrt (\<lambda>a b. e_end a < e_start b) es"

lemma read_slot_within:
  "read_slot h off block es slot = Inr es' \<Longrightarrow>
     list_all (entry_within (h_first_usable h) (h_last_usable h)) es \<Longrightarrow>
     list_all (entry_within (h_first_usable h) (h_last_usable h)) es'"
  by (auto simp: read_slot_def Let_def entry_new_def entry_within_def bindE_Inr_iff split: if_splits)

lemma scan_block_within:
  assumes "scan_block dev h b s i = Inr s'"
    and "list_all (entry_within (h_first_usable h) (h_last_usable h)) (ts_entries s)"
  shows "list_all (entry_within (h_first_usable h) (h_last_usable h)) (ts_entries s')"
proof -
  from assms(1) obtain block off n where "foldE (read_slot h off block) (ts_entries s) [0..<n] =
      Inr (ts_entries s')"
    by (auto simp: scan_block_def Let_def bindE_Inr_iff)
  then show ?thesis
    by (rule foldE_invariant [where P = "list_all (entry_within (h_first_usable h) (h_last_usable h))"])
      (use assms(2) in \<open>auto intro: read_slot_within\<close>)
qed

lemma check_overlaps_disjoint:
  "check_overlaps es = Inr u \<Longrightarrow> list_all (\<lambda>e. e_start e \<le> e_end e) es \<Longrightarrow> entries_disjoint es"
proof (induction es rule: check_overlaps.induct)
  case (1 a b es)
  then have ab: "e_end a < e_start b" and d: "entries_disjoint (b # es)"
    by (auto split: if_splits)
  have "e_end a < e_start e" if "e \<in> set (b # es)" for e
  proof (cases "e = b")
    case False
    with that d have "e_end b < e_start e" by (auto simp: entries_disjoint_def)
    with ab 1(3) show ?thesis by auto
  qed (use ab in simp)
  with d show ?case by (simp add: entries_disjoint_def)
qed (auto simp: entries_disjoint_def)

lemma disk_entries_ok:
  assumes "disk_entries crc dev h b = Inr es"
  shows "list_all (entry_within (h_first_usable h) (h_last_usable h)) es \<and> entries_disjoint es"
proof -
  from assms obtain s u where s:
    "foldE (scan_block dev h b) \<lparr>ts_primary = [], ts_backup = [], ts_disagreement = None, ts_entries = []\<rparr>
       [0..<div_ceil (h_num_parts h * 128) sector_size] = Inr s"
    and es: "es = sort_key e_start (ts_entries s)" "check_overlaps es = Inr u"
    by (auto simp: disk_entries_def bindE_Inr_iff Let_def split: if_splits option.splits)
  from s have "list_all (entry_within (h_first_usable h) (h_last_usable h)) (ts_entries s)"
    by (rule foldE_invariant [where P = "\<lambda>s. list_all (entry_within (h_first_usable h)
      (h_last_usable h)) (ts_entries s)"]) (auto intro: scan_block_within)
  then have "list_all (entry_within (h_first_usable h) (h_last_usable h)) es"
    by (simp add: es list_all_iff)
  moreover from this have "list_all (\<lambda>e. e_start e \<le> e_end e) es"
    by (auto simp: list_all_iff entry_within_def)
  ultimately show ?thesis using check_overlaps_disjoint es by blast
qed

lemma entries_disjoint_pair:
  assumes "entries_disjoint es" "a \<in> set es" "b \<in> set es" "a \<noteq> b"
  shows "e_end a < e_start b \<or> e_end b < e_start a"
proof -
  from assms obtain i j where "i < length es" "j < length es" "es ! i = a" "es ! j = b"
    by (meson in_set_conv_nth)
  with assms show ?thesis
    by (cases i j rule: linorder_cases) (auto simp: entries_disjoint_def sorted_wrt_iff_nth_less)
qed

lemma select_root_mem:
  "select_root t es = Inr r \<Longrightarrow>
     filter (\<lambda>e. e_kind e = t \<and> e_eligible e) es = [r]"
  by (auto simp: select_root_def split: list.splits)

lemma select_esp_mem:
  "select_esp es = Inr (Some p) \<Longrightarrow>
     \<exists>e. filter (\<lambda>e. e_kind e = esp_partition_type) es = [e] \<and> partition_try_from e = Inr p"
  by (auto simp: select_esp_def bindE_Inr_iff split: list.splits if_splits)

lemma filter_singleton_mem:
  assumes "filter P xs = [x]"
  shows "x \<in> set xs \<and> P x"
proof -
  have "x \<in> set (filter P xs)" using assms by simp
  then show ?thesis by simp
qed

definition extent_inside :: "nat \<Rightarrow> partition \<Rightarrow> bool" where
  "extent_inside capacity p \<longleftrightarrow>
     6 * 8 \<le> p_start p \<and> p_start p mod 8 = 0 \<and> 0 < p_sectors p \<and> p_sectors p mod 8 = 0 \<and>
     (p_start p + p_sectors p) * 512 < capacity"

definition extents_disjoint :: "partition \<Rightarrow> partition \<Rightarrow> bool" where
  "extents_disjoint p q \<longleftrightarrow>
     p_start p + p_sectors p \<le> p_start q \<or> p_start q + p_sectors q \<le> p_start p"

lemma validate_headers_ok:
  assumes "validate_headers p b = Inr u"
  shows "h_current_lba b = h_backup_lba p \<and> h_disk_guid b = h_disk_guid p \<and>
    2 + div_ceil (h_num_parts p * 128) sector_size \<le> h_first_usable p \<and>
    h_last_usable p + div_ceil (h_num_parts p * 128) sector_size < h_backup_lba p"
  using assms by (auto simp: validate_headers_def Let_def split: if_splits)

lemma header_read_num_parts:
  "header_read crc lba bytes = Inr h \<Longrightarrow> 128 \<le> h_num_parts h \<and> h_num_parts h \<le> 8192"
  by (auto simp: header_read_def Let_def max_entries_def split: if_splits)

lemma disk_readE:
  assumes "disk_read Z crc dev capacity t = Inr d"
  obtains primary backup entries root where
    "disk_header crc dev 1 = Inr primary" "disk_header crc dev (h_backup_lba primary) = Inr backup"
    "h_backup_lba primary < capacity div sector_size"
    "validate_headers primary backup = Inr ()"
    "disk_entries crc dev primary backup = Inr entries"
    "select_root t entries = Inr root" "partition_try_from root = Inr (d_root d)"
    "select_esp entries = Inr (d_esp d)"
  using assms
  by (auto simp: disk_read_def bindE_Inr_iff Let_def split: if_splits)

lemma entry_extent_inside:
  assumes "entry_within first last_usable e" "partition_try_from e = Inr p"
    and "6 \<le> first" "last_usable + 4 < blocks" "blocks < capacity div 4096"
  shows "extent_inside capacity p"
proof -
  from assms have p: "e_start e \<le> e_end e"
    "p = \<lparr>p_start = e_start e * 8, p_sectors = (e_end e - e_start e + 1) * 8\<rparr>"
    by (auto simp: partition_try_from_Inr)
  have "(p_start p + p_sectors p) * 512 = (e_end e + 1) * 4096"
    using p by simp
  also have "\<dots> < capacity div 4096 * 4096"
    using assms by (simp add: entry_within_def)
  also have "\<dots> \<le> capacity" by simp
  finally show ?thesis using p assms by (simp add: extent_inside_def entry_within_def)
qed


end
