(* ===== verification/Disk_Roundtrip.thy ===== *)
theory Disk_Roundtrip
  imports Disk_Read
begin

text \<open>
  What \<open>Layout::write\<close> writes, \<open>Disk::read\<close> reads: the two halves of the disk
  component agree on every layout.
\<close>

section \<open>Assumptions on the parameters\<close>

definition crc_ok :: "(byte list \<Rightarrow> nat) \<Rightarrow> bool" where
  "crc_ok crc \<longleftrightarrow> (\<forall>b. crc b < 2 ^ 32)"

text \<open>Random identifiers are sixteen bytes, and a disk's is never the nil UUID.\<close>

definition identities_ok :: "identities \<Rightarrow> bool" where
  "identities_ok ids \<longleftrightarrow> length (id_disk ids) = 16 \<and> id_disk ids \<noteq> replicate 16 0 \<and>
     (\<forall>k. length (id_slot ids k) = 16)"

definition root_type_ok :: "uuid \<Rightarrow> bool" where
  "root_type_ok t \<longleftrightarrow> length t = 16 \<and> t \<noteq> replicate 16 0 \<and> t \<noteq> esp_partition_type"

lemma root_types_ok: "root_type_ok root_type_x86_64" "root_type_ok root_type_aarch64"
  by code_simp+

section \<open>Blocks of the written device\<close>

lemma slice_replicate: "off + n \<le> m \<Longrightarrow> slice off n (replicate m x) = replicate n x"
  by (simp add: slice_def)

lemma slice_nested:
  "p + n \<le> m \<Longrightarrow> slice p n (slice off m b) = slice (off + p) n b"
  by (rule slice_slice)

lemma disk_block_ok:
  assumes "lba * 4096 + 4096 \<le> length dev" "length dev < 2 ^ 64"
  shows "disk_block dev lba = Inr (slice (lba * 4096) 4096 dev)"
  using assms by (simp add: disk_block_def checked_mul_def sector_size_def u64_max_def)

definition metadata_blocks :: "nat \<Rightarrow> byte list \<Rightarrow> byte list \<Rightarrow> byte list \<Rightarrow> byte list \<Rightarrow> (nat \<times> byte list) list" where
  "metadata_blocks e mbr table h1 h2 = [(0, mbr), (2, table), (e - 4, table), (1, h1), (e, h2)]"

lemma written_blocks:
  assumes "length mbr = 4096" "length table = 16384" "length h1 = 4096" "length h2 = 4096"
    and "20 \<le> e" "(e + 1) * 4096 \<le> length dev"
  shows "length (apply_writes (metadata_blocks e mbr table h1 h2) dev) = length dev \<and>
    slice 0 4096 (apply_writes (metadata_blocks e mbr table h1 h2) dev) = mbr \<and>
    slice 4096 4096 (apply_writes (metadata_blocks e mbr table h1 h2) dev) = h1 \<and>
    slice (e * 4096) 4096 (apply_writes (metadata_blocks e mbr table h1 h2) dev) = h2 \<and>
    (\<forall>i<4. slice ((2 + i) * 4096) 4096 (apply_writes (metadata_blocks e mbr table h1 h2) dev) =
        slice (i * 4096) 4096 table) \<and>
    (\<forall>i<4. slice ((e - 4 + i) * 4096) 4096 (apply_writes (metadata_blocks e mbr table h1 h2) dev) =
        slice (i * 4096) 4096 table)"
proof -
  let ?d1 = "write_at 0 mbr dev"
  let ?d2 = "write_at (2 * 4096) table ?d1"
  let ?d3 = "write_at ((e - 4) * 4096) table ?d2"
  let ?d4 = "write_at (1 * 4096) h1 ?d3"
  let ?d5 = "write_at (e * 4096) h2 ?d4"
  have d5: "apply_writes (metadata_blocks e mbr table h1 h2) dev = ?d5"
    by (simp add: apply_writes_def metadata_blocks_def sector_size_def)
  have e4: "(e - 4) * 4096 + 16384 = e * 4096" using assms(5) by (simp add: diff_mult_distrib)
  have e20: "20 * 4096 \<le> e * 4096" using assms(5) by simp
  have lens: "length ?d1 = length dev" "length ?d2 = length dev" "length ?d3 = length dev"
    "length ?d4 = length dev" "length ?d5 = length dev"
    using assms e4 e20 by auto
  have other: "slice p n (write_at off bs f) = slice p n f"
    if "p + n \<le> length f" "p + n \<le> off \<or> off + length bs \<le> p" for p n off and bs f :: "byte list"
    using that by (rule slice_write_at_other)
  have same: "slice p n (write_at off bs f) = slice (p - off) n bs"
    if "off \<le> p" "p + n \<le> off + length bs" for p n off and bs f :: "byte list"
    using that by (rule slice_write_at_same)
  have fit: "(e + 1) * 4096 = e * 4096 + 4096" by simp
  show ?thesis unfolding d5
  proof (intro conjI allI impI)
    show "length ?d5 = length dev" by (fact lens)
    have "slice 0 4096 ?d5 = slice 0 4096 ?d1"
      using assms e4 e20 lens by (simp add: other)
    also have "\<dots> = mbr" using assms by (simp add: same slice_all)
    finally show "slice 0 4096 ?d5 = mbr" .
    have "slice 4096 4096 ?d5 = slice 4096 4096 ?d4"
      using assms e4 e20 lens by (simp add: other)
    also have "\<dots> = h1" using assms by (simp add: same slice_all)
    finally show "slice 4096 4096 ?d5 = h1" .
    show "slice (e * 4096) 4096 ?d5 = h2" using assms by (simp add: same slice_all)
  next
    fix i :: nat assume i: "i < 4"
    define q where "q = i * 4096 + 8192"
    have q: "(2 + i) * 4096 = q" "q + 4096 \<le> 6 * 4096" "8192 \<le> q" "q - 8192 = i * 4096"
      using i by (simp_all add: q_def)
    have "slice q 4096 ?d5 = slice q 4096 ?d2"
      using assms e4 e20 lens q by (simp add: other)
    also have "\<dots> = slice (i * 4096) 4096 table"
      using assms q by (simp add: same)
    finally show "slice ((2 + i) * 4096) 4096 ?d5 = slice (i * 4096) 4096 table"
      unfolding q(1) .
  next
    fix i :: nat assume i: "i < 4"
    have p: "(e - 4 + i) * 4096 = (e - 4) * 4096 + i * 4096" by (simp add: distrib_right)
    have b: "i * 4096 + 4096 \<le> 16384" using i by simp
    have "slice ((e - 4 + i) * 4096) 4096 ?d5 = slice ((e - 4 + i) * 4096) 4096 ?d3"
      using assms e4 e20 lens b p by (simp add: other)
    also have "\<dots> = slice (i * 4096) 4096 table"
      unfolding p using assms b by (simp add: same)
    finally show "slice ((e - 4 + i) * 4096) 4096 ?d5 = slice (i * 4096) 4096 table" .
  qed
qed

section \<open>Header blocks\<close>

lemma header_block_parts:
  assumes "header_wf h"
  shows "length (header_block h) = 4096" "slice 0 92 (header_block h) = header_bytes h"
    "drop 92 (header_block h) = replicate 4004 0"
proof -
  have "header_block h = header_bytes h @ replicate 4004 0"
    using assms by (simp add: header_block_def write_at_def header_bytes_length)
  then show "length (header_block h) = 4096" "slice 0 92 (header_block h) = header_bytes h"
    "drop 92 (header_block h) = replicate 4004 0"
    using assms by (simp_all add: header_bytes_length slice_front)
qed

lemma layout_header_fields:
  "h_signature (layout_header crc ids t e c b s) = [0x45, 0x46, 0x49, 0x20, 0x50, 0x41, 0x52, 0x54]"
  "h_revision (layout_header crc ids t e c b s) = 0x10000" "h_size (layout_header crc ids t e c b s) = 92"
  "h_reserved (layout_header crc ids t e c b s) = 0" "h_current_lba (layout_header crc ids t e c b s) = c"
  "h_backup_lba (layout_header crc ids t e c b s) = b" "h_first_usable (layout_header crc ids t e c b s) = 6"
  "h_last_usable (layout_header crc ids t e c b s) = e - 5"
  "h_disk_guid (layout_header crc ids t e c b s) = id_disk ids"
  "h_part_start (layout_header crc ids t e c b s) = s" "h_num_parts (layout_header crc ids t e c b s) = 128"
  "h_part_size (layout_header crc ids t e c b s) = 128" "h_crc32_parts (layout_header crc ids t e c b s) = t"
  by (simp_all add: layout_header_def Let_def)

lemma layout_header_wf:
  assumes "crc_ok crc" "identities_ok ids" "t < 2 ^ 32" "e < 2 ^ 64" "c < 2 ^ 64" "b < 2 ^ 64" "s < 2 ^ 64"
  shows "header_wf (layout_header crc ids t e c b s)"
proof -
  have "h_crc32 (layout_header crc ids t e c b s) < 256 ^ 4"
    using assms(1) by (simp add: layout_header_def crc_ok_def Let_def)
  then show ?thesis
    using assms by (simp add: header_wf_def layout_header_fields identities_ok_def)
qed

lemma header_crc_input:
  assumes "header_wf h" "h' = h\<lparr>h_crc32 := v\<rparr>" "h_crc32 h = 0" "v < 256 ^ 4"
  shows "slice 0 16 (header_bytes h') @ [0, 0, 0, 0] @ slice 20 72 (header_bytes h') = header_bytes h"
proof -
  have z: "le_bytes 4 0 = [0, 0, 0, 0]" by code_simp
  define pre where "pre = h_signature h @ le_bytes 4 (h_revision h) @ le_bytes 4 (h_size h)"
  define post where "post = le_bytes 4 (h_reserved h) @ le_bytes 8 (h_current_lba h) @
     le_bytes 8 (h_backup_lba h) @ le_bytes 8 (h_first_usable h) @ le_bytes 8 (h_last_usable h) @
     h_disk_guid h @ le_bytes 8 (h_part_start h) @ le_bytes 4 (h_num_parts h) @
     le_bytes 4 (h_part_size h) @ le_bytes 4 (h_crc32_parts h)"
  have len: "length pre = 16" "length post = 72"
    using assms(1) by (simp_all add: pre_def post_def header_wf_def)
  have h': "header_bytes h' = pre @ le_bytes 4 v @ post"
    by (simp add: header_bytes_def assms(2) pre_def post_def)
  have h: "header_bytes h = pre @ [0, 0, 0, 0] @ post"
    by (simp add: header_bytes_def pre_def post_def assms(3) z)
  show ?thesis unfolding h h' using len by (simp add: slice_def)
qed

lemma header_read_written:
  assumes "crc_ok crc" "identities_ok ids" "t < 2 ^ 32" "e < 2 ^ 64" "c < 2 ^ 64" "b < 2 ^ 64" "s < 2 ^ 64"
  shows "header_read crc lba (header_block (layout_header crc ids t e c b s)) =
     Inr (layout_header crc ids t e c b s)"
proof -
  let ?h = "layout_header crc ids t e c b s"
  let ?z = "?h\<lparr>h_crc32 := 0\<rparr>"
  have wf: "header_wf ?h" using assms by (rule layout_header_wf)
  then have wf0: "header_wf ?z" by (simp add: header_wf_def)
  have crc: "h_crc32 ?h = crc (header_bytes ?z)"
    by (simp add: layout_header_def Let_def)
  have hd: "header_from_bytes (slice 0 92 (header_block ?h)) = ?h"
    using wf by (simp add: header_block_parts header_from_to_bytes)
  have in1: "slice 0 16 (header_block ?h) = slice 0 16 (header_bytes ?h)"
    using slice_slice [of 0 16 92 0 "header_block ?h"] header_block_parts(2) [OF wf] by simp
  have in2: "slice 20 72 (header_block ?h) = slice 20 72 (header_bytes ?h)"
    using slice_slice [of 20 72 92 0 "header_block ?h"] header_block_parts(2) [OF wf] by simp
  have "slice 0 16 (header_block ?h) @ [0, 0, 0, 0] @ slice 20 72 (header_block ?h) = header_bytes ?z"
    unfolding in1 in2
    by (rule header_crc_input [OF wf0, where v = "h_crc32 ?h"]) (use wf in \<open>auto simp: header_wf_def\<close>)
  then have c: "crc (slice 0 16 (header_block ?h) @ [0, 0, 0, 0] @ slice 20 72 (header_block ?h)) = h_crc32 ?h"
    by (simp only: crc)
  show ?thesis
    unfolding header_read_def Let_def hd c header_block_parts(3) [OF wf] layout_header_fields
    using assms(2) by (simp add: max_entries_def identities_ok_def list_ex_iff)
qed

section \<open>The protective block\<close>

lemma protective_block_length: "length (protective_block e) = 4096"
  by (simp add: protective_block_def Let_def mbr_bytes_length mbr_wf_def u32_max_def)

lemma protective_block_ok:
  assumes "disk_block dev 0 = Inr (protective_block e)"
  shows "protective_mbr dev (e + 1) = Inr ()"
proof -
  define m where "m = \<lparr>m_boot_indicator = 0, m_start_chs = [0, 2, 0], m_os_type = 0xee,
      m_end_chs = [0xff, 0xff, 0xff], m_start = 1, m_size = min e u32_max\<rparr>"
  have wf: "mbr_wf m" by (simp add: m_def mbr_wf_def u32_max_def)
  have b: "protective_block e = replicate 446 0 @ mbr_bytes m @ replicate 48 0 @ [0x55, 0xaa] @ replicate 3584 0"
  proof -
    have "protective_block e = write_at 510 [0x55, 0xaa] (write_at 446 (mbr_bytes m) (replicate 4096 0))"
      by (simp only: protective_block_def Let_def m_def)
    then show ?thesis using mbr_bytes_length [OF wf] by (simp add: write_at_def)
  qed
  have res: "drop 512 (protective_block e) = replicate 3584 0"
    unfolding b using mbr_bytes_length [OF wf] by simp
  have sig: "slice 510 2 (protective_block e) = [0x55, 0xaa]"
    unfolding b using mbr_bytes_length [OF wf] by (simp add: slice_def)
  have s0: "slice 446 16 (protective_block e) = mbr_bytes m"
    unfolding b using mbr_bytes_length [OF wf] by (simp add: slice_def)
  have sk: "slice (446 + i * 16) 16 (protective_block e) = replicate 16 0" if "i \<in> {1, 2, 3}" for i
    unfolding b using mbr_bytes_length [OF wf] that by (auto simp: slice_def)
  have p0: "mbr_protects (mbr_from_bytes (mbr_bytes m)) (e + 1)"
    unfolding mbr_from_to_bytes [OF wf] by (simp add: m_def mbr_protects_def)
  have pk: "\<not> mbr_protects (mbr_from_bytes (replicate 16 0)) n" for n
    by (simp add: mbr_protects_def mbr_from_bytes_def)
  have "map (\<lambda>i. (i, slice (446 + i * 16) 16 (protective_block e))) [0..<4] =
      [(0, mbr_bytes m), (1, replicate 16 0), (2, replicate 16 0), (3, replicate 16 0)]"
    using s0 sk [of 1] sk [of 2] sk [of 3] by (simp add: upt_rec)
  moreover have "foldE (count_mbr_slot (e + 1)) 0
      [(0, mbr_bytes m), (1, replicate 16 0), (2, replicate 16 0), (3, replicate 16 0)] = Inr 1"
    using p0 pk by (simp add: count_mbr_slot_def)
  ultimately show ?thesis
    unfolding protective_mbr_def assms bindE_simps res sig by (simp add: list_ex_iff)
qed

section \<open>The table\<close>

definition written_record :: "uuid \<Rightarrow> identities \<Rightarrow> layout \<Rightarrow> nat \<Rightarrow> byte list" where
  "written_record root_type ids l k =
     (if k = 0 then record_bytes (partition_record root_type (id_slot ids 0) (l_root l))
      else (case l_esp l of
              Some esp \<Rightarrow> if k = 1 then record_bytes (partition_record esp_partition_type (id_slot ids 1) esp)
                          else replicate 128 0
            | None \<Rightarrow> replicate 128 0))"

lemma esp_partition_type_length: "length esp_partition_type = 16"
  by (simp add: esp_partition_type_def)

lemma esp_partition_type_used: "esp_partition_type \<noteq> replicate 16 0"
  by code_simp

lemma partition_record_wf:
  "length kind = 16 \<Longrightarrow> length i = 16 \<Longrightarrow> p_start p + p_sectors p < 2 ^ 64 \<Longrightarrow>
     record_wf (partition_record kind i p)"
  using div_le_dividend [of "p_start p" 8] div_le_dividend [of "p_start p + p_sectors p" 8]
  by (auto simp: partition_record_def record_wf_def)

lemma table_slots:
  assumes "root_type_ok t" "identities_ok ids" "p_start (l_root l) + p_sectors (l_root l) < 2 ^ 64"
    and "\<And>e. l_esp l = Some e \<Longrightarrow> p_start e + p_sectors e < 2 ^ 64"
  shows "length (layout_table t ids l) = 16384"
    and "k < 128 \<Longrightarrow> slice (k * 128) 128 (layout_table t ids l) = written_record t ids l k"
proof -
  let ?r = "record_bytes (partition_record t (id_slot ids 0) (l_root l))"
  have r: "length ?r = 128"
    using assms by (intro record_bytes_length partition_record_wf)
      (auto simp: root_type_ok_def identities_ok_def)
  have "length (layout_table t ids l) = 16384 \<and>
    (k < 128 \<longrightarrow> slice (k * 128) 128 (layout_table t ids l) = written_record t ids l k)"
  proof (cases "l_esp l")
    case None
    have tab: "layout_table t ids l = write_at 0 ?r (replicate 16384 0)"
      using None by (simp add: layout_table_def layout_slots_def)
    show ?thesis
    proof (cases k)
      case 0
      then show ?thesis using r by (simp add: tab slice_write_at_same slice_all written_record_def)
    next
      case (Suc m)
      then show ?thesis using r None
        by (auto simp: tab slice_write_at_other slice_replicate written_record_def)
    qed
  next
    case (Some e)
    let ?e = "record_bytes (partition_record esp_partition_type (id_slot ids 1) e)"
    have e: "length ?e = 128"
      using assms Some by (intro record_bytes_length partition_record_wf)
        (auto simp: esp_partition_type_length identities_ok_def)
    have tab: "layout_table t ids l = write_at 128 ?e (write_at 0 ?r (replicate 16384 0))"
      using Some by (simp add: layout_table_def layout_slots_def)
    consider "k = 0" | "k = 1" | "2 \<le> k" by linarith
    then show ?thesis
    proof cases
      case 1
      then show ?thesis using r e
        by (simp add: tab slice_write_at_same slice_write_at_other slice_all written_record_def)
    next
      case 2
      then show ?thesis using r e Some
        by (simp add: tab slice_write_at_same slice_write_at_other slice_all written_record_def)
    next
      case 3
      then show ?thesis using r e Some
        by (auto simp: tab slice_write_at_other slice_replicate written_record_def)
    qed
  qed
  then show "length (layout_table t ids l) = 16384"
    and "k < 128 \<Longrightarrow> slice (k * 128) 128 (layout_table t ids l) = written_record t ids l k" by auto
qed

lemma zero_record_unused: "\<not> record_is_used (record_from_bytes (replicate 128 0))"
  by (simp add: record_is_used_def record_from_bytes_def slice_replicate)

lemma fold_unused:
  "(\<And>j. j \<in> set js \<Longrightarrow> \<not> record_is_used (record_from_bytes (slice (j * 128) 128 block))) \<Longrightarrow>
     foldE (read_slot h off block) es js = Inr es"
  by (induction js) (auto simp: read_slot_def)

definition written_entry :: "nat \<Rightarrow> uuid \<Rightarrow> partition \<Rightarrow> gpt_entry" where
  "written_entry n kind p =
     \<lparr>e_number = n, e_kind = kind, e_start = p_start p div 8,
      e_end = (p_start p + p_sectors p) div 8 - 1, e_eligible = True\<rparr>"

definition extent_ok :: "nat \<Rightarrow> partition \<Rightarrow> bool" where
  "extent_ok e p \<longleftrightarrow> 2048 \<le> p_start p \<and> p_start p mod 8 = 0 \<and> 0 < p_sectors p \<and>
     p_sectors p mod 8 = 0 \<and> p_start p + p_sectors p + 40 \<le> (e + 1) * 8 \<and> (e + 1) * 8 < 2 ^ 55"

lemma extent_okE:
  assumes "extent_ok e p"
  obtains a b where "p = \<lparr>p_start = 8 * a, p_sectors = 8 * b\<rparr>" "256 \<le> a" "0 < b" "a + b + 5 \<le> e + 1"
    "e + 1 < 2 ^ 52"
proof -
  from assms obtain a b where ab: "p_start p = 8 * a" "p_sectors p = 8 * b"
    unfolding extent_ok_def by (meson mod_eq_0_iff_dvd dvdE)
  with assms have "256 \<le> a" "0 < b" "a + b + 5 \<le> e + 1" "e + 1 < 2 ^ 52"
    by (auto simp: extent_ok_def)
  with ab show thesis using that [of a b] by (cases p) simp
qed

lemma read_slot_written:
  assumes "record_from_bytes (slice (j * 128) 128 block) = partition_record kind i p"
    and "kind \<noteq> replicate 16 0" "extent_ok e p" "h_first_usable h = 6" "h_last_usable h = e - 5"
    and "off div 128 + j + 1 = n"
  shows "read_slot h off block es j = Inr (es @ [written_entry n kind p])"
proof -
  obtain a b where ab: "p = \<lparr>p_start = 8 * a, p_sectors = 8 * b\<rparr>" "256 \<le> a" "0 < b" "a + b + 5 \<le> e + 1"
    using extent_okE [OF assms(3)] by metis
  have d: "(8 * a + 8 * b) div 8 = a + b" by simp
  have "entry_new n (partition_record kind i p) = Inr (written_entry n kind p)"
    using ab d by (simp add: entry_new_def partition_record_def written_entry_def)
  then show ?thesis
    using assms ab d
    by (auto simp: read_slot_def partition_record_def record_is_used_def written_entry_def)
qed

lemma partition_of_written:
  assumes "extent_ok e p"
  shows "partition_try_from (written_entry n kind p) = Inr p"
proof -
  obtain a b where ab: "p = \<lparr>p_start = 8 * a, p_sectors = 8 * b\<rparr>" "256 \<le> a" "0 < b"
    "a + b + 5 \<le> e + 1" "e + 1 < 2 ^ 52"
    using extent_okE [OF assms] by metis
  have d: "(8 * a + 8 * b) div 8 = a + b" by simp
  have "a < 2 ^ 52" "b < 2 ^ 52" using ab by linarith+
  then show ?thesis
    unfolding partition_try_from_Inr using ab d by (simp add: written_entry_def u64_max_def)
qed

definition layout_entries :: "uuid \<Rightarrow> layout \<Rightarrow> gpt_entry list" where
  "layout_entries t l =
     written_entry 1 t (l_root l) #
     (case l_esp l of None \<Rightarrow> [] | Some e \<Rightarrow> [written_entry 2 esp_partition_type e])"

text \<open>A layout that fits \<open>e + 1\<close> blocks.\<close>

definition layout_fits :: "nat \<Rightarrow> layout \<Rightarrow> bool" where
  "layout_fits e l \<longleftrightarrow> layout_wf l \<and> extent_ok e (l_root l) \<and>
     (\<forall>p. l_esp l = Some p \<longrightarrow> extent_ok e p)"

lemma extent_ok_small: "extent_ok e p \<Longrightarrow> p_start p + p_sectors p < 2 ^ 64"
  by (simp add: extent_ok_def)

lemma first_difference_same [simp]: "first_difference xs xs = None"
  by (induction xs) auto

lemma slots_of_block:
  assumes "root_type_ok t" "identities_ok ids" "layout_fits e l" "i < 4"
    and "h_first_usable h = 6" "h_last_usable h = e - 5"
  shows "foldE (read_slot h (i * 4096) (slice (i * 4096) 4096 (layout_table t ids l))) es [0..<32] =
     Inr (if i = 0 then es @ layout_entries t l else es)"
proof -
  let ?b = "slice (i * 4096) 4096 (layout_table t ids l)"
  have small: "p_start (l_root l) + p_sectors (l_root l) < 2 ^ 64"
    "\<And>p. l_esp l = Some p \<Longrightarrow> p_start p + p_sectors p < 2 ^ 64"
    using assms(3) extent_ok_small unfolding layout_fits_def by blast+
  have slot: "slice (j * 128) 128 ?b = written_record t ids l (i * 32 + j)" if "j < 32" for j
  proof -
    have "slice (j * 128) 128 ?b = slice ((i * 32 + j) * 128) 128 (layout_table t ids l)"
      using that by (simp add: slice_slice algebra_simps)
    also have "\<dots> = written_record t ids l (i * 32 + j)"
      using that assms(4) by (intro table_slots(2) assms(1,2) small) auto
    finally show ?thesis .
  qed
  have unused: "\<not> record_is_used (record_from_bytes (slice (j * 128) 128 ?b))"
    if "j < 32" "2 \<le> i * 32 + j \<or> 1 \<le> i * 32 + j \<and> l_esp l = None" for j
    using that slot zero_record_unused by (auto simp: written_record_def split: option.splits)
  show ?thesis
  proof (cases "i = 0")
    case False
    then have "foldE (read_slot h (i * 4096) ?b) es [0..<32] = Inr es"
      by (intro fold_unused unused) auto
    with False show ?thesis by simp
  next
    case True
    have split: "[0..<32] = 0 # 1 # [2..<32]" by (simp add: upt_rec)
    have ids: "length (id_slot ids k) = 16" for k using assms(2) by (simp add: identities_ok_def)
    have kind: "length t = 16" "t \<noteq> replicate 16 0" using assms(1) by (auto simp: root_type_ok_def)
    have r0: "record_from_bytes (slice (0 * 128) 128 ?b) = partition_record t (id_slot ids 0) (l_root l)"
      using slot [of 0] True small kind ids
      by (simp add: written_record_def record_from_to_bytes partition_record_wf)
    have e0: "read_slot h (i * 4096) ?b es 0 = Inr (es @ [written_entry 1 t (l_root l)])"
      by (rule read_slot_written [OF r0 kind(2)])
        (use assms True in \<open>auto simp: layout_fits_def\<close>)
    show ?thesis
    proof (cases "l_esp l")
      case None
      then have "foldE (read_slot h (i * 4096) ?b) (es @ [written_entry 1 t (l_root l)]) (1 # [2..<32]) =
          Inr (es @ [written_entry 1 t (l_root l)])"
        by (intro fold_unused unused) (use None in \<open>auto\<close>)
      then show ?thesis using True None e0 unfolding split by (simp add: layout_entries_def)
    next
      case (Some p)
      have r1: "record_from_bytes (slice (1 * 128) 128 ?b) =
          partition_record esp_partition_type (id_slot ids 1) p"
        using slot [of 1] True small(2) [OF Some] Some ids
        by (simp add: written_record_def record_from_to_bytes partition_record_wf
            esp_partition_type_length)
      have e1: "read_slot h (i * 4096) ?b es' 1 = Inr (es' @ [written_entry 2 esp_partition_type p])" for es'
        by (rule read_slot_written [OF r1])
          (use assms True Some in \<open>auto simp: layout_fits_def esp_partition_type_used\<close>)
      have "foldE (read_slot h (i * 4096) ?b) es'' [2..<32] = Inr es''" for es''
        by (intro fold_unused unused) auto
      then show ?thesis using True Some e0 e1 unfolding split by (simp add: layout_entries_def)
    qed
  qed
qed

text \<open>Scanning both copies of the table finds the entries of the layout.\<close>

lemma scan_step:
  assumes "root_type_ok t" "identities_ok ids" "layout_fits e l" "i < 4"
    and "h_first_usable h = 6" "h_last_usable h = e - 5" "h_num_parts h = 128"
    and "disk_block dev (h_part_start h + i) = Inr (slice (i * 4096) 4096 (layout_table t ids l))"
    and "disk_block dev (h_part_start b + i) = Inr (slice (i * 4096) 4096 (layout_table t ids l))"
    and "ts_disagreement s = None"
  shows "scan_block dev h b s i = Inr
    \<lparr>ts_primary = ts_primary s @ slice (i * 4096) 4096 (layout_table t ids l),
     ts_backup = ts_backup s @ slice (i * 4096) 4096 (layout_table t ids l),
     ts_disagreement = None,
     ts_entries = (if i = 0 then ts_entries s @ layout_entries t l else ts_entries s)\<rparr>"
proof -
  have used: "min (128 * 128 - i * sector_size) sector_size = 4096"
    using assms(4) by (simp add: sector_size_def)
  have "take 4096 (slice (i * 4096) 4096 (layout_table t ids l)) = slice (i * 4096) 4096 (layout_table t ids l)"
    by (simp add: slice_def)
  moreover have "(4096::nat) div 128 = 32" by simp
  ultimately show ?thesis
    unfolding scan_block_def Let_def assms(7) used assms(8,9) bindE_simps
    using slots_of_block [OF assms(1-6)] assms(10) by (simp add: sector_size_def)
qed

lemma table_scanned:
  assumes "root_type_ok t" "identities_ok ids" "layout_fits e l"
    and "h_first_usable h = 6" "h_last_usable h = e - 5" "h_num_parts h = 128"
    and "\<And>i. i < 4 \<Longrightarrow> disk_block dev (h_part_start h + i) = Inr (slice (i * 4096) 4096 (layout_table t ids l))"
    and "\<And>i. i < 4 \<Longrightarrow> disk_block dev (h_part_start b + i) = Inr (slice (i * 4096) 4096 (layout_table t ids l))"
  shows "foldE (scan_block dev h b)
     \<lparr>ts_primary = [], ts_backup = [], ts_disagreement = None, ts_entries = []\<rparr>
     [0..<div_ceil (h_num_parts h * 128) sector_size] = Inr
    \<lparr>ts_primary = layout_table t ids l, ts_backup = layout_table t ids l,
     ts_disagreement = None, ts_entries = layout_entries t l\<rparr>"
proof -
  let ?t = "layout_table t ids l"
  have small: "p_start (l_root l) + p_sectors (l_root l) < 2 ^ 64"
    "\<And>p. l_esp l = Some p \<Longrightarrow> p_start p + p_sectors p < 2 ^ 64"
    using assms(3) extent_ok_small unfolding layout_fits_def by blast+
  have len: "length ?t = 16384" by (intro table_slots(1) assms(1,2) small)
  have whole: "slice 0 4096 ?t @ slice 4096 4096 ?t @ slice 8192 4096 ?t @ slice 12288 4096 ?t = ?t"
    using len by (simp add: slice_simps)
  note step = scan_step [OF assms(1-3) _ assms(4-6) assms(7) assms(8)]
  have four: "[0..<div_ceil (h_num_parts h * 128) sector_size] = [0, 1, 2, 3]"
    by (simp add: assms(6) div_ceil_def sector_size_def upt_rec)
  show ?thesis unfolding four
    using step [of 0] step [of 1] step [of 2] step [of 3] whole by simp
qed

lemma layout_entries_checked:
  assumes "root_type_ok t" "layout_fits e l"
  shows "\<exists>es. sort_key e_start (layout_entries t l) = es \<and> check_overlaps es = Inr () \<and>
     select_root t es = Inr (written_entry 1 t (l_root l)) \<and> select_esp es = Inr (l_esp l)"
proof (cases "l_esp l")
  case None
  with assms show ?thesis
    by (simp add: layout_entries_def select_root_def select_esp_def written_entry_def root_type_ok_def)
next
  case (Some p)
  with assms have wf: "p_start p + p_sectors p \<le> p_start (l_root l)" "extent_ok e p"
    "extent_ok e (l_root l)"
    by (auto simp: layout_fits_def layout_wf_def)
  obtain a b where ab: "p = \<lparr>p_start = 8 * a, p_sectors = 8 * b\<rparr>" "0 < b"
    using extent_okE [OF wf(2)] by metis
  obtain c d where cd: "l_root l = \<lparr>p_start = 8 * c, p_sectors = 8 * d\<rparr>" "0 < d"
    using extent_okE [OF wf(3)] by metis
  have "8 * (a + b) \<le> 8 * c" using wf(1) ab cd by simp
  then have le: "a + b \<le> c" by simp
  have "(8 * a + 8 * b) div 8 = a + b" by simp
  with le ab cd have lt: "e_end (written_entry 2 esp_partition_type p) < e_start (written_entry 1 t (l_root l))"
    "e_start (written_entry 2 esp_partition_type p) < e_start (written_entry 1 t (l_root l))"
    by (auto simp: written_entry_def)
  have sorted: "sort_key e_start (layout_entries t l) =
      [written_entry 2 esp_partition_type p, written_entry 1 t (l_root l)]"
    using Some lt by (simp add: layout_entries_def)
  have kinds: "e_kind (written_entry 2 esp_partition_type p) = esp_partition_type"
    "e_kind (written_entry 1 t (l_root l)) = t" "e_eligible (written_entry 1 t (l_root l))"
    by (simp_all add: written_entry_def)
  have t: "t \<noteq> esp_partition_type" "esp_partition_type \<noteq> t"
    using assms by (auto simp: root_type_ok_def)
  show ?thesis
    unfolding sorted using lt kinds t Some partition_of_written [OF wf(2)]
    by (simp add: select_root_def select_esp_def)
qed

section \<open>Writing and reading\<close>

lemma layout_fits_of_wf:
  assumes "layout_wf l" "l_sectors l < 2 ^ 55"
  shows "layout_fits (l_sectors l div 8 - 1) l \<and> 511 \<le> l_sectors l div 8 - 1 \<and>
     (l_sectors l div 8 - 1 + 1) * 8 = l_sectors l"
proof -
  obtain k where k: "l_sectors l = 2048 * k"
    using assms(1) unfolding layout_wf_def alignment_def by (meson mod_eq_0_iff_dvd dvdE)
  have "2048 < l_sectors l" using assms(1) by (simp add: layout_wf_def alignment_def)
  with k have "2 \<le> k" by simp
  have d: "l_sectors l div 8 = 256 * k" unfolding k by simp
  have e: "(l_sectors l div 8 - 1 + 1) * 8 = l_sectors l" using \<open>2 \<le> k\<close> unfolding d k by simp
  have m8: "x mod 8 = 0" if "x mod 2048 = 0" for x :: nat
    using that mod_mod_cancel [of 8 2048 x] by simp
  show ?thesis
    using assms e \<open>2 \<le> k\<close> d unfolding layout_fits_def extent_ok_def e
    by (auto simp: layout_wf_def alignment_def m8)
qed

lemma read_of_written:
  assumes "carapace_ok Z" "crc_ok crc" "identities_ok ids" "root_type_ok t"
    and "layout_wf l" "l_sectors l \<le> zero_sectors Z"
    and "layout_write Z crc t ids l capacity dev = Inr dev'"
    and "capacity \<le> length dev" "length dev < 2 ^ 64"
  shows "disk_read Z crc dev' capacity t = Inr \<lparr>d_root = l_root l, d_esp = l_esp l\<rparr>"
proof -
  define e where "e = l_sectors l div 8 - 1"
  define table where "table = layout_table t ids l"
  define h where "h = layout_header crc ids (crc table) e 1 e 2"
  define b where "b = layout_header crc ids (crc table) e e 1 (e - 4)"
  have cap: "l_sectors l * 512 \<le> capacity" "capacity \<le> zero_bytes Z" "capacity mod 4096 = 0"
    and dev': "dev' = apply_writes (layout_writes crc t ids l) dev"
    using assms(7) by (auto simp: layout_write_def layout_bytes_def sector_size_def split: if_splits)
  have zs: "l_sectors l < 2 ^ 55" "capacity < 2 ^ 64"
    using assms(1,6) cap by (auto simp: carapace_ok_def)
  from layout_fits_of_wf [OF assms(5)] zs have "l_sectors l < 2 ^ 55" by simp
  from layout_fits_of_wf [OF assms(5) this] have fits: "layout_fits e l" "511 \<le> e"
    "(e + 1) * 8 = l_sectors l" by (simp_all add: e_def)
  have e: "(e + 1) * 4096 \<le> capacity" "e < 2 ^ 52"
    using fits(3) cap zs by auto
  have small: "p_start (l_root l) + p_sectors (l_root l) < 2 ^ 64"
    "\<And>p. l_esp l = Some p \<Longrightarrow> p_start p + p_sectors p < 2 ^ 64"
    using fits extent_ok_small unfolding layout_fits_def by blast+
  have len: "length table = 16384"
    unfolding table_def by (intro table_slots(1) assms small)
  have crc32: "crc table < 2 ^ 32" using assms(2) by (simp add: crc_ok_def)
  have wf: "header_wf h" "header_wf b"
    unfolding h_def b_def using e(2) crc32 by (intro layout_header_wf assms; simp)+
  have ws: "dev' = apply_writes (metadata_blocks e (protective_block e) table (header_block h) (header_block b)) dev"
    by (simp add: dev' layout_writes_def metadata_blocks_def e_def table_def h_def b_def Let_def)
  note wb = written_blocks [of "protective_block e" table "header_block h" "header_block b" e dev,
      OF protective_block_length len header_block_parts(1) [OF wf(1)]
      header_block_parts(1) [OF wf(2)], folded ws]
  have blocks: "length dev' = length dev" "slice 0 4096 dev' = protective_block e"
    "slice 4096 4096 dev' = header_block h" "slice (e * 4096) 4096 dev' = header_block b"
    "\<And>i. i < 4 \<Longrightarrow> slice ((2 + i) * 4096) 4096 dev' = slice (i * 4096) 4096 table"
    "\<And>i. i < 4 \<Longrightarrow> slice ((e - 4 + i) * 4096) 4096 dev' = slice (i * 4096) 4096 table"
    using wb fits(2) e(1) assms(8) by auto
  have fit: "lba \<le> e \<Longrightarrow> lba * 4096 + 4096 \<le> length dev'" for lba
    using e(1) assms(8) blocks(1) by simp
  have blk: "lba \<le> e \<Longrightarrow> disk_block dev' lba = Inr (slice (lba * 4096) 4096 dev')" for lba
    using fit assms(9) blocks(1) by (intro disk_block_ok) auto
  have b0: "disk_block dev' 0 = Inr (protective_block e)" using blk [of 0] blocks(2) by simp
  have rh: "disk_header crc dev' 1 = Inr h"
    using blk [of 1] blocks(3) fits(2) e(2) crc32
    by (simp add: disk_header_def h_def header_read_written assms)
  have rb: "disk_header crc dev' e = Inr b"
    using blk [of e] blocks(4) fits(2) e(2) crc32
    by (simp add: disk_header_def b_def header_read_written assms)
  have fields: "h_current_lba h = 1" "h_backup_lba h = e" "h_first_usable h = 6" "h_last_usable h = e - 5"
    "h_part_start h = 2" "h_num_parts h = 128" "h_crc32_parts h = crc table"
    "h_part_start b = e - 4" "h_crc32_parts b = crc table"
    by (simp_all add: h_def b_def layout_header_fields)
  have "\<not> e - 5 < 6" "\<not> e - 4 \<le> e - 5" "\<not> e < e - 4" "\<not> e < e - 4 + 4"
    using fits(2) by arith+
  then have vh: "validate_headers h b = Inr ()"
    using fits(2) unfolding validate_headers_def h_def b_def layout_header_fields
    by (simp add: div_ceil_def sector_size_def Let_def)
  have mbr: "protective_mbr dev' (e + 1) = Inr ()" by (rule protective_block_ok [OF b0])
  have scan: "foldE (scan_block dev' h b)
     \<lparr>ts_primary = [], ts_backup = [], ts_disagreement = None, ts_entries = []\<rparr>
     [0..<div_ceil (h_num_parts h * 128) sector_size] = Inr
    \<lparr>ts_primary = table, ts_backup = table, ts_disagreement = None, ts_entries = layout_entries t l\<rparr>"
    unfolding table_def
    by (rule table_scanned [OF assms(4,3) fits(1) fields(3,4,6)])
      (use fields blk blocks(5,6) fits(2) in \<open>auto simp: table_def\<close>)
  obtain es where es: "sort_key e_start (layout_entries t l) = es" "check_overlaps es = Inr ()"
    "select_root t es = Inr (written_entry 1 t (l_root l))" "select_esp es = Inr (l_esp l)"
    using layout_entries_checked [OF assms(4) fits(1)] by blast
  have ent: "disk_entries crc dev' h b = Inr es"
    unfolding disk_entries_def scan bindE_simps using es fields by (simp add: Let_def)
  have root: "partition_try_from (written_entry 1 t (l_root l)) = Inr (l_root l)"
    using fits(1) partition_of_written unfolding layout_fits_def by blast
  have guards: "\<not> (capacity > zero_bytes Z \<or> capacity mod sector_size \<noteq> 0 \<or> capacity < 12 * sector_size)"
    "11 \<le> e" "e < capacity div sector_size"
    using cap e(1) fits(2) by (auto simp: sector_size_def)
  show ?thesis
    unfolding disk_read_def if_not_P [OF guards(1)] rh bindE_simps Let_def fields
    using guards(2,3) rb vh mbr ent es root by simp
qed

text \<open>
  C27: What is written to a disk is read back.  For every accepted combination
  of root and system partition sizes, after writing the metadata to a device
  of the given capacity with any earlier content, reading that device finds
  exactly the planned root and system partition; the capacities of the
  partitions are the ones asked for.
\<close>

theorem disk_write_read:
  assumes "carapace_ok Z" "crc_ok crc" "identities_ok ids" "root_type_ok t"
    and "layout_new Z root_bytes esp_bytes = Inr l"
    and "layout_write Z crc t ids l capacity dev = Inr dev'"
    and "capacity \<le> length dev" "length dev < 2 ^ 64"
  shows "disk_read Z crc dev' capacity t = Inr \<lparr>d_root = l_root l, d_esp = l_esp l\<rparr> \<and>
    p_sectors (l_root l) * 512 = root_bytes \<and>
    map_option (\<lambda>e. p_sectors e * 512) (l_esp l) = esp_bytes"
  using layout_new_wf [OF assms(5)] read_of_written [OF assms(1-4) _ _ assms(6-8)] by simp

section \<open>A disk with a 16 MiB root\<close>

definition example_limits :: carapace_limits where
  "example_limits = \<lparr>zero_sectors = 2 ^ 20, zero_bytes = 2 ^ 29\<rparr>"

definition example_ids :: identities where
  "example_ids = \<lparr>id_disk = replicate 16 1, id_slot = (\<lambda>_. replicate 16 2)\<rparr>"

definition example_layout :: layout where
  "example_layout =
     \<lparr>l_root = \<lparr>p_start = 2048, p_sectors = 32768\<rparr>, l_esp = None, l_sectors = 36864\<rparr>"

lemma example_parameters:
  "carapace_ok example_limits" "crc_ok (\<lambda>_. 0)" "identities_ok example_ids"
  "layout_new example_limits 16777216 None = Inr example_layout"
  by (simp add: carapace_ok_def example_limits_def, simp add: crc_ok_def,
      simp add: identities_ok_def example_ids_def, code_simp)

lemma example_write:
  "\<exists>dev'. layout_write example_limits (\<lambda>_. 0) root_type_x86_64 example_ids example_layout 18874368
     (replicate 18874368 0) = Inr dev'"
  by (simp add: layout_write_def layout_bytes_def example_layout_def example_limits_def sector_size_def)

theorem disk_write_read_witness:
  "\<exists>dev'. layout_write example_limits (\<lambda>_. 0) root_type_x86_64 example_ids example_layout 18874368
      (replicate 18874368 0) = Inr dev' \<and>
     disk_read example_limits (\<lambda>_. 0) dev' 18874368 root_type_x86_64 =
       Inr \<lparr>d_root = \<lparr>p_start = 2048, p_sectors = 32768\<rparr>, d_esp = None\<rparr>"
proof -
  obtain dev' where w: "layout_write example_limits (\<lambda>_. 0) root_type_x86_64 example_ids example_layout
      18874368 (replicate 18874368 0) = Inr dev'"
    using example_write by blast
  from disk_write_read [OF example_parameters(1-3) root_types_ok(1) example_parameters(4) w] w
  show ?thesis by (auto simp: example_layout_def)
qed


end
