(* ===== verification/Artifact_Digest.thy ===== *)
theory Artifact_Digest
  imports Prelude
begin

text \<open>
  Content digests: \<open>src/artifact/digest.rs\<close>.  A digest is the tagged union with
  its 32 bytes; its text is \<open>sha256:\<close> and the bytes in hexadecimal.  The hex
  crate is not part of the repository: its two functions are the fields of the
  record \<open>hexlib\<close>, and what the crate documents is \<open>hex_laws\<close>.
\<close>

section \<open>The hex crate, a parameter\<close>

datatype from_hex_error =
    InvalidHexCharacter char nat
  | OddLength
  | InvalidStringLength

record hexlib =
  hex_encode :: "byte list \<Rightarrow> string"
  hex_decode :: "string \<Rightarrow> from_hex_error + byte list"

definition to_ascii_lowercase :: "char \<Rightarrow> char" where
  "to_ascii_lowercase c = (if is_upper c then char_of (chr_code c + 32) else c)"

definition hex_alphabet :: string where
  "hex_alphabet = ''0123456789abcdef''"

text \<open>
  The documented behaviour: encoding is lower case and two characters a byte,
  decoding inverts it and is insensitive to case.
\<close>

definition hex_laws :: "hexlib \<Rightarrow> bool" where
  "hex_laws H \<longleftrightarrow>
     (\<forall>b. hex_decode H (hex_encode H b) = Inr b) \<and>
     (\<forall>b. length (hex_encode H b) = 2 * length b) \<and>
     (\<forall>b. set (hex_encode H b) \<subseteq> set hex_alphabet) \<and>
     (\<forall>s b. hex_decode H s = Inr b \<longrightarrow> hex_encode H b = map to_ascii_lowercase s)"

text \<open>One implementation of the crate's contract, on which properties are instantiated.\<close>

definition hex_digit :: "nat \<Rightarrow> char" where
  "hex_digit n = hex_alphabet ! n"

definition hex_value :: "char \<Rightarrow> nat option" where
  "hex_value c = str_find (to_ascii_lowercase c) hex_alphabet"

fun hex_ref_encode :: "byte list \<Rightarrow> string" where
  "hex_ref_encode [] = []"
| "hex_ref_encode (b # bs) =
     hex_digit (unat b div 16) # hex_digit (unat b mod 16) # hex_ref_encode bs"

fun hex_ref_decode :: "string \<Rightarrow> from_hex_error + byte list" where
  "hex_ref_decode [] = Inr []"
| "hex_ref_decode [c] = Inl OddLength"
| "hex_ref_decode (a # b # s) =
     (case (hex_value a, hex_value b) of
        (Some x, Some y) \<Rightarrow>
          (case hex_ref_decode s of Inl e \<Rightarrow> Inl e
           | Inr bs \<Rightarrow> Inr (word_of_nat (16 * x + y) # bs))
      | (None, _) \<Rightarrow> Inl (InvalidHexCharacter a 0)
      | (_, None) \<Rightarrow> Inl (InvalidHexCharacter b 1))"

definition hex_ref :: hexlib where
  "hex_ref = \<lparr>hex_encode = hex_ref_encode, hex_decode = hex_ref_decode\<rparr>"

lemma hex_alphabet_lower: "\<forall>c\<in>set hex_alphabet. to_ascii_lowercase c = c"
  by code_simp

lemma hex_alphabet_find: "\<forall>n\<in>{..<16}. str_find (hex_alphabet ! n) hex_alphabet = Some n"
  by code_simp

lemma length_hex_alphabet: "length hex_alphabet = 16"
  by (simp add: hex_alphabet_def)

lemma hex_value_digit:
  assumes "n < 16"
  shows "hex_value (hex_digit n) = Some n"
proof -
  have "hex_alphabet ! n \<in> set hex_alphabet" using assms by (simp add: length_hex_alphabet)
  with assms hex_alphabet_find hex_alphabet_lower show ?thesis
    by (simp add: hex_value_def hex_digit_def)
qed

lemma hex_digit_in: "n < 16 \<Longrightarrow> hex_digit n \<in> set hex_alphabet"
  by (simp add: hex_digit_def length_hex_alphabet)

lemma hex_value_SomeD:
  assumes "hex_value c = Some n"
  shows "n < 16 \<and> hex_digit n = to_ascii_lowercase c"
proof -
  from assms obtain a b where "hex_alphabet = a @ to_ascii_lowercase c # b" "n = length a"
    by (auto simp: hex_value_def elim: str_find_SomeE)
  then have "n < length hex_alphabet" "hex_alphabet ! n = to_ascii_lowercase c"
    by (metis length_append length_Cons less_add_Suc1 add_Suc_right, metis nth_append_length)
  then show ?thesis by (simp add: hex_digit_def length_hex_alphabet)
qed

lemma unat_byte_less: "unat (b :: byte) < 256"
  using unsigned_less [where 'a = nat and w = b] by simp

lemma hex_ref_decode_encode: "hex_ref_decode (hex_ref_encode bs) = Inr bs"
proof (induction bs)
  case (Cons b bs)
  have "unat b div 16 < 16" using unat_byte_less [of b] by simp
  with Cons show ?case by (simp add: hex_value_digit)
qed simp

lemma hex_ref_encode_decode:
  "hex_ref_decode s = Inr bs \<Longrightarrow> hex_ref_encode bs = map to_ascii_lowercase s"
proof (induction s arbitrary: bs rule: hex_ref_decode.induct)
  case (3 a b s)
  from 3(2) obtain x y cs where v: "hex_value a = Some x" "hex_value b = Some y"
    "hex_ref_decode s = Inr cs" "bs = word_of_nat (16 * x + y) # cs"
    by (auto split: option.splits sum.splits)
  have d: "x < 16" "y < 16" "hex_digit x = to_ascii_lowercase a" "hex_digit y = to_ascii_lowercase b"
    using v hex_value_SomeD by auto
  have "unat (word_of_nat (16 * x + y) :: byte) = 16 * x + y"
    using d by (simp add: unsigned_of_nat take_bit_nat_eq_self del: of_nat_add of_nat_mult)
  with d v 3(1) show ?case by simp
qed auto

lemma hex_ref_laws: "hex_laws hex_ref"
proof -
  have "length (hex_ref_encode b) = 2 * length b" for b by (induction b) auto
  moreover have "set (hex_ref_encode b) \<subseteq> set hex_alphabet" for b
  proof (induction b)
    case (Cons a b)
    have "unat a div 16 < 16" using unat_byte_less [of a] by simp
    with Cons show ?case by (simp add: hex_digit_in)
  qed simp
  ultimately show ?thesis
    by (simp add: hex_laws_def hex_ref_def hex_ref_decode_encode hex_ref_encode_decode)
qed

section \<open>Digests\<close>

datatype digest = Sha256 "byte list"

datatype digest_parse_error =
    UnknownAlgorithm string
  | InvalidHex from_hex_error
  | WrongLength nat nat

fun digest_algo :: "digest \<Rightarrow> string" where
  "digest_algo (Sha256 _) = ''sha256''"

fun as_sha256_array :: "digest \<Rightarrow> byte list" where
  "as_sha256_array (Sha256 b) = b"

fun digest_hex :: "hexlib \<Rightarrow> digest \<Rightarrow> string" where
  "digest_hex H (Sha256 b) = hex_encode H b"

fun digest_as_bytes :: "digest \<Rightarrow> byte list" where
  "digest_as_bytes (Sha256 b) = b"

text \<open>The array type of the source carries its length.\<close>

definition digest_wf :: "digest \<Rightarrow> bool" where
  "digest_wf d \<longleftrightarrow> length (digest_as_bytes d) = 32"

definition digest_from_str :: "hexlib \<Rightarrow> string \<Rightarrow> digest_parse_error + digest" where
  "digest_from_str H s =
     (case strip_prefix ''sha256:'' s of
        Some hex_str \<Rightarrow>
          if length hex_str \<noteq> 64 then Inl (WrongLength 64 (length hex_str))
          else (case hex_decode H hex_str of
                  Inl e \<Rightarrow> Inl (InvalidHex e)
                | Inr bytes \<Rightarrow> Inr (Sha256 bytes))
      | None \<Rightarrow> Inl (UnknownAlgorithm (hd (split_on CHR '':'' s))))"

definition digest_display :: "hexlib \<Rightarrow> digest \<Rightarrow> string" where
  "digest_display H d = digest_algo d @ '':'' @ digest_hex H d"

definition digest_serialize :: "hexlib \<Rightarrow> digest \<Rightarrow> string" where
  "digest_serialize H d = digest_display H d"

definition digest_deserialize :: "hexlib \<Rightarrow> string \<Rightarrow> digest_parse_error + digest" where
  "digest_deserialize H text = digest_from_str H text"

lemma digest_display_eq: "digest_display H d = ''sha256:'' @ hex_encode H (digest_as_bytes d)"
  by (cases d) (simp add: digest_display_def)

lemma hex_laws_encode_length: "hex_laws H \<Longrightarrow> length (hex_encode H b) = 2 * length b"
  by (simp add: hex_laws_def)

lemma hex_laws_decode_length: "hex_laws H \<Longrightarrow> hex_decode H s = Inr b \<Longrightarrow> length s = 2 * length b"
  unfolding hex_laws_def by (metis length_map)

lemma digest_from_str_wf:
  assumes "hex_laws H" "digest_from_str H s = Inr d"
  shows "digest_wf d"
proof -
  from assms(2) obtain h b where "s = ''sha256:'' @ h" "length h = 64" "hex_decode H h = Inr b"
    "d = Sha256 b"
    by (auto simp: digest_from_str_def split: option.splits if_splits sum.splits)
  with assms(1) have "2 * length b = 64" by (metis hex_laws_decode_length)
  with \<open>d = Sha256 b\<close> show ?thesis by (simp add: digest_wf_def)
qed

lemma digest_from_display:
  assumes "hex_laws H" "digest_wf d"
  shows "digest_from_str H (digest_display H d) = Inr d"
proof -
  obtain b where d: "d = Sha256 b" by (cases d)
  with assms have "length (hex_encode H b) = 64" "hex_decode H (hex_encode H b) = Inr b"
    by (simp_all add: hex_laws_def digest_wf_def)
  with d show ?thesis
    by (simp add: digest_display_def digest_from_str_def strip_prefix_def starts_with_def)
qed

lemma digest_display_of_parse:
  assumes "hex_laws H" "digest_from_str H s = Inr d"
  shows "digest_display H d = ''sha256:'' @ map to_ascii_lowercase (drop 7 s)"
  using assms
  by (auto simp: digest_from_str_def digest_display_def hex_laws_def
      split: option.splits if_splits sum.splits)

text \<open>What a client of the crate may rely on; digests are a codec under it.\<close>

locale hex_crate =
  fixes H :: hexlib
  assumes laws: "hex_laws H"

sublocale hex_crate \<subseteq> digest_text: sound_codec digest_wf "digest_display H" "digest_from_str H"
  using laws by unfold_locales (auto intro: digest_from_display digest_from_str_wf)

interpretation hex_reference: hex_crate hex_ref
  by unfold_locales (rule hex_ref_laws)

lemma digest_display_chars:
  assumes "hex_laws H"
  shows "set (digest_display H d) \<subseteq> set ''sha256:'' \<union> set hex_alphabet"
  using assms by (cases d) (auto simp: digest_display_def hex_laws_def)

lemma digest_display_length:
  "hex_laws H \<Longrightarrow> digest_wf d \<Longrightarrow> length (digest_display H d) = 71"
  by (cases d) (simp add: digest_display_def digest_wf_def hex_laws_def)

text \<open>
  A digest and its text determine each other.  Every text that parses gives
  a digest of 32 bytes, whose own text has 71 characters, is the text that was
  parsed up to the case of its hexadecimal digits, and parses back to the same
  digest.
\<close>

theorem digest_roundtrip:
  assumes "hex_laws H"
  shows "digest_from_str H s = Inr d \<Longrightarrow>
      digest_wf d \<and> length (digest_display H d) = 71 \<and>
      digest_display H d = ''sha256:'' @ map to_ascii_lowercase (drop 7 s) \<and>
      digest_from_str H (digest_display H d) = Inr d"
  using assms
  by (metis digest_from_display digest_from_str_wf digest_display_of_parse digest_display_length)

theorem digest_roundtrip_witness:
  "digest_wf (Sha256 (replicate 32 171)) \<and>
   digest_from_str hex_ref (digest_display hex_ref (Sha256 (replicate 32 171))) =
     Inr (Sha256 (replicate 32 171))"
proof -
  have "digest_from_str hex_ref (''sha256:'' @ concat (replicate 32 ''aB'')) =
      Inr (Sha256 (replicate 32 171))"
    by code_simp
  from digest_roundtrip [OF hex_ref_laws this] show ?thesis by blast
qed

end
