(* ===== verification/Serde_Model.thy ===== *)
theory Serde_Model
  imports Prelude
begin

text \<open>
  The data model of the serialisation library: the tree of values between a
  type and its JSON or YAML text, and the library's rules for structures
  (fields by name, unknown and repeated fields refused, absent optional
  fields), which the derived and the hand-written implementations of the
  program go through.  Texts of numbers and documents are the library's own.
\<close>

datatype sval =
    SNull
  | SBool bool
  | SNum nat
  | SStr string
  | SSeq "sval list"
  | SMap "(string \<times> sval) list"

type_synonym 'a decoder = "sval \<Rightarrow> string + 'a"
type_synonym 'a encoder = "'a \<Rightarrow> sval"

named_theorems serde_simps \<open>reading back what was written\<close>

section \<open>Scalars\<close>

definition de_uint :: "nat \<Rightarrow> nat decoder" where
  "de_uint m v = (case v of SNum n \<Rightarrow> if n \<le> m then Inr n else Inl ''out of range''
                  | _ \<Rightarrow> Inl ''expected an integer'')"

definition de_nonzero :: "nat \<Rightarrow> nat decoder" where
  "de_nonzero m v = (case v of SNum n \<Rightarrow> if 0 < n \<and> n \<le> m then Inr n else Inl ''out of range''
                     | _ \<Rightarrow> Inl ''expected a nonzero integer'')"

definition de_string :: "string decoder" where
  "de_string v = (case v of SStr s \<Rightarrow> Inr s | _ \<Rightarrow> Inl ''expected a string'')"

definition de_bool :: "bool decoder" where
  "de_bool v = (case v of SBool b \<Rightarrow> Inr b | _ \<Rightarrow> Inl ''expected a boolean'')"

definition de_seq :: "'a decoder \<Rightarrow> 'a list decoder" where
  "de_seq d v = (case v of SSeq vs \<Rightarrow> traverseE d vs | _ \<Rightarrow> Inl ''expected a sequence'')"

definition de_option :: "'a decoder \<Rightarrow> 'a option decoder" where
  "de_option d v = (case v of SNull \<Rightarrow> Inr None | _ \<Rightarrow>
     (case d v of Inl e \<Rightarrow> Inl e | Inr a \<Rightarrow> Inr (Some a)))"

lemma de_scalar_simps [serde_simps]:
  "de_uint m (SNum n) = Inr k \<longleftrightarrow> n \<le> m \<and> k = n"
  "de_nonzero m (SNum n) = Inr k \<longleftrightarrow> 0 < n \<and> n \<le> m \<and> k = n"
  "de_string (SStr s) = Inr s" "de_bool (SBool b) = Inr b"
  by (auto simp: de_uint_def de_nonzero_def de_string_def de_bool_def)

section \<open>Structures\<close>

definition struct_fields :: "string list \<Rightarrow> sval \<Rightarrow> string + (string \<times> sval) list" where
  "struct_fields names v =
     (case v of
        SMap fs \<Rightarrow>
          if \<not> set (map fst fs) \<subseteq> set names then Inl ''unknown field''
          else if \<not> distinct (map fst fs) then Inl ''duplicate field''
          else Inr fs
      | _ \<Rightarrow> Inl ''expected a map'')"

definition field_required :: "'a decoder \<Rightarrow> (string \<times> sval) list \<Rightarrow> string \<Rightarrow> string + 'a" where
  "field_required d fs k = (case map_of fs k of None \<Rightarrow> Inl ''missing field'' | Some v \<Rightarrow> d v)"

definition field_default :: "'a \<Rightarrow> 'a decoder \<Rightarrow> (string \<times> sval) list \<Rightarrow> string \<Rightarrow> string + 'a" where
  "field_default z d fs k = (case map_of fs k of None \<Rightarrow> Inr z | Some v \<Rightarrow> d v)"

definition field_optional :: "'a decoder \<Rightarrow> (string \<times> sval) list \<Rightarrow> string \<Rightarrow> string + 'a option" where
  "field_optional d fs k = field_default None (de_option d) fs k"

text \<open>Fields that are written only when they say something.\<close>

definition opt_field :: "string \<Rightarrow> 'a encoder \<Rightarrow> 'a option \<Rightarrow> (string \<times> sval) list" where
  "opt_field k e x = (case x of None \<Rightarrow> [] | Some a \<Rightarrow> [(k, e a)])"

definition list_field :: "string \<Rightarrow> 'a encoder \<Rightarrow> 'a list \<Rightarrow> (string \<times> sval) list" where
  "list_field k e xs = (if xs = [] then [] else [(k, SSeq (map e xs))])"

lemma map_of_opt_field [serde_simps]:
  "map_of (opt_field k e x) k' = (if k' = k then map_option e x else None)"
  by (auto simp: opt_field_def split: option.splits)

lemma map_of_list_field [serde_simps]:
  "map_of (list_field k e xs) k' = (if k' = k \<and> xs \<noteq> [] then Some (SSeq (map e xs)) else None)"
  by (auto simp: list_field_def)

lemmas fields_of_append [serde_simps] = map_of_append map_add_def

lemma keys_opt_field [serde_simps]:
  "map fst (opt_field k e x) = (if x = None then [] else [k])"
  "map fst (list_field k e' xs) = (if xs = [] then [] else [k])"
  by (auto simp: opt_field_def list_field_def split: option.splits)

lemma de_option_Some [serde_simps]:
  "v \<noteq> SNull \<Longrightarrow> d v = Inr a \<Longrightarrow> de_option d v = Inr (Some a)"
  by (auto simp: de_option_def split: sval.splits)

lemma de_seq_map [serde_simps]:
  "(\<And>x. x \<in> set xs \<Longrightarrow> d (e x) = Inr x) \<Longrightarrow> de_seq d (SSeq (map e xs)) = Inr xs"
proof -
  assume a: "\<And>x. x \<in> set xs \<Longrightarrow> d (e x) = Inr x"
  then have "traverseE d (map e xs) = Inr xs" by (induction xs) auto
  then show ?thesis by (simp add: de_seq_def)
qed

lemma field_optional_opt:
  assumes "map_of fs k = map_option e x" "\<And>a. x = Some a \<Longrightarrow> e a \<noteq> SNull \<and> d (e a) = Inr a"
  shows "field_optional d fs k = Inr x"
  using assms by (cases x) (auto simp: field_optional_def field_default_def de_option_Some)

lemma field_default_list:
  assumes "map_of fs k = (if xs = [] then None else Some (SSeq (map e xs)))"
    "\<And>x. x \<in> set xs \<Longrightarrow> d (e x) = Inr x"
  shows "field_default [] (de_seq d) fs k = Inr xs"
  using assms by (auto simp: field_default_def de_seq_map)

section \<open>Maps by name\<close>

definition bt_of_list :: "('k::linorder \<times> 'v) list \<Rightarrow> ('k, 'v) btree" where
  "bt_of_list kvs = foldl (\<lambda>m (k, v). bt_insert k v m) [] kvs"

definition de_btree :: "'v decoder \<Rightarrow> (string, 'v) btree decoder" where
  "de_btree d v =
     (case v of
        SMap fs \<Rightarrow> (case traverseE (\<lambda>(k, w). case d w of Inl e \<Rightarrow> Inl e | Inr a \<Rightarrow> Inr (k, a)) fs of
            Inl e \<Rightarrow> Inl e | Inr kvs \<Rightarrow> Inr (bt_of_list kvs))
      | _ \<Rightarrow> Inl ''expected a map'')"

definition en_btree :: "'v encoder \<Rightarrow> (string, 'v) btree \<Rightarrow> sval" where
  "en_btree e m = SMap (map (\<lambda>(k, v). (k, e v)) m)"

lemma bt_of_list_append:
  "sorted_wrt (<) (map fst (m @ kvs)) \<Longrightarrow> foldl (\<lambda>m (k, v). bt_insert k v m) m kvs = m @ kvs"
proof (induction kvs arbitrary: m)
  case (Cons kv kvs)
  obtain k v where kv: "kv = (k, v)" by (cases kv)
  have "bt_insert k v m = m @ [(k, v)]"
    using Cons.prems kv by (intro bt_insert_last) (auto simp: sorted_wrt_append)
  with Cons kv show ?case by simp
qed simp

lemma bt_of_list_sorted: "bt_wf m \<Longrightarrow> bt_of_list m = m"
  using bt_of_list_append [of "[]" m] by (simp add: bt_of_list_def bt_wf_def bt_keys_def)

lemma de_btree_en:
  assumes "bt_wf m" "\<And>k v. (k, v) \<in> set m \<Longrightarrow> d (e v) = Inr v"
  shows "de_btree d (en_btree e m) = Inr m"
proof -
  have "traverseE (\<lambda>(k, w). case d w of Inl e \<Rightarrow> Inl e | Inr a \<Rightarrow> Inr (k, a)) (map (\<lambda>(k, v). (k, e v)) m) = Inr m"
    using assms(2)
    by (auto simp: traverseE_Inr_iff list.rel_map(1) list_all2_same split: prod.splits)
  then show ?thesis using assms(1) by (simp add: de_btree_def en_btree_def bt_of_list_sorted)
qed

lemma struct_fields_ok:
  "set (map fst fs) \<subseteq> set names \<Longrightarrow> distinct (map fst fs) \<Longrightarrow> struct_fields names (SMap fs) = Inr fs"
  by (simp add: struct_fields_def)

section \<open>What a successful reading says of the value\<close>

lemma field_optional_Some:
  "field_optional d fs k = Inr (Some a) \<Longrightarrow> \<exists>v. d v = Inr a"
  by (auto simp: field_optional_def field_default_def de_option_def split: option.splits sval.splits sum.splits)

lemma field_default_Inr:
  "field_default z d fs k = Inr a \<Longrightarrow> a = z \<or> (\<exists>v. d v = Inr a)"
  by (auto simp: field_default_def split: option.splits)

lemma de_seq_Inr: "de_seq d v = Inr xs \<Longrightarrow> x \<in> set xs \<Longrightarrow> \<exists>w. d w = Inr x"
  by (auto simp: de_seq_def dest: traverseE_mem split: sval.splits)

lemma set_bt_insert: "set (bt_insert k v m) \<subseteq> insert (k, v) (set m)"
  by (induction k v m rule: bt_insert.induct) auto

lemma bt_of_list_wf: "bt_wf (bt_of_list kvs) \<and> set (bt_of_list kvs) \<subseteq> set kvs"
proof -
  have "bt_wf (foldl (\<lambda>m (k, v). bt_insert k v m) m kvs) \<and>
      set (foldl (\<lambda>m (k, v). bt_insert k v m) m kvs) \<subseteq> set m \<union> set kvs"
    if "bt_wf m" for m
    using that
  proof (induction kvs arbitrary: m)
    case (Cons x kvs)
    obtain k v where x: "x = (k, v)" by (cases x)
    have "bt_wf (bt_insert k v m)" using Cons.prems by simp
    from Cons.IH [OF this] set_bt_insert [of k v m] x show ?case by auto
  qed simp
  from this [of "[]"] show ?thesis by (simp add: bt_of_list_def)
qed

lemma de_btree_Inr:
  assumes "de_btree d v = Inr m"
  shows "bt_wf m \<and> (\<forall>k a. (k, a) \<in> set m \<longrightarrow> (\<exists>w. d w = Inr a))"
proof -
  from assms obtain fs kvs where kvs:
    "traverseE (\<lambda>(k, w). case d w of Inl e \<Rightarrow> Inl e | Inr a \<Rightarrow> Inr (k, a)) fs = Inr kvs"
    "m = bt_of_list kvs"
    by (auto simp: de_btree_def split: sval.splits sum.splits)
  have "\<exists>w. d w = Inr a" if "(k, a) \<in> set kvs" for k a
    using traverseE_mem [OF kvs(1) that] by (auto split: sum.splits)
  then show ?thesis using bt_of_list_wf [of kvs] kvs(2) by blast
qed

end
