(* ===== verification/Artifact_Manifest.thy ===== *)
theory Artifact_Manifest
  imports Artifact_Digest Serde_Model
begin

text \<open>
  Image manifests: \<open>artifact/manifest.rs\<close>, with the media types of
  \<open>artifact/media_type.rs\<close>, the boot configuration descriptor and the image
  index of \<open>artifact/index.rs\<close>.  A manifest lists the layers of an image:
  scutes, from the base to the tip of the image's chain, at most one PMI, and
  at most one boot configuration.
\<close>

section \<open>Media types and annotation keys\<close>

definition mt_artifact :: string where "mt_artifact = ''application/vnd.pichi.artifact.v1+json''"
definition mt_scute :: string where "mt_scute = ''application/vnd.pichi.scute.v1''"
definition mt_scute_zstd :: string where "mt_scute_zstd = ''application/vnd.pichi.scute.v1+zstd''"
definition mt_pmi :: string where "mt_pmi = ''application/vnd.pichi.pmi.v1''"
definition mt_pmi_zstd :: string where "mt_pmi_zstd = ''application/vnd.pichi.pmi.v1+zstd''"
definition mt_requirements :: string where "mt_requirements = ''application/vnd.pichi.requirements.v1+yaml''"
definition mt_bootconfig :: string where "mt_bootconfig = ''application/vnd.pichi.bootconfig.v1+zstd''"
definition mt_config :: string where "mt_config = ''application/vnd.pichi.config.v1+json''"
definition mt_empty :: string where "mt_empty = ''application/vnd.oci.empty.v1+json''"
definition mt_index :: string where "mt_index = ''application/vnd.oci.image.index.v1+json''"
definition mt_manifest :: string where "mt_manifest = ''application/vnd.oci.image.manifest.v1+json''"

definition key_algo :: string where "key_algo = ''dev.pichi.carapace.verity.algo''"
definition key_data_block_size :: string where
  "key_data_block_size = ''dev.pichi.carapace.verity.data-block-size''"
definition key_hash_block_size :: string where
  "key_hash_block_size = ''dev.pichi.carapace.verity.hash-block-size''"
definition key_verity_version :: string where "key_verity_version = ''dev.pichi.carapace.verity.version''"
definition key_hash_type :: string where "key_hash_type = ''dev.pichi.carapace.verity.hash-type''"
definition key_root :: string where "key_root = ''dev.pichi.carapace.verity.hash''"

definition empty_config_digest :: string where
  "empty_config_digest = ''sha256:44136fa355b3678a1146ad16f7e8649e94fb4fc21fe77e8310c060f61caaff8a''"
definition empty_config_data :: string where "empty_config_data = ''e30=''"

section \<open>Descriptors\<close>

record config_descriptor =
  cd_media_type :: string
  cd_digest :: string
  cd_size :: nat
  cd_data :: "string option"

definition config_descriptor_canonical :: config_descriptor where
  "config_descriptor_canonical =
     \<lparr>cd_media_type = mt_empty, cd_digest = empty_config_digest, cd_size = 2, cd_data = Some empty_config_data\<rparr>"

definition config_descriptor_for :: "string \<Rightarrow> nat \<Rightarrow> config_descriptor" where
  "config_descriptor_for d n = \<lparr>cd_media_type = mt_config, cd_digest = d, cd_size = n, cd_data = None\<rparr>"

definition config_descriptor_is_empty :: "config_descriptor \<Rightarrow> bool" where
  "config_descriptor_is_empty c \<longleftrightarrow> cd_media_type c = mt_empty"

record scute_annotations =
  sa_data_blocks :: nat
  sa_salt :: string

definition serialize_blocks :: "nat \<Rightarrow> string" where
  "serialize_blocks n = show_dec n"

definition deserialize_blocks :: "string \<Rightarrow> string + nat" where
  "deserialize_blocks s =
     (if s = [] \<or> \<not> list_all is_digit s then Inl ''data_blocks must be an unsigned decimal string''
      else (case parse_uint u64_max s of
              None \<Rightarrow> Inl ''number too large'' | Some n \<Rightarrow> if n = 0 then Inl ''number is zero'' else Inr n))"

interpretation data_blocks: sound_codec "\<lambda>n. 0 < n \<and> n \<le> u64_max" serialize_blocks deserialize_blocks
  by unfold_locales
    (auto simp: serialize_blocks_def deserialize_blocks_def parse_uint_show
      dest: parse_uint_bound split: if_splits option.splits)

record scute_descriptor =
  sd_digest :: string
  sd_size :: nat
  sd_annotations :: scute_annotations

record pmi_descriptor =
  pd_digest :: string
  pd_size :: nat

record boot_config_descriptor =
  bd_digest :: string
  bd_size :: nat

datatype layer =
    Scute scute_descriptor
  | ScuteZstd scute_descriptor
  | Pmi pmi_descriptor
  | PmiZstd pmi_descriptor
  | BootConfigLayer boot_config_descriptor

fun layer_digest :: "layer \<Rightarrow> string" where
  "layer_digest (Scute d) = sd_digest d"
| "layer_digest (ScuteZstd d) = sd_digest d"
| "layer_digest (Pmi d) = pd_digest d"
| "layer_digest (PmiZstd d) = pd_digest d"
| "layer_digest (BootConfigLayer d) = bd_digest d"

fun layer_size :: "layer \<Rightarrow> nat" where
  "layer_size (Scute d) = sd_size d"
| "layer_size (ScuteZstd d) = sd_size d"
| "layer_size (Pmi d) = pd_size d"
| "layer_size (PmiZstd d) = pd_size d"
| "layer_size (BootConfigLayer d) = bd_size d"

fun layer_is_zstd :: "layer \<Rightarrow> bool" where
  "layer_is_zstd (ScuteZstd _) = True"
| "layer_is_zstd (PmiZstd _) = True"
| "layer_is_zstd (BootConfigLayer _) = True"
| "layer_is_zstd _ = False"

fun layer_media_type :: "layer \<Rightarrow> string" where
  "layer_media_type (Scute _) = mt_scute"
| "layer_media_type (ScuteZstd _) = mt_scute_zstd"
| "layer_media_type (Pmi _) = mt_pmi"
| "layer_media_type (PmiZstd _) = mt_pmi_zstd"
| "layer_media_type (BootConfigLayer _) = mt_bootconfig"

record manifest =
  mf_schema_version :: nat
  mf_media_type :: string
  mf_artifact_type :: string
  mf_config :: config_descriptor
  mf_layers :: "layer list"
  mf_annotations :: "(string, string) btree"

datatype manifest_error =
    WrongArtifactType string
  | BadConfig string
  | MissingChainAnnotation string
  | BadChainAnnotation string string
  | MultiplePmi nat
  | MultipleBootConfig nat
  | BootConfigWithoutPmi
  | BadSalt string
  | BadScuteOrder string
  | BadScuteBlocks string

section \<open>Image indexes\<close>

record platform =
  pf_os :: string
  pf_architecture :: string
  pf_variant :: "string option"

record index_descriptor =
  ix_media_type :: string
  ix_artifact_type :: "string option"
  ix_digest :: string
  ix_size :: nat
  ix_platform :: "platform option"
  ix_annotations :: "(string, string) btree"

record index =
  ix_schema_version :: nat
  ix_index_media_type :: string
  ix_manifests :: "index_descriptor list"

definition index_default :: index where
  "index_default = \<lparr>ix_schema_version = 2, ix_index_media_type = mt_index, ix_manifests = []\<rparr>"

definition layout_marker_default :: string where "layout_marker_default = ''1.0.0''"

section \<open>Validation\<close>

fun layer_is_scute :: "layer \<Rightarrow> bool" where
  "layer_is_scute (Scute _) = True"
| "layer_is_scute (ScuteZstd _) = True"
| "layer_is_scute _ = False"

fun layer_is_pmi :: "layer \<Rightarrow> bool" where
  "layer_is_pmi (Pmi _) = True"
| "layer_is_pmi (PmiZstd _) = True"
| "layer_is_pmi _ = False"

fun layer_is_boot_config :: "layer \<Rightarrow> bool" where
  "layer_is_boot_config (BootConfigLayer _) = True"
| "layer_is_boot_config _ = False"

definition has_scutes :: "manifest \<Rightarrow> bool" where
  "has_scutes m \<longleftrightarrow> list_ex layer_is_scute (mf_layers m)"

definition carapace_root :: "hexlib \<Rightarrow> manifest \<Rightarrow> manifest_error + byte list option" where
  "carapace_root H m =
     (let entry = bt_get (mf_annotations m) key_root in
      if \<not> has_scutes m \<and> entry = None then Inr None
      else (case entry of None \<Rightarrow> Inl (MissingChainAnnotation key_root)
        | Some v \<Rightarrow>
            (let wire =
               (if CHR '':'' \<in> set v \<and> bt_get (mf_annotations m) key_algo = None then Some v
                else if CHR '':'' \<notin> set v \<and> bt_get (mf_annotations m) key_algo = Some ''sha256''
                then Some (''sha256:'' @ v) else None) in
             case wire of None \<Rightarrow> Inl (BadChainAnnotation key_root v)
             | Some w \<Rightarrow>
                 (case okOf (digest_from_str H w) of
                    None \<Rightarrow> Inl (BadChainAnnotation key_root v)
                  | Some d \<Rightarrow>
                      if has_scutes m \<and> digest_display H d = w \<and> as_sha256_array d \<noteq> replicate 32 0
                      then Inr (Some (as_sha256_array d))
                      else Inl (BadChainAnnotation key_root v)))))"

definition check_u32_annotation :: "manifest \<Rightarrow> string \<Rightarrow> manifest_error + unit" where
  "check_u32_annotation m key =
     (case bt_get (mf_annotations m) key of None \<Rightarrow> Inr ()
      | Some v \<Rightarrow> if parse_uint u32_max v = None then Inl (BadChainAnnotation key v) else Inr ())"

definition div_ceil_up :: "nat \<Rightarrow> nat \<Rightarrow> nat" where
  "div_ceil_up a b = (a + b - 1) div b"

definition verity_block_size :: "manifest \<Rightarrow> manifest_error + nat" where
  "verity_block_size m =
     (let v = (case bt_get (mf_annotations m) key_data_block_size of None \<Rightarrow> ''4096'' | Some v \<Rightarrow> v) in
      case parse_uint u32_max v of
        None \<Rightarrow> Inl (BadChainAnnotation key_data_block_size v)
      | Some n \<Rightarrow> if n = 0 then Inl (BadChainAnnotation key_data_block_size v) else Inr n)"

text \<open>One layer of the loop; the state says whether no scute was seen yet.\<close>

definition check_scute :: "hexlib \<Rightarrow> manifest \<Rightarrow> bool \<Rightarrow> bool \<Rightarrow> scute_descriptor \<Rightarrow> manifest_error + bool" where
  "check_scute H m first_scute raw d =
     bindE (verity_block_size m) (\<lambda>block_size.
       let blocks = sa_data_blocks (sd_annotations d) in
       if checked_mul u64_max blocks block_size = None \<or>
          (raw \<and> blocks \<noteq> div_ceil_up (sd_size d) block_size)
       then Inl (BadScuteBlocks (sd_digest d))
       else (case hex_decode H (sa_salt (sd_annotations d)) of
               Inl _ \<Rightarrow> Inl (BadSalt (sa_salt (sd_annotations d)))
             | Inr salt \<Rightarrow>
                 if length salt < 32 then Inl (BadSalt (sa_salt (sd_annotations d)))
                 else if first_scute \<noteq> list_all (\<lambda>b. b = 0) (take 32 salt)
                 then Inl (BadScuteOrder (sd_digest d))
                 else Inr False))"

definition check_layer :: "hexlib \<Rightarrow> manifest \<Rightarrow> bool \<Rightarrow> layer \<Rightarrow> manifest_error + bool" where
  "check_layer H m first_scute l =
     (case l of Scute d \<Rightarrow> check_scute H m first_scute True d
      | ScuteZstd d \<Rightarrow> check_scute H m first_scute False d
      | _ \<Rightarrow> Inr first_scute)"

definition config_accepted :: "config_descriptor \<Rightarrow> bool" where
  "config_accepted c \<longleftrightarrow>
     (cd_media_type c = mt_empty \<and> cd_size c = 2 \<and> cd_data c = Some empty_config_data \<and>
        cd_digest c = empty_config_digest) \<or>
     cd_media_type c = mt_config"

definition manifest_validate :: "hexlib \<Rightarrow> manifest \<Rightarrow> manifest_error + unit" where
  "manifest_validate H m =
     (if mf_artifact_type m \<noteq> mt_artifact then Inl (WrongArtifactType (mf_artifact_type m))
      else if \<not> config_accepted (mf_config m) then Inl (BadConfig (cd_media_type (mf_config m)))
      else bindE (carapace_root H m) (\<lambda>_.
        bindE (if has_scutes m
               then checkAll (check_u32_annotation m) [key_hash_block_size, key_verity_version, key_hash_type]
               else Inr ()) (\<lambda>_.
          let pmi_count = length (filter layer_is_pmi (mf_layers m));
              boot_config_count = length (filter layer_is_boot_config (mf_layers m)) in
          if pmi_count > 1 then Inl (MultiplePmi pmi_count)
          else if boot_config_count > 1 then Inl (MultipleBootConfig boot_config_count)
          else if boot_config_count \<noteq> 0 \<and> pmi_count = 0 then Inl BootConfigWithoutPmi
          else bindE (foldE (check_layer H m) True (mf_layers m)) (\<lambda>_. Inr ()))))"

section \<open>What validation accepts\<close>

fun layer_scute :: "layer \<Rightarrow> (bool \<times> scute_descriptor) option" where
  "layer_scute (Scute d) = Some (True, d)"
| "layer_scute (ScuteZstd d) = Some (False, d)"
| "layer_scute _ = None"

text \<open>The scutes of a manifest in order, each with whether its bytes are raw.\<close>

definition manifest_scutes :: "manifest \<Rightarrow> (bool \<times> scute_descriptor) list" where
  "manifest_scutes m = map the (filter (\<lambda>x. x \<noteq> None) (map layer_scute (mf_layers m)))"

text \<open>A scute whose length and salt are well formed, with the given parent root.\<close>

definition scute_ok :: "hexlib \<Rightarrow> nat \<Rightarrow> bool \<times> scute_descriptor \<Rightarrow> byte list \<Rightarrow> bool" where
  "scute_ok H block_size rs parent \<longleftrightarrow>
     sa_data_blocks (sd_annotations (snd rs)) * block_size \<le> u64_max \<and>
     (fst rs \<longrightarrow> sa_data_blocks (sd_annotations (snd rs)) = div_ceil_up (sd_size (snd rs)) block_size) \<and>
     (\<exists>salt. hex_decode H (sa_salt (sd_annotations (snd rs))) = Inr salt \<and> 32 \<le> length salt \<and>
        parent = take 32 salt)"

text \<open>The scutes form a chain as far as the manifest shows: the base, and only it, has no parent.\<close>

definition scutes_ok :: "hexlib \<Rightarrow> manifest \<Rightarrow> bool" where
  "scutes_ok H m \<longleftrightarrow>
     (manifest_scutes m = [] \<or>
      (\<exists>block_size parents. verity_block_size m = Inr block_size \<and>
         list_all2 (scute_ok H block_size) (manifest_scutes m) parents \<and>
         (\<forall>i<length parents. parents ! i = replicate 32 0 \<longleftrightarrow> i = 0)))"

lemma check_layer_none: "layer_scute l = None \<Longrightarrow> check_layer H m f l = Inr f"
  by (cases l) (auto simp: check_layer_def)

lemma check_layer_some:
  "layer_scute l = Some (raw, d) \<Longrightarrow> check_layer H m f l = check_scute H m f raw d"
  by (cases l) (auto simp: check_layer_def)

lemma zero_prefix: "length s = 32 \<Longrightarrow> list_all (\<lambda>b. b = 0) s \<longleftrightarrow> s = replicate 32 (0 :: byte)"
  by (auto simp: list_all_iff intro: replicate_eqI)

lemma check_scute_iff:
  "check_scute H m f raw d = Inr g \<longleftrightarrow>
     \<not> g \<and> (\<exists>n parent. verity_block_size m = Inr n \<and> scute_ok H n (raw, d) parent \<and>
        (parent = replicate 32 0 \<longleftrightarrow> f))"
  by (auto simp: check_scute_def scute_ok_def bindE_Inr_iff zero_prefix Let_def not_less not_le
      split: if_splits sum.splits)

lemma check_layers_iff:
  "(\<exists>g. foldE (check_layer H m) f ls = Inr g) \<longleftrightarrow>
     (let ss = map the (filter (\<lambda>x. x \<noteq> None) (map layer_scute ls)) in
      ss = [] \<or>
      (\<exists>n parents. verity_block_size m = Inr n \<and> list_all2 (scute_ok H n) ss parents \<and>
         (\<forall>i<length parents. parents ! i = replicate 32 0 \<longleftrightarrow> (f \<and> i = 0))))"
proof (induction ls arbitrary: f)
  case Nil
  then show ?case by simp
next
  case (Cons l ls)
  show ?case
  proof (cases "layer_scute l")
    case None
    with Cons show ?thesis by (simp add: check_layer_none)
  next
    case (Some rd)
    obtain raw d where rd: "rd = (raw, d)" by (cases rd)
    let ?ss = "map the (filter (\<lambda>x. x \<noteq> None) (map layer_scute ls))"
    have "(\<exists>g. foldE (check_layer H m) f (l # ls) = Inr g) \<longleftrightarrow>
        check_scute H m f raw d = Inr False \<and> (\<exists>g. foldE (check_layer H m) False ls = Inr g)"
      using check_layer_some [OF Some [unfolded rd], of H m f] check_scute_iff [of H m f raw d True]
      by (auto split: sum.splits)
    also have "\<dots> \<longleftrightarrow> (\<exists>n p ps. verity_block_size m = Inr n \<and> scute_ok H n (raw, d) p \<and>
        (p = replicate 32 0 \<longleftrightarrow> f) \<and> list_all2 (scute_ok H n) ?ss ps \<and>
        (\<forall>i<length ps. ps ! i \<noteq> replicate 32 0))"
      unfolding check_scute_iff Cons.IH [of False] Let_def
      by (cases "verity_block_size m"; cases "?ss = []") auto
    also have "\<dots> \<longleftrightarrow> (\<exists>n parents. verity_block_size m = Inr n \<and>
        list_all2 (scute_ok H n) ((raw, d) # ?ss) parents \<and>
        (\<forall>i<length parents. parents ! i = replicate 32 0 \<longleftrightarrow> (f \<and> i = 0)))"
    proof -
      have first: "(\<forall>i<Suc (length ps). (p # ps) ! i = replicate 32 0 \<longleftrightarrow> (f \<and> i = 0)) \<longleftrightarrow>
          (p = replicate 32 0 \<longleftrightarrow> f) \<and> (\<forall>i<length ps. ps ! i \<noteq> replicate 32 0)" for p ps
        by (simp add: All_less_Suc2)
      have "(\<exists>parents. list_all2 (scute_ok H n) ((raw, d) # ?ss) parents \<and> Q parents) \<longleftrightarrow>
          (\<exists>p ps. scute_ok H n (raw, d) p \<and> list_all2 (scute_ok H n) ?ss ps \<and> Q (p # ps))" for n Q
        unfolding list_all2_Cons1 by blast
      then show ?thesis by (simp add: first) blast
    qed
    finally show ?thesis using Some rd by simp
  qed
qed

lemma carapace_root_meaning:
  assumes "hex_laws H" "carapace_root H m = Inr root"
  shows "(root = None \<longleftrightarrow> \<not> has_scutes m) \<and>
    (\<forall>r. root = Some r \<longrightarrow> length r = 32 \<and> r \<noteq> replicate 32 0)"
proof (cases "\<not> has_scutes m \<and> bt_get (mf_annotations m) key_root = None")
  case True
  with assms(2) show ?thesis by (simp add: carapace_root_def)
next
  case False
  with assms(2) obtain w d where d: "digest_from_str H w = Inr d" "has_scutes m"
    "root = Some (as_sha256_array d)" "as_sha256_array d \<noteq> replicate 32 0"
    by (auto simp: carapace_root_def Let_def split: option.splits if_splits)
  have "digest_wf d" using digest_from_str_wf [OF assms(1) d(1)] .
  then have "length (as_sha256_array d) = 32" by (cases d) (simp add: digest_wf_def)
  with d show ?thesis by simp
qed


definition example_manifest :: manifest where
  "example_manifest =
     \<lparr>mf_schema_version = 2, mf_media_type = mt_manifest, mf_artifact_type = mt_artifact,
      mf_config = config_descriptor_canonical,
      mf_layers = [Scute \<lparr>sd_digest = ''sha256:00'', sd_size = 5000,
        sd_annotations = \<lparr>sa_data_blocks = 2, sa_salt = replicate 64 CHR ''0''\<rparr>\<rparr>,
        Pmi \<lparr>pd_digest = ''sha256:01'', pd_size = 1\<rparr>],
      mf_annotations = [(key_root, ''sha256:'' @ replicate 64 CHR ''1'')]\<rparr>"


end
