(* ===== verification/Cache_Read.thy ===== *)
theory Cache_Read
  imports Artifact_Manifest Bytes
begin

text \<open>
  Verified reads of the local content cache: \<open>cache/mod.rs\<close>.  What the operating
  system answers is data of the model.  An open file is a \<open>handle\<close>: its kind, the
  length that its metadata gives, and the stream of what its reads will deliver, a
  list of chunks and errors.  A read takes at most its capacity from the next chunk;
  an empty chunk, or the end of the list, is the end of the file at that moment.  So
  the stream can be shorter or longer than the length says, change while it is read,
  or fail: nothing is assumed of it.  The hash function is the parameter \<open>sha\<close>, the
  directory is the function \<open>open\<close> from the number of files opened before and the
  path below the cache to what opening gives.
\<close>

datatype io_error = Interrupted | OsError string

type_synonym stream = "(io_error + byte list) list"

record handle =
  h_regular :: "io_error + bool"
  h_length :: "io_error + nat"
  h_stream :: stream

datatype cache_error =
    CacheJson string
  | CacheManifest manifest_error
  | CacheIo io_error
  | CacheInvalid string

type_synonym sha256 = "byte list \<Rightarrow> byte list"
type_synonym cache = "nat \<Rightarrow> string \<Rightarrow> io_error + handle"

definition max_metadata_bytes :: nat where
  "max_metadata_bytes = 16 * 1024 * 1024"

definition regular_file ::
    "(nat \<Rightarrow> string \<Rightarrow> io_error + 'a handle_scheme) \<Rightarrow> nat \<Rightarrow> string \<Rightarrow> cache_error + 'a handle_scheme" where
  "regular_file cache n path =
     bindE (mapErr CacheIo (cache n path)) (\<lambda>f.
     bindE (mapErr CacheIo (h_regular f)) (\<lambda>regular.
     bindE (failIf (\<not> regular) (CacheInvalid ''blob is not a regular file'')) (\<lambda>_.
       Inr f)))"

definition blob_path :: "hexlib \<Rightarrow> digest \<Rightarrow> string" where
  "blob_path H d = ''blobs/'' @ digest_algo d @ ''/'' @ digest_hex H d"

definition cache_blob :: "hexlib \<Rightarrow> cache \<Rightarrow> nat \<Rightarrow> digest \<Rightarrow> cache_error + handle" where
  "cache_blob H cache n d = regular_file cache n (blob_path H d)"

text \<open>One read call with a buffer of \<open>capacity\<close> bytes, and the stream after it.\<close>

fun read_some :: "nat \<Rightarrow> stream \<Rightarrow> (io_error + byte list) \<times> stream" where
  "read_some capacity [] = (Inr [], [])"
| "read_some capacity (Inl e # rest) = (Inl e, rest)"
| "read_some capacity (Inr bs # rest) =
     (Inr (take capacity bs),
      if length bs \<le> capacity then rest else Inr (drop capacity bs) # rest)"

text \<open>
  \<open>Read::take\<close> followed by \<open>read_to_end\<close>: reads until the limit or an empty read;
  an interrupted call is repeated.
\<close>

function read_to_end :: "nat \<Rightarrow> stream \<Rightarrow> io_error + byte list" where
  "read_to_end limit rest =
     (if limit = 0 then Inr []
      else case rest of [] \<Rightarrow> Inr []
       | Inl Interrupted # later \<Rightarrow> read_to_end limit later
       | Inl e # later \<Rightarrow> Inl e
       | Inr [] # later \<Rightarrow> Inr []
       | Inr (b # bs) # later \<Rightarrow>
           bindE (read_to_end (limit - length (take limit (b # bs))) later) (\<lambda>tail.
             Inr (take limit (b # bs) @ tail)))"
  by pat_completeness auto
termination by (relation "measure (\<lambda>(limit, rest). length rest)") auto

declare read_to_end.simps [simp del]

definition read_metadata_file :: "handle \<Rightarrow> nat option \<Rightarrow> cache_error + byte list" where
  "read_metadata_file f expected_size =
     bindE (mapErr CacheIo (h_length f)) (\<lambda>size.
     bindE (failIf (size > max_metadata_bytes \<or> (case expected_size of None \<Rightarrow> False | Some expected \<Rightarrow> expected \<noteq> size))
              (CacheInvalid ''metadata size mismatch or limit exceeded'')) (\<lambda>_.
     bindE (mapErr CacheIo (read_to_end (size + 1) (h_stream f))) (\<lambda>bytes.
     bindE (failIf (length bytes \<noteq> size) (CacheInvalid ''metadata content mismatch'')) (\<lambda>_.
       Inr bytes))))"

text \<open>Some checked bytes with the digest they were checked against.\<close>

record verified_metadata =
  vm_digest :: digest
  vm_bytes :: "byte list"

definition read_metadata ::
    "hexlib \<Rightarrow> cache \<Rightarrow> nat \<Rightarrow> digest \<Rightarrow> nat option \<Rightarrow> cache_error + byte list" where
  "read_metadata H cache n d expected_size =
     bindE (cache_blob H cache n d) (\<lambda>f. read_metadata_file f expected_size)"

definition cache_metadata ::
    "hexlib \<Rightarrow> sha256 \<Rightarrow> cache \<Rightarrow> nat \<Rightarrow> digest \<Rightarrow> nat option \<Rightarrow> cache_error + verified_metadata" where
  "cache_metadata H sha cache n d expected_size =
     bindE (read_metadata H cache n d expected_size) (\<lambda>bytes.
     bindE (failIf (Sha256 (sha bytes) \<noteq> d) (CacheInvalid ''metadata content mismatch'')) (\<lambda>_.
       Inr \<lparr>vm_digest = d, vm_bytes = bytes\<rparr>))"

section \<open>Copying a large blob\<close>

text \<open>
  A writer takes a whole buffer or fails; it returns its new state in both cases, as a
  failed write can leave a part of the buffer behind.  The hasher is the list of the
  bytes fed to it.
\<close>

type_synonym 'd writer = "'d \<Rightarrow> byte list \<Rightarrow> (io_error + unit) \<times> 'd"

definition buffer_size :: nat where "buffer_size = 64 * 1024"

function copy_loop ::
    "'d writer \<Rightarrow> string \<Rightarrow> nat \<Rightarrow> stream \<Rightarrow> byte list \<Rightarrow> 'd \<Rightarrow> (cache_error + byte list \<times> stream) \<times> 'd" where
  "copy_loop put short remaining rest hashed d =
     (if remaining = 0 then (Inr (hashed, rest), d)
      else case read_some (min remaining buffer_size) rest of
        (Inl e, rest') \<Rightarrow> (Inl (CacheIo e), d)
      | (Inr bytes, rest') \<Rightarrow>
          if length bytes = 0 then (Inl (CacheInvalid short), d)
          else (case put d bytes of
              (Inl e, d') \<Rightarrow> (Inl (CacheIo e), d')
            | (Inr u, d') \<Rightarrow> copy_loop put short (remaining - length bytes) rest' (hashed @ bytes) d'))"
  by pat_completeness auto
termination by (relation "measure (\<lambda>(put, short, remaining, rest, hashed, d). remaining)") auto

declare copy_loop.simps [simp del]

definition copy_verified ::
    "hexlib \<Rightarrow> sha256 \<Rightarrow> 'd writer \<Rightarrow> cache \<Rightarrow> nat \<Rightarrow> digest \<Rightarrow> nat \<Rightarrow> 'd \<Rightarrow> (cache_error + unit) \<times> 'd" where
  "copy_verified H sha put cache n digest extent d =
     (case bindE (cache_blob H cache n digest) (\<lambda>f.
             bindE (mapErr CacheIo (h_length f)) (\<lambda>len.
             bindE (failIf (len \<noteq> extent) (CacheInvalid ''blob size mismatch'')) (\<lambda>_. Inr f))) of
        Inl e \<Rightarrow> (Inl e, d)
      | Inr f \<Rightarrow>
          (case copy_loop put ''blob truncated during read'' extent (h_stream f) [] d of
             (Inl e, d') \<Rightarrow> (Inl e, d')
           | (Inr (hashed, rest), d') \<Rightarrow>
               (case fst (read_some 1 rest) of
                  Inl e \<Rightarrow> (Inl (CacheIo e), d')
                | Inr extra \<Rightarrow>
                    if length extra \<noteq> 0 \<or> sha hashed \<noteq> digest_as_bytes digest
                    then (Inl (CacheInvalid ''blob content mismatch''), d')
                    else (Inr (), d'))))"

text \<open>\<open>io::sink\<close> drops the bytes; a vector keeps them.\<close>

definition sink_write :: "unit writer" where
  "sink_write d bytes = (Inr (), d)"

definition vec_write :: "byte list writer" where
  "vec_write d bytes = (Inr (), d @ bytes)"

definition cache_verify :: "hexlib \<Rightarrow> sha256 \<Rightarrow> cache \<Rightarrow> nat \<Rightarrow> digest \<Rightarrow> nat \<Rightarrow> cache_error + unit" where
  "cache_verify H sha cache n digest extent = fst (copy_verified H sha sink_write cache n digest extent ())"

section \<open>What a stream delivers\<close>

text \<open>
  The bytes of the next chunks without the boundaries between them: the prefix of the
  stream that can be read before an error or an empty read.
\<close>

fun deliverable :: "stream \<Rightarrow> byte list" where
  "deliverable [] = []"
| "deliverable (Inl e # rest) = []"
| "deliverable (Inr bs # rest) = (if bs = [] then [] else bs @ deliverable rest)"

lemma read_some_deliverable:
  assumes "read_some c rest = (Inr bs, rest')" "0 < c"
  shows "length bs \<le> c \<and> deliverable rest = bs @ (if bs = [] then [] else deliverable rest')"
  using assms by (cases "(c, rest)" rule: read_some.cases) (auto simp: append_take_drop_id)

text \<open>Whatever the writer does, the bytes hashed are the next bytes of the stream.\<close>

lemma copy_loop_hashed:
  "copy_loop put short n rest h d = (Inr (h', rest'), d') \<Longrightarrow>
     \<exists>bs. h' = h @ bs \<and> length bs = n \<and> deliverable rest = bs @ deliverable rest'"
proof (induction put short n rest h d rule: copy_loop.induct)
  case (1 put short n rest h d)
  show ?case
  proof (cases "n = 0")
    case True
    with "1.prems" show ?thesis by (auto simp: copy_loop.simps)
  next
    case False
    with "1.prems" obtain bs rest1 d1 where r: "read_some (min n buffer_size) rest = (Inr bs, rest1)"
      "bs \<noteq> []" "put d bs = (Inr (), d1)"
      and loop: "copy_loop put short (n - length bs) rest1 (h @ bs) d1 = (Inr (h', rest'), d')"
      by (auto simp: copy_loop.simps [of _ _ n] split: prod.splits sum.splits if_splits)
    have c: "0 < min n buffer_size" using False by (simp add: buffer_size_def)
    from read_some_deliverable [OF r(1) c] r(2)
    have l: "length bs \<le> n" and d: "deliverable rest = bs @ deliverable rest1" by auto
    from r(2) have ne: "length bs \<noteq> 0" by simp
    from "1.IH" [OF False r(1) [symmetric] refl ne r(3) [symmetric] refl loop] obtain bs2 where
      "h' = (h @ bs) @ bs2" "length bs2 = n - length bs" "deliverable rest1 = bs2 @ deliverable rest'"
      by auto
    with l d show ?thesis by (intro exI [of _ "bs @ bs2"]) auto
  qed
qed

lemma copy_loop_holds_hashed:
  "(\<And>d bytes d'. put d bytes = (Inr (), d') \<Longrightarrow> held d' = held d @ bytes) \<Longrightarrow>
     copy_loop put short n rest h d = (Inr (h', rest'), d') \<Longrightarrow> \<exists>bs. h' = h @ bs \<and> held d' = held d @ bs"
proof (induction put short n rest h d rule: copy_loop.induct)
  case (1 put short n rest h d)
  show ?case
  proof (cases "n = 0")
    case True
    with "1.prems"(2) show ?thesis by (auto simp: copy_loop.simps)
  next
    case False
    with "1.prems"(2) obtain bs rest1 d1 where r: "read_some (min n buffer_size) rest = (Inr bs, rest1)"
      "length bs \<noteq> 0" "put d bs = (Inr (), d1)"
      and loop: "copy_loop put short (n - length bs) rest1 (h @ bs) d1 = (Inr (h', rest'), d')"
      by (auto simp: copy_loop.simps [of _ _ n] split: prod.splits sum.splits if_splits)
    from "1.IH" [OF False r(1) [symmetric] refl r(2) r(3) [symmetric] refl "1.prems"(1) loop] "1.prems"(1) [OF r(3)]
    show ?thesis by (auto intro: exI [of _ "bs @ _"])
  qed
qed

lemma copy_verified_Inr_iff:
  "copy_verified H sha put cache n digest extent d = (Inr (), d') \<longleftrightarrow>
     (\<exists>f hashed rest. cache_blob H cache n digest = Inr f \<and> h_length f = Inr extent \<and>
        copy_loop put ''blob truncated during read'' extent (h_stream f) [] d = (Inr (hashed, rest), d') \<and>
        fst (read_some 1 rest) = Inr [] \<and> sha hashed = digest_as_bytes digest)"
  unfolding copy_verified_def
  by (cases "cache_blob H cache n digest"; cases "h_length (projr (cache_blob H cache n digest))")
     (auto simp: failIf_def mapErr_def split: sum.splits prod.splits if_splits)

lemma copy_verified_hashed:
  assumes "copy_verified H sha put cache n digest extent d = (Inr (), d')"
  shows "\<exists>f. cache_blob H cache n digest = Inr f \<and> h_length f = Inr extent \<and>
     length (deliverable (h_stream f)) = extent \<and> sha (deliverable (h_stream f)) = digest_as_bytes digest"
proof -
  from assms obtain f hashed rest where f: "cache_blob H cache n digest = Inr f" "h_length f = Inr extent"
    and l: "copy_loop put ''blob truncated during read'' extent (h_stream f) [] d = (Inr (hashed, rest), d')"
    and e: "fst (read_some 1 rest) = Inr []" and s: "sha hashed = digest_as_bytes digest"
    unfolding copy_verified_Inr_iff by (elim exE conjE) (rule that)
  obtain rest' where "read_some 1 rest = (Inr [], rest')" using e by (metis prod.collapse)
  from read_some_deliverable [OF this] have "deliverable rest = []" by simp
  with copy_loop_hashed [OF l] f s show ?thesis by auto
qed

text \<open>
  What a writer promises: after a successful write it holds exactly the bytes it was
  given, behind those it held.
\<close>

locale byte_sink =
  fixes put :: "'d writer" and held :: "'d \<Rightarrow> byte list"
  assumes put_appends: "put d bytes = (Inr (), d') \<Longrightarrow> held d' = held d @ bytes"
begin

lemma copy_holds_verified:
  assumes "copy_verified H sha put cache n digest extent d = (Inr (), d')"
  shows "\<exists>bs. held d' = held d @ bs \<and> length bs = extent \<and> sha bs = digest_as_bytes digest"
proof -
  from assms obtain f :: handle and hashed rest where
    l: "copy_loop put ''blob truncated during read'' extent (h_stream f) [] d = (Inr (hashed, rest), d')"
    "sha hashed = digest_as_bytes digest"
    unfolding copy_verified_Inr_iff by (elim exE conjE) (rule that)
  with copy_loop_hashed [OF l(1)] copy_loop_holds_hashed [where held = held, OF put_appends l(1)]
  show ?thesis by auto
qed

end

interpretation memory: byte_sink vec_write "\<lambda>d. d"
  by unfold_locales (simp add: vec_write_def)

section \<open>Stable files\<close>

text \<open>A file whose content does not change while it is read, in any division into reads.\<close>

definition stable :: "byte list \<Rightarrow> handle \<Rightarrow> bool" where
  "stable content f \<longleftrightarrow> h_regular f = Inr True \<and> h_length f = Inr (length content) \<and>
     deliverable (h_stream f) = content \<and> list_all (\<lambda>r. isOk r \<and> r \<noteq> Inr []) (h_stream f)"

lemma copy_loop_stable:
  assumes "list_all (\<lambda>r. isOk r \<and> r \<noteq> Inr []) rest"
    and "\<And>d bs. put d bs = (Inr (), snd (put d bs))"
    and "length (deliverable rest) = n"
  shows "\<exists>d'. copy_loop put short n rest h d = (Inr (h @ deliverable rest, []), d')"
  using assms
proof (induction put short n rest h d rule: copy_loop.induct)
  case (1 put short n rest h d)
  show ?case
  proof (cases rest)
    case Nil
    with "1.prems"(3) show ?thesis by (simp add: copy_loop.simps)
  next
    case (Cons r later)
    with "1.prems"(1) obtain bs where r: "r = Inr bs" "bs \<noteq> []" by (cases r) auto
    with Cons "1.prems"(3) have n: "n = length bs + length (deliverable later)" "n \<noteq> 0" by auto
    let ?c = "min n buffer_size"
    have c: "0 < ?c" using n by (simp add: buffer_size_def)
    define rest1 where "rest1 = (if length bs \<le> ?c then later else Inr (drop ?c bs) # later)"
    have rd: "read_some ?c rest = (Inr (take ?c bs), rest1)" by (simp add: Cons r rest1_def)
    have l0: "length (take ?c bs) \<noteq> 0" using c r by simp
    have ok: "list_all (\<lambda>r. isOk r \<and> r \<noteq> Inr []) rest1" using "1.prems"(1) Cons by (auto simp: rest1_def)
    have d: "deliverable rest = take ?c bs @ deliverable rest1" by (auto simp: Cons r rest1_def)
    have ln: "length (deliverable rest1) = n - length (take ?c bs)"
      using "1.prems"(3) by (simp add: d)
    from "1.IH" [OF n(2) rd [symmetric] refl l0 "1.prems"(2) [symmetric] refl ok "1.prems"(2) ln]
    obtain d' where "copy_loop put short (n - length (take ?c bs)) rest1 (h @ take ?c bs) (snd (put d (take ?c bs)))
        = (Inr ((h @ take ?c bs) @ deliverable rest1, []), d')" by auto
    with n(2) rd l0 "1.prems"(2) [of d "take ?c bs"] d show ?thesis
      by (subst copy_loop.simps) (auto simp: split: prod.splits)
  qed
qed

lemma cache_blob_stable:
  "cache n (blob_path H digest) = Inr f \<Longrightarrow> stable content f \<Longrightarrow> cache_blob H cache n digest = Inr f"
  by (simp add: cache_blob_def regular_file_def stable_def mapErr_def failIf_def)

lemma read_to_end_stable:
  "list_all (\<lambda>r. isOk r \<and> r \<noteq> Inr []) rest \<Longrightarrow> length (deliverable rest) < limit \<Longrightarrow>
     read_to_end limit rest = Inr (deliverable rest)"
proof (induction rest arbitrary: limit)
  case Nil
  then show ?case by (simp add: read_to_end.simps)
next
  case (Cons r later)
  then obtain b bs where r: "r = Inr (b # bs)" by (cases r) (auto simp: neq_Nil_conv)
  have "read_to_end (limit - length (b # bs)) later = Inr (deliverable later)"
    using Cons by (simp add: r)
  with Cons.prems show ?case by (subst read_to_end.simps) (auto simp: r)
qed

text \<open>C29: Whatever the file delivers and however its reads are divided, a verified copy that
reports success has written exactly as many bytes as the descriptor says, with the hash of
the digest.\<close>

theorem cache_copy_authentic:
  assumes "copy_verified H sha vec_write cache n digest extent d = (Inr (), d')"
  shows "\<exists>bs. d' = d @ bs \<and> length bs = extent \<and> sha bs = digest_as_bytes digest"
  using assms by (rule memory.copy_holds_verified)

text \<open>C31: From a file whose content stays as it is, the copy returns the content whenever its
length and hash are those of the descriptor, for every division of the file into reads.\<close>

theorem cache_copy_stable:
  assumes "cache n (blob_path H digest) = Inr f" "stable content f"
  shows "copy_verified H sha vec_write cache n digest extent d = (Inr (), d @ content) \<longleftrightarrow>
     extent = length content \<and> sha content = digest_as_bytes digest"
proof -
  have b: "cache_blob H cache n digest = Inr f" using assms by (rule cache_blob_stable)
  have s: "h_length f = Inr (length content)" "deliverable (h_stream f) = content"
    "list_all (\<lambda>r. isOk r \<and> r \<noteq> Inr []) (h_stream f)"
    using assms(2) by (simp_all add: stable_def)
  have v: "vec_write d bs = (Inr (), snd (vec_write d bs))" for d bs by (simp add: vec_write_def)
  obtain d' where loop: "copy_loop vec_write ''blob truncated during read'' (length content) (h_stream f) [] d = (Inr (content, []), d')"
    using copy_loop_stable [where put = vec_write and n = "length content" and h = "[]" and d = d, OF s(3) v] s(2)
    by auto
  with copy_loop_holds_hashed [of vec_write "\<lambda>d. d", OF memory.put_appends loop]
  have "d' = d @ content" by auto
  with b s loop show ?thesis by (auto simp: copy_verified_Inr_iff)
qed

definition sample_handle :: handle where
  "sample_handle =
     \<lparr>h_regular = Inr True, h_length = Inr 3, h_stream = [Inr [1, 2], Inr [3]]\<rparr>"

definition first_bytes_sha :: sha256 where
  "first_bytes_sha bytes = replicate 29 0 @ take 3 bytes"

lemma cache_copy_authentic_witness:
  "length ([1, 2, 3] :: byte list) = 3 \<and>
   (\<exists>bs. [1, 2, 3] = [] @ bs \<and> length bs = 3 \<and>
      first_bytes_sha bs = digest_as_bytes (Sha256 (replicate 29 0 @ [1, 2, 3])))"
proof -
  have "copy_verified hex_ref first_bytes_sha vec_write (\<lambda>n path. Inr sample_handle) 0
      (Sha256 (replicate 29 0 @ [1, 2, 3])) 3 [] = (Inr (), [1, 2, 3])" by code_simp
  from cache_copy_authentic [OF this] show ?thesis by simp
qed

lemma cache_copy_stable_witness:
  "copy_verified hex_ref first_bytes_sha vec_write (\<lambda>n path. Inr sample_handle) 0
      (Sha256 (replicate 29 0 @ [1, 2, 3])) 3 [7] = (Inr (), [7] @ [1, 2, 3])"
proof -
  have "stable [1, 2, 3] sample_handle" by (simp add: stable_def sample_handle_def)
  from cache_copy_stable [where cache = "\<lambda>n path. Inr sample_handle" and H = hex_ref and n = 0 and
      digest = "Sha256 (replicate 29 0 @ [1, 2, 3])" and sha = first_bytes_sha and extent = 3 and d = "[7]",
      OF refl this] show ?thesis by (simp add: first_bytes_sha_def)
qed

lemma cache_metadata_stable:
  assumes "cache n (blob_path H digest) = Inr f" "stable content f"
  shows "cache_metadata H sha cache n digest expected = Inr m \<longleftrightarrow>
     m = \<lparr>vm_digest = digest, vm_bytes = content\<rparr> \<and> length content \<le> max_metadata_bytes \<and>
     expected \<in> {None, Some (length content)} \<and> Sha256 (sha content) = digest"
proof -
  have b: "cache_blob H cache n digest = Inr f" using assms by (rule cache_blob_stable)
  have s: "h_length f = Inr (length content)" "deliverable (h_stream f) = content"
    "list_all (\<lambda>r. isOk r \<and> r \<noteq> Inr []) (h_stream f)"
    using assms(2) by (simp_all add: stable_def)
  from read_to_end_stable [OF s(3), of "length content + 1"] s(2)
  have "read_to_end (length content + 1) (h_stream f) = Inr content" by simp
  with b s show ?thesis
    by (cases expected)
       (auto simp: cache_metadata_def read_metadata_def read_metadata_file_def failIf_def mapErr_def)
qed

lemma cache_metadata_authentic:
  assumes "cache_metadata H sha cache n digest expected = Inr m"
  shows "vm_digest m = digest \<and> Sha256 (sha (vm_bytes m)) = digest \<and>
     length (vm_bytes m) \<le> max_metadata_bytes \<and> expected \<in> {None, Some (length (vm_bytes m))}"
  using assms
  by (auto simp: cache_metadata_def read_metadata_def read_metadata_file_def failIf_def bindE_Inr_iff
      split: if_splits option.splits)

lemma cache_verify_stable:
  assumes "cache n (blob_path H digest) = Inr f" "stable content f"
  shows "cache_verify H sha cache n digest extent = Inr () \<longleftrightarrow>
     extent = length content \<and> sha content = digest_as_bytes digest"
proof -
  have b: "cache_blob H cache n digest = Inr f" using assms by (rule cache_blob_stable)
  have s: "h_length f = Inr (length content)" "deliverable (h_stream f) = content"
    "list_all (\<lambda>r. isOk r \<and> r \<noteq> Inr []) (h_stream f)"
    using assms(2) by (simp_all add: stable_def)
  have v: "sink_write d bs = (Inr (), snd (sink_write d bs))" for d bs by (simp add: sink_write_def)
  have loop: "copy_loop sink_write ''blob truncated during read'' (length content) (h_stream f) [] () = (Inr (content, []), ())"
    using copy_loop_stable [where put = sink_write and n = "length content" and h = "[]" and d = "()", OF s(3) v] s(2)
    by auto
  have "cache_verify H sha cache n digest extent = Inr () \<longleftrightarrow>
      copy_verified H sha sink_write cache n digest extent () = (Inr (), ())"
    by (simp add: cache_verify_def prod_eq_iff)
  with b s loop show ?thesis by (auto simp: copy_verified_Inr_iff)
qed

lemma cache_blob_absent:
  "cache n (blob_path H digest) = Inl e \<Longrightarrow> cache_blob H cache n digest = Inl (CacheIo e)"
  by (simp add: cache_blob_def regular_file_def mapErr_def)

section \<open>A content store\<close>

text \<open>
  The contract between whoever keeps the directory and the reads: at every moment a
  digest either has one content, in a file that stays as it is, or opening its path
  fails.  The content need not have the digest it is stored under.
\<close>

locale content_store =
  fixes H :: hexlib and cache :: cache and content :: "digest \<Rightarrow> byte list option"
  assumes present: "content d = Some c \<Longrightarrow> \<exists>f. cache n (blob_path H d) = Inr f \<and> stable c f"
    and absent: "content d = None \<Longrightarrow> \<exists>e. cache n (blob_path H d) = Inl e"
begin

lemma metadata_iff:
  "cache_metadata H sha cache n d expected = Inr m \<longleftrightarrow>
     vm_digest m = d \<and> content d = Some (vm_bytes m) \<and> length (vm_bytes m) \<le> max_metadata_bytes \<and>
     expected \<in> {None, Some (length (vm_bytes m))} \<and> Sha256 (sha (vm_bytes m)) = d"
proof (cases "content d")
  case None
  then show ?thesis using absent [OF None, of n]
    by (auto simp: cache_metadata_def read_metadata_def dest: cache_blob_absent)
next
  case (Some c)
  from present [OF Some, of n] obtain f where "cache n (blob_path H d) = Inr f" "stable c f" by blast
  from cache_metadata_stable [where cache = cache and n = n and H = H and digest = d, OF this] show ?thesis by (cases m) (auto simp: Some)
qed

lemma verify_iff:
  "cache_verify H sha cache n d extent = Inr () \<longleftrightarrow>
     (case content d of None \<Rightarrow> False | Some c \<Rightarrow> length c = extent \<and> sha c = digest_as_bytes d)"
proof (cases "content d")
  case None
  then show ?thesis using absent [OF None, of n]
    by (auto simp: cache_verify_def copy_verified_def dest: cache_blob_absent)
next
  case (Some c)
  from present [OF Some, of n] obtain f where "cache n (blob_path H d) = Inr f" "stable c f" by blast
  from cache_verify_stable [where cache = cache and n = n and H = H and digest = d, OF this] show ?thesis by (auto simp: Some)
qed

end

end
