(* ===== verification/Artifact_Reference.thy ===== *)
theory Artifact_Reference
  imports Artifact_Digest
begin

text \<open>
  OCI image references: \<open>src/artifact/reference.rs\<close>.  A reference is parsed from
  the text users write into registry, repository and a tag or a digest.
\<close>

datatype reference_kind = RefTag string | RefDigest digest

record reference =
  ref_registry :: string
  ref_repo :: string
  ref_kind :: reference_kind

datatype reference_error =
    RefEmpty
  | NotLowercase string
  | InvalidDigest digest_parse_error
  | PathTraversalSegment string
  | EmptySegment
  | InvalidComponent string
  | InvalidTag string

definition looks_like_registry :: "string \<Rightarrow> bool" where
  "looks_like_registry component =
     (if component = ''.'' \<or> component = ''..'' then False
      else CHR ''.'' \<in> set component \<or> CHR '':'' \<in> set component \<or> component = ''localhost'')"

definition validate_path_component :: "string \<Rightarrow> reference_error + unit" where
  "validate_path_component c =
     (if c = [] then Inl EmptySegment
      else if c = ''.'' \<or> c = ''..'' then Inl (PathTraversalSegment c)
      else if CHR 0x00 \<in> set c \<or> CHR 0x5C \<in> set c then Inl (InvalidComponent c)
      else Inr ())"

definition tag_char :: "char \<Rightarrow> bool" where
  "tag_char c \<longleftrightarrow> is_alphanumeric c \<or> c = CHR ''.'' \<or> c = CHR ''_'' \<or> c = CHR ''-''"

definition validate_tag :: "string \<Rightarrow> reference_error + unit" where
  "validate_tag tag =
     (if tag = [] \<or> length tag > 128 then Inl (InvalidTag tag)
      else if \<not> (is_alphanumeric (hd tag) \<or> hd tag = CHR ''_'') then Inl (InvalidTag tag)
      else checkAll (\<lambda>c. if tag_char c then Inr () else Inl (InvalidTag tag)) (tl tag))"

text \<open>The text before the digest, and the digest after the first at sign.\<close>

definition split_digest ::
    "hexlib \<Rightarrow> string \<Rightarrow> reference_error + string \<times> reference_kind option" where
  "split_digest H s =
     (case str_find CHR ''@'' s of
        Some at_pos \<Rightarrow>
          (case digest_from_str H (drop (Suc at_pos) s) of
             Inl e \<Rightarrow> Inl (InvalidDigest e)
           | Inr digest \<Rightarrow> Inr (take at_pos s, Some (RefDigest digest)))
      | None \<Rightarrow> Inr (s, None))"

text \<open>The tag is what follows the first colon of the last component.\<close>

definition split_tag :: "string \<Rightarrow> string \<times> reference_kind option" where
  "split_tag before_digest =
     (let search_from = (case str_rfind CHR ''/'' before_digest of None \<Rightarrow> 0 | Some p \<Rightarrow> p + 1) in
      case str_find CHR '':'' (drop search_from before_digest) of
        Some colon_pos \<Rightarrow>
          (let absolute_colon = search_from + colon_pos in
           (take absolute_colon before_digest, Some (RefTag (drop (absolute_colon + 1) before_digest))))
      | None \<Rightarrow> (before_digest, None))"

definition split_registry :: "string \<Rightarrow> string \<times> string" where
  "split_registry before_tag =
     (case str_find CHR ''/'' before_tag of
        Some slash_pos \<Rightarrow>
          (let first_component = take slash_pos before_tag; rest = drop (slash_pos + 1) before_tag in
           if looks_like_registry first_component then (first_component, rest)
           else (''docker.io'', before_tag))
      | None \<Rightarrow> (''docker.io'', ''library/'' @ before_tag))"

definition check_reference :: "string \<Rightarrow> string \<Rightarrow> reference_kind \<Rightarrow> reference_error + reference" where
  "check_reference registry repo kind =
     (if \<exists>c\<in>set repo. is_upper c then Inl (NotLowercase repo)
      else bindE (checkAll validate_path_component (split_on CHR ''/'' repo)) (\<lambda>_.
        bindE (case kind of RefTag t \<Rightarrow> validate_tag t | RefDigest _ \<Rightarrow> Inr ()) (\<lambda>_.
          Inr \<lparr>ref_registry = registry, ref_repo = repo, ref_kind = kind\<rparr>)))"

definition reference_from_str :: "hexlib \<Rightarrow> string \<Rightarrow> reference_error + reference" where
  "reference_from_str H s =
     (if s = [] then Inl RefEmpty
      else if starts_with ''/'' s \<or> starts_with [CHR 0x5C] s then Inl EmptySegment
      else bindE (split_digest H s) (\<lambda>(before_digest, digest_kind).
        let (before_tag, tag_kind) =
              (if digest_kind = None then split_tag before_digest else (before_digest, None));
            kind = (case digest_kind of Some k \<Rightarrow> k
                    | None \<Rightarrow> (case tag_kind of Some k \<Rightarrow> k | None \<Rightarrow> RefTag ''latest''));
            (registry, repo) = split_registry before_tag
        in check_reference registry repo kind))"

definition reference_display :: "hexlib \<Rightarrow> reference \<Rightarrow> string" where
  "reference_display H r =
     (case ref_kind r of
        RefTag tag \<Rightarrow> ref_registry r @ ''/'' @ ref_repo r @ '':'' @ tag
      | RefDigest digest \<Rightarrow> ref_registry r @ ''/'' @ ref_repo r @ ''@'' @ digest_display H digest)"

section \<open>What the parser guarantees\<close>

definition repo_ok :: "string \<Rightarrow> bool" where
  "repo_ok repo \<longleftrightarrow> (\<forall>c\<in>set repo. \<not> is_upper c) \<and>
     (\<forall>p\<in>set (split_on CHR ''/'' repo).
        p \<noteq> [] \<and> p \<noteq> ''.'' \<and> p \<noteq> ''..'' \<and> CHR 0x00 \<notin> set p \<and> CHR 0x5C \<notin> set p)"

definition tag_ok :: "string \<Rightarrow> bool" where
  "tag_ok t \<longleftrightarrow> t \<noteq> [] \<and> length t \<le> 128 \<and> (is_alphanumeric (hd t) \<or> hd t = CHR ''_'') \<and>
     list_all tag_char t"

text \<open>
  The shape of a parsed reference: the registry is one component that looks
  like a registry, the repository has neither an at sign nor, under a tag, a
  colon in its last component.
\<close>

definition reference_wf :: "reference \<Rightarrow> bool" where
  "reference_wf r \<longleftrightarrow>
     looks_like_registry (ref_registry r) \<and> hd (ref_registry r) \<noteq> CHR 0x5C \<and>
     CHR ''/'' \<notin> set (ref_registry r) \<and> CHR ''@'' \<notin> set (ref_registry r) \<and>
     repo_ok (ref_repo r) \<and> CHR ''@'' \<notin> set (ref_repo r) \<and>
     (case ref_kind r of
        RefTag t \<Rightarrow> tag_ok t \<and> CHR '':'' \<notin> set (last (split_on CHR ''/'' (ref_repo r)))
      | RefDigest d \<Rightarrow> digest_wf d)"

lemma validate_path_component_ok [simp]:
  "validate_path_component c = Inr u \<longleftrightarrow>
     c \<noteq> [] \<and> c \<noteq> ''.'' \<and> c \<noteq> ''..'' \<and> CHR 0x00 \<notin> set c \<and> CHR 0x5C \<notin> set c"
  by (simp add: validate_path_component_def)

lemma validate_tag_ok: "validate_tag t = Inr u \<longleftrightarrow> tag_ok t"
proof (cases t)
  case (Cons c cs)
  then show ?thesis
    by (auto simp: validate_tag_def tag_ok_def checkAll_Inr_iff tag_char_def list_all_iff
        split: if_splits)
qed (simp add: validate_tag_def tag_ok_def)

lemma check_reference_ok:
  "check_reference g p k = Inr r \<longleftrightarrow>
     r = \<lparr>ref_registry = g, ref_repo = p, ref_kind = k\<rparr> \<and> repo_ok p \<and>
     (case k of RefTag t \<Rightarrow> tag_ok t | RefDigest _ \<Rightarrow> True)"
  by (auto simp: check_reference_def bindE_Inr_iff checkAll_Inr_iff repo_ok_def validate_tag_ok
      split: reference_kind.splits)

lemma tag_ok_chars: "tag_ok t \<Longrightarrow> CHR ''/'' \<notin> set t \<and> CHR ''@'' \<notin> set t"
  by (auto simp: tag_ok_def tag_char_def list_all_iff is_alphanumeric_def is_digit_def is_lower_def
      is_upper_def chr_code_def)

lemma looks_like_registry_not_Nil: "looks_like_registry g \<Longrightarrow> g \<noteq> []"
  by (auto simp: looks_like_registry_def)

lemma split_registry_display:
  "looks_like_registry g \<Longrightarrow> CHR ''/'' \<notin> set g \<Longrightarrow> split_registry (g @ ''/'' @ p) = (g, p)"
  by (simp add: split_registry_def str_find_append)

text \<open>The last component of a text and where it starts.\<close>

definition component_prefix :: "string \<Rightarrow> bool" where
  "component_prefix x \<longleftrightarrow> x = [] \<or> (\<exists>a. x = a @ ''/'')"

lemma last_componentE:
  obtains x b where "p = x @ b" "component_prefix x" "CHR ''/'' \<notin> set b"
    "last (split_on CHR ''/'' p) = b"
proof (cases "CHR ''/'' \<in> set p")
  case True
  then obtain a b where ab: "p = a @ CHR ''/'' # b" "CHR ''/'' \<notin> set b"
    by (meson split_list_last)
  then have "p = (a @ ''/'') @ b" "component_prefix (a @ ''/'')"
    "last (split_on CHR ''/'' p) = b"
    by (auto simp: split_on_append_gen split_on_no_sep component_prefix_def)
  with ab(2) show thesis using that by blast
next
  case False
  then show thesis using that [of "[]" p] by (simp add: split_on_no_sep component_prefix_def)
qed

lemma last_component_append:
  "component_prefix x \<Longrightarrow> CHR ''/'' \<notin> set b \<Longrightarrow> last (split_on CHR ''/'' (x @ b)) = b"
  by (auto simp: component_prefix_def split_on_append_gen split_on_no_sep)

lemma search_from_append:
  "component_prefix x \<Longrightarrow> CHR ''/'' \<notin> set w \<Longrightarrow>
     (case str_rfind CHR ''/'' (x @ w) of None \<Rightarrow> 0 | Some p \<Rightarrow> p + 1) = length x"
  by (auto simp: component_prefix_def str_rfind_append split: option.split)

lemma split_tag_colon:
  assumes "component_prefix x" "CHR ''/'' \<notin> set b" "CHR ''/'' \<notin> set t" "CHR '':'' \<notin> set b"
  shows "split_tag (x @ b @ '':'' @ t) = (x @ b, Some (RefTag t))"
proof -
  have "(case str_rfind CHR ''/'' (x @ b @ '':'' @ t) of None \<Rightarrow> 0 | Some p \<Rightarrow> p + 1) = length x"
    using assms by (intro search_from_append) auto
  moreover have "str_find CHR '':'' (b @ CHR '':'' # t) = Some (length b)"
    using assms by (simp add: str_find_append)
  ultimately show ?thesis unfolding split_tag_def Let_def by simp
qed

lemma split_tag_plain:
  assumes "component_prefix x" "CHR ''/'' \<notin> set b" "CHR '':'' \<notin> set b"
  shows "split_tag (x @ b) = (x @ b, None)"
proof -
  show ?thesis
    using assms(3) unfolding split_tag_def Let_def search_from_append [OF assms(1,2)] by simp
qed

lemma split_tag_display:
  assumes "CHR '':'' \<notin> set (last (split_on CHR ''/'' p))" "CHR ''/'' \<notin> set t"
  shows "split_tag (g @ ''/'' @ p @ '':'' @ t) = (g @ ''/'' @ p, Some (RefTag t))"
proof -
  obtain x b where x: "p = x @ b" "component_prefix x" "CHR ''/'' \<notin> set b"
    "last (split_on CHR ''/'' p) = b"
    by (rule last_componentE)
  then have "component_prefix (g @ ''/'' @ x)"
    by (auto simp: component_prefix_def)
  from split_tag_colon [OF this x(3) assms(2)] x assms show ?thesis by simp
qed

lemma split_tag_cases:
  assumes "split_tag s = (b, k)"
  shows "(k = None \<and> b = s \<or> (\<exists>t. k = Some (RefTag t) \<and> s = b @ '':'' @ t \<and> CHR ''/'' \<notin> set t)) \<and>
    CHR '':'' \<notin> set (last (split_on CHR ''/'' b))"
proof -
  obtain x w where x: "s = x @ w" "component_prefix x" "CHR ''/'' \<notin> set w"
    "last (split_on CHR ''/'' s) = w"
    by (rule last_componentE)
  show ?thesis
  proof (cases "CHR '':'' \<in> set w")
    case True
    then obtain u v where uv: "w = u @ CHR '':'' # v" "CHR '':'' \<notin> set u"
      by (meson split_list_first)
    with x have "split_tag s = (x @ u, Some (RefTag v))"
      using split_tag_colon [of x u v] by simp
    with assms uv x show ?thesis by (auto simp: last_component_append)
  next
    case False
    with x have "split_tag s = (s, None)" using split_tag_plain by simp
    with assms x False show ?thesis by auto
  qed
qed

lemma split_registry_cases:
  assumes "split_registry s = (g, p)"
  shows "s = g @ ''/'' @ p \<and> looks_like_registry g \<and> CHR ''/'' \<notin> set g \<or>
     g = ''docker.io'' \<and> (p = s \<or> p = ''library/'' @ s \<and> CHR ''/'' \<notin> set s)"
proof (cases "str_find CHR ''/'' s")
  case None
  with assms show ?thesis by (auto simp: split_registry_def str_find_None)
next
  case (Some i)
  then obtain a b where "s = a @ CHR ''/'' # b" "CHR ''/'' \<notin> set a" "i = length a"
    by (rule str_find_SomeE)
  with Some assms show ?thesis by (auto simp: split_registry_def Let_def split: if_splits)
qed

text \<open>The first steps of the parser: the selector, the name before it, the split name.\<close>

lemma reference_from_strE:
  assumes "reference_from_str H s = Inr r"
  obtains name k where
    "s \<noteq> []" "hd s \<noteq> CHR ''/''" "hd s \<noteq> CHR 0x5C"
    "split_registry name = (ref_registry r, ref_repo r)" "ref_kind r = k"
    "repo_ok (ref_repo r)" "CHR ''@'' \<notin> set name"
    "set name \<subseteq> set s" "name = [] \<or> hd name = hd s"
    "case k of RefTag t \<Rightarrow> tag_ok t \<and> CHR '':'' \<notin> set (last (split_on CHR ''/'' name))
     | RefDigest d \<Rightarrow> \<exists>x. digest_from_str H x = Inr d"
proof -
  from assms have s: "s \<noteq> []" "hd s \<noteq> CHR ''/''" "hd s \<noteq> CHR 0x5C"
    by (cases s; auto simp: reference_from_str_def starts_with_def split: if_splits)+
  show thesis
  proof (cases "str_find CHR ''@'' s")
    case None
    obtain name tk where n: "split_tag s = (name, tk)" by (cases "split_tag s")
    obtain g p where g: "split_registry name = (g, p)" by (cases "split_registry name")
    let ?k = "case tk of Some k \<Rightarrow> k | None \<Rightarrow> RefTag ''latest''"
    from assms s None n g have "check_reference g p ?k = Inr r"
      by (cases s) (auto simp: reference_from_str_def split_digest_def starts_with_def)
    moreover from n have "\<exists>t. ?k = RefTag t" by (auto dest: split_tag_cases)
    moreover have "set name \<subseteq> set s" "name = [] \<or> hd name = hd s" "CHR ''@'' \<notin> set name"
      "CHR '':'' \<notin> set (last (split_on CHR ''/'' name))"
      using split_tag_cases [OF n] None by (cases name; auto simp: str_find_None)+
    ultimately show thesis
      using that [of name ?k] s g by (auto simp: check_reference_ok)
  next
    case (Some i)
    then obtain a b where ab: "s = a @ CHR ''@'' # b" "CHR ''@'' \<notin> set a" "i = length a"
      by (rule str_find_SomeE)
    obtain g p where g: "split_registry a = (g, p)" by (cases "split_registry a")
    from assms s Some ab g obtain d where d: "digest_from_str H b = Inr d"
      "check_reference g p (RefDigest d) = Inr r"
      by (cases s) (auto simp: reference_from_str_def split_digest_def starts_with_def
          bindE_Inr_iff split: sum.splits if_splits)
    have "set a \<subseteq> set s" "a = [] \<or> hd a = hd s" using ab by (cases a; auto)+
    then show thesis
      using that [of a "RefDigest d"] s g d ab(2) by (auto simp: check_reference_ok)
  qed
qed

lemma reference_from_str_wf:
  assumes "reference_from_str H s = Inr r" "hex_laws H"
  shows "reference_wf r"
proof -
  from assms(1) obtain name k where n:
    "s \<noteq> []" "hd s \<noteq> CHR ''/''" "hd s \<noteq> CHR 0x5C"
    "split_registry name = (ref_registry r, ref_repo r)" "ref_kind r = k"
    "repo_ok (ref_repo r)" "CHR ''@'' \<notin> set name"
    "name = [] \<or> hd name = hd s"
    "case k of RefTag t \<Rightarrow> tag_ok t \<and> CHR '':'' \<notin> set (last (split_on CHR ''/'' name))
     | RefDigest d \<Rightarrow> \<exists>x. digest_from_str H x = Inr d"
    by (rule reference_from_strE)
  from split_registry_cases [OF n(4)] have "looks_like_registry (ref_registry r)"
    "CHR ''/'' \<notin> set (ref_registry r)" "CHR ''@'' \<notin> set (ref_registry r)"
    "CHR ''@'' \<notin> set (ref_repo r)" "hd (ref_registry r) \<noteq> CHR 0x5C"
    using n by (auto simp: looks_like_registry_def hd_append split: if_splits)
  moreover from split_registry_cases [OF n(4)]
  have "last (split_on CHR ''/'' (ref_repo r)) = last (split_on CHR ''/'' name)"
    using split_on_append_gen [of "CHR ''/''" "''library''" name]
    by (auto simp: split_on_append_gen)
  ultimately show ?thesis
    using n assms(2) digest_from_str_wf
    by (cases k) (auto simp: reference_wf_def)
qed

lemma reference_from_display:
  assumes "reference_wf r" "hex_laws H"
  shows "reference_from_str H (reference_display H r) = Inr r"
proof -
  let ?g = "ref_registry r" and ?p = "ref_repo r" and ?s = "reference_display H r"
  from assms have wf: "looks_like_registry ?g" "CHR ''/'' \<notin> set ?g" "CHR ''@'' \<notin> set ?g"
    "CHR ''@'' \<notin> set ?p" "hd ?g \<noteq> CHR 0x5C" "repo_ok ?p"
    by (simp_all add: reference_wf_def)
  then have g: "?g \<noteq> []" "hd ?g \<noteq> CHR ''/''"
    by (auto simp: looks_like_registry_not_Nil dest: list.set_sel(1))
      (metis list.set_sel(1) looks_like_registry_not_Nil)
  have starts: "\<not> (starts_with ''/'' ?s \<or> starts_with [CHR 0x5C] ?s)" "?s \<noteq> []"
    using g wf by (cases "?g"; auto simp: reference_display_def starts_with_def split: reference_kind.splits)+
  have reg: "split_registry (?g @ ''/'' @ ?p) = (?g, ?p)"
    using wf by (intro split_registry_display)
  show ?thesis
  proof (cases "ref_kind r")
    case (RefTag t)
    with assms have t: "tag_ok t" "CHR '':'' \<notin> set (last (split_on CHR ''/'' ?p))"
      by (simp_all add: reference_wf_def)
    have s: "?s = ?g @ ''/'' @ ?p @ '':'' @ t" using RefTag by (simp add: reference_display_def)
    have "split_digest H ?s = Inr (?s, None)"
      using wf tag_ok_chars [OF t(1)] by (simp add: s split_digest_def)
    moreover have "split_tag ?s = (?g @ ''/'' @ ?p, Some (RefTag t))"
      unfolding s using t tag_ok_chars by (intro split_tag_display) auto
    ultimately have "reference_from_str H ?s = check_reference ?g ?p (RefTag t)"
      using starts reg by (simp add: reference_from_str_def)
    then show ?thesis using wf t RefTag by (simp add: check_reference_ok)
  next
    case (RefDigest d)
    with assms have d: "digest_wf d" by (simp add: reference_wf_def)
    have s: "?s = (?g @ ''/'' @ ?p) @ CHR ''@'' # digest_display H d"
      using RefDigest by (simp add: reference_display_def)
    have "str_find CHR ''@'' ?s = Some (length (?g @ ''/'' @ ?p))"
      unfolding s using wf by (intro str_find_append) auto
    then have "split_digest H ?s = Inr (?g @ ''/'' @ ?p, Some (RefDigest d))"
      using digest_from_display [OF assms(2) d] by (simp add: split_digest_def s)
    then have "reference_from_str H ?s = check_reference ?g ?p (RefDigest d)"
      using starts reg by (simp add: reference_from_str_def)
    then show ?thesis using wf RefDigest by (simp add: check_reference_ok)
  qed
qed

sublocale hex_crate \<subseteq> reference_text: sound_codec reference_wf "reference_display H" "reference_from_str H"
  using laws by unfold_locales (auto intro: reference_from_display reference_from_str_wf)

text \<open>
  The canonical form of an image reference is a fixed point of the parser.
  Whatever shorthand a user wrote, if it parses then the fully qualified text
  of the result parses back to the same reference; its registry is one
  component that looks like a host, and no component of its repository is
  empty, a dot, two dots or holds a NUL or a backslash, so that paths composed
  of them stay below the directory they start from.
\<close>

theorem reference_reparse:
  assumes "hex_laws H" "reference_from_str H s = Inr r"
  shows "reference_from_str H (reference_display H r) = Inr r \<and> reference_wf r"
  using reference_from_str_wf [OF assms(2,1)] reference_from_display [OF _ assms(1)] by blast

theorem reference_reparse_witness:
  "reference_from_str hex_ref (reference_display hex_ref
     \<lparr>ref_registry = ''docker.io'', ref_repo = ''library/alpine'', ref_kind = RefTag ''3''\<rparr>) =
   Inr \<lparr>ref_registry = ''docker.io'', ref_repo = ''library/alpine'', ref_kind = RefTag ''3''\<rparr>"
proof -
  have "reference_from_str hex_ref ''alpine:3'' =
      Inr \<lparr>ref_registry = ''docker.io'', ref_repo = ''library/alpine'', ref_kind = RefTag ''3''\<rparr>"
    by code_simp
  from reference_reparse [OF hex_ref_laws this] show ?thesis by blast
qed

text \<open>
  A tag before a digest is not split off: it stays in the repository.
\<close>

lemma reference_tag_and_digest:
  assumes "hex_laws H" "digest_from_str H x = Inr d"
  shows "reference_from_str H (''alpine:3@'' @ x) =
     Inr \<lparr>ref_registry = ''docker.io'', ref_repo = ''library/alpine:3'', ref_kind = RefDigest d\<rparr>"
proof -
  have "split_registry ''alpine:3'' = (''docker.io'', ''library/alpine:3'')" by code_simp
  moreover have "check_reference ''docker.io'' ''library/alpine:3'' (RefDigest d) =
     Inr \<lparr>ref_registry = ''docker.io'', ref_repo = ''library/alpine:3'', ref_kind = RefDigest d\<rparr>"
  proof -
    have "repo_ok ''library/alpine:3''" by code_simp
    then show ?thesis by (simp add: check_reference_ok)
  qed
  ultimately show ?thesis
    using assms by (simp add: reference_from_str_def split_digest_def starts_with_def)
qed

end
