(* ===== verification/Plan_Names.thy ===== *)
theory Plan_Names
  imports Prelude
begin

text \<open>
  The validated names and numbers of a plan: boot configuration keys
  (\<open>plan/boot_config/key.rs\<close>), stage names (\<open>plan/stage_ref.rs\<close>), paths inside an
  image (\<open>plan/image_path.rs\<close>) and capacities (\<open>plan/filesystem_size.rs\<close>).  The
  text constructors are the only way to make such a value.
\<close>

section \<open>Boot configuration keys\<close>

datatype key = Key (key_text: string)

definition key_part_ok :: "string \<Rightarrow> bool" where
  "key_part_ok part \<longleftrightarrow> part \<noteq> [] \<and>
     list_all (\<lambda>b. is_alphanumeric b \<or> b = CHR ''-'' \<or> b = CHR ''_'') part"

definition key_valid :: "string \<Rightarrow> bool" where
  "key_valid value \<longleftrightarrow> length value < 256 \<and> length (split_on CHR ''.'' value) \<le> 16 \<and>
     list_all key_part_ok (split_on CHR ''.'' value)"

definition key_new :: "string \<Rightarrow> key option" where
  "key_new value = (if key_valid value then Some (Key value) else None)"

definition key_deserialize :: "string \<Rightarrow> string + key" where
  "key_deserialize s =
     okOr ''expected a boot configuration key with nonempty dot-separated names'' (key_new s)"

interpretation key_string: validated_string key_new key_text
  by unfold_locales (auto simp: key_new_def split: if_splits)

section \<open>Stage names\<close>

datatype stage_ref = StageRef (stage_text: string)

definition stage_char :: "char \<Rightarrow> bool" where
  "stage_char b \<longleftrightarrow> is_alphanumeric b \<or> b = CHR ''_'' \<or> b = CHR ''.'' \<or> b = CHR ''-''"

definition stage_ref_new :: "string \<Rightarrow> stage_ref option" where
  "stage_ref_new value =
     (if value \<noteq> [] \<and> value \<noteq> ''.'' \<and> value \<noteq> ''..'' \<and> list_all stage_char value
      then Some (StageRef value) else None)"

definition stage_ref_deserialize :: "string \<Rightarrow> string + stage_ref" where
  "stage_ref_deserialize s = okOr ''expected a bare local stage name'' (stage_ref_new s)"

interpretation stage_string: validated_string stage_ref_new stage_text
  by unfold_locales (auto simp: stage_ref_new_def split: if_splits)

instantiation stage_ref :: linorder
begin

definition less_eq_stage_ref :: "stage_ref \<Rightarrow> stage_ref \<Rightarrow> bool" where
  "less_eq_stage_ref a b \<longleftrightarrow> stage_text a \<le> stage_text b"

definition less_stage_ref :: "stage_ref \<Rightarrow> stage_ref \<Rightarrow> bool" where
  "less_stage_ref a b \<longleftrightarrow> stage_text a < stage_text b"

instance
  by standard (auto simp: less_eq_stage_ref_def less_stage_ref_def stage_ref.expand)

end

lemma stage_ref_new_no_slash:
  "stage_ref_new s = Some r \<Longrightarrow> CHR ''/'' \<notin> set s \<and> CHR ''@'' \<notin> set s \<and> CHR '':'' \<notin> set s"
  by (auto simp: stage_ref_new_def list_all_iff stage_char_def is_alphanumeric_def is_digit_def
      is_lower_def is_upper_def chr_code_def split: if_splits)

section \<open>Paths inside an image\<close>

datatype image_path = ImagePath (path_text: string)

definition image_path_new :: "string \<Rightarrow> image_path option" where
  "image_path_new value =
     (if value \<noteq> [] \<and> CHR 0x00 \<notin> set value \<and> ''..'' \<notin> set (split_on CHR ''/'' value)
      then Some (ImagePath value) else None)"

definition image_path_deserialize :: "string \<Rightarrow> string + image_path" where
  "image_path_deserialize s = okOr ''expected a nonempty confined image path'' (image_path_new s)"

text \<open>The parts of a path that name something.\<close>

definition path_parts :: "string \<Rightarrow> string list" where
  "path_parts s = filter (\<lambda>part. part \<noteq> [] \<and> part \<noteq> ''.'') (split_on CHR ''/'' s)"

definition normalized :: "image_path \<Rightarrow> string" where
  "normalized p = ''/'' @ join_with CHR ''/'' (path_parts (path_text p))"

interpretation path_string: validated_string image_path_new path_text
  by unfold_locales (auto simp: image_path_new_def split: if_splits)

instantiation image_path :: linorder
begin

definition less_eq_image_path :: "image_path \<Rightarrow> image_path \<Rightarrow> bool" where
  "less_eq_image_path a b \<longleftrightarrow> path_text a \<le> path_text b"

definition less_image_path :: "image_path \<Rightarrow> image_path \<Rightarrow> bool" where
  "less_image_path a b \<longleftrightarrow> path_text a < path_text b"

instance
  by standard (auto simp: less_eq_image_path_def less_image_path_def image_path.expand)

end

lemma path_parts_no_slash: "p \<in> set (path_parts s) \<Longrightarrow> CHR ''/'' \<notin> set p"
  by (auto simp: path_parts_def dest: split_on_parts)

lemma split_on_cons_sep: "split_on c (c # s) = [] # split_on c s"
  by simp

lemma path_parts_normalized: "path_parts (normalized p) = path_parts (path_text p)"
proof (cases "path_parts (path_text p) = []")
  case True
  then show ?thesis by (simp add: normalized_def path_parts_def)
next
  case False
  then have "split_on CHR ''/'' (join_with CHR ''/'' (path_parts (path_text p))) =
      path_parts (path_text p)"
    by (intro split_join) (auto dest: path_parts_no_slash)
  then show ?thesis
    by (simp add: normalized_def) (simp add: path_parts_def)
qed

lemma normalized_idem: "normalized (ImagePath (normalized p)) = normalized p"
  using path_parts_normalized [of p] by (simp add: normalized_def)

lemma normalized_eq_iff:
  "normalized p = normalized q \<longleftrightarrow> path_parts (path_text p) = path_parts (path_text q)"
  using path_parts_normalized by (metis normalized_def)

lemma image_path_confined:
  assumes "image_path_new s = Some p"
  shows "''..'' \<notin> set (path_parts (path_text p)) \<and> image_path_new (normalized p) \<noteq> None"
proof -
  from assms have s: "path_text p = s" "''..'' \<notin> set (split_on CHR ''/'' s)" "CHR 0x00 \<notin> set s"
    by (auto simp: image_path_new_def split: if_splits)
  have "set (normalized p) \<subseteq> set ''/'' \<union> set s"
  proof -
    have "set (join_with CHR ''/'' ps) \<subseteq> set ''/'' \<union> \<Union> (set ` set ps)" for ps
      by (induction "CHR ''/''" ps rule: join_with.induct) auto
    then show ?thesis
      using s split_on_subset unfolding normalized_def path_parts_def by fastforce
  qed
  then have "CHR 0x00 \<notin> set (normalized p)" using s by auto
  moreover have "''..'' \<notin> set (path_parts (normalized p))"
    using s by (simp add: path_parts_normalized) (simp add: path_parts_def)
  then have "''..'' \<notin> set (split_on CHR ''/'' (normalized p))"
    by (auto simp: path_parts_def)
  ultimately show ?thesis
    using s by (auto simp: image_path_new_def path_parts_def normalized_def)
qed

section \<open>Capacities\<close>

text \<open>A non-zero number of MiB that fits 32 bits.\<close>

datatype filesystem_size = FilesystemSize (size_mib: u32)

definition filesystem_size_new :: "u32 \<Rightarrow> filesystem_size option" where
  "filesystem_size_new mib = (if mib \<noteq> 0 then Some (FilesystemSize mib) else None)"

definition size_bytes :: "filesystem_size \<Rightarrow> u64" where
  "size_bytes s = push_bit 20 (ucast (size_mib s))"

definition size_blocks :: "filesystem_size \<Rightarrow> u64" where
  "size_blocks s = size_bytes s div 4096"

definition filesystem_size_default :: filesystem_size where
  "filesystem_size_default = FilesystemSize (256 * 1024)"

definition size_serialize :: "filesystem_size \<Rightarrow> string" where
  "size_serialize s =
     (let mib = unat (size_mib s) in
      if mib mod (1024 * 1024) = 0 then show_dec (mib div (1024 * 1024)) @ ''TiB''
      else if mib mod 1024 = 0 then show_dec (mib div 1024) @ ''GiB''
      else show_dec mib @ ''MiB'')"

definition size_with_unit :: "string \<Rightarrow> string \<Rightarrow> nat \<Rightarrow> filesystem_size option" where
  "size_with_unit text unit factor =
     (case strip_suffix unit text of None \<Rightarrow> None
      | Some number \<Rightarrow>
          if number \<noteq> [] \<and> list_all is_digit number then
            (case parse_uint u32_max number of None \<Rightarrow> None
             | Some n \<Rightarrow> (case checked_mul u32_max n factor of None \<Rightarrow> None
               | Some m \<Rightarrow> filesystem_size_new (word_of_nat m)))
          else None)"

fun first_unit :: "string \<Rightarrow> (string \<times> nat) list \<Rightarrow> filesystem_size option" where
  "first_unit text [] = None"
| "first_unit text ((unit, factor) # us) =
     (case size_with_unit text unit factor of Some n \<Rightarrow> Some n | None \<Rightarrow> first_unit text us)"

definition size_deserialize :: "string \<Rightarrow> string + filesystem_size" where
  "size_deserialize text =
     okOr ''expected a positive whole MiB, GiB or TiB capacity fitting u32 MiB''
       (first_unit text [(''MiB'', 1), (''GiB'', 1024), (''TiB'', 1024 * 1024)])"

definition size_wf :: "filesystem_size \<Rightarrow> bool" where
  "size_wf s \<longleftrightarrow> size_mib s \<noteq> 0"

lemma unat_u32: "unat (w :: u32) < 2 ^ 32"
  using unsigned_less [where 'a = nat and w = w] by simp

lemma size_bytes_unat: "unat (size_bytes s) = unat (size_mib s) * 2 ^ 20"
proof -
  have "unat (ucast (size_mib s) :: u64) = unat (size_mib s)"
    using unat_u32 [of "size_mib s"] by (simp add: unsigned_ucast_eq take_bit_nat_eq_self)
  moreover have "size_bytes s = ucast (size_mib s) * 1048576"
    by (simp add: size_bytes_def push_bit_eq_mult)
  moreover have "unat (size_mib s) * unat (1048576 :: u64) < 2 ^ 64"
    using unat_u32 [of "size_mib s"] by simp
  ultimately show ?thesis
    using unat_mult_lem [of "ucast (size_mib s) :: u64" "1048576"] by simp
qed

lemma size_blocks_unat: "unat (size_blocks s) = unat (size_mib s) * 256"
  by (simp add: size_blocks_def unat_div_distrib size_bytes_unat)

lemma strip_suffix_other:
  "length p = length q \<Longrightarrow> p \<noteq> q \<Longrightarrow> strip_suffix p (x @ q) = None"
  by (auto simp: strip_suffix_def ends_with_iff)

lemma strip_suffix_same [simp]: "strip_suffix p (x @ p) = Some x"
  by simp

lemma size_with_unit_show:
  assumes "n * f \<le> u32_max" "0 < n * f"
  shows "size_with_unit (show_dec n @ u) u f = Some (FilesystemSize (word_of_nat (n * f)))"
proof -
  have "n \<le> u32_max" using assms by (cases f) auto
  moreover have "(word_of_nat (n * f) :: u32) \<noteq> 0"
    using assms by (simp add: word_of_nat_eq_0_iff u32_max_def dvd_imp_le nat_dvd_not_less del: of_nat_mult)
  ultimately show ?thesis
    using assms
    by (simp add: size_with_unit_def parse_uint_show checked_mul_def filesystem_size_new_def
        del: of_nat_mult)
qed

lemma size_with_unit_unat:
  assumes "n * f = unat m" "m \<noteq> 0"
  shows "size_with_unit (show_dec n @ u) u f = Some (FilesystemSize m)"
  using size_with_unit_show [of n f u] assms unat_u32 [of m]
  by (simp add: u32_max_def unat_gt_0 del: of_nat_mult)

lemma size_with_unit_other:
  "length u = length v \<Longrightarrow> u \<noteq> v \<Longrightarrow> size_with_unit (x @ v) u f = None"
  by (simp add: size_with_unit_def strip_suffix_other)

lemma size_deserialize_serialize:
  assumes "size_wf s"
  shows "size_deserialize (size_serialize s) = Inr s"
proof -
  let ?m = "unat (size_mib s)"
  have m: "size_mib s \<noteq> 0" using assms by (simp add: size_wf_def)
  consider (t) "?m mod (1024 * 1024) = 0" | (g) "?m mod (1024 * 1024) \<noteq> 0" "?m mod 1024 = 0"
    | (n) "?m mod (1024 * 1024) \<noteq> 0" "?m mod 1024 \<noteq> 0" by blast
  then show ?thesis
  proof cases
    case t
    then have "?m div (1024 * 1024) * (1024 * 1024) = ?m" by (auto intro: dvd_div_mult_self)
    with size_with_unit_unat [OF this m] t show ?thesis
      by (simp add: size_serialize_def size_deserialize_def size_with_unit_other)
  next
    case g
    then have "?m div 1024 * 1024 = ?m" by (auto intro: dvd_div_mult_self)
    with size_with_unit_unat [OF this m] g show ?thesis
      by (simp add: size_serialize_def size_deserialize_def size_with_unit_other)
  next
    case n
    with size_with_unit_unat [of ?m 1, OF _ m] show ?thesis
      by (simp add: size_serialize_def size_deserialize_def)
  qed
qed

lemma size_with_unitD:
  "size_with_unit t u f = Some z \<Longrightarrow>
     \<exists>n. t = n @ u \<and> n \<noteq> [] \<and> list_all is_digit n \<and> unat (size_mib z) = dec_value n * f \<and> size_wf z"
  by (auto simp: size_with_unit_def filesystem_size_new_def size_wf_def parse_uint_digits
      unsigned_of_nat take_bit_nat_eq_self u32_max_def simp del: of_nat_mult
      split: option.splits if_splits)

lemma size_deserializeD:
  assumes "size_deserialize t = Inr z"
  shows "size_wf z \<and> (\<exists>n u f. (u, f) \<in> {(''MiB'', 1), (''GiB'', 1024), (''TiB'', 1024 * 1024)} \<and>
     t = n @ u \<and> n \<noteq> [] \<and> list_all is_digit n \<and> unat (size_mib z) = dec_value n * f)"
proof -
  from assms obtain u f where "(u, f) \<in> {(''MiB'', 1), (''GiB'', 1024), (''TiB'', 1024 * 1024)}"
    "size_with_unit t u f = Some z"
    by (auto simp: size_deserialize_def split: option.splits)
  with size_with_unitD [of t u f z] show ?thesis by blast
qed

interpretation size_text: sound_codec size_wf size_serialize size_deserialize
  by unfold_locales (auto simp: size_deserialize_serialize dest: size_deserializeD)

text \<open>
  Capacities are read and written without loss.  Every capacity survives
  its text; a text is accepted only as digits and a unit whose product with
  the unit is a non-zero number of MiB of 32 bits, which is the capacity; and
  the byte and block counts of a capacity are exact, with no wrap-around.
\<close>

theorem capacity_roundtrip:
  assumes "size_deserialize t = Inr z"
  shows "size_deserialize (size_serialize z) = Inr z \<and> size_mib z \<noteq> 0 \<and>
    unat (size_bytes z) = unat (size_mib z) * 2 ^ 20 \<and>
    unat (size_blocks z) * 4096 = unat (size_bytes z) \<and>
    (\<exists>n u f. (u, f) \<in> {(''MiB'', 1), (''GiB'', 1024), (''TiB'', 1024 * 1024)} \<and>
       t = n @ u \<and> list_all is_digit n \<and> unat (size_mib z) = dec_value n * f)"
proof (intro conjI)
  show "size_deserialize (size_serialize z) = Inr z"
    using assms by (rule size_text.reparse)
  show "size_mib z \<noteq> 0" using assms size_deserializeD size_wf_def by blast
  show "unat (size_bytes z) = unat (size_mib z) * 2 ^ 20" by (rule size_bytes_unat)
  show "unat (size_blocks z) * 4096 = unat (size_bytes z)"
    by (simp add: size_blocks_unat size_bytes_unat)
qed (use size_deserializeD [OF assms] in blast)

theorem capacity_roundtrip_witness:
  "size_deserialize ''2048GiB'' = Inr (FilesystemSize 2097152) \<and>
   size_serialize (FilesystemSize 2097152) = ''2TiB'' \<and>
   unat (size_bytes (FilesystemSize 2097152)) = 2097152 * 2 ^ 20"
proof -
  have "size_deserialize ''2048GiB'' = Inr (FilesystemSize 2097152)" by code_simp
  moreover have "size_serialize (FilesystemSize 2097152) = ''2TiB''" by code_simp
  ultimately show ?thesis using capacity_roundtrip [of "''2048GiB''" "FilesystemSize 2097152"] by simp
qed

end
