(* ===== verification/Std_Net.thy ===== *)
theory Std_Net
  imports Prelude
begin

text \<open>
  Textual IP addresses as the standard library of the source language reads
  them (\<open>str::parse::<Ipv4Addr>\<close>, \<open>str::parse::<Ipv6Addr>\<close>): a reader takes a
  text and returns its value and the rest of the text, or nothing.
\<close>

type_synonym 'a reader = "string \<Rightarrow> ('a \<times> string) option"

definition hex_digit_char :: "char \<Rightarrow> bool" where
  "hex_digit_char c \<longleftrightarrow> is_digit c \<or> (97 \<le> chr_code c \<and> chr_code c \<le> 102) \<or>
     (65 \<le> chr_code c \<and> chr_code c \<le> 70)"

definition hex_digit_value :: "char \<Rightarrow> nat" where
  "hex_digit_value c =
     (if is_digit c then chr_code c - 48
      else if 97 \<le> chr_code c then chr_code c - 87 else chr_code c - 55)"

definition read_given_char :: "char \<Rightarrow> string \<Rightarrow> string option" where
  "read_given_char c s = (case s of [] \<Rightarrow> None | x # r \<Rightarrow> if x = c then Some r else None)"

definition read_separator :: "char \<Rightarrow> nat \<Rightarrow> 'a reader \<Rightarrow> 'a reader" where
  "read_separator sep i inner s =
     (if i = 0 then inner s
      else (case read_given_char sep s of None \<Rightarrow> None | Some r \<Rightarrow> inner r))"

definition read_decimal_byte :: "nat reader" where
  "read_decimal_byte s =
     (let ds = takeWhile is_digit s in
      if ds = [] \<or> 3 < length ds \<or> (hd ds = CHR ''0'' \<and> 1 < length ds) \<or> 255 < dec_value ds
      then None else Some (dec_value ds, dropWhile is_digit s))"

definition read_hex_group :: "nat reader" where
  "read_hex_group s =
     (let ds = takeWhile hex_digit_char s in
      if ds = [] \<or> 4 < length ds then None
      else Some (foldl (\<lambda>n c. 16 * n + hex_digit_value c) 0 ds, dropWhile hex_digit_char s))"

fun read_bytes4 :: "nat \<Rightarrow> nat \<Rightarrow> nat list reader" where
  "read_bytes4 0 i s = Some ([], s)"
| "read_bytes4 (Suc n) i s =
     (case read_separator CHR ''.'' i read_decimal_byte s of None \<Rightarrow> None
      | Some (b, r) \<Rightarrow> (case read_bytes4 n (i + 1) r of None \<Rightarrow> None
        | Some (bs, t) \<Rightarrow> Some (b # bs, t)))"

definition read_ipv4 :: "nat list reader" where
  "read_ipv4 s = read_bytes4 4 0 s"

text \<open>
  Groups number \<open>i\<close> and on of an address with room for \<open>limit\<close>: a dotted
  address counts for two groups and ends the list.  The result is the groups
  and whether they end in a dotted address.
\<close>

fun read_groups :: "nat \<Rightarrow> nat \<Rightarrow> nat \<Rightarrow> string \<Rightarrow> (nat list \<times> bool) \<times> string" where
  "read_groups 0 limit i s = (([], False), s)"
| "read_groups (Suc n) limit i s =
     (case (if i + 1 < limit then read_separator CHR '':'' i read_ipv4 s else None) of
        Some ([a, b, c, d], r) \<Rightarrow> (([256 * a + b, 256 * c + d], True), r)
      | _ \<Rightarrow>
          (case read_separator CHR '':'' i read_hex_group s of
             None \<Rightarrow> (([], False), s)
           | Some (g, r) \<Rightarrow>
               (case read_groups n limit (i + 1) r of ((gs, v4), t) \<Rightarrow> ((g # gs, v4), t))))"

definition read_ipv6 :: "nat list reader" where
  "read_ipv6 s =
     (case read_groups 8 8 0 s of ((front, v4), r) \<Rightarrow>
        if length front = 8 then Some (front, r)
        else if v4 then None
        else (case read_given_char CHR '':'' r of None \<Rightarrow> None
          | Some r1 \<Rightarrow> (case read_given_char CHR '':'' r1 of None \<Rightarrow> None
            | Some r2 \<Rightarrow>
                (let limit = 8 - (length front + 1) in
                 case read_groups limit limit 0 r2 of ((rear, _), t) \<Rightarrow>
                   Some (front @ replicate (8 - length front - length rear) 0 @ rear, t)))))"

text \<open>A parse is successful when nothing is left; a dotted address has at most 15 characters.\<close>

definition parse_ipv6 :: "string \<Rightarrow> nat list option" where
  "parse_ipv6 s = (case read_ipv6 s of Some (gs, []) \<Rightarrow> Some gs | _ \<Rightarrow> None)"

definition parse_ipv4 :: "string \<Rightarrow> nat list option" where
  "parse_ipv4 s =
     (if 15 < length s then None
      else (case read_ipv4 s of Some (bs, []) \<Rightarrow> Some bs | _ \<Rightarrow> None))"

lemma ipv6_examples:
  "parse_ipv6 ''::1'' = Some [0, 0, 0, 0, 0, 0, 0, 1]"
  "parse_ipv6 ''2001:db8::192.0.2.33'' = Some [8193, 3512, 0, 0, 0, 0, 49152, 545]"
  "parse_ipv6 ''1:2:3:4:5:6:7:8'' = Some [1, 2, 3, 4, 5, 6, 7, 8]"
  "parse_ipv6 ''1:2:3'' = None"
  "parse_ipv6 ''1::2::3'' = None"
  "parse_ipv4 ''127.0.0.1'' = Some [127, 0, 0, 1]"
  "parse_ipv4 ''127.0.0.01'' = None"
  by code_simp+

lemma read_decimal_byte_bound: "read_decimal_byte s = Some (b, r) \<Longrightarrow> b < 256"
  by (auto simp: read_decimal_byte_def Let_def split: if_splits)

lemma read_bytes4_length: "read_bytes4 n i s = Some (bs, r) \<Longrightarrow> length bs = n"
  by (induction n i s arbitrary: bs r rule: read_bytes4.induct)
    (auto split: option.splits prod.splits)

lemma read_groups_length:
  "read_groups n limit i s = ((gs, v), r) \<Longrightarrow> limit = i + n \<Longrightarrow> length gs \<le> n"
proof (induction n limit i s arbitrary: gs v r rule: read_groups.induct)
  case (2 n limit i s)
  show ?case
  proof (cases "(if i + 1 < limit then read_separator CHR '':'' i read_ipv4 s else None)")
    case None
    with 2 show ?thesis by (auto split: option.splits prod.splits if_splits)
  next
    case (Some p)
    then obtain bs t where p: "read_separator CHR '':'' i read_ipv4 s = Some (bs, t)" "p = (bs, t)"
      "i + 1 < limit"
      by (cases p) (auto split: if_splits)
    then have "length bs = 4"
      by (auto simp: read_separator_def read_ipv4_def dest: read_bytes4_length
          split: if_splits option.splits)
    then obtain a b c d where "bs = [a, b, c, d]"
      by (auto simp: numeral_eq_Suc length_Suc_conv)
    with 2 p show ?thesis by auto
  qed
qed simp

lemma parse_ipv6_length: "parse_ipv6 s = Some gs \<Longrightarrow> length gs = 8"
proof -
  assume a: "parse_ipv6 s = Some gs"
  obtain front v4 r where f: "read_groups 8 8 0 s = ((front, v4), r)"
    by (metis surj_pair)
  show "length gs = 8"
  proof (cases "length front = 8")
    case True
    with a f show ?thesis by (auto simp: parse_ipv6_def read_ipv6_def split: list.splits)
  next
    case False
    have "length front \<le> 8" using read_groups_length [OF f] by simp
    with False have lt: "length front < 8" by simp
    from False a f obtain rear w t r2 where
      b: "read_groups (8 - (length front + 1)) (8 - (length front + 1)) 0 r2 = ((rear, w), t)"
      "gs = front @ replicate (8 - length front - length rear) 0 @ rear"
      by (auto simp: parse_ipv6_def read_ipv6_def Let_def
          split: option.splits prod.splits if_splits list.splits)
    from read_groups_length [OF b(1)] have "length rear \<le> 8 - (length front + 1)" by simp
    with lt b(2) show ?thesis by simp
  qed
qed

end
