(* ===== verification/Plan_Remote.thy ===== *)
theory Plan_Remote
  imports Artifact_Reference Plan_Names Std_Net
begin

text \<open>
  Remote images and image references: \<open>plan/remote.rs\<close>, \<open>plan/image_ref.rs\<close> and
  \<open>plan/tool.rs\<close>.  A remote is an image reference whose registry was written
  out and is a host, with stricter components than the OCI reference parser
  accepts; an image reference is a stage name or else a remote that is not on
  the local host.
\<close>

datatype remote =
  Remote (remote_registry: string) (remote_repository: string) (remote_selector: reference_kind)

definition str_rsplit_once :: "char \<Rightarrow> string \<Rightarrow> (string \<times> string) option" where
  "str_rsplit_once c s = map_option (\<lambda>i. (take i s, drop (Suc i) s)) (str_rfind c s)"

text \<open>The host of a registry and its port, as the early returns of the source find them.\<close>

definition split_host_port :: "string \<Rightarrow> (string \<times> string option) option" where
  "split_host_port registry =
     (case strip_prefix ''['' registry of
        Some ipv6 \<Rightarrow>
          (case split_once CHR '']'' ipv6 of None \<Rightarrow> None
           | Some (address, suffix) \<Rightarrow>
               (case parse_ipv6 address of None \<Rightarrow> None
                | Some _ \<Rightarrow>
                    if suffix = [] then Some (address, None)
                    else (case strip_prefix '':'' suffix of None \<Rightarrow> None
                          | Some port \<Rightarrow> Some (address, Some port))))
      | None \<Rightarrow>
          (case str_rsplit_once CHR '':'' registry of
             Some (host, port) \<Rightarrow> Some (host, Some port)
           | None \<Rightarrow> Some (registry, None)))"

definition host_part_bad :: "string \<Rightarrow> bool" where
  "host_part_bad part \<longleftrightarrow> part = [] \<or>
     \<not> list_all (\<lambda>b. is_alphanumeric b \<or> b = CHR ''-'') part \<or>
     starts_with ''-'' part \<or> ends_with ''-'' part"

definition host_bad :: "string \<Rightarrow> string option \<Rightarrow> bool" where
  "host_bad host port \<longleftrightarrow>
     \<not> (host = ''localhost'' \<or> CHR ''.'' \<in> set host \<or> port \<noteq> None) \<or>
     list_ex host_part_bad (split_on CHR ''.'' host)"

definition port_bad :: "string \<Rightarrow> bool" where
  "port_bad p \<longleftrightarrow> \<not> list_all is_digit p \<or>
     (case parse_uint u16_max p of None \<Rightarrow> True | Some n \<Rightarrow> n = 0)"

definition registry_ok :: "string \<Rightarrow> bool" where
  "registry_ok registry =
     (case split_host_port registry of None \<Rightarrow> False
      | Some (host, port) \<Rightarrow>
          \<not> ((\<not> starts_with ''['' registry \<and> host_bad host port) \<or>
             (case port of None \<Rightarrow> False | Some p \<Rightarrow> port_bad p)))"

definition repo_char :: "char \<Rightarrow> bool" where
  "repo_char b \<longleftrightarrow> is_lower b \<or> is_digit b \<or> b = CHR ''.'' \<or> b = CHR ''_'' \<or> b = CHR ''-''"

definition repo_part_bad :: "string \<Rightarrow> bool" where
  "repo_part_bad part \<longleftrightarrow> part = [] \<or> \<not> list_all repo_char part \<or>
     \<not> is_alphanumeric (part ! 0) \<or> \<not> is_alphanumeric (part ! (length part - 1))"

definition remote_new :: "hexlib \<Rightarrow> string \<Rightarrow> remote option" where
  "remote_new H value =
     (case split_once CHR ''/'' value of None \<Rightarrow> None
      | Some (registry, _) \<Rightarrow>
          if \<not> registry_ok registry then None
          else (case reference_from_str H value of Inl _ \<Rightarrow> None
            | Inr parsed \<Rightarrow>
                if ref_registry parsed \<noteq> registry \<or>
                   list_ex repo_part_bad (split_on CHR ''/'' (ref_repo parsed)) then None
                else Some (Remote (ref_registry parsed) (ref_repo parsed) (ref_kind parsed))))"

definition remote_display :: "hexlib \<Rightarrow> remote \<Rightarrow> string" where
  "remote_display H r = remote_registry r @ ''/'' @ remote_repository r @
     (case remote_selector r of
        RefTag tag \<Rightarrow> '':'' @ tag
      | RefDigest digest \<Rightarrow> ''@'' @ digest_display H digest)"

definition remote_deserialize :: "hexlib \<Rightarrow> string \<Rightarrow> string + remote" where
  "remote_deserialize H s = okOr ''expected an explicit registry and repository'' (remote_new H s)"

section \<open>Image references and tools\<close>

datatype image_ref = Local stage_ref | RemoteImage remote

datatype image_ref_error = NotAnImage | LocalhostNeedsBootstrap

definition remote_is_localhost :: "remote \<Rightarrow> bool" where
  "remote_is_localhost r \<longleftrightarrow>
     map to_ascii_lowercase (hd (split_on CHR '':'' (remote_registry r))) = ''localhost''"

definition image_ref_try_from :: "hexlib \<Rightarrow> string \<Rightarrow> image_ref_error + image_ref" where
  "image_ref_try_from H value =
     (case stage_ref_new value of
        Some l \<Rightarrow> Inr (Local l)
      | None \<Rightarrow>
          (case remote_new H value of None \<Rightarrow> Inl NotAnImage
           | Some remote \<Rightarrow>
               if remote_is_localhost remote then Inl LocalhostNeedsBootstrap
               else Inr (RemoteImage remote)))"

definition image_ref_text :: "hexlib \<Rightarrow> image_ref \<Rightarrow> string" where
  "image_ref_text H i = (case i of Local s \<Rightarrow> stage_text s | RemoteImage r \<Rightarrow> remote_display H r)"

datatype tool = Bootstrap remote | ToolImage image_ref

section \<open>Remotes in order\<close>

text \<open>The derived order of the source: field by field, tags before digests.\<close>

definition kind_key :: "reference_kind \<Rightarrow> nat \<times> string \<times> byte list" where
  "kind_key k = (case k of RefTag t \<Rightarrow> (0, t, []) | RefDigest d \<Rightarrow> (1, [], digest_as_bytes d))"

definition remote_key :: "remote \<Rightarrow> string \<times> string \<times> nat \<times> string \<times> byte list" where
  "remote_key r = (remote_registry r, remote_repository r, kind_key (remote_selector r))"

lemma kind_key_inj: "kind_key a = kind_key b \<Longrightarrow> a = b"
  by (auto simp: kind_key_def split: reference_kind.splits)
    (metis digest.exhaust digest_as_bytes.simps)

lemma remote_key_inj: "remote_key a = remote_key b \<longleftrightarrow> a = b"
  by (cases a; cases b) (auto simp: remote_key_def dest: kind_key_inj)

instantiation remote :: linorder
begin

definition less_eq_remote :: "remote \<Rightarrow> remote \<Rightarrow> bool" where
  "less_eq_remote a b \<longleftrightarrow> remote_key a \<le> remote_key b"

definition less_remote :: "remote \<Rightarrow> remote \<Rightarrow> bool" where
  "less_remote a b \<longleftrightarrow> remote_key a < remote_key b"

instance
  by standard
    (unfold less_eq_remote_def less_remote_def remote_key_inj [symmetric], auto)

end

section \<open>Printing and reading again\<close>

definition remote_wf :: "remote \<Rightarrow> bool" where
  "remote_wf r \<longleftrightarrow>
     reference_wf \<lparr>ref_registry = remote_registry r, ref_repo = remote_repository r,
       ref_kind = remote_selector r\<rparr> \<and>
     registry_ok (remote_registry r) \<and>
     \<not> list_ex repo_part_bad (split_on CHR ''/'' (remote_repository r))"

lemma remote_display_reference:
  "remote_display H r = reference_display H
     \<lparr>ref_registry = remote_registry r, ref_repo = remote_repository r, ref_kind = remote_selector r\<rparr>"
  by (simp add: remote_display_def reference_display_def split: reference_kind.splits)

lemma remote_new_wf:
  assumes "hex_laws H" "remote_new H s = Some r"
  shows "remote_wf r"
proof -
  from assms(2) obtain g x p where "split_once CHR ''/'' s = Some (g, x)" "registry_ok g"
    "reference_from_str H s = Inr p" "ref_registry p = g"
    "\<not> list_ex repo_part_bad (split_on CHR ''/'' (ref_repo p))"
    "r = Remote (ref_registry p) (ref_repo p) (ref_kind p)"
    by (auto simp: remote_new_def split: option.splits if_splits sum.splits)
  with reference_from_str_wf [OF _ assms(1)] show ?thesis
    by (cases p) (auto simp: remote_wf_def)
qed

lemma remote_new_display:
  assumes "hex_laws H" "remote_wf r"
  shows "remote_new H (remote_display H r) = Some r"
proof -
  let ?p = "\<lparr>ref_registry = remote_registry r, ref_repo = remote_repository r,
    ref_kind = remote_selector r\<rparr>"
  have wf: "reference_wf ?p" using assms by (simp add: remote_wf_def)
  then have "CHR ''/'' \<notin> set (remote_registry r)" by (simp add: reference_wf_def)
  then have "\<exists>x. split_once CHR ''/'' (remote_display H r) = Some (remote_registry r, x)"
    by (simp add: split_once_Some remote_display_def)
  moreover have "reference_from_str H (remote_display H r) = Inr ?p"
    unfolding remote_display_reference using reference_from_display [OF wf assms(1)] .
  ultimately show ?thesis using assms by (auto simp: remote_new_def remote_wf_def)
qed

lemma remote_new_slash: "remote_new H s = Some r \<Longrightarrow> CHR ''/'' \<in> set s"
  by (auto simp: remote_new_def split_once_None split_once_Some split: option.splits)

text \<open>A name is never both a stage and a remote, so the order of the two tests is immaterial.\<close>

lemma stage_remote_disjoint: "stage_ref_new s = Some l \<Longrightarrow> remote_new H s = None"
  using remote_new_slash stage_ref_new_no_slash by (metis not_None_eq)

definition image_ref_wf :: "image_ref \<Rightarrow> bool" where
  "image_ref_wf i = (case i of
       Local s \<Rightarrow> stage_ref_new (stage_text s) = Some s
     | RemoteImage r \<Rightarrow> remote_wf r \<and> \<not> remote_is_localhost r)"

lemma image_ref_try_from_wf:
  "hex_laws H \<Longrightarrow> image_ref_try_from H s = Inr i \<Longrightarrow> image_ref_wf i"
  by (auto simp: image_ref_try_from_def image_ref_wf_def remote_new_wf
      intro: stage_string.remake split: option.splits if_splits)

lemma image_ref_try_from_text:
  assumes "hex_laws H" "image_ref_wf i"
  shows "image_ref_try_from H (image_ref_text H i) = Inr i"
proof (cases i)
  case (Local l)
  with assms show ?thesis
    by (simp add: image_ref_try_from_def image_ref_wf_def image_ref_text_def)
next
  case (RemoteImage r)
  with assms have "remote_new H (remote_display H r) = Some r" "\<not> remote_is_localhost r"
    by (auto simp: image_ref_wf_def remote_new_display)
  moreover from this have "stage_ref_new (remote_display H r) = None"
    using stage_remote_disjoint by (metis not_None_eq)
  ultimately show ?thesis
    using RemoteImage by (simp add: image_ref_try_from_def image_ref_text_def)
qed

sublocale hex_crate \<subseteq> image_ref_codec: sound_codec image_ref_wf "image_ref_text H" "image_ref_try_from H"
  using laws by unfold_locales (auto intro: image_ref_try_from_text image_ref_try_from_wf)

text \<open>
  An image named in a plan is unambiguous and survives its text.  A text
  accepted as an image reference denotes a stage or a remote image and never
  both; its printed form is accepted and denotes the same; a remote one has a
  registry written out (nothing is defaulted), does not name the local host
  in any letter case, and has only lower-case repository components that
  begin and end with a letter or digit.
\<close>

theorem image_ref_unambiguous:
  assumes "hex_laws H" "image_ref_try_from H s = Inr i"
  shows "image_ref_try_from H (image_ref_text H i) = Inr i \<and>
    (stage_ref_new s = None \<or> remote_new H s = None) \<and>
    (\<forall>r. i = RemoteImage r \<longrightarrow>
       (\<exists>x. s = remote_registry r @ CHR ''/'' # x) \<and> \<not> remote_is_localhost r \<and>
       (\<forall>p\<in>set (split_on CHR ''/'' (remote_repository r)).
          p \<noteq> [] \<and> list_all repo_char p \<and> is_alphanumeric (hd p) \<and> is_alphanumeric (last p)))"
proof (intro conjI allI impI)
  show "image_ref_try_from H (image_ref_text H i) = Inr i"
    using assms image_ref_try_from_wf image_ref_try_from_text by blast
  show "stage_ref_new s = None \<or> remote_new H s = None"
    using stage_remote_disjoint by (cases "stage_ref_new s") auto
  fix r assume i: "i = RemoteImage r"
  with assms have n: "remote_new H s = Some r" "\<not> remote_is_localhost r"
    by (auto simp: image_ref_try_from_def split: option.splits if_splits)
  then show "\<exists>x. s = remote_registry r @ CHR ''/'' # x"
    by (auto simp: remote_new_def split_once_Some split: option.splits if_splits sum.splits)
  show "\<not> remote_is_localhost r" by (fact n)
  show "\<forall>p\<in>set (split_on CHR ''/'' (remote_repository r)).
      p \<noteq> [] \<and> list_all repo_char p \<and> is_alphanumeric (hd p) \<and> is_alphanumeric (last p)"
    using remote_new_wf [OF assms(1) n(1)]
    by (auto simp: remote_wf_def repo_part_bad_def list_ex_iff hd_conv_nth last_conv_nth)
qed

theorem image_ref_unambiguous_witness:
  "image_ref_try_from hex_ref
     (image_ref_text hex_ref (RemoteImage (Remote ''ghcr.io'' ''pichi-vm/fedora'' (RefTag ''43'')))) =
     Inr (RemoteImage (Remote ''ghcr.io'' ''pichi-vm/fedora'' (RefTag ''43'')))"
proof -
  have a: "image_ref_try_from hex_ref ''ghcr.io/pichi-vm/fedora:43'' =
     Inr (RemoteImage (Remote ''ghcr.io'' ''pichi-vm/fedora'' (RefTag ''43'')))"
    by code_simp
  show ?thesis by (rule image_ref_unambiguous [OF hex_ref_laws a, THEN conjunct1])
qed

end
