(* ===== verification/Artifact_Config.thy ===== *)
theory Artifact_Config
  imports Serde_Model
begin

text \<open>
  The launch contract an image carries: \<open>artifact/config.rs\<close>.  Bands of required
  and recommended sizes, memory in whole huge pages, ports, transports, their
  serialised forms, and the canonical form that is written.
\<close>

section \<open>Recommendations and bands\<close>

datatype 'a recommendation = RecValue 'a | RecMax

definition recommendation_map :: "('a \<Rightarrow> 'b) \<Rightarrow> 'a recommendation \<Rightarrow> 'b recommendation" where
  "recommendation_map f r = (case r of RecValue v \<Rightarrow> RecValue (f v) | RecMax \<Rightarrow> RecMax)"

record 'a band =
  b_required :: "'a option"
  b_recommended :: "'a recommendation option"

definition band_default :: "'a band" where
  "band_default = \<lparr>b_required = None, b_recommended = None\<rparr>"

definition band_new :: "'a::ord option \<Rightarrow> 'a recommendation option \<Rightarrow> 'a band option" where
  "band_new required recommended =
     (case (required, recommended) of
        (Some req, Some (RecValue rec)) \<Rightarrow>
          if rec < req then None
          else Some \<lparr>b_required = required, b_recommended = recommended\<rparr>
      | _ \<Rightarrow> Some \<lparr>b_required = required, b_recommended = recommended\<rparr>)"

definition band_is_empty :: "'a band \<Rightarrow> bool" where
  "band_is_empty b \<longleftrightarrow> b_required b = None \<and> b_recommended b = None"

definition en_recommendation :: "'a encoder \<Rightarrow> 'a recommendation encoder" where
  "en_recommendation e r = (case r of RecValue v \<Rightarrow> e v | RecMax \<Rightarrow> SStr ''max'')"

text \<open>The untagged form: the first variant that reads the value.\<close>

definition de_recommendation :: "'a decoder \<Rightarrow> 'a recommendation decoder" where
  "de_recommendation d v =
     (case d v of Inr a \<Rightarrow> Inr (RecValue a)
      | Inl _ \<Rightarrow> (case de_string v of
            Inr s \<Rightarrow> if s = ''max'' then Inr RecMax else Inl ''expected a number or max''
          | Inl e \<Rightarrow> Inl e))"

definition band_fields :: "'a encoder \<Rightarrow> 'a band \<Rightarrow> (string \<times> sval) list" where
  "band_fields e b =
     opt_field ''required'' e (b_required b) @
     opt_field ''recommended'' (en_recommendation e) (b_recommended b)"

definition en_band :: "'a encoder \<Rightarrow> 'a band encoder" where
  "en_band e b = SMap (band_fields e b)"

definition de_band :: "'a::ord decoder \<Rightarrow> 'a band decoder" where
  "de_band d v =
     bindE (struct_fields [''required'', ''recommended''] v) (\<lambda>fs.
       bindE (field_optional d fs ''required'') (\<lambda>required.
         bindE (field_optional (de_recommendation d) fs ''recommended'') (\<lambda>recommended.
           okOr ''recommended is below required'' (band_new required recommended))))"

section \<open>Memory\<close>

datatype memory = Memory (mib: nat)

definition chunk_mib :: nat where "chunk_mib = 2"

definition memory_from_mib :: "nat \<Rightarrow> memory option" where
  "memory_from_mib n = (if n = 0 \<or> n mod chunk_mib \<noteq> 0 then None else Some (Memory n))"

definition en_memory :: "memory encoder" where
  "en_memory m = SNum (mib m)"

definition de_memory :: "memory decoder" where
  "de_memory v = bindE (de_uint u32_max v)
     (\<lambda>n. okOr ''memory must be a positive multiple of 2 MiB'' (memory_from_mib n))"

instantiation memory :: linorder
begin

definition less_eq_memory :: "memory \<Rightarrow> memory \<Rightarrow> bool" where
  "less_eq_memory a b \<longleftrightarrow> mib a \<le> mib b"

definition less_memory :: "memory \<Rightarrow> memory \<Rightarrow> bool" where
  "less_memory a b \<longleftrightarrow> mib a < mib b"

instance
  by standard (auto simp: less_eq_memory_def less_memory_def memory.expand)

end

section \<open>Transports, ports and interfaces\<close>

datatype slot = Pci | Mmio

definition slot_default :: slot where "slot_default = Mmio"

definition en_slot :: "slot encoder" where
  "en_slot s = (case s of Pci \<Rightarrow> SStr ''pci'' | Mmio \<Rightarrow> SStr ''mmio'')"

definition de_slot :: "slot decoder" where
  "de_slot v = bindE (de_string v) (\<lambda>s.
     if s = ''pci'' then Inr Pci else if s = ''mmio'' then Inr Mmio
     else Inl ''expected pci or mmio'')"

datatype port_spec = Port nat | PortRange nat nat | AllPorts

definition en_port_spec :: "port_spec encoder" where
  "en_port_spec p =
     (case p of Port n \<Rightarrow> SNum n | PortRange lo hi \<Rightarrow> SSeq [SNum lo, SNum hi] | AllPorts \<Rightarrow> SStr ''all'')"

definition de_port_spec :: "port_spec decoder" where
  "de_port_spec v =
     (case v of
        SNum n \<Rightarrow> if n \<le> u16_max then Inr (Port n) else Inl ''port out of range''
      | SStr s \<Rightarrow> if s = ''all'' then Inr AllPorts else Inl ''expected a port, range, or all''
      | SSeq [] \<Rightarrow> Inl ''range needs [low, high]''
      | SSeq [_] \<Rightarrow> Inl ''range needs [low, high]''
      | SSeq [lo, hi] \<Rightarrow> bindE (de_uint u16_max lo) (\<lambda>l. bindE (de_uint u16_max hi) (\<lambda>h.
            Inr (PortRange l h)))
      | SSeq _ \<Rightarrow> Inl ''range has more than two elements''
      | _ \<Rightarrow> Inl ''expected a port, a range, or all'')"

record ingress =
  in_required :: "port_spec list"
  in_recommended :: "port_spec list"

definition en_ingress :: "ingress encoder" where
  "en_ingress i = SMap (list_field ''required'' en_port_spec (in_required i) @
     list_field ''recommended'' en_port_spec (in_recommended i))"

definition de_ingress :: "ingress decoder" where
  "de_ingress v =
     bindE (struct_fields [''required'', ''recommended''] v) (\<lambda>fs.
       bindE (field_default [] (de_seq de_port_spec) fs ''required'') (\<lambda>req.
         bindE (field_default [] (de_seq de_port_spec) fs ''recommended'') (\<lambda>rec.
           Inr \<lparr>in_required = req, in_recommended = rec\<rparr>)))"

record network_interface =
  if_description :: "string option"
  if_ingress :: "ingress option"
  if_slot :: "slot option"

definition en_interface :: "network_interface encoder" where
  "en_interface i = SMap (opt_field ''description'' SStr (if_description i) @
     opt_field ''ingress'' en_ingress (if_ingress i) @ opt_field ''slot'' en_slot (if_slot i))"

definition de_interface :: "network_interface decoder" where
  "de_interface v =
     bindE (struct_fields [''description'', ''ingress'', ''slot''] v) (\<lambda>fs.
       bindE (field_optional de_string fs ''description'') (\<lambda>d.
         bindE (field_optional de_ingress fs ''ingress'') (\<lambda>i.
           bindE (field_optional de_slot fs ''slot'') (\<lambda>s.
             Inr \<lparr>if_description = d, if_ingress = i, if_slot = s\<rparr>))))"

record storage =
  st_capacity :: "nat band"
  st_slot :: "slot option"

definition en_storage :: "storage encoder" where
  "en_storage s = SMap (band_fields SNum (st_capacity s) @ opt_field ''slot'' en_slot (st_slot s))"

definition de_storage :: "storage decoder" where
  "de_storage v =
     bindE (struct_fields [''required'', ''recommended'', ''slot''] v) (\<lambda>fs.
       bindE (field_optional (de_nonzero u64_max) fs ''required'') (\<lambda>req.
         bindE (field_optional (de_recommendation (de_nonzero u64_max)) fs ''recommended'') (\<lambda>rec.
           bindE (field_optional de_slot fs ''slot'') (\<lambda>s.
             bindE (okOr ''recommended is below required'' (band_new req rec)) (\<lambda>capacity.
               Inr \<lparr>st_capacity = capacity, st_slot = s\<rparr>)))))"

section \<open>Requirements and the config\<close>

record requirements =
  rq_slot :: slot
  rq_cpus :: "nat band option"
  rq_memory :: "memory band option"
  rq_storage :: "storage option"
  rq_interfaces :: "(string, network_interface) btree"

definition requirements_default :: requirements where
  "requirements_default =
     \<lparr>rq_slot = slot_default, rq_cpus = None, rq_memory = None, rq_storage = None, rq_interfaces = []\<rparr>"

definition en_requirements :: "requirements encoder" where
  "en_requirements r = SMap
     ([(''slot'', en_slot (rq_slot r))] @ opt_field ''cpus'' (en_band SNum) (rq_cpus r) @
      opt_field ''memory'' (en_band en_memory) (rq_memory r) @
      opt_field ''storage'' en_storage (rq_storage r) @
      (if rq_interfaces r = [] then [] else [(''interfaces'', en_btree en_interface (rq_interfaces r))]))"

definition de_requirements :: "requirements decoder" where
  "de_requirements v =
     bindE (struct_fields [''slot'', ''cpus'', ''memory'', ''storage'', ''interfaces''] v) (\<lambda>fs.
       bindE (field_default slot_default de_slot fs ''slot'') (\<lambda>s.
         bindE (field_optional (de_band (de_nonzero u32_max)) fs ''cpus'') (\<lambda>c.
           bindE (field_optional (de_band de_memory) fs ''memory'') (\<lambda>m.
             bindE (field_optional de_storage fs ''storage'') (\<lambda>st.
               bindE (field_default [] (de_btree de_interface) fs ''interfaces'') (\<lambda>i.
                 Inr \<lparr>rq_slot = s, rq_cpus = c, rq_memory = m, rq_storage = st, rq_interfaces = i\<rparr>))))))"

definition canonicalize :: "requirements \<Rightarrow> requirements" where
  "canonicalize r =
     (case rq_cpus r of None \<Rightarrow> r
      | Some b \<Rightarrow>
          (let b1 = (if b_required b = Some 1 then b\<lparr>b_required := None\<rparr> else b);
               b2 = (if b_recommended b1 = Some (RecValue 1) then b1\<lparr>b_recommended := None\<rparr> else b1)
           in if band_is_empty b2 then r\<lparr>rq_cpus := None\<rparr> else r\<lparr>rq_cpus := Some b2\<rparr>))"

definition cpus_required :: "requirements \<Rightarrow> nat option" where
  "cpus_required r = Option.bind (rq_cpus r) b_required"

definition cpus_recommended :: "requirements \<Rightarrow> nat recommendation option" where
  "cpus_recommended r = Option.bind (rq_cpus r) b_recommended"

definition memory_required_mib :: "requirements \<Rightarrow> nat option" where
  "memory_required_mib r = map_option mib (Option.bind (rq_memory r) b_required)"

definition memory_recommended_mib :: "requirements \<Rightarrow> nat recommendation option" where
  "memory_recommended_mib r =
     map_option (recommendation_map mib) (Option.bind (rq_memory r) b_recommended)"

record config =
  cf_version :: nat
  cf_requirements :: requirements

definition config_schema_version :: nat where "config_schema_version = 1"

definition config_default :: config where
  "config_default = \<lparr>cf_version = config_schema_version, cf_requirements = requirements_default\<rparr>"

datatype config_error = UnsupportedVersion nat nat

definition config_validate :: "config \<Rightarrow> config_error + unit" where
  "config_validate c =
     (if cf_version c \<noteq> config_schema_version
      then Inl (UnsupportedVersion (cf_version c) config_schema_version) else Inr ())"

definition en_config :: "config encoder" where
  "en_config c = SMap [(''version'', SNum (cf_version c)),
     (''requirements'', en_requirements (canonicalize (cf_requirements c)))]"

definition de_config :: "config decoder" where
  "de_config v =
     bindE (struct_fields [''version'', ''requirements''] v) (\<lambda>fs.
       bindE (field_required (de_uint u32_max) fs ''version'') (\<lambda>n.
         bindE (field_default requirements_default de_requirements fs ''requirements'') (\<lambda>r.
           Inr \<lparr>cf_version = n, cf_requirements = r\<rparr>)))"

section \<open>Invariants of the types\<close>

definition band_wf :: "('a::linorder \<Rightarrow> bool) \<Rightarrow> 'a band \<Rightarrow> bool" where
  "band_wf P b \<longleftrightarrow>
     (\<forall>x. b_required b = Some x \<longrightarrow> P x) \<and>
     (\<forall>x. b_recommended b = Some (RecValue x) \<longrightarrow> P x) \<and>
     (\<forall>x y. b_required b = Some x \<longrightarrow> b_recommended b = Some (RecValue y) \<longrightarrow> x \<le> y)"

definition memory_wf :: "memory \<Rightarrow> bool" where
  "memory_wf m \<longleftrightarrow> 0 < mib m \<and> mib m mod 2 = 0 \<and> mib m \<le> u32_max"

definition nonzero_wf :: "nat \<Rightarrow> nat \<Rightarrow> bool" where
  "nonzero_wf m n \<longleftrightarrow> 0 < n \<and> n \<le> m"

definition port_wf :: "port_spec \<Rightarrow> bool" where
  "port_wf p \<longleftrightarrow> (case p of Port n \<Rightarrow> n \<le> u16_max | PortRange l h \<Rightarrow> l \<le> u16_max \<and> h \<le> u16_max
     | AllPorts \<Rightarrow> True)"

definition ingress_wf :: "ingress \<Rightarrow> bool" where
  "ingress_wf i \<longleftrightarrow> list_all port_wf (in_required i) \<and> list_all port_wf (in_recommended i)"

definition interface_wf :: "network_interface \<Rightarrow> bool" where
  "interface_wf i \<longleftrightarrow> (\<forall>g. if_ingress i = Some g \<longrightarrow> ingress_wf g)"

definition storage_wf :: "storage \<Rightarrow> bool" where
  "storage_wf s \<longleftrightarrow> band_wf (nonzero_wf u64_max) (st_capacity s)"

definition requirements_wf :: "requirements \<Rightarrow> bool" where
  "requirements_wf r \<longleftrightarrow>
     (\<forall>b. rq_cpus r = Some b \<longrightarrow> band_wf (nonzero_wf u32_max) b) \<and>
     (\<forall>b. rq_memory r = Some b \<longrightarrow> band_wf memory_wf b) \<and>
     (\<forall>s. rq_storage r = Some s \<longrightarrow> storage_wf s) \<and>
     bt_wf (rq_interfaces r) \<and> (\<forall>(k, i)\<in>set (rq_interfaces r). interface_wf i)"

definition config_wf :: "config \<Rightarrow> bool" where
  "config_wf c \<longleftrightarrow> cf_version c \<le> u32_max \<and> requirements_wf (cf_requirements c)"

section \<open>Every wire value that is read satisfies the invariants\<close>

lemma band_new_wf:
  "band_new r c = Some b \<Longrightarrow> (\<And>x. r = Some x \<Longrightarrow> P x) \<Longrightarrow> (\<And>x. c = Some (RecValue x) \<Longrightarrow> P x) \<Longrightarrow>
     band_wf P b"
  by (auto simp: band_new_def band_wf_def not_less split: option.splits recommendation.splits if_splits)

lemma band_new_id:
  "band_wf P b \<Longrightarrow> band_new (b_required b) (b_recommended b) = Some b"
  by (cases b) (auto simp: band_new_def band_wf_def not_less split: option.splits recommendation.splits)

lemma de_recommendation_value:
  "de_recommendation d v = Inr (RecValue x) \<Longrightarrow> \<exists>w. d w = Inr x"
  by (auto simp: de_recommendation_def split: sum.splits if_splits)

lemma de_band_wf:
  assumes "de_band d v = Inr b" "\<And>w x. d w = Inr x \<Longrightarrow> P x"
  shows "band_wf P b"
proof -
  from assms(1) obtain fs req rec where
    "field_optional d fs ''required'' = Inr req"
    "field_optional (de_recommendation d) fs ''recommended'' = Inr rec"
    "band_new req rec = Some b"
    by (auto simp: de_band_def bindE_Inr_iff)
  then show ?thesis
    by (intro band_new_wf) (auto dest!: field_optional_Some de_recommendation_value intro: assms(2))
qed

lemma de_nonzero_wf: "de_nonzero m v = Inr n \<Longrightarrow> nonzero_wf m n"
  by (auto simp: de_nonzero_def nonzero_wf_def split: sval.splits if_splits)

lemma de_memory_wf: "de_memory v = Inr m \<Longrightarrow> memory_wf m"
  by (auto simp: de_memory_def de_uint_def memory_from_mib_def memory_wf_def chunk_mib_def bindE_Inr_iff
      split: sval.splits if_splits)

lemma de_port_spec_wf: "de_port_spec v = Inr p \<Longrightarrow> port_wf p"
  by (auto simp: de_port_spec_def de_uint_def port_wf_def bindE_Inr_iff
      split: sval.splits if_splits list.splits)

lemma de_ingress_wf: "de_ingress v = Inr i \<Longrightarrow> ingress_wf i"
  by (auto simp: de_ingress_def ingress_wf_def bindE_Inr_iff list_all_iff
      dest!: field_default_Inr dest: de_seq_Inr de_port_spec_wf)

lemma de_interface_wf: "de_interface v = Inr i \<Longrightarrow> interface_wf i"
  by (auto simp: de_interface_def interface_wf_def bindE_Inr_iff
      dest!: field_optional_Some [of de_ingress] intro: de_ingress_wf)

lemma de_storage_wf:
  assumes "de_storage v = Inr s"
  shows "storage_wf s"
proof -
  from assms obtain fs req rec where
    "field_optional (de_nonzero u64_max) fs ''required'' = Inr req"
    "field_optional (de_recommendation (de_nonzero u64_max)) fs ''recommended'' = Inr rec"
    "band_new req rec = Some (st_capacity s)"
    by (auto simp: de_storage_def bindE_Inr_iff)
  then show ?thesis
    unfolding storage_wf_def
    by (intro band_new_wf) (auto dest!: field_optional_Some de_recommendation_value intro: de_nonzero_wf)
qed

lemmas cpus_band_wf = de_band_wf [where d = "de_nonzero u32_max" and P = "nonzero_wf u32_max", OF _ de_nonzero_wf]
lemmas memory_band_wf = de_band_wf [where d = de_memory and P = memory_wf, OF _ de_memory_wf]

lemma de_requirements_wf:
  assumes "de_requirements v = Inr r"
  shows "requirements_wf r"
proof -
  from assms obtain fs where f:
    "field_optional (de_band (de_nonzero u32_max)) fs ''cpus'' = Inr (rq_cpus r)"
    "field_optional (de_band de_memory) fs ''memory'' = Inr (rq_memory r)"
    "field_optional de_storage fs ''storage'' = Inr (rq_storage r)"
    "field_default [] (de_btree de_interface) fs ''interfaces'' = Inr (rq_interfaces r)"
    by (auto simp: de_requirements_def bindE_Inr_iff)
  have "\<forall>b. rq_cpus r = Some b \<longrightarrow> band_wf (nonzero_wf u32_max) b"
    using f(1) by (auto dest!: field_optional_Some intro: cpus_band_wf)
  moreover have "\<forall>b. rq_memory r = Some b \<longrightarrow> band_wf memory_wf b"
    using f(2) by (auto dest!: field_optional_Some intro: memory_band_wf)
  moreover have "\<forall>s. rq_storage r = Some s \<longrightarrow> storage_wf s"
    using f(3) by (auto dest!: field_optional_Some intro: de_storage_wf)
  moreover have "bt_wf (rq_interfaces r) \<and> (\<forall>(k, i)\<in>set (rq_interfaces r). interface_wf i)"
    using field_default_Inr [OF f(4)] by (auto dest!: de_btree_Inr intro: de_interface_wf)
  ultimately show ?thesis by (simp add: requirements_wf_def)
qed

lemma requirements_default_wf: "requirements_wf requirements_default"
  by (simp add: requirements_wf_def requirements_default_def)

lemma de_config_wf:
  assumes "de_config v = Inr c"
  shows "config_wf c"
proof -
  from assms obtain fs where
    "field_required (de_uint u32_max) fs ''version'' = Inr (cf_version c)"
    "field_default requirements_default de_requirements fs ''requirements'' = Inr (cf_requirements c)"
    by (auto simp: de_config_def bindE_Inr_iff)
  then show ?thesis
    by (auto simp: config_wf_def field_required_def de_uint_def
        dest!: field_default_Inr intro: de_requirements_wf requirements_default_wf
        split: option.splits sval.splits if_splits)
qed

section \<open>Every value that satisfies the invariants is read back\<close>

lemma de_recommendation_en:
  assumes "\<And>x. r = RecValue x \<Longrightarrow> d (e x) = Inr x" "\<And>s. \<exists>m. d (SStr s) = Inl m"
  shows "de_recommendation d (en_recommendation e r) = Inr r"
proof (cases r)
  case RecMax
  obtain m where "d (SStr ''max'') = Inl m" using assms(2) by blast
  with RecMax show ?thesis by (simp add: de_recommendation_def en_recommendation_def de_string_def)
qed (use assms(1) in \<open>simp add: de_recommendation_def en_recommendation_def\<close>)

lemma band_fields_read:
  assumes "map_of fs ''required'' = map_option e (b_required b)"
    and "map_of fs ''recommended'' = map_option (en_recommendation e) (b_recommended b)"
    and "band_wf P b" "\<And>x. P x \<Longrightarrow> d (e x) = Inr x \<and> e x \<noteq> SNull" "\<And>s. \<exists>m. d (SStr s) = Inl m"
  shows "field_optional d fs ''required'' = Inr (b_required b)"
    and "field_optional (de_recommendation d) fs ''recommended'' = Inr (b_recommended b)"
proof -
  show "field_optional d fs ''required'' = Inr (b_required b)"
    by (rule field_optional_opt [OF assms(1)]) (use assms(3,4) in \<open>auto simp: band_wf_def\<close>)
  have "en_recommendation e r \<noteq> SNull \<and> de_recommendation d (en_recommendation e r) = Inr r"
    if "b_recommended b = Some r" for r
  proof
    show "en_recommendation e r \<noteq> SNull"
      using that assms(3,4) by (cases r) (auto simp: en_recommendation_def band_wf_def)
    show "de_recommendation d (en_recommendation e r) = Inr r"
      by (rule de_recommendation_en) (use that assms(3-5) in \<open>auto simp: band_wf_def\<close>)
  qed
  then show "field_optional (de_recommendation d) fs ''recommended'' = Inr (b_recommended b)"
    by (rule field_optional_opt [OF assms(2)])
qed

lemma de_band_en:
  assumes "band_wf P b" "\<And>x. P x \<Longrightarrow> d (e x) = Inr x \<and> e x \<noteq> SNull" "\<And>s. \<exists>m. d (SStr s) = Inl m"
  shows "de_band d (en_band e b) = Inr b"
proof -
  have s: "struct_fields [''required'', ''recommended''] (en_band e b) = Inr (band_fields e b)"
    unfolding en_band_def by (rule struct_fields_ok) (auto simp: band_fields_def serde_simps)
  have "map_of (band_fields e b) ''required'' = map_option e (b_required b)"
    "map_of (band_fields e b) ''recommended'' = map_option (en_recommendation e) (b_recommended b)"
    by (auto simp: band_fields_def serde_simps split: option.splits)
  from band_fields_read [OF this assms] band_new_id [OF assms(1)] show ?thesis
    by (simp add: de_band_def s)
qed

lemma en_band_not_null: "en_band e b \<noteq> SNull"
  by (simp add: en_band_def)

lemma de_nonzero_en: "nonzero_wf m n \<Longrightarrow> de_nonzero m (SNum n) = Inr n \<and> SNum n \<noteq> SNull"
  by (simp add: nonzero_wf_def serde_simps)

lemma de_memory_en: "memory_wf m \<Longrightarrow> de_memory (en_memory m) = Inr m \<and> en_memory m \<noteq> SNull"
  by (cases m) (simp add: memory_wf_def de_memory_def en_memory_def de_uint_def memory_from_mib_def chunk_mib_def)

lemma nonzero_no_string: "\<exists>e. de_nonzero m (SStr s) = Inl e" "\<exists>e. de_memory (SStr s) = Inl e"
  by (simp_all add: de_nonzero_def de_memory_def de_uint_def)

lemma de_slot_en: "de_slot (en_slot s) = Inr s" "en_slot s \<noteq> SNull"
  by (cases s; simp add: de_slot_def en_slot_def de_string_def)+

lemma de_port_spec_en: "port_wf p \<Longrightarrow> de_port_spec (en_port_spec p) = Inr p"
  by (cases p) (simp_all add: de_port_spec_def en_port_spec_def port_wf_def de_uint_def)

lemma de_ingress_en:
  assumes "ingress_wf i"
  shows "de_ingress (en_ingress i) = Inr i" "en_ingress i \<noteq> SNull"
proof -
  let ?fs = "list_field ''required'' en_port_spec (in_required i) @
     list_field ''recommended'' en_port_spec (in_recommended i)"
  have "struct_fields [''required'', ''recommended''] (SMap ?fs) = Inr ?fs"
    by (rule struct_fields_ok) (auto simp: serde_simps)
  moreover have "field_default [] (de_seq de_port_spec) ?fs ''required'' = Inr (in_required i)"
    by (rule field_default_list [where e = en_port_spec])
      (use assms in \<open>auto simp: serde_simps ingress_wf_def list_all_iff de_port_spec_en\<close>)
  moreover have "field_default [] (de_seq de_port_spec) ?fs ''recommended'' = Inr (in_recommended i)"
    by (rule field_default_list [where e = en_port_spec])
      (use assms in \<open>auto simp: serde_simps ingress_wf_def list_all_iff de_port_spec_en\<close>)
  ultimately show "de_ingress (en_ingress i) = Inr i"
    by (simp add: de_ingress_def en_ingress_def)
qed (simp add: en_ingress_def)

lemma de_interface_en:
  assumes "interface_wf i"
  shows "de_interface (en_interface i) = Inr i"
proof -
  let ?fs = "opt_field ''description'' SStr (if_description i) @
     opt_field ''ingress'' en_ingress (if_ingress i) @ opt_field ''slot'' en_slot (if_slot i)"
  have "struct_fields [''description'', ''ingress'', ''slot''] (SMap ?fs) = Inr ?fs"
    by (rule struct_fields_ok) (auto simp: serde_simps)
  moreover have "field_optional de_string ?fs ''description'' = Inr (if_description i)"
    by (rule field_optional_opt [where e = SStr]) (auto simp: serde_simps split: option.splits)
  moreover have "field_optional de_ingress ?fs ''ingress'' = Inr (if_ingress i)"
    by (rule field_optional_opt [where e = en_ingress])
      (use assms in \<open>auto simp: serde_simps interface_wf_def de_ingress_en split: option.splits\<close>)
  moreover have "field_optional de_slot ?fs ''slot'' = Inr (if_slot i)"
    by (rule field_optional_opt [where e = en_slot]) (auto simp: serde_simps de_slot_en split: option.splits)
  ultimately show ?thesis by (simp add: de_interface_def en_interface_def)
qed

lemma de_storage_en:
  assumes "storage_wf s"
  shows "de_storage (en_storage s) = Inr s" "en_storage s \<noteq> SNull"
proof -
  let ?fs = "band_fields SNum (st_capacity s) @ opt_field ''slot'' en_slot (st_slot s)"
  have wf: "band_wf (nonzero_wf u64_max) (st_capacity s)" using assms by (simp add: storage_wf_def)
  have "struct_fields [''required'', ''recommended'', ''slot''] (SMap ?fs) = Inr ?fs"
    by (rule struct_fields_ok) (auto simp: band_fields_def serde_simps)
  moreover have "map_of ?fs ''required'' = map_option SNum (b_required (st_capacity s))"
    "map_of ?fs ''recommended'' = map_option (en_recommendation SNum) (b_recommended (st_capacity s))"
    by (auto simp: band_fields_def serde_simps split: option.splits)
  note band = band_fields_read [OF this wf de_nonzero_en nonzero_no_string(1)]
  moreover have "field_optional de_slot ?fs ''slot'' = Inr (st_slot s)"
    by (rule field_optional_opt [where e = en_slot])
      (auto simp: band_fields_def serde_simps de_slot_en split: option.splits)
  ultimately show "de_storage (en_storage s) = Inr s"
    using band band_new_id [OF wf] by (simp add: de_storage_def en_storage_def)
qed (simp add: en_storage_def)

lemmas cpus_band_en =
  de_band_en [where d = "de_nonzero u32_max" and e = SNum and P = "nonzero_wf u32_max",
    OF _ de_nonzero_en nonzero_no_string(1)]
lemmas memory_band_en =
  de_band_en [where d = de_memory and e = en_memory and P = memory_wf,
    OF _ de_memory_en nonzero_no_string(2)]

lemma de_requirements_en:
  assumes "requirements_wf r"
  shows "de_requirements (en_requirements r) = Inr r"
proof -
  let ?fs = "[(''slot'', en_slot (rq_slot r))] @ opt_field ''cpus'' (en_band SNum) (rq_cpus r) @
      opt_field ''memory'' (en_band en_memory) (rq_memory r) @
      opt_field ''storage'' en_storage (rq_storage r) @
      (if rq_interfaces r = [] then [] else [(''interfaces'', en_btree en_interface (rq_interfaces r))])"
  have "struct_fields [''slot'', ''cpus'', ''memory'', ''storage'', ''interfaces''] (SMap ?fs) = Inr ?fs"
    by (rule struct_fields_ok) (auto simp: serde_simps)
  moreover have "field_default slot_default de_slot ?fs ''slot'' = Inr (rq_slot r)"
    by (simp add: field_default_def de_slot_en)
  moreover have "field_optional (de_band (de_nonzero u32_max)) ?fs ''cpus'' = Inr (rq_cpus r)"
    by (rule field_optional_opt [where e = "en_band SNum"])
      (use assms in \<open>auto simp: serde_simps requirements_wf_def en_band_not_null
        intro: cpus_band_en split: option.splits\<close>)
  moreover have "field_optional (de_band de_memory) ?fs ''memory'' = Inr (rq_memory r)"
    by (rule field_optional_opt [where e = "en_band en_memory"])
      (use assms in \<open>auto simp: serde_simps requirements_wf_def en_band_not_null
        intro: memory_band_en split: option.splits\<close>)
  moreover have "field_optional de_storage ?fs ''storage'' = Inr (rq_storage r)"
    by (rule field_optional_opt [where e = en_storage])
      (use assms in \<open>auto simp: serde_simps requirements_wf_def de_storage_en split: option.splits\<close>)
  moreover have "field_default [] (de_btree de_interface) ?fs ''interfaces'' = Inr (rq_interfaces r)"
  proof -
    have "de_btree de_interface (en_btree en_interface (rq_interfaces r)) = Inr (rq_interfaces r)"
      by (rule de_btree_en) (use assms in \<open>auto simp: requirements_wf_def de_interface_en\<close>)
    then show ?thesis by (auto simp: field_default_def serde_simps split: option.splits)
  qed
  ultimately show ?thesis by (simp add: de_requirements_def en_requirements_def)
qed

section \<open>The canonical form\<close>

text \<open>What the requirements mean: an absent processor band is the band of the floor one.\<close>

definition effective_cpus :: "requirements \<Rightarrow> nat \<times> nat recommendation" where
  "effective_cpus r =
     (case cpus_required r of None \<Rightarrow> 1 | Some n \<Rightarrow> n,
      case cpus_recommended r of None \<Rightarrow> RecValue 1 | Some n \<Rightarrow> n)"

definition same_contract :: "requirements \<Rightarrow> requirements \<Rightarrow> bool" where
  "same_contract r r' \<longleftrightarrow> r\<lparr>rq_cpus := None\<rparr> = r'\<lparr>rq_cpus := None\<rparr> \<and> effective_cpus r = effective_cpus r'"

lemma canonicalize_others: "(canonicalize r)\<lparr>rq_cpus := None\<rparr> = r\<lparr>rq_cpus := None\<rparr>"
  by (simp add: canonicalize_def Let_def split: option.splits)

lemma canonical_cpus:
  "rq_cpus (canonicalize r) =
     (let req = (if cpus_required r = Some 1 then None else cpus_required r);
          rec = (if cpus_recommended r = Some (RecValue 1) then None else cpus_recommended r)
      in if req = None \<and> rec = None then None else Some \<lparr>b_required = req, b_recommended = rec\<rparr>)"
proof (cases "rq_cpus r")
  case None
  then show ?thesis by (simp add: canonicalize_def cpus_required_def cpus_recommended_def)
next
  case (Some b)
  then show ?thesis
    by (cases b) (simp add: canonicalize_def cpus_required_def cpus_recommended_def band_is_empty_def Let_def)
qed

lemma requirements_cpus_eq:
  "r\<lparr>rq_cpus := None\<rparr> = r'\<lparr>rq_cpus := None\<rparr> \<Longrightarrow> rq_cpus r = rq_cpus r' \<Longrightarrow> r = (r' :: requirements)"
  by (cases r; cases r') simp

lemma canonicalize_effective: "effective_cpus (canonicalize r) = effective_cpus r"
  unfolding effective_cpus_def cpus_required_def [of "canonicalize r"]
    cpus_recommended_def [of "canonicalize r"] canonical_cpus
  by (auto simp: Let_def split: option.splits)

lemma canonical_cpus_effective:
  "rq_cpus (canonicalize r) =
     (let req = (if fst (effective_cpus r) = 1 then None else Some (fst (effective_cpus r)));
          rec = (if snd (effective_cpus r) = RecValue 1 then None else Some (snd (effective_cpus r)))
      in if req = None \<and> rec = None then None else Some \<lparr>b_required = req, b_recommended = rec\<rparr>)"
  unfolding canonical_cpus effective_cpus_def
  by (cases "cpus_required r"; cases "cpus_recommended r") (simp_all add: Let_def)

lemma canonicalize_eq_iff: "canonicalize r = canonicalize r' \<longleftrightarrow> same_contract r r'"
proof
  assume "canonicalize r = canonicalize r'"
  then show "same_contract r r'"
    unfolding same_contract_def using canonicalize_others canonicalize_effective by metis
next
  assume s: "same_contract r r'"
  then have "rq_cpus (canonicalize r) = rq_cpus (canonicalize r')"
    by (simp only: canonical_cpus_effective same_contract_def)
  moreover have "(canonicalize r)\<lparr>rq_cpus := None\<rparr> = (canonicalize r')\<lparr>rq_cpus := None\<rparr>"
    unfolding canonicalize_others using s by (simp only: same_contract_def)
  ultimately show "canonicalize r = canonicalize r'" by (rule requirements_cpus_eq [rotated])
qed

lemma canonicalize_idem: "canonicalize (canonicalize r) = canonicalize r"
  unfolding canonicalize_eq_iff same_contract_def
  by (simp add: canonicalize_others canonicalize_effective)

lemma canonical_cpus_tiers:
  assumes "rq_cpus (canonicalize r) = Some b"
  obtains a where "rq_cpus r = Some a" "b_required b = None \<or> b_required b = b_required a"
    "b_recommended b = None \<or> b_recommended b = b_recommended a"
proof (cases "rq_cpus r")
  case None
  with assms show thesis by (simp add: canonicalize_def)
next
  case (Some a)
  show thesis
  proof (rule that [OF Some])
    show "b_required b = None \<or> b_required b = b_required a"
      using assms Some by (cases "b_required a = Some 1"; cases "b_recommended a = Some (RecValue 1)")
        (auto simp: canonicalize_def Let_def split: if_splits)
    show "b_recommended b = None \<or> b_recommended b = b_recommended a"
      using assms Some by (cases "b_required a = Some 1"; cases "b_recommended a = Some (RecValue 1)")
        (auto simp: canonicalize_def Let_def split: if_splits)
  qed
qed

lemma canonicalize_fields:
  "rq_memory (canonicalize r) = rq_memory r" "rq_storage (canonicalize r) = rq_storage r"
  "rq_interfaces (canonicalize r) = rq_interfaces r" "rq_slot (canonicalize r) = rq_slot r"
  by (simp_all add: canonicalize_def Let_def split: option.splits)

lemma canonicalize_wf:
  assumes "requirements_wf r"
  shows "requirements_wf (canonicalize r)"
proof -
  have "band_wf (nonzero_wf u32_max) b" if c: "rq_cpus (canonicalize r) = Some b" for b
  proof -
    obtain a where a: "rq_cpus r = Some a" "b_required b = None \<or> b_required b = b_required a"
      "b_recommended b = None \<or> b_recommended b = b_recommended a"
      using canonical_cpus_tiers [OF c] by blast
    have "band_wf (nonzero_wf u32_max) a" using assms a(1) by (simp add: requirements_wf_def)
    then show ?thesis using a(2,3) unfolding band_wf_def by auto
  qed
  with assms show ?thesis by (simp add: requirements_wf_def canonicalize_fields)
qed

text \<open>
  The launch contract survives the wire and has one canonical form.
  Whatever serialised value is read as a config, its bands are ordered, its
  memory a positive multiple of 2 MiB and its other sizes not zero; writing it
  and reading it back gives its canonical form; and two contracts are written
  the same exactly when they ask for the same thing, where an absent processor
  count means one.
\<close>

theorem config_wire_canonical:
  assumes "de_config v = Inr c"
  shows "config_wf c \<and>
    de_config (en_config c) = Inr (c\<lparr>cf_requirements := canonicalize (cf_requirements c)\<rparr>) \<and>
    (\<forall>c'. config_wf c' \<longrightarrow> (en_config c = en_config c' \<longleftrightarrow>
       cf_version c = cf_version c' \<and> same_contract (cf_requirements c) (cf_requirements c')))"
proof -
  have read: "de_config (en_config c) = Inr (c\<lparr>cf_requirements := canonicalize (cf_requirements c)\<rparr>)"
    if "config_wf c" for c
  proof -
    have "requirements_wf (canonicalize (cf_requirements c))" "cf_version c \<le> u32_max"
      using that canonicalize_wf by (auto simp: config_wf_def)
    then show ?thesis
      by (cases c) (simp add: de_config_def en_config_def struct_fields_def field_required_def
          field_default_def de_uint_def de_requirements_en)
  qed
  have wf: "config_wf c" using assms by (rule de_config_wf)
  have "en_config c = en_config c' \<longleftrightarrow>
      cf_version c = cf_version c' \<and> same_contract (cf_requirements c) (cf_requirements c')"
    if "config_wf c'" for c'
  proof -
    have "en_config c = en_config c' \<longleftrightarrow> cf_version c = cf_version c' \<and>
        canonicalize (cf_requirements c) = canonicalize (cf_requirements c')"
    proof
      assume "en_config c = en_config c'"
      then have "c\<lparr>cf_requirements := canonicalize (cf_requirements c)\<rparr> =
          c'\<lparr>cf_requirements := canonicalize (cf_requirements c')\<rparr>"
        using read [OF wf] read [OF that] by simp
      then show "cf_version c = cf_version c' \<and>
          canonicalize (cf_requirements c) = canonicalize (cf_requirements c')"
        by (cases c; cases c') simp
    qed (simp add: en_config_def)
    then show ?thesis by (simp only: canonicalize_eq_iff)
  qed
  with wf read [OF wf] show ?thesis by blast
qed

definition example_config :: sval where
  "example_config = SMap [(''version'', SNum 1), (''requirements'', SMap
     [(''cpus'', SMap [(''required'', SNum 1)]),
      (''memory'', SMap [(''required'', SNum 512), (''recommended'', SStr ''max'')])])]"

theorem config_wire_canonical_witness:
  "\<exists>c. de_config example_config = Inr c \<and> rq_cpus (cf_requirements c) \<noteq> None \<and>
     de_config (en_config c) = Inr (c\<lparr>cf_requirements := canonicalize (cf_requirements c)\<rparr>) \<and>
     rq_cpus (canonicalize (cf_requirements c)) = None"
proof -
  let ?r = "\<lparr>rq_slot = Mmio, rq_cpus = Some \<lparr>b_required = Some 1, b_recommended = None\<rparr>,
    rq_memory = Some \<lparr>b_required = Some (Memory 512), b_recommended = Some RecMax\<rparr>,
    rq_storage = None, rq_interfaces = []\<rparr>"
  have r: "de_config example_config = Inr \<lparr>cf_version = 1, cf_requirements = ?r\<rparr>"
    by code_simp
  have "rq_cpus (canonicalize ?r) = None" by code_simp
  with r config_wire_canonical [OF r, THEN conjunct2, THEN conjunct1] show ?thesis
    by (intro exI [of _ "\<lparr>cf_version = 1, cf_requirements = ?r\<rparr>"]) simp
qed

end
