(* ===== verification/Copy_Pattern.thy ===== *)
theory Copy_Pattern
  imports Plan_Names
begin

text \<open>
  Filename patterns of COPY: \<open>copy/pattern.rs\<close>.  A pattern is parsed into tokens
  over characters; a name is a list of bytes, matched by a forward sweep that
  keeps the set of byte offsets reachable after each token.
\<close>

section \<open>UTF-8, as the standard library decodes it\<close>

definition cont_byte :: "char \<Rightarrow> bool" where
  "cont_byte c \<longleftrightarrow> 128 \<le> chr_code c \<and> chr_code c \<le> 191"

text \<open>The well-formed sequences of the Unicode standard, with the code point each encodes.\<close>

fun utf8_char :: "string \<Rightarrow> nat option" where
  "utf8_char [a] = (if chr_code a < 128 then Some (chr_code a) else None)"
| "utf8_char [a, b] =
     (if 194 \<le> chr_code a \<and> chr_code a \<le> 223 \<and> cont_byte b
      then Some ((chr_code a - 192) * 64 + (chr_code b - 128)) else None)"
| "utf8_char [a, b, c] =
     (if 224 \<le> chr_code a \<and> chr_code a \<le> 239 \<and> cont_byte b \<and> cont_byte c \<and>
         (chr_code a = 224 \<longrightarrow> 160 \<le> chr_code b) \<and> (chr_code a = 237 \<longrightarrow> chr_code b \<le> 159)
      then Some ((chr_code a - 224) * 4096 + (chr_code b - 128) * 64 + (chr_code c - 128)) else None)"
| "utf8_char [a, b, c, d] =
     (if 240 \<le> chr_code a \<and> chr_code a \<le> 244 \<and> cont_byte b \<and> cont_byte c \<and> cont_byte d \<and>
         (chr_code a = 240 \<longrightarrow> 144 \<le> chr_code b) \<and> (chr_code a = 244 \<longrightarrow> chr_code b \<le> 143)
      then Some ((chr_code a - 240) * 262144 + (chr_code b - 128) * 4096 +
                 (chr_code c - 128) * 64 + (chr_code d - 128)) else None)"
| "utf8_char _ = None"

definition utf8_encode :: "nat \<Rightarrow> string" where
  "utf8_encode n =
     (if n < 128 then [char_of n]
      else if n < 2048 then [char_of (192 + n div 64), char_of (128 + n mod 64)]
      else if n < 65536 then
        [char_of (224 + n div 4096), char_of (128 + n div 64 mod 64), char_of (128 + n mod 64)]
      else
        [char_of (240 + n div 262144), char_of (128 + n div 4096 mod 64),
         char_of (128 + n div 64 mod 64), char_of (128 + n mod 64)])"

record rune =
  rune_value :: nat
  rune_width :: nat

text \<open>
  The shortest prefix of one to four bytes that is valid text: one character.
  A byte that starts none stands for the replacement character.
\<close>

definition rune_decode :: "string \<Rightarrow> rune" where
  "rune_decode bytes =
     (case filter (\<lambda>w. utf8_char (take w bytes) \<noteq> None) [1..<min 4 (length bytes) + 1] of
        width # _ \<Rightarrow> \<lparr>rune_value = the (utf8_char (take width bytes)), rune_width = width\<rparr>
      | [] \<Rightarrow> \<lparr>rune_value = 65533, rune_width = 1\<rparr>)"

lemma rune_width_bounds:
  assumes "s \<noteq> []"
  shows "1 \<le> rune_width (rune_decode s) \<and> rune_width (rune_decode s) \<le> min 4 (length s)"
proof (cases "filter (\<lambda>w. utf8_char (take w s) \<noteq> None) [1..<min 4 (length s) + 1]")
  case Nil
  with assms show ?thesis by (cases s) (auto simp: rune_decode_def)
next
  case (Cons w ws)
  then have "w \<in> set (filter (\<lambda>w. utf8_char (take w s) \<noteq> None) [1..<min 4 (length s) + 1])"
    by simp
  then show ?thesis using Cons by (auto simp: rune_decode_def)
qed

text \<open>The characters of a text.\<close>

function str_chars :: "string \<Rightarrow> nat list" where
  "str_chars s =
     (if s = [] then []
      else rune_value (rune_decode s) # str_chars (drop (rune_width (rune_decode s)) s))"
  by pat_completeness auto

termination
proof (relation "measure length")
  fix s :: string
  assume "s \<noteq> []"
  then show "(drop (rune_width (rune_decode s)) s, s) \<in> measure length"
    using rune_width_bounds [of s] by (cases s) auto
qed simp

declare str_chars.simps [simp del]

section \<open>Patterns\<close>

datatype token =
    Literal string
  | Star
  | Any
  | Class bool "(nat \<times> nat) list"

record source_pattern =
  pat_source :: string
  pat_tokens :: "token list"

datatype pattern_error = PatternError

abbreviation ch :: "char \<Rightarrow> nat" where
  "ch c \<equiv> chr_code c"

definition class_character :: "nat list \<Rightarrow> pattern_error + nat \<times> nat list" where
  "class_character cs =
     (case cs of
        [] \<Rightarrow> Inl PatternError
      | c # r \<Rightarrow>
          if c = ch CHR 0x5C then (case r of [] \<Rightarrow> Inl PatternError | d # r' \<Rightarrow> Inr (d, r'))
          else if c = ch CHR '']'' \<or> c = ch CHR ''-'' then Inl PatternError
          else Inr (c, r))"

lemma class_character_shorter:
  "class_character cs = Inr (c, r) \<Longrightarrow> length r < length cs"
  by (auto simp: class_character_def split: list.splits if_splits)

text \<open>One range of a class: a character, or two with a hyphen between them.\<close>

definition class_range :: "nat list \<Rightarrow> pattern_error + (nat \<times> nat) \<times> nat list" where
  "class_range cs =
     (case class_character cs of Inl e \<Rightarrow> Inl e
      | Inr (low, r) \<Rightarrow>
          (case r of
             c # r' \<Rightarrow>
               if c = ch CHR ''-'' then
                 (case class_character r' of Inl e \<Rightarrow> Inl e
                  | Inr (high, r'') \<Rightarrow> Inr ((low, high), r''))
               else Inr ((low, low), r)
           | [] \<Rightarrow> Inr ((low, low), r)))"

lemma class_range_shorter:
  "class_range cs = Inr (p, r) \<Longrightarrow> length r < length cs"
  by (auto simp: class_range_def split: list.splits if_splits sum.splits prod.splits
      dest!: class_character_shorter)

function class_ranges ::
    "(nat \<times> nat) list \<Rightarrow> nat list \<Rightarrow> pattern_error + (nat \<times> nat) list \<times> nat list" where
  "class_ranges ranges cs =
     (if ranges \<noteq> [] \<and> cs \<noteq> [] \<and> hd cs = ch CHR '']'' then Inr (ranges, tl cs)
      else (case class_range cs of Inl e \<Rightarrow> Inl e
            | Inr (p, r) \<Rightarrow> class_ranges (ranges @ [p]) r))"
  by pat_completeness auto

termination
  by (relation "measure (\<lambda>(_, cs). length cs)") (auto dest: class_range_shorter)

declare class_ranges.simps [simp del]

lemma class_ranges_shorter:
  "class_ranges ranges cs = Inr (out, r) \<Longrightarrow> length r < length cs"
proof (induction ranges cs rule: class_ranges.induct)
  case (1 ranges cs)
  show ?case
  proof (cases "ranges \<noteq> [] \<and> cs \<noteq> [] \<and> hd cs = ch CHR '']''")
    case True
    with 1(2) show ?thesis by (cases cs) (auto simp: class_ranges.simps)
  next
    case False
    with 1(2) obtain p r' where p: "class_range cs = Inr (p, r')"
      "class_ranges (ranges @ [p]) r' = Inr (out, r)"
      by (subst (asm) class_ranges.simps) (auto split: sum.splits)
    from 1(1) [OF False p(1) refl p(2)] class_range_shorter [OF p(1)] show ?thesis by simp
  qed
qed

definition parse_class :: "nat list \<Rightarrow> pattern_error + token \<times> nat list" where
  "parse_class cs =
     (let negated = (cs \<noteq> [] \<and> hd cs = ch CHR ''^'') in
      case class_ranges [] (if negated then tl cs else cs) of Inl e \<Rightarrow> Inl e
      | Inr (ranges, r) \<Rightarrow> Inr (Class negated ranges, r))"

lemma parse_class_shorter: "parse_class cs = Inr (t, r) \<Longrightarrow> length r < length cs"
  by (auto simp: parse_class_def Let_def split: sum.splits if_splits
      dest!: class_ranges_shorter)

definition next_token :: "nat \<Rightarrow> nat list \<Rightarrow> pattern_error + token \<times> nat list" where
  "next_token c cs =
     (if c = ch CHR ''*'' then Inr (Star, cs)
      else if c = ch CHR ''?'' then Inr (Any, cs)
      else if c = ch CHR ''['' then parse_class cs
      else if c = ch CHR 0x5C then
        (case cs of [] \<Rightarrow> Inl PatternError | d # r \<Rightarrow> Inr (Literal (utf8_encode d), r))
      else Inr (Literal (utf8_encode c), cs))"

lemma next_token_shorter: "next_token c cs = Inr (t, r) \<Longrightarrow> length r \<le> length cs"
  by (auto simp: next_token_def split: if_splits list.splits dest: parse_class_shorter)

function parse_tokens :: "nat list \<Rightarrow> pattern_error + token list" where
  "parse_tokens [] = Inr []"
| "parse_tokens (c # cs) =
     (case next_token c cs of Inl e \<Rightarrow> Inl e
      | Inr (t, r) \<Rightarrow>
          (case parse_tokens r of Inl e \<Rightarrow> Inl e | Inr ts \<Rightarrow> Inr (t # ts)))"
  by pat_completeness auto

termination
  by (relation "measure length") (auto dest: next_token_shorter)

definition trim_slashes :: "string \<Rightarrow> string" where
  "trim_slashes s =
     rev (dropWhile (\<lambda>c. c = CHR ''/'') (rev (dropWhile (\<lambda>c. c = CHR ''/'') s)))"

definition pattern_from_str :: "string \<Rightarrow> pattern_error + source_pattern" where
  "pattern_from_str source =
     (if source = [] \<or> CHR 0x00 \<in> set source \<or> ''..'' \<in> set (split_on CHR ''/'' source)
      then Inl PatternError
      else
        (let norm = join_with CHR ''/'' (path_parts (trim_slashes source)) in
         case parse_tokens (str_chars norm) of Inl e \<Rightarrow> Inl e
         | Inr tokens \<Rightarrow> Inr \<lparr>pat_source = source, pat_tokens = tokens\<rparr>))"

section \<open>Matching\<close>

definition in_class :: "(nat \<times> nat) list \<Rightarrow> nat \<Rightarrow> bool" where
  "in_class ranges v \<longleftrightarrow> list_ex (\<lambda>(low, high). low \<le> v \<and> v \<le> high) ranges"

text \<open>The body of the inner loop: what a token does at one offset.\<close>

definition match_offset :: "token \<Rightarrow> string \<Rightarrow> bool list \<Rightarrow> bool list \<Rightarrow> nat \<Rightarrow> bool list" where
  "match_offset token bytes reachable nxt offset =
     (case token of
        Star \<Rightarrow>
          nxt[offset := reachable ! offset \<or>
               (0 < offset \<and> bytes ! (offset - 1) \<noteq> CHR ''/'' \<and> nxt ! (offset - 1))]
      | _ \<Rightarrow>
          if \<not> reachable ! offset then nxt
          else
            (case token of
               Literal lit \<Rightarrow>
                 if starts_with lit (drop offset bytes) then nxt[offset + length lit := True] else nxt
             | Any \<Rightarrow>
                 if offset < length bytes \<and> bytes ! offset \<noteq> CHR ''/''
                 then nxt[offset + rune_width (rune_decode (drop offset bytes)) := True] else nxt
             | Class negated ranges \<Rightarrow>
                 if offset < length bytes \<and>
                    in_class ranges (rune_value (rune_decode (drop offset bytes))) \<noteq> negated
                 then nxt[offset + rune_width (rune_decode (drop offset bytes)) := True] else nxt
             | Star \<Rightarrow> nxt))"

definition match_token :: "string \<Rightarrow> bool list \<Rightarrow> token \<Rightarrow> bool list" where
  "match_token bytes reachable token =
     foldl (match_offset token bytes reachable) (replicate (length reachable) False)
       [0..<length bytes + 1]"

definition pattern_matches :: "source_pattern \<Rightarrow> string \<Rightarrow> bool" where
  "pattern_matches p bytes =
     foldl (match_token bytes) ((replicate (length bytes + 1) False)[0 := True]) (pat_tokens p)
       ! length bytes"

section \<open>What a pattern means\<close>

text \<open>The bytes one token can stand for at the front of a name.\<close>

definition token_takes :: "token \<Rightarrow> string \<Rightarrow> nat \<Rightarrow> bool" where
  "token_takes t s n \<longleftrightarrow> n \<le> length s \<and>
     (case t of
        Star \<Rightarrow> CHR ''/'' \<notin> set (take n s)
      | Literal lit \<Rightarrow> take n s = lit
      | Any \<Rightarrow> s \<noteq> [] \<and> hd s \<noteq> CHR ''/'' \<and> n = rune_width (rune_decode s)
      | Class negated ranges \<Rightarrow> s \<noteq> [] \<and>
          in_class ranges (rune_value (rune_decode s)) \<noteq> negated \<and>
          n = rune_width (rune_decode s))"

fun glob :: "token list \<Rightarrow> string \<Rightarrow> bool" where
  "glob [] s \<longleftrightarrow> s = []"
| "glob (t # ts) s \<longleftrightarrow> (\<exists>n. token_takes t s n \<and> glob ts (drop n s))"

text \<open>The sweep: after the offsets below \<open>k\<close>, an end offset is marked if a start below \<open>k\<close> reaches it.\<close>

lemma match_offset_step:
  assumes "t \<noteq> Star" "i \<le> length bytes" "length nxt = length bytes + 1" "j \<le> length bytes"
  shows "match_offset t bytes R nxt i ! j \<longleftrightarrow>
    nxt ! j \<or> (i \<le> j \<and> R ! i \<and> token_takes t (drop i bytes) (j - i))"
proof (cases t)
  case (Literal lit)
  have "starts_with lit (drop i bytes) \<and> j = i + length lit \<longleftrightarrow>
      i \<le> j \<and> take (j - i) (drop i bytes) = lit"
  proof
    assume "i \<le> j \<and> take (j - i) (drop i bytes) = lit"
    then have "length lit = j - i" using assms by auto
    then show "starts_with lit (drop i bytes) \<and> j = i + length lit"
      using \<open>i \<le> j \<and> take (j - i) (drop i bytes) = lit\<close> by (auto simp: starts_with_def)
  qed (auto simp: starts_with_def)
  then show ?thesis
    using assms Literal by (auto simp: match_offset_def token_takes_def nth_list_update)
next
  case Any
  then show ?thesis
    using assms rune_width_bounds [of "drop i bytes"]
    by (auto simp: match_offset_def token_takes_def nth_list_update hd_drop_conv_nth split: if_splits)
next
  case (Class negated ranges)
  then show ?thesis
    using assms rune_width_bounds [of "drop i bytes"]
    by (auto simp: match_offset_def token_takes_def nth_list_update split: if_splits)
qed (use assms in simp)

lemma match_offset_length [simp]: "length (match_offset t bytes R nxt i) = length nxt"
  by (simp add: match_offset_def split: token.splits)

lemma match_sweep_length [simp]: "length (foldl (match_offset t bytes R) nxt is) = length nxt"
  by (induction "is" arbitrary: nxt) auto

lemma match_sweep:
  assumes "t \<noteq> Star" "k \<le> length bytes + 1" "j \<le> length bytes"
    and "length N = length bytes + 1" "\<not> N ! j"
  shows "foldl (match_offset t bytes R) N [0..<k] ! j \<longleftrightarrow>
    (\<exists>i<k. i \<le> j \<and> R ! i \<and> token_takes t (drop i bytes) (j - i))"
  using assms
proof (induction k)
  case (Suc k)
  then show ?case
    using match_offset_step [of t k bytes "foldl (match_offset t bytes R) N [0..<k]" j R]
    by (auto simp: less_Suc_eq)
qed simp

lemma star_takes_Suc:
  assumes "i \<le> j" "j < length bytes"
  shows "token_takes Star (drop i bytes) (Suc j - i) \<longleftrightarrow>
    token_takes Star (drop i bytes) (j - i) \<and> bytes ! j \<noteq> CHR ''/''"
proof -
  have "take (Suc j - i) (drop i bytes) = take (j - i) (drop i bytes) @ [bytes ! j]"
    using assms by (simp add: Suc_diff_le take_Suc_conv_app_nth)
  then show ?thesis using assms by (auto simp: token_takes_def)
qed

lemma match_sweep_star:
  assumes "k \<le> length bytes + 1" "j < k" "length N = length bytes + 1"
  shows "foldl (match_offset Star bytes R) N [0..<k] ! j \<longleftrightarrow>
    (\<exists>i\<le>j. R ! i \<and> token_takes Star (drop i bytes) (j - i))"
  using assms
proof (induction k arbitrary: j)
  case (Suc k)
  let ?f = "foldl (match_offset Star bytes R) N"
  have f: "?f [0..<Suc k] = (?f [0..<k])[k := R ! k \<or>
      (0 < k \<and> bytes ! (k - 1) \<noteq> CHR ''/'' \<and> ?f [0..<k] ! (k - 1))]"
    by (simp add: match_offset_def)
  show ?case
  proof (cases "j < k")
    case True
    then show ?thesis unfolding f using Suc by simp
  next
    case False
    with Suc have jk: "j = k" by simp
    have z: "token_takes Star (drop k bytes) 0" by (simp add: token_takes_def)
    show ?thesis
    proof (cases k)
      case 0
      then show ?thesis unfolding f using jk z Suc.prems by simp
    next
      case (Suc m)
      have IH: "?f [0..<k] ! m \<longleftrightarrow> (\<exists>i\<le>m. R ! i \<and> token_takes Star (drop i bytes) (m - i))"
        using Suc.IH [of m] Suc Suc.prems by simp
      have "(\<exists>i\<le>k. R ! i \<and> token_takes Star (drop i bytes) (k - i)) \<longleftrightarrow>
          R ! k \<or> (\<exists>i\<le>m. R ! i \<and> token_takes Star (drop i bytes) (Suc m - i))"
        using z Suc by (auto simp: le_Suc_eq)
      also have "\<dots> \<longleftrightarrow> R ! k \<or> (\<exists>i\<le>m. R ! i \<and> token_takes Star (drop i bytes) (m - i)) \<and>
          bytes ! m \<noteq> CHR ''/''"
        using star_takes_Suc [of _ m bytes] Suc Suc.prems by auto
      finally show ?thesis unfolding f using jk IH Suc Suc.prems by auto
    qed
  qed
qed simp

lemma match_token_nth:
  assumes "length R = length bytes + 1" "j \<le> length bytes"
  shows "match_token bytes R t ! j \<longleftrightarrow>
    (\<exists>i\<le>j. R ! i \<and> token_takes t (drop i bytes) (j - i))"
proof (cases "t = Star")
  case True
  then show ?thesis
    using assms match_sweep_star [of "length bytes + 1" bytes j "replicate (length R) False" R]
    by (simp add: match_token_def del: upt_Suc)
next
  case False
  have "\<not> replicate (length R) False ! j" using assms nth_replicate [of j "length R" False] by simp
  with False show ?thesis
    using assms match_sweep [of t "length bytes + 1" bytes j "replicate (length R) False" R]
    by (auto simp: match_token_def less_Suc_eq_le simp del: upt_Suc replicate.simps)
qed

lemma match_token_length [simp]: "length (match_token bytes R t) = length R"
  by (simp add: match_token_def)

lemma match_tokens_glob:
  assumes "length R = length bytes + 1"
  shows "foldl (match_token bytes) R ts ! length bytes \<longleftrightarrow>
    (\<exists>i\<le>length bytes. R ! i \<and> glob ts (drop i bytes))"
  using assms
proof (induction ts arbitrary: R)
  case Nil
  then show ?case by auto
next
  case (Cons t ts)
  have "foldl (match_token bytes) R (t # ts) ! length bytes \<longleftrightarrow>
      (\<exists>j\<le>length bytes. match_token bytes R t ! j \<and> glob ts (drop j bytes))"
    using Cons by simp
  also have "\<dots> \<longleftrightarrow> (\<exists>j\<le>length bytes. \<exists>i\<le>j. R ! i \<and> token_takes t (drop i bytes) (j - i) \<and>
      glob ts (drop j bytes))"
    by (simp add: match_token_nth [OF Cons.prems] cong: conj_cong) blast
  also have "\<dots> \<longleftrightarrow> (\<exists>i\<le>length bytes. R ! i \<and> glob (t # ts) (drop i bytes))"
  proof
    assume "\<exists>j\<le>length bytes. \<exists>i\<le>j. R ! i \<and> token_takes t (drop i bytes) (j - i) \<and>
      glob ts (drop j bytes)"
    then obtain i j where "i \<le> j" "j \<le> length bytes" "R ! i"
      "token_takes t (drop i bytes) (j - i)" "glob ts (drop j bytes)" by blast
    then show "\<exists>i\<le>length bytes. R ! i \<and> glob (t # ts) (drop i bytes)"
      by (intro exI [of _ i]) (auto intro!: exI [of _ "j - i"])
  next
    assume "\<exists>i\<le>length bytes. R ! i \<and> glob (t # ts) (drop i bytes)"
    then obtain i n where i: "i \<le> length bytes" "R ! i" "token_takes t (drop i bytes) n"
      "glob ts (drop n (drop i bytes))" by auto
    then have "n \<le> length bytes - i" by (simp add: token_takes_def)
    with i have "i + n \<le> length bytes" by simp
    with i show "\<exists>j\<le>length bytes. \<exists>i\<le>j. R ! i \<and> token_takes t (drop i bytes) (j - i) \<and>
      glob ts (drop j bytes)"
      by (intro exI [of _ "i + n"] conjI exI [of _ i]) (auto simp: add.commute)
  qed
  finally show ?case .
qed

text \<open>
  C40: The pattern matcher computes what the tokens mean.  The forward sweep
  over byte offsets accepts a name exactly when the tokens, in order, take it
  apart: a literal takes its bytes, a question mark one character other than a
  slash, a class one character in (or outside) its ranges, and a star any
  bytes without a slash.
\<close>

theorem pattern_matches_glob: "pattern_matches p name = glob (pat_tokens p) name"
proof -
  have "pattern_matches p name \<longleftrightarrow> (\<exists>i\<le>length name.
      ((replicate (length name + 1) False)[0 := True]) ! i \<and> glob (pat_tokens p) (drop i name))"
    unfolding pattern_matches_def by (rule match_tokens_glob) simp
  also have "\<dots> \<longleftrightarrow> (\<exists>i\<le>length name. i = 0 \<and> glob (pat_tokens p) (drop i name))"
  proof -
    have "((replicate (length name + 1) False)[0 := True]) ! i \<longleftrightarrow> i = 0" if "i \<le> length name" for i
      using that by (cases i) auto
    then show ?thesis by (simp cong: conj_cong)
  qed
  also have "\<dots> \<longleftrightarrow> glob (pat_tokens p) name" by simp
  finally show ?thesis .
qed

text \<open>No token but a class takes a slash, and a pattern of parts has no token for one.\<close>

lemma glob_literals: "glob (map Literal ls) s \<longleftrightarrow> s = concat ls"
proof (induction ls arbitrary: s)
  case (Cons l ls)
  have "glob (map Literal (l # ls)) s \<longleftrightarrow> (\<exists>n\<le>length s. take n s = l \<and> drop n s = concat ls)"
    using Cons by (auto simp: token_takes_def)
  also have "\<dots> \<longleftrightarrow> s = l @ concat ls"
    by (auto intro!: exI [of _ "length l"]) (metis append_take_drop_id)
  finally show ?case by simp
qed simp

end
