(* ===== verification/Plan_Model.thy ===== *)
theory Plan_Model
  imports Plan_Remote Artifact_Config Disk_Layout Copy_Pattern
begin

text \<open>
  The data of an authored plan (\<open>plan/boot.rs\<close>, \<open>plan/directive.rs\<close>,
  \<open>plan/extract.rs\<close>, \<open>plan/format.rs\<close>, \<open>plan/image.rs\<close>, \<open>plan/mount.rs\<close>,
  \<open>plan/stage.rs\<close>, \<open>plan/mod.rs\<close>, \<open>plan/lock.rs\<close>) and the formatter profiles that
  a format stands for (\<open>formatter/profile.rs\<close>, \<open>formatter/fat32.rs\<close>).
\<close>

section \<open>The authored plan\<close>

datatype config_value = CString string | CList "string list"

datatype plan_mount = EspMount | TmpfsMount

datatype plan_filesystem = Ext4

record plan_extract =
  ex_from :: image_ref
  ex_path :: image_path

datatype boot =
    BootShorthand image_ref
  | BootInherit image_ref
  | BootInheritDefined image_ref "(key, config_value) btree"
  | BootInheritExtended image_ref "(key, config_value option) btree"
  | BootExtract plan_extract "(key, config_value) btree"

datatype image =
    ImageShorthand image_ref
  | ImageComponents "image_ref option" "boot option"

text \<open>Durations in nanoseconds.\<close>

datatype plan_directive =
    CopyDirective "stage_ref option" image_path image_path
  | ExecDirective string bool nat

definition default_timeout :: nat where "default_timeout = 300 * 1000000000"

record plan_format =
  fm_filesystem :: plan_filesystem
  fm_size :: filesystem_size
  fm_label :: string
  fm_esp :: "filesystem_size option"

definition plan_format_default :: plan_format where
  "plan_format_default = \<lparr>fm_filesystem = Ext4, fm_size = filesystem_size_default, fm_label = [], fm_esp = None\<rparr>"

datatype plan_stage =
    CreateStage tool plan_format "(image_path, plan_mount) btree" "plan_directive list"
  | ExtendStage image_ref "(image_path, plan_mount) btree" "plan_directive list"

record authored_plan =
  ap_stages :: "(stage_ref, plan_stage) btree"
  ap_image :: image
  ap_requirements :: "requirements option"

definition version_deserialize :: "nat \<Rightarrow> nat \<Rightarrow> string + unit" where
  "version_deserialize v n = (if n \<noteq> v then Inl ''expected version'' else Inr ())"

record plan_lock =
  lk_images :: "(remote, digest) btree"

section \<open>Formatter profiles\<close>

record ext4_format =
  x4_size :: filesystem_size
  x4_label :: string
  x4_esp :: "filesystem_size option"

datatype format_error = EspRange | Ext4Invalid | LayoutInvalid layout_error

definition ext4_new :: "filesystem_size \<Rightarrow> string \<Rightarrow> ext4_format" where
  "ext4_new n label = \<lparr>x4_size = n, x4_label = label, x4_esp = None\<rparr>"

definition ext4_from :: "plan_format \<Rightarrow> ext4_format" where
  "ext4_from spec = (ext4_new (fm_size spec) (fm_label spec))\<lparr>x4_esp := fm_esp spec\<rparr>"

text \<open>An ESP between 257 MiB and 1 TiB.\<close>

datatype fat32_format = Fat32Format filesystem_size

definition fat32_try_from :: "filesystem_size \<Rightarrow> format_error + fat32_format" where
  "fat32_try_from n =
     (if \<not> (257 * 1024 * 1024 \<le> size_bytes n \<and> size_bytes n \<le> 1024 * 1024 * 1024 * 1024)
      then Inl EspRange else Inr (Fat32Format n))"

fun fat32_bytes :: "fat32_format \<Rightarrow> u64" where
  "fat32_bytes (Fat32Format n) = size_bytes n"

definition fat32_arguments :: "string \<Rightarrow> string list" where
  "fat32_arguments device =
     [''-I'', ''-F'', ''32'', ''-S'', ''4096'', ''-s'', ''1'', ''-n'', ''ESP''] @ [device]"

definition ext4_esp :: "ext4_format \<Rightarrow> format_error + fat32_format option" where
  "ext4_esp f = (case x4_esp f of None \<Rightarrow> Inr None
     | Some n \<Rightarrow> bindE (fat32_try_from n) (\<lambda>e. Inr (Some e)))"

definition ext4_layout :: "carapace_limits \<Rightarrow> ext4_format \<Rightarrow> format_error + layout" where
  "ext4_layout Z f =
     (if size_bytes (x4_size f) < 16 * 1024 * 1024 \<or> length (x4_label f) > 16 \<or> CHR 0x00 \<in> set (x4_label f)
      then Inl Ext4Invalid
      else bindE (ext4_esp f) (\<lambda>esp.
        mapErr LayoutInvalid (layout_new Z (unat (size_bytes (x4_size f)))
          (map_option (\<lambda>e. unat (fat32_bytes e)) esp))))"

definition ext4_profile :: string where "ext4_profile = ''conglobate-ext4-v1''"

definition ext4_configuration_path :: string where "ext4_configuration_path = ''etc/mke2fs.conf''"

definition ext4_options :: "string list" where
  "ext4_options = [''-q'', ''-F'', ''-t'', ''ext4'', ''-T'', ''conglobate'', ''-b'', ''4096'',
     ''-I'', ''256'', ''-i'', ''16384'', ''-m'', ''0'', ''-E'',
     ''root_owner=0:0,nodiscard,lazy_itable_init=0,assume_storage_prezeroed=1'']"

definition ext4_arguments :: "ext4_format \<Rightarrow> string \<Rightarrow> string list" where
  "ext4_arguments f device =
     ext4_options @ [''-L'', x4_label f, device, show_dec (unat (size_blocks (x4_size f)))]"

text \<open>
  An accepted format has a disk layout whose root has exactly the capacity
  that mke2fs is asked to format, in blocks of 4096 bytes.
\<close>

lemma ext4_layout_capacity:
  assumes "ext4_layout Z f = Inr l"
  shows "p_sectors (l_root l) * 512 = unat (size_blocks (x4_size f)) * 4096 \<and> layout_wf l \<and>
    (\<forall>e. x4_esp f = Some e \<longrightarrow> (\<exists>p. l_esp l = Some p \<and> p_sectors p * 512 = unat (size_bytes e)))"
proof -
  from assms obtain esp where e: "ext4_esp f = Inr esp"
    and l: "layout_new Z (unat (size_bytes (x4_size f))) (map_option (\<lambda>e. unat (fat32_bytes e)) esp) = Inr l"
    by (auto simp: ext4_layout_def bindE_Inr_iff split: if_splits)
  from layout_new_wf [OF l] have "p_sectors (l_root l) * 512 = unat (size_bytes (x4_size f))"
    "map_option (\<lambda>e. p_sectors e * 512) (l_esp l) = map_option (\<lambda>e. unat (fat32_bytes e)) esp"
    "layout_wf l" by auto
  moreover have "esp = map_option Fat32Format (x4_esp f)"
    using e by (auto simp: ext4_esp_def fat32_try_from_def bindE_Inr_iff split: option.splits if_splits)
  ultimately show ?thesis
    by (auto simp: size_blocks_unat size_bytes_unat option.map_comp)
qed

end
