(* ===== verification/Planner.thy ===== *)
theory Planner
  imports Plan_Model
begin

text \<open>
  Checking an authored plan and ordering its stages: \<open>planner/mod.rs\<close>.  Each
  stage is validated on its own; then the stages are walked depth first, with
  an explicit stack of names and exit marks, to refuse unknown stages and
  cycles and to order the stages the image needs.
\<close>

section \<open>Checked stages\<close>

datatype plan_error =
    PlanFormat format_error
  | PlanPattern pattern_error
  | BadMounts
  | EspMountRequiresFormat
  | UnknownStage stage_ref
  | StageCycle stage_ref
  | EmptyImage

record copy_step =
  cs_from :: "stage_ref option"
  cs_path :: image_path
  cs_sources :: "source_pattern list"
  cs_destination :: image_path

record exec_step =
  es_exec :: string
  es_network :: bool
  es_timeout :: nat

datatype directive = Exec exec_step | Copy copy_step

record stage =
  sg_from :: image_ref
  sg_bootstrap :: bool
  sg_format :: "plan_format option"
  sg_mount :: "(image_path, plan_mount) btree"
  sg_derive :: "directive list"

record plan =
  pl_stages :: "(stage_ref, stage) btree"
  pl_image :: image
  pl_requirements :: "requirements option"
  pl_order :: "stage_ref list"

definition directive_try_from :: "plan_directive \<Rightarrow> plan_error + directive" where
  "directive_try_from raw =
     (case raw of
        ExecDirective command network timeout \<Rightarrow>
          Inr (Exec \<lparr>es_exec = command, es_network = network, es_timeout = timeout\<rparr>)
      | CopyDirective from path into \<Rightarrow>
          bindE (if from = None
                 then mapErr PlanPattern (bindE (pattern_from_str (normalized path)) (\<lambda>p. Inr [p]))
                 else Inr [])
            (\<lambda>sources. Inr (Copy \<lparr>cs_from = from, cs_path = path, cs_sources = sources,
               cs_destination = into\<rparr>)))"

definition trim_start_slashes :: "string \<Rightarrow> string" where
  "trim_start_slashes s = dropWhile (\<lambda>c. c = CHR ''/'') s"

definition check_mount ::
    "plan_format option \<Rightarrow> string set \<Rightarrow> image_path \<Rightarrow> plan_error + string set" where
  "check_mount format paths path =
     (let norm = normalized path; first = hd (split_on CHR ''/'' (trim_start_slashes norm)) in
      if norm = ''/'' \<or> (format = None \<and> first \<in> {''dev'', ''proc'', ''sys''}) \<or> norm \<in> paths
      then Inl BadMounts else Inr (insert norm paths))"

text \<open>Source, bootstrap, format, mounts and steps of an authored stage.\<close>

fun stage_parts ::
    "plan_stage \<Rightarrow> image_ref \<times> bool \<times> plan_format option \<times> (image_path, plan_mount) btree \<times>
     plan_directive list" where
  "stage_parts (CreateStage (ToolImage source) format mounts steps) =
     (source, False, Some format, mounts, steps)"
| "stage_parts (CreateStage (Bootstrap remote) format mounts steps) =
     (RemoteImage remote, True, Some format, mounts, steps)"
| "stage_parts (ExtendStage base mounts steps) = (base, False, None, mounts, steps)"

definition check_format ::
    "carapace_limits \<Rightarrow> plan_format option \<Rightarrow> (image_path, plan_mount) btree \<Rightarrow> plan_error + unit" where
  "check_format Z format mount =
     (case format of
        None \<Rightarrow> Inr ()
      | Some spec \<Rightarrow>
          bindE (mapErr PlanFormat (ext4_layout Z (ext4_from spec))) (\<lambda>_.
            if fm_esp spec = None \<and> EspMount \<in> set (map snd mount)
            then Inl EspMountRequiresFormat else Inr ()))"

definition stage_try_from :: "carapace_limits \<Rightarrow> plan_stage \<Rightarrow> plan_error + stage" where
  "stage_try_from Z raw =
     (case stage_parts raw of (from, bootstrap, format, mount, derive) \<Rightarrow>
      bindE (foldE (check_mount format) {} (bt_keys mount)) (\<lambda>_.
        bindE (check_format Z format mount) (\<lambda>_.
          bindE (traverseE directive_try_from derive) (\<lambda>steps.
            Inr \<lparr>sg_from = from, sg_bootstrap = bootstrap, sg_format = format, sg_mount = mount,
                 sg_derive = steps\<rparr>))))"

section \<open>Sources\<close>

definition boot_source :: "boot \<Rightarrow> image_ref" where
  "boot_source b =
     (case b of BootShorthand s \<Rightarrow> s | BootInherit s \<Rightarrow> s | BootInheritDefined s _ \<Rightarrow> s
      | BootInheritExtended s _ \<Rightarrow> s | BootExtract e _ \<Rightarrow> ex_from e)"

definition image_sources :: "plan \<Rightarrow> image_ref list" where
  "image_sources p =
     (case pl_image p of
        ImageShorthand source \<Rightarrow> [source]
      | ImageComponents root boot \<Rightarrow>
          (case root of None \<Rightarrow> [] | Some r \<Rightarrow> [r]) @
          (case boot of None \<Rightarrow> [] | Some b \<Rightarrow> [boot_source b]))"

definition commands_required :: "plan \<Rightarrow> bool" where
  "commands_required p \<longleftrightarrow> pl_order p \<noteq> []"

definition root_reader_required :: "plan \<Rightarrow> bool" where
  "root_reader_required p \<longleftrightarrow>
     (case pl_image p of ImageComponents _ (Some (BootExtract _ _)) \<Rightarrow> True | _ \<Rightarrow> False)"

definition stage_of :: "plan \<Rightarrow> stage_ref \<Rightarrow> stage" where
  "stage_of p name = the (bt_get (pl_stages p) name)"

definition remote_sources :: "plan \<Rightarrow> (remote \<times> bool) list" where
  "remote_sources p =
     concat (map (\<lambda>(source, bootstrap).
         case source of RemoteImage remote \<Rightarrow> [(remote, bootstrap)] | Local _ \<Rightarrow> [])
       (map (\<lambda>name. (sg_from (stage_of p name), sg_bootstrap (stage_of p name))) (pl_order p) @
        map (\<lambda>source. (source, False)) (image_sources p)))"

section \<open>The walk\<close>

text \<open>The stages a stage is built on or copies from, in ascending order.\<close>

definition stage_dependencies :: "stage \<Rightarrow> stage_ref list" where
  "stage_dependencies s =
     foldl (\<lambda>deps d. case d of
              Copy c \<Rightarrow> (case cs_from c of Some name \<Rightarrow> set_insert name deps | None \<Rightarrow> deps)
            | Exec _ \<Rightarrow> deps)
       (case sg_from s of Local name \<Rightarrow> set_insert name [] | RemoteImage _ \<Rightarrow> [])
       (sg_derive s)"

type_synonym stages = "(stage_ref, stage) btree"

text \<open>The top of the stack is the head of the list.\<close>

function walk_loop ::
    "stages \<Rightarrow> (stage_ref \<times> bool) list \<Rightarrow> stage_ref set \<Rightarrow> stage_ref set \<Rightarrow> stage_ref list \<Rightarrow>
     plan_error + (stage_ref set \<times> stage_ref list)" where
  "walk_loop S [] visiting finished order = Inr (finished, order)"
| "walk_loop S ((name, exit) # stack) visiting finished order =
     (if exit then walk_loop S stack (visiting - {name}) (insert name finished) (order @ [name])
      else if name \<in> finished then walk_loop S stack visiting finished order
      else (case bt_get S name of
              None \<Rightarrow> Inl (UnknownStage name)
            | Some stage \<Rightarrow>
                if name \<in> visiting then Inl (StageCycle name)
                else walk_loop S
                       (map (\<lambda>n. (n, False)) (stage_dependencies stage) @ (name, True) # stack)
                       (insert name visiting) finished order))"
  by pat_completeness auto

text \<open>Every expansion marks a stage that was not marked, and every other step pops.\<close>

termination
proof (relation "inv_image (less_than <*lex*> less_than)
    (\<lambda>(S, stack, v, d, r). (card (dom (map_of S) - (v \<union> d)), length stack))", goal_cases)
  case (2 S name exit stack v d r)
  have "dom (map_of S) - (v - {name} \<union> insert name d) \<subseteq> dom (map_of S) - (v \<union> d)" by auto
  then have "card (dom (map_of S) - (v - {name} \<union> insert name d)) \<le> card (dom (map_of S) - (v \<union> d))"
    by (intro card_mono) (auto simp: finite_dom_map_of)
  then show ?case by auto
next
  case (4 S name exit stack v d r stage)
  then have "dom (map_of S) - (insert name v \<union> d) \<subset> dom (map_of S) - (v \<union> d)" by auto
  then have "card (dom (map_of S) - (insert name v \<union> d)) < card (dom (map_of S) - (v \<union> d))"
    by (intro psubset_card_mono) (auto simp: finite_dom_map_of)
  then show ?case by simp
qed auto

definition walk ::
    "stages \<Rightarrow> stage_ref \<Rightarrow> stage_ref set \<Rightarrow> stage_ref list \<Rightarrow>
     plan_error + (stage_ref set \<times> stage_ref list)" where
  "walk S start finished order = walk_loop S [(start, False)] {} finished order"

definition local_names :: "image_ref list \<Rightarrow> stage_ref list" where
  "local_names sources = concat (map (\<lambda>s. case s of Local name \<Rightarrow> [name] | RemoteImage _ \<Rightarrow> []) sources)"

definition plan_try_from :: "carapace_limits \<Rightarrow> authored_plan \<Rightarrow> plan_error + plan" where
  "plan_try_from Z raw =
     (if ap_image raw = ImageComponents None None then Inl EmptyImage
      else bindE (traverseE (\<lambda>(name, stage). bindE (stage_try_from Z stage) (\<lambda>s. Inr (name, s)))
             (ap_stages raw)) (\<lambda>stages.
        let p = \<lparr>pl_stages = stages, pl_image = ap_image raw, pl_requirements = ap_requirements raw,
                 pl_order = []\<rparr> in
        bindE (foldE (\<lambda>checked name. bindE (walk stages name checked []) (\<lambda>(c, _). Inr c)) {}
                (bt_keys stages)) (\<lambda>_.
          bindE (foldE (\<lambda>(finished, order) name. walk stages name finished order) ({}, [])
                  (local_names (image_sources p))) (\<lambda>(_, order).
            Inr (p\<lparr>pl_order := order\<rparr>)))))"

end
