(* ===== verification/Planner_Order.thy ===== *)
theory Planner_Order
  imports Planner
begin

text \<open>
  What the planner's order is: the dependency graph of a set of stages, the
  invariant of the walk's stack, and the correctness of the order and of both
  errors of the walk.
\<close>

section \<open>Orders\<close>

text \<open>
  An order of work: every element occurs once, after everything it depends on.
  Executing in such an order never finds a dependency missing.
\<close>

locale dependency_order =
  fixes deps :: "'a \<Rightarrow> 'a set"
    and order :: "'a list"
  assumes order_distinct: "distinct order"
    and deps_before: "order = xs @ x # ys \<Longrightarrow> deps x \<subseteq> set xs"
begin

lemma deps_closed:
  assumes "x \<in> set order"
  shows "deps x \<subseteq> set order"
proof -
  obtain xs ys where o: "order = xs @ x # ys" using split_list [OF assms] by blast
  from deps_before [OF o] have "deps x \<subseteq> set xs" .
  with o show ?thesis by auto
qed

lemma reach_before:
  assumes "(x, y) \<in> {(a, b). b \<in> deps a}\<^sup>+" "order = xs @ x # ys"
  shows "y \<in> set xs"
  using assms
proof (induction arbitrary: rule: trancl_induct)
  case (base y)
  then show ?case using deps_before by blast
next
  case (step y z)
  then obtain us vs where "xs = us @ y # vs" by (auto dest: split_list)
  with step have "order = us @ y # (vs @ x # ys)" by simp
  then have "deps y \<subseteq> set us" by (rule deps_before)
  with step \<open>xs = us @ y # vs\<close> show ?case by auto
qed

lemma no_cycle: "x \<in> set order \<Longrightarrow> (x, x) \<notin> {(a, b). b \<in> deps a}\<^sup>+"
proof
  assume "x \<in> set order" "(x, x) \<in> {(a, b). b \<in> deps a}\<^sup>+"
  then obtain xs ys where "order = xs @ x # ys" "x \<in> set xs"
    using reach_before by (metis split_list)
  then show False using order_distinct by simp
qed

lemma reach_closed:
  assumes "(x, y) \<in> {(a, b). b \<in> deps a}\<^sup>*" "x \<in> set order"
  shows "y \<in> set order"
  using assms by (induction rule: rtrancl_induct) (use deps_closed in auto)

end

section \<open>The dependency graph\<close>

definition deps_of :: "stages \<Rightarrow> stage_ref \<Rightarrow> stage_ref set" where
  "deps_of S name = (case bt_get S name of None \<Rightarrow> {} | Some s \<Rightarrow> set (stage_dependencies s))"

definition stage_graph :: "stages \<Rightarrow> (stage_ref \<times> stage_ref) set" where
  "stage_graph S = {(a, b). b \<in> deps_of S a}"

lemma set_copy_deps:
  "set (foldl (\<lambda>deps d. case d of
        Copy c \<Rightarrow> (case cs_from c of Some name \<Rightarrow> set_insert name deps | None \<Rightarrow> deps)
      | Exec _ \<Rightarrow> deps) ds steps) =
   set ds \<union> {n. \<exists>c. Copy c \<in> set steps \<and> cs_from c = Some n}"
proof (induction steps arbitrary: ds)
  case (Cons d steps)
  then show ?case by (cases d) (auto split: option.splits)
qed simp

text \<open>A stage depends on the stage it extends and on those it copies from.\<close>

lemma stage_dependencies_set:
  "set (stage_dependencies s) =
     {n. sg_from s = Local n} \<union> {n. \<exists>c. Copy c \<in> set (sg_derive s) \<and> cs_from c = Some n}"
  unfolding stage_dependencies_def set_copy_deps by (auto split: image_ref.splits)

text \<open>What a set of stages needs: the stages in reach of its members.\<close>

definition reach :: "stages \<Rightarrow> stage_ref set \<Rightarrow> stage_ref set" where
  "reach S A = (stage_graph S)\<^sup>* `` A"

lemma reach_refl: "n \<in> A \<Longrightarrow> n \<in> reach S A"
  by (auto simp: reach_def)

lemma reach_mono: "A \<subseteq> B \<Longrightarrow> reach S A \<subseteq> reach S B"
  by (auto simp: reach_def)

lemma reach_Un: "reach S (A \<union> B) = reach S A \<union> reach S B"
  by (auto simp: reach_def)

lemma reach_deps: "reach S (deps_of S n) \<subseteq> reach S {n}"
  unfolding reach_def by (auto simp: stage_graph_def intro: converse_rtrancl_into_rtrancl)

lemma reach_expand: "reach S (deps_of S n \<union> insert n A) \<subseteq> reach S (insert n A)"
  using reach_deps [of S n] reach_mono [of "{n}" "insert n A" S] unfolding reach_Un [of S "deps_of S n"]
  by blast

text \<open>A list of new stages in an order that has every dependency before its use.\<close>

fun ordered_after :: "stages \<Rightarrow> stage_ref set \<Rightarrow> stage_ref list \<Rightarrow> bool" where
  "ordered_after S d [] = True"
| "ordered_after S d (n # ns) \<longleftrightarrow>
     n \<notin> d \<and> bt_get S n \<noteq> None \<and> deps_of S n \<subseteq> d \<and> ordered_after S (insert n d) ns"

lemma ordered_after_append:
  "ordered_after S d (xs @ ys) \<longleftrightarrow> ordered_after S d xs \<and> ordered_after S (d \<union> set xs) ys"
  by (induction xs arbitrary: d) auto

lemma ordered_after_fresh: "ordered_after S d ns \<Longrightarrow> set ns \<inter> d = {} \<and> distinct ns"
proof (induction ns arbitrary: d)
  case (Cons n ns)
  then have "set ns \<inter> insert n d = {} \<and> distinct ns" using Cons.IH [of "insert n d"] by simp
  with Cons.prems show ?case by auto
qed simp

lemma ordered_after_split:
  "ordered_after S d (xs @ n # ys) \<Longrightarrow> bt_get S n \<noteq> None \<and> deps_of S n \<subseteq> d \<union> set xs"
  by (simp add: ordered_after_append)

lemma ordered_after_order:
  assumes "ordered_after S {} ns"
  shows "dependency_order (deps_of S) ns"
proof
  show "distinct ns" using ordered_after_fresh [OF assms] by simp
  fix xs x ys assume "ns = xs @ x # ys"
  then show "deps_of S x \<subseteq> set xs" using ordered_after_split [of S "{}" xs x ys] assms by simp
qed

section \<open>The invariant of the stack\<close>

definition exits :: "(stage_ref \<times> bool) list \<Rightarrow> stage_ref list" where
  "exits stack = map fst (filter snd stack)"

text \<open>
  The exit marks on the stack are the stages being visited; what lies above a
  mark was reached from it; and whatever the marked stage depends on is done
  or above it.
\<close>

definition stack_inv ::
    "stages \<Rightarrow> (stage_ref \<times> bool) list \<Rightarrow> stage_ref set \<Rightarrow> stage_ref set \<Rightarrow> bool" where
  "stack_inv S stack visiting finished \<longleftrightarrow>
     visiting = set (exits stack) \<and> distinct (exits stack) \<and> visiting \<inter> finished = {} \<and>
     (\<forall>xs n ys. stack = xs @ (n, True) # ys \<longrightarrow>
        bt_get S n \<noteq> None \<and> deps_of S n \<subseteq> finished \<union> fst ` set xs \<and>
        (\<forall>m\<in>fst ` set xs. (n, m) \<in> (stage_graph S)\<^sup>+))"

lemma stack_inv_start: "stack_inv S [(start, False)] {} finished"
  by (simp add: stack_inv_def exits_def Cons_eq_append_conv)

lemma exits_simps [simp]:
  "exits ((n, True) # st) = n # exits st" "exits ((n, False) # st) = exits st"
  "exits (map (\<lambda>n. (n, False)) ns @ st) = exits st"
  by (simp_all add: exits_def filter_map comp_def)

lemma names_marked [simp]: "fst ` (\<lambda>n. (n, b)) ` A = A"
  by (simp add: image_image)

lemma exits_mem: "n \<in> set (exits st) \<Longrightarrow> \<exists>xs ys. st = xs @ (n, True) # ys"
  by (auto simp: exits_def) (metis split_list)

lemma stack_inv_exit:
  assumes "stack_inv S ((n, True) # st) v d"
  shows "stack_inv S st (v - {n}) (insert n d) \<and> n \<notin> d \<and> bt_get S n \<noteq> None \<and> deps_of S n \<subseteq> d"
proof -
  have mark: "bt_get S m \<noteq> None \<and> deps_of S m \<subseteq> d \<union> fst ` set xs \<and>
      (\<forall>k\<in>fst ` set xs. (m, k) \<in> (stage_graph S)\<^sup>+)"
    if "(n, True) # st = xs @ (m, True) # ys" for xs m ys
    using assms that unfolding stack_inv_def by blast
  have v: "v = set (n # exits st)" "distinct (n # exits st)" "v \<inter> d = {}"
    using assms by (auto simp: stack_inv_def)
  have "bt_get S m \<noteq> None \<and> deps_of S m \<subseteq> insert n d \<union> fst ` set xs \<and>
      (\<forall>k\<in>fst ` set xs. (m, k) \<in> (stage_graph S)\<^sup>+)"
    if "st = xs @ (m, True) # ys" for xs m ys
    using mark [of "(n, True) # xs" m ys] that by auto
  then have "stack_inv S st (v - {n}) (insert n d)"
    using v by (auto simp: stack_inv_def)
  moreover have "bt_get S n \<noteq> None \<and> deps_of S n \<subseteq> d" using mark [of "[]" n st] by simp
  ultimately show ?thesis using v by auto
qed

lemma stack_inv_skip:
  assumes "stack_inv S ((n, False) # st) v d" "n \<in> d"
  shows "stack_inv S st v d"
proof -
  have "bt_get S m \<noteq> None \<and> deps_of S m \<subseteq> d \<union> fst ` set xs \<and>
      (\<forall>k\<in>fst ` set xs. (m, k) \<in> (stage_graph S)\<^sup>+)"
    if "st = xs @ (m, True) # ys" for xs m ys
  proof -
    from that have "(n, False) # st = ((n, False) # xs) @ (m, True) # ys" by simp
    with assms(1) have "bt_get S m \<noteq> None \<and> deps_of S m \<subseteq> d \<union> fst ` set ((n, False) # xs) \<and>
        (\<forall>k\<in>fst ` set ((n, False) # xs). (m, k) \<in> (stage_graph S)\<^sup>+)"
      unfolding stack_inv_def by blast
    with assms(2) show ?thesis by auto
  qed
  moreover have "v = set (exits st) \<and> distinct (exits st) \<and> v \<inter> d = {}"
    using assms(1) unfolding stack_inv_def exits_simps by blast
  ultimately show ?thesis unfolding stack_inv_def by blast
qed

lemma append_mark_cases:
  assumes "map (\<lambda>n. (n, False)) ns @ (n, True) # st = xs @ (m, True) # ys"
  obtains "m = n" "xs = map (\<lambda>n. (n, False)) ns" "ys = st"
  | zs where "xs = map (\<lambda>n. (n, False)) ns @ (n, True) # zs" "st = zs @ (m, True) # ys"
  using assms
proof (induction ns arbitrary: xs thesis)
  case Nil
  then show ?case by (auto simp: Cons_eq_append_conv)
next
  case (Cons k ns)
  from Cons.prems(3) obtain xs' where xs': "xs = (k, False) # xs'"
    "map (\<lambda>n. (n, False)) ns @ (n, True) # st = xs' @ (m, True) # ys"
    by (auto simp: Cons_eq_append_conv)
  show ?case
  proof (rule Cons.IH [OF _ _ xs'(2)])
    show "m = n \<Longrightarrow> xs' = map (\<lambda>n. (n, False)) ns \<Longrightarrow> ys = st \<Longrightarrow> thesis"
      using Cons.prems(1) xs' by simp
    show "\<And>zs. xs' = map (\<lambda>n. (n, False)) ns @ (n, True) # zs \<Longrightarrow> st = zs @ (m, True) # ys \<Longrightarrow> thesis"
      using Cons.prems(2) xs' by simp
  qed
qed

lemma stack_inv_expand:
  assumes "stack_inv S ((n, False) # st) v d" "n \<notin> d" "bt_get S n = Some stage" "n \<notin> v"
  shows "stack_inv S (map (\<lambda>n. (n, False)) (stage_dependencies stage) @ (n, True) # st) (insert n v) d"
proof -
  let ?ds = "stage_dependencies stage"
  have dn: "deps_of S n = set ?ds" using assms(3) by (simp add: deps_of_def)
  have edge: "(n, k) \<in> stage_graph S" if "k \<in> set ?ds" for k
    using that dn by (simp add: stage_graph_def)
  have "bt_get S m \<noteq> None \<and> deps_of S m \<subseteq> d \<union> fst ` set xs \<and>
      (\<forall>k\<in>fst ` set xs. (m, k) \<in> (stage_graph S)\<^sup>+)"
    if "map (\<lambda>n. (n, False)) ?ds @ (n, True) # st = xs @ (m, True) # ys" for xs m ys
    using that
  proof (cases rule: append_mark_cases)
    case 1
    then show ?thesis using dn edge assms(3) by auto
  next
    case (2 zs)
    from 2(2) have "(n, False) # st = ((n, False) # zs) @ (m, True) # ys" by simp
    with assms(1) have m: "bt_get S m \<noteq> None" "deps_of S m \<subseteq> d \<union> fst ` set ((n, False) # zs)"
      "\<forall>k\<in>fst ` set ((n, False) # zs). (m, k) \<in> (stage_graph S)\<^sup>+"
      unfolding stack_inv_def by blast+
    then have mn: "(m, n) \<in> (stage_graph S)\<^sup>+" by simp
    have "(m, k) \<in> (stage_graph S)\<^sup>+" if "k \<in> set ?ds" for k
      using mn edge [OF that] by (rule trancl.trancl_into_trancl)
    with m mn 2(1) show ?thesis by auto
  qed
  moreover have "insert n v = set (exits (map (\<lambda>n. (n, False)) ?ds @ (n, True) # st))"
    "distinct (exits (map (\<lambda>n. (n, False)) ?ds @ (n, True) # st))" "insert n v \<inter> d = {}"
    using assms by (auto simp: stack_inv_def)
  ultimately show ?thesis unfolding stack_inv_def by blast
qed

section \<open>The walk\<close>

text \<open>The stack after a stage is expanded: its dependencies, then its exit mark.\<close>

abbreviation expanded ::
    "stage_ref \<Rightarrow> stage \<Rightarrow> (stage_ref \<times> bool) list \<Rightarrow> (stage_ref \<times> bool) list" where
  "expanded n stage st \<equiv> map (\<lambda>n. (n, False)) (stage_dependencies stage) @ (n, True) # st"

lemma expanded_names:
  assumes "bt_get S n = Some stage"
  shows "fst ` set (expanded n stage st) = deps_of S n \<union> insert n (fst ` set st)"
  using assms by (simp add: deps_of_def image_Un)

lemma walk_loop_ok:
  assumes "walk_loop S st v d r = Inr (d', r')" "stack_inv S st v d"
  shows "\<exists>new. r' = r @ new \<and> d' = d \<union> set new \<and> ordered_after S d new \<and> fst ` set st \<subseteq> d' \<and>
    set new \<subseteq> reach S (fst ` set st)"
  using assms
proof (induction S st v d r rule: walk_loop.induct)
  case (1 S v d r)
  then show ?case by simp
next
  case (2 S name exit st v d r)
  have sub: "reach S (fst ` set st) \<subseteq> reach S (fst ` set ((name, exit) # st))"
    by (rule reach_mono) auto
  consider (exit) "exit" | (skip) "\<not> exit" "name \<in> d" | (new) "\<not> exit" "name \<notin> d" by blast
  then show ?case
  proof cases
    case exit
    with 2(5) have inv: "stack_inv S st (v - {name}) (insert name d)" "name \<notin> d"
      "bt_get S name \<noteq> None" "deps_of S name \<subseteq> d"
      using stack_inv_exit [of S name st v d] by auto
    from 2(4) exit have "walk_loop S st (v - {name}) (insert name d) (r @ [name]) = Inr (d', r')" by simp
    from 2(1) [OF exit this inv(1)] obtain new where new: "r' = (r @ [name]) @ new"
      "d' = insert name d \<union> set new" "ordered_after S (insert name d) new"
      "fst ` set st \<subseteq> d'" "set new \<subseteq> reach S (fst ` set st)" by blast
    have "set (name # new) \<subseteq> reach S (fst ` set ((name, exit) # st))"
      using new(5) sub reach_refl [of name "fst ` set ((name, exit) # st)" S] by auto
    with new inv show ?thesis by (intro exI [of _ "name # new"]) auto
  next
    case skip
    then have inv: "stack_inv S st v d" using 2(5) stack_inv_skip by simp
    from 2(4) skip have "walk_loop S st v d r = Inr (d', r')" by simp
    from 2(2) [OF skip this inv] obtain new where new: "r' = r @ new" "d' = d \<union> set new"
      "ordered_after S d new" "fst ` set st \<subseteq> d'" "set new \<subseteq> reach S (fst ` set st)"
      by blast
    have "set new \<subseteq> reach S (fst ` set ((name, exit) # st))" using new(5) sub by blast
    with new skip show ?thesis by (intro exI [of _ new]) auto
  next
    case new
    then obtain stage where stage: "bt_get S name = Some stage" "name \<notin> v"
      and w: "walk_loop S (expanded name stage st) (insert name v) d r = Inr (d', r')"
      using 2(4) by (auto split: option.splits if_splits)
    have inv: "stack_inv S (expanded name stage st) (insert name v) d"
      using 2(5) new stage by (intro stack_inv_expand) auto
    have names: "fst ` set (expanded name stage st) = deps_of S name \<union> insert name (fst ` set st)"
      using stage(1) by (rule expanded_names)
    from 2(3) [OF new stage w inv] obtain ns where ns: "r' = r @ ns" "d' = d \<union> set ns"
      "ordered_after S d ns" "deps_of S name \<union> insert name (fst ` set st) \<subseteq> d'"
      "set ns \<subseteq> reach S (deps_of S name \<union> insert name (fst ` set st))"
      unfolding names by blast
    from ns(5) reach_expand have "set ns \<subseteq> reach S (fst ` set ((name, exit) # st))" by fastforce
    with ns show ?thesis by (intro exI [of _ ns]) auto
  qed
qed

text \<open>Both errors are true: a cycle is one, and an unknown stage is named by a stage in reach.\<close>

definition true_error :: "stages \<Rightarrow> stage_ref set \<Rightarrow> plan_error \<Rightarrow> bool" where
  "true_error S A e \<longleftrightarrow>
     (\<exists>n. e = StageCycle n \<and> (n, n) \<in> (stage_graph S)\<^sup>+ \<and> n \<in> reach S A) \<or>
     (\<exists>n. e = UnknownStage n \<and> bt_get S n = None \<and> n \<in> reach S A)"

lemma true_error_mono: "true_error S A e \<Longrightarrow> reach S A \<subseteq> reach S B \<Longrightarrow> true_error S B e"
  unfolding true_error_def by blast

lemma walk_loop_error:
  assumes "walk_loop S st v d r = Inl e" "stack_inv S st v d"
  shows "true_error S (fst ` set st) e"
  using assms
proof (induction S st v d r rule: walk_loop.induct)
  case (1 S v d r)
  then show ?case by simp
next
  case (2 S name exit st v d r)
  have sub: "reach S (fst ` set st) \<subseteq> reach S (fst ` set ((name, exit) # st))"
    by (rule reach_mono) auto
  consider (exit) "exit" | (skip) "\<not> exit" "name \<in> d" | (new) "\<not> exit" "name \<notin> d" by blast
  then show ?case
  proof cases
    case exit
    with 2(5) have inv: "stack_inv S st (v - {name}) (insert name d)"
      using stack_inv_exit [of S name st v d] by auto
    from 2(4) exit have w: "walk_loop S st (v - {name}) (insert name d) (r @ [name]) = Inl e"
      by simp
    from 2(1) [OF exit w inv] sub show ?thesis by (rule true_error_mono)
  next
    case skip
    then have inv: "stack_inv S st v d" using 2(5) stack_inv_skip by simp
    from 2(4) skip have w: "walk_loop S st v d r = Inl e" by simp
    from 2(2) [OF skip w inv] sub show ?thesis by (rule true_error_mono)
  next
    case new
    have here: "name \<in> reach S (fst ` set ((name, exit) # st))" by (rule reach_refl) simp
    show ?thesis
    proof (cases "bt_get S name")
      case None
      with 2(4) new have "e = UnknownStage name" by simp
      with None here show ?thesis unfolding true_error_def by blast
    next
      case (Some stage)
      show ?thesis
      proof (cases "name \<in> v")
        case True
        then have "name \<in> set (exits st)" using 2(5) new by (simp add: stack_inv_def)
        then obtain xs ys where "st = xs @ (name, True) # ys" using exits_mem by blast
        then have split: "(name, exit) # st = ((name, exit) # xs) @ (name, True) # ys" by simp
        with 2(5) have "\<forall>m\<in>fst ` set ((name, exit) # xs). (name, m) \<in> (stage_graph S)\<^sup>+"
          unfolding stack_inv_def by blast
        then have "(name, name) \<in> (stage_graph S)\<^sup>+" by simp
        moreover from 2(4) new Some True have "e = StageCycle name" by simp
        ultimately show ?thesis using here unfolding true_error_def by blast
      next
        case False
        have inv: "stack_inv S (expanded name stage st) (insert name v) d"
          using 2(5) new Some False by (intro stack_inv_expand) auto
        have w: "walk_loop S (expanded name stage st) (insert name v) d r = Inl e"
          using 2(4) new Some False by simp
        have "reach S (fst ` set (expanded name stage st)) \<subseteq> reach S (fst ` set ((name, exit) # st))"
          unfolding expanded_names [OF Some] using reach_expand by simp
        with 2(3) [OF new Some False w inv] show ?thesis by (rule true_error_mono)
      qed
    qed
  qed
qed

section \<open>Walks from a list of names\<close>

definition walk_all ::
    "stages \<Rightarrow> stage_ref list \<Rightarrow> stage_ref set \<times> stage_ref list \<Rightarrow>
     plan_error + (stage_ref set \<times> stage_ref list)" where
  "walk_all S names st = foldE (\<lambda>(finished, order) name. walk S name finished order) st names"

lemma walk_ok:
  assumes "walk S start d r = Inr (d', r')"
  obtains new where "r' = r @ new" "d' = d \<union> set new" "ordered_after S d new" "start \<in> d'"
    "set new \<subseteq> reach S {start}"
proof -
  have "fst ` set [(start, False)] = {start}" by simp
  with walk_loop_ok [OF assms [unfolded walk_def] stack_inv_start]
  obtain new where "r' = r @ new" "d' = d \<union> set new" "ordered_after S d new" "{start} \<subseteq> d'"
    "set new \<subseteq> reach S {start}" by metis
  then show ?thesis by (intro that) auto
qed

lemma walk_error: "walk S start d r = Inl e \<Longrightarrow> true_error S {start} e"
  using walk_loop_error [of S "[(start, False)]" "{}" d r e, OF _ stack_inv_start]
  unfolding walk_def by simp

lemma walk_all_ok:
  assumes "walk_all S names (d, r) = Inr (d', r')"
  shows "\<exists>new. r' = r @ new \<and> d' = d \<union> set new \<and> ordered_after S d new \<and> set names \<subseteq> d' \<and>
    set new \<subseteq> reach S (set names)"
  using assms
proof (induction names arbitrary: d r)
  case Nil
  then show ?case by (simp add: walk_all_def)
next
  case (Cons n names)
  from Cons.prems obtain d1 r1 where w: "walk S n d r = Inr (d1, r1)"
    and rest: "walk_all S names (d1, r1) = Inr (d', r')"
    by (cases "walk S n d r") (auto simp: walk_all_def)
  from w obtain a where a: "r1 = r @ a" "d1 = d \<union> set a" "ordered_after S d a" "n \<in> d1"
    "set a \<subseteq> reach S {n}" by (rule walk_ok)
  from Cons.IH [OF rest] obtain b where b: "r' = r1 @ b" "d' = d1 \<union> set b" "ordered_after S d1 b"
    "set names \<subseteq> d'" "set b \<subseteq> reach S (set names)" by blast
  have "reach S (set (n # names)) = reach S {n} \<union> reach S (set names)"
    using reach_Un [of S "{n}" "set names"] by simp
  then have "set (a @ b) \<subseteq> reach S (set (n # names))" using a(5) b(5) by auto
  moreover have "ordered_after S d (a @ b)" using a(2,3) b(3) by (simp add: ordered_after_append)
  moreover have "set (n # names) \<subseteq> d'" using a(4) b(2,4) by simp
  moreover have "r' = r @ (a @ b)" "d' = d \<union> set (a @ b)" using a(1,2) b(1,2) by auto
  ultimately show ?case by blast
qed

lemma walk_all_error:
  assumes "walk_all S names st = Inl e"
  shows "true_error S (set names) e"
  using assms
proof (induction names arbitrary: st)
  case Nil
  then show ?case by (simp add: walk_all_def)
next
  case (Cons n names)
  obtain d r where st: "st = (d, r)" by (cases st)
  have "true_error S {n} e \<or> true_error S (set names) e"
  proof (cases "walk S n d r")
    case (Inl e')
    with Cons.prems st have "e' = e" by (simp add: walk_all_def)
    with Inl walk_error show ?thesis by blast
  next
    case (Inr st')
    with Cons.prems st have "walk_all S names st' = Inl e" by (simp add: walk_all_def)
    with Cons.IH show ?thesis by blast
  qed
  then show ?case
    using true_error_mono [of S _ e "set (n # names)"] reach_mono [of _ "set (n # names)" S]
    by (metis insert_subset set_subset_Cons empty_subsetI list.set_intros(1))
qed

text \<open>A successful walk lists exactly the stages in reach, each after its dependencies.\<close>

lemma walk_all_order:
  assumes "walk_all S names ({}, []) = Inr (d, order)"
  shows "d = set order \<and> ordered_after S {} order \<and> set order = reach S (set names)"
proof -
  from walk_all_ok [OF assms] have o: "d = set order" "ordered_after S {} order" "set names \<subseteq> set order"
    "set order \<subseteq> reach S (set names)" by auto
  have "dependency_order (deps_of S) order" using o(2) by (rule ordered_after_order)
  then have "reach S (set names) \<subseteq> set order"
    using dependency_order.reach_closed [of "deps_of S" order] o(3)
    unfolding reach_def stage_graph_def by blast
  with o show ?thesis by blast
qed

text \<open>The walk accepts a set of names when nothing in reach is undefined or on a cycle.\<close>

lemma walk_all_accepts:
  "isOk (walk_all S names ({}, [])) \<longleftrightarrow>
     (\<forall>n\<in>reach S (set names). bt_get S n \<noteq> None \<and> (n, n) \<notin> (stage_graph S)\<^sup>+)"
proof (cases "walk_all S names ({}, [])")
  case (Inl e)
  with walk_all_error [OF Inl] show ?thesis unfolding true_error_def by auto
next
  case (Inr st)
  obtain d order where st: "st = (d, order)" by (cases st)
  from walk_all_order [OF Inr [unfolded st]]
  have o: "ordered_after S {} order" "set order = reach S (set names)" by auto
  have "bt_get S n \<noteq> None" if n: "n \<in> set order" for n
    using o(1) split_list [OF n] ordered_after_split by blast
  moreover have "(n, n) \<notin> (stage_graph S)\<^sup>+" if "n \<in> set order" for n
    using dependency_order.no_cycle [OF ordered_after_order [OF o(1)] that]
    unfolding stage_graph_def .
  ultimately show ?thesis using Inr o(2) by auto
qed

section \<open>Plans\<close>

text \<open>The checked stages of an authored plan, and the walk that checks all of them.\<close>

definition stages_of :: "carapace_limits \<Rightarrow> authored_plan \<Rightarrow> plan_error + stages" where
  "stages_of Z raw =
     traverseE (\<lambda>(name, stage). bindE (stage_try_from Z stage) (\<lambda>s. Inr (name, s))) (ap_stages raw)"

definition needed :: "plan \<Rightarrow> stage_ref set" where
  "needed p = reach (pl_stages p) (set (local_names (image_sources p)))"

definition check_all :: "stages \<Rightarrow> stage_ref list \<Rightarrow> stage_ref set \<Rightarrow> plan_error + stage_ref set" where
  "check_all S names checked =
     foldE (\<lambda>checked name. bindE (walk S name checked []) (\<lambda>(c, _). Inr c)) checked names"

lemma check_all_ok:
  assumes "check_all S names d = Inr d'"
  shows "\<exists>new. d' = d \<union> set new \<and> ordered_after S d new \<and> set names \<subseteq> d'"
  using assms
proof (induction names arbitrary: d)
  case Nil
  then show ?case by (intro exI [of _ "[]"]) (simp add: check_all_def)
next
  case (Cons n names)
  from Cons.prems obtain d1 r1 where w: "walk S n d [] = Inr (d1, r1)"
    and rest: "check_all S names d1 = Inr d'"
    by (cases "walk S n d []") (auto simp: check_all_def)
  from w obtain a where a: "d1 = d \<union> set a" "ordered_after S d a" "n \<in> d1" by (rule walk_ok)
  from Cons.IH [OF rest] obtain b where b: "d' = d1 \<union> set b" "ordered_after S d1 b" "set names \<subseteq> d'"
    by blast
  have "ordered_after S d (a @ b)" using a(1,2) b(2) by (simp add: ordered_after_append)
  moreover have "d' = d \<union> set (a @ b)" "set (n # names) \<subseteq> d'" using a b by auto
  ultimately show ?case by blast
qed

lemma check_all_error:
  assumes "check_all S names d = Inl e"
  shows "\<exists>n\<in>set names. true_error S {n} e"
  using assms
proof (induction names arbitrary: d)
  case Nil
  then show ?case by (simp add: check_all_def)
next
  case (Cons n names)
  show ?case
  proof (cases "walk S n d []")
    case (Inl e')
    with Cons.prems have "e' = e" by (simp add: check_all_def)
    with walk_error [OF Inl] show ?thesis by simp
  next
    case (Inr st)
    with Cons.prems have "check_all S names (fst st) = Inl e"
      by (simp add: check_all_def split_beta)
    with Cons.IH show ?thesis by auto
  qed
qed

lemma plan_try_from_unfold:
  "plan_try_from Z raw =
     (if ap_image raw = ImageComponents None None then Inl EmptyImage
      else bindE (stages_of Z raw) (\<lambda>S.
        let p = \<lparr>pl_stages = S, pl_image = ap_image raw, pl_requirements = ap_requirements raw,
                 pl_order = []\<rparr> in
        bindE (check_all S (bt_keys S) {}) (\<lambda>_.
          bindE (walk_all S (local_names (image_sources p)) ({}, [])) (\<lambda>(_, order).
            Inr (p\<lparr>pl_order := order\<rparr>)))))"
  unfolding plan_try_from_def stages_of_def check_all_def walk_all_def by (rule refl)

lemma image_sources_order [simp]: "image_sources (p\<lparr>pl_order := ns\<rparr>) = image_sources p"
  by (simp add: image_sources_def)

lemma plan_try_from_InrE:
  assumes "plan_try_from Z raw = Inr p"
  obtains d d' where "ap_image raw \<noteq> ImageComponents None None" "stages_of Z raw = Inr (pl_stages p)"
    "pl_image p = ap_image raw" "pl_requirements p = ap_requirements raw"
    "check_all (pl_stages p) (bt_keys (pl_stages p)) {} = Inr d"
    "walk_all (pl_stages p) (local_names (image_sources p)) ({}, []) = Inr (d', pl_order p)"
  using assms unfolding plan_try_from_unfold Let_def
  by (auto simp: bindE_Inr_iff image_sources_def split: if_splits)

lemma bt_get_in_keys: "bt_get S n \<noteq> None \<longleftrightarrow> n \<in> set (bt_keys S)"
  by (simp add: bt_keys_def map_of_eq_None_iff)

text \<open>The contract of an accepted plan, once and for all: its order is an order of dependencies.\<close>

locale accepted_plan =
  fixes Z :: carapace_limits and raw :: authored_plan and p :: plan
  assumes accepted: "plan_try_from Z raw = Inr p"
begin

lemma order_after: "ordered_after (pl_stages p) {} (pl_order p)"
  using accepted by (rule plan_try_from_InrE) (use walk_all_order in blast)

lemma order_needed: "set (pl_order p) = needed p"
  using accepted by (rule plan_try_from_InrE) (use walk_all_order in \<open>unfold needed_def, blast\<close>)

lemma all_ordered:
  obtains new where "ordered_after (pl_stages p) {} new" "set (bt_keys (pl_stages p)) \<subseteq> set new"
proof -
  from accepted obtain d where "check_all (pl_stages p) (bt_keys (pl_stages p)) {} = Inr d"
    by (rule plan_try_from_InrE)
  from check_all_ok [OF this] show ?thesis using that by auto
qed

end

sublocale accepted_plan \<subseteq> dependency_order "deps_of (pl_stages p)" "pl_order p"
  by (rule ordered_after_order [OF order_after])

text \<open>Stages are checked before the graph: their errors are never about the graph.\<close>

lemma stage_try_from_InlD:
  assumes "stage_try_from Z st = Inl e"
  shows "e = BadMounts \<or> (\<exists>x. e = PlanFormat x) \<or> e = EspMountRequiresFormat \<or> (\<exists>x. e = PlanPattern x)"
proof -
  have "directive_try_from d = Inl e' \<Longrightarrow> \<exists>x. e' = PlanPattern x" for d e'
    by (auto simp: directive_try_from_def bindE_Inl_iff mapErr_Inl_iff split: plan_directive.splits if_splits)
  then have ds: "traverseE directive_try_from ds = Inl e' \<Longrightarrow> \<exists>x. e' = PlanPattern x" for ds e'
    using traverseE_InlD by fast
  have "check_mount f t k = Inl e' \<Longrightarrow> e' = BadMounts" for f t k e'
    by (auto simp: check_mount_def Let_def split: if_splits)
  then have ms: "foldE (check_mount f) t ks = Inl e' \<Longrightarrow> e' = BadMounts" for f t ks e'
    using foldE_InlD by fast
  have fs: "check_format Z f m = Inl e' \<Longrightarrow> (\<exists>x. e' = PlanFormat x) \<or> e' = EspMountRequiresFormat"
    for f m e'
    by (auto simp: check_format_def bindE_Inl_iff mapErr_Inl_iff split: option.splits if_splits)
  obtain a b f m d where "stage_parts st = (a, b, f, m, d)" using prod_cases5 by blast
  then show ?thesis using assms
    by (auto simp: stage_try_from_def bindE_Inl_iff dest: ds ms fs)
qed

lemma stages_of_error:
  assumes "stages_of Z raw = Inl e"
  shows "e \<noteq> StageCycle n \<and> e \<noteq> UnknownStage n"
proof -
  obtain st where "stage_try_from Z st = Inl e"
    using traverseE_InlD [OF assms [unfolded stages_of_def]] by (auto simp: bindE_Inl_iff)
  from stage_try_from_InlD [OF this] show ?thesis by auto
qed

section \<open>Correctness of the planner\<close>

text \<open>
  C24: The order of an accepted plan lists each stage that the image needs, directly or through
  other stages, exactly once and nothing else, and every stage comes after the stage it
  extends and the stages it copies from.
\<close>

theorem plan_order_correct:
  assumes "plan_try_from Z raw = Inr p"
  shows "distinct (pl_order p) \<and> set (pl_order p) = needed p \<and>
    (\<forall>xs n ys. pl_order p = xs @ n # ys \<longrightarrow>
       (\<exists>s. bt_get (pl_stages p) n = Some s \<and> set (stage_dependencies s) \<subseteq> set xs))"
proof (intro conjI allI impI)
  have a: "accepted_plan Z raw p" using assms by (rule accepted_plan.intro)
  from accepted_plan.order_after [OF a] have o: "ordered_after (pl_stages p) {} (pl_order p)" .
  show "distinct (pl_order p)" using ordered_after_fresh [OF o] by simp
  show "set (pl_order p) = needed p" by (rule accepted_plan.order_needed [OF a])
  fix xs n ys assume "pl_order p = xs @ n # ys"
  with o ordered_after_split [of "pl_stages p" "{}" xs n ys]
  show "\<exists>s. bt_get (pl_stages p) n = Some s \<and> set (stage_dependencies s) \<subseteq> set xs"
    by (auto simp: deps_of_def)
qed

text \<open>The graph of a set of stages is in order: no reference dangles and nothing needs itself.\<close>

definition graph_ok :: "stages \<Rightarrow> bool" where
  "graph_ok S \<longleftrightarrow> acyclic (stage_graph S) \<and>
     (\<forall>n s. bt_get S n = Some s \<longrightarrow> set (stage_dependencies s) \<subseteq> set (bt_keys S))"

lemma graph_ok_reach:
  assumes "graph_ok S" "A \<subseteq> set (bt_keys S)"
  shows "reach S A \<subseteq> set (bt_keys S)"
proof
  fix m assume "m \<in> reach S A"
  then obtain n where "(n, m) \<in> (stage_graph S)\<^sup>*" "n \<in> A" by (auto simp: reach_def)
  then show "m \<in> set (bt_keys S)"
    using assms
    by (induction rule: rtrancl_induct)
      (auto simp: stage_graph_def deps_of_def graph_ok_def split: option.splits)
qed

lemma graph_ok_no_error:
  assumes "graph_ok S" "A \<subseteq> set (bt_keys S)"
  shows "\<not> true_error S A e"
proof
  assume "true_error S A e"
  then consider n where "(n, n) \<in> (stage_graph S)\<^sup>+" | n where "bt_get S n = None" "n \<in> reach S A"
    unfolding true_error_def by blast
  then show False
  proof cases
    case 1
    with assms(1) show False by (auto simp: graph_ok_def acyclic_def)
  next
    case 2
    with graph_ok_reach [OF assms] bt_get_in_keys [of S n] show False by auto
  qed
qed

lemma graph_ok_ordered:
  assumes "ordered_after S {} new" "set (bt_keys S) \<subseteq> set new"
  shows "graph_ok S"
proof -
  from assms(1) have d: "dependency_order (deps_of S) new" by (rule ordered_after_order)
  have same: "set new = set (bt_keys S)"
  proof
    show "set new \<subseteq> set (bt_keys S)"
    proof
      fix n assume "n \<in> set new"
      then obtain xs ys where "new = xs @ n # ys" by (auto dest: split_list)
      with assms(1) ordered_after_split [of S "{}" xs n ys] have "bt_get S n \<noteq> None" by simp
      then show "n \<in> set (bt_keys S)" unfolding bt_get_in_keys .
    qed
  qed (rule assms(2))
  have "(n, n) \<notin> (stage_graph S)\<^sup>+" for n
  proof
    assume c: "(n, n) \<in> (stage_graph S)\<^sup>+"
    then obtain m where "(n, m) \<in> stage_graph S" by (auto dest: tranclD)
    then have "n \<in> set new" using same bt_get_in_keys [of S n]
      by (auto simp: stage_graph_def deps_of_def split: option.splits)
    with dependency_order.no_cycle [OF d] c show False unfolding stage_graph_def by blast
  qed
  moreover have "set (stage_dependencies s) \<subseteq> set (bt_keys S)" if "bt_get S n = Some s" for n s
    using dependency_order.deps_closed [OF d, of n] that bt_get_in_keys [of S n] same
    by (auto simp: deps_of_def)
  ultimately show ?thesis unfolding graph_ok_def acyclic_def by blast
qed

lemma check_all_iff: "isOk (check_all S (bt_keys S) {}) \<longleftrightarrow> graph_ok S"
proof (cases "check_all S (bt_keys S) {}")
  case (Inl e)
  with check_all_error [OF Inl] graph_ok_no_error [of S _ e] show ?thesis by fastforce
next
  case (Inr d)
  from check_all_ok [OF Inr] obtain new where "ordered_after S {} new" "set (bt_keys S) \<subseteq> set new"
    by auto
  with Inr graph_ok_ordered show ?thesis by simp
qed

lemma walk_all_iff:
  assumes "graph_ok S"
  shows "isOk (walk_all S names ({}, [])) \<longleftrightarrow> set names \<subseteq> set (bt_keys S)"
proof
  assume "isOk (walk_all S names ({}, []))"
  then show "set names \<subseteq> set (bt_keys S)"
    unfolding walk_all_accepts using reach_refl [of _ "set names" S] bt_get_in_keys [of S] by blast
next
  assume n: "set names \<subseteq> set (bt_keys S)"
  then show "isOk (walk_all S names ({}, []))"
    using graph_ok_no_error [OF assms n] walk_all_error [of S names "({}, [])"]
    by (cases "walk_all S names ({}, [])") auto
qed

lemma graph_ok_Range: "graph_ok S \<longleftrightarrow> acyclic (stage_graph S) \<and> Range (stage_graph S) \<subseteq> set (bt_keys S)"
proof -
  have "Range (stage_graph S) \<subseteq> set (bt_keys S) \<longleftrightarrow>
      (\<forall>n s. bt_get S n = Some s \<longrightarrow> set (stage_dependencies s) \<subseteq> set (bt_keys S))"
    by (fastforce simp: stage_graph_def deps_of_def split: option.splits)
  then show ?thesis by (simp add: graph_ok_def)
qed

text \<open>
  C25: The planner accepts a plan exactly when the image selects something, every stage is
  valid on its own, the graph of all declared stages, used or not, has no cycle and no
  dangling reference, and the image names only declared stages.
\<close>

theorem plan_accepts_iff:
  "isOk (plan_try_from Z raw) \<longleftrightarrow>
     ap_image raw \<noteq> ImageComponents None None \<and>
     (\<exists>S. stages_of Z raw = Inr S \<and> acyclic (stage_graph S) \<and>
        Range (stage_graph S) \<subseteq> set (bt_keys S) \<and>
        set (local_names (image_sources
             \<lparr>pl_stages = S, pl_image = ap_image raw, pl_requirements = ap_requirements raw,
              pl_order = []\<rparr>)) \<subseteq> set (bt_keys S))"
proof (cases "stages_of Z raw")
  case (Inl e)
  then show ?thesis by (simp add: plan_try_from_unfold)
next
  case (Inr S)
  define names where "names = local_names (image_sources
      \<lparr>pl_stages = S, pl_image = ap_image raw, pl_requirements = ap_requirements raw, pl_order = []\<rparr>)"
  have "isOk (plan_try_from Z raw) \<longleftrightarrow> ap_image raw \<noteq> ImageComponents None None \<and>
      isOk (check_all S (bt_keys S) {}) \<and> isOk (walk_all S names ({}, []))"
    unfolding plan_try_from_unfold names_def Let_def
    by (auto simp: isOk_iff bindE_Inr_iff Inr)
  then show ?thesis using walk_all_iff [of S names] unfolding check_all_iff
    by (auto simp: graph_ok_Range Inr names_def [symmetric])
qed

text \<open>
  The planner's graph errors are true: a reported cycle is a cycle of the declared
  stages through the named stage, and a reported unknown stage is not declared.
\<close>

theorem plan_graph_errors:
  assumes "plan_try_from Z raw = Inl e"
  shows "(e = StageCycle n \<longrightarrow> (\<exists>S. stages_of Z raw = Inr S \<and> (n, n) \<in> (stage_graph S)\<^sup>+)) \<and>
    (e = UnknownStage n \<longrightarrow> (\<exists>S. stages_of Z raw = Inr S \<and> bt_get S n = None))"
proof (cases "stages_of Z raw")
  case (Inl e')
  with assms have "e' = e \<or> e = EmptyImage" by (auto simp: plan_try_from_unfold split: if_splits)
  with stages_of_error [OF Inl, of n] show ?thesis by auto
next
  case (Inr S)
  from assms consider "e = EmptyImage" | "check_all S (bt_keys S) {} = Inl e"
    | names where "walk_all S names ({}, []) = Inl e"
    unfolding plan_try_from_unfold Let_def Inr by (auto simp: bindE_Inl_iff split: if_splits)
  then show ?thesis
  proof cases
    case 1
    then show ?thesis by simp
  next
    case 2
    from check_all_error [OF this] Inr show ?thesis by (auto simp: true_error_def)
  next
    case 3
    from walk_all_error [OF this] Inr show ?thesis by (auto simp: true_error_def)
  qed
qed

text \<open>
  A checked stage mounts at distinct normalized paths, never at the root; a stage that
  extends another one never mounts over the run-time directories; and an ESP is mounted
  only in a stage that is created with one, whose format is then a disk layout.
\<close>

theorem stage_mounts_safe:
  assumes "stage_try_from Z raw = Inr s"
  shows "distinct (map normalized (bt_keys (sg_mount s))) \<and>
    ''/'' \<notin> set (map normalized (bt_keys (sg_mount s))) \<and>
    (sg_format s = None \<longrightarrow> (\<forall>path\<in>set (bt_keys (sg_mount s)).
       hd (split_on CHR ''/'' (trim_start_slashes (normalized path))) \<notin> {''dev'', ''proc'', ''sys''})) \<and>
    (\<forall>f. sg_format s = Some f \<longrightarrow> isOk (ext4_layout Z (ext4_from f)) \<and>
       (fm_esp f = None \<longrightarrow> EspMount \<notin> set (map snd (sg_mount s))))"
proof -
  obtain src b f m d where parts: "stage_parts raw = (src, b, f, m, d)" using prod_cases5 by blast
  with assms obtain t where t: "foldE (check_mount f) {} (bt_keys m) = Inr t" "check_format Z f m = Inr ()"
    "sg_format s = f" "sg_mount s = m"
    by (auto simp: stage_try_from_def bindE_Inr_iff)
  have mounts: "foldE (check_mount f) seen ks = Inr t \<Longrightarrow>
      distinct (map normalized ks) \<and> set (map normalized ks) \<inter> seen = {} \<and>
      (\<forall>k\<in>set ks. normalized k \<noteq> ''/'' \<and> \<not> (f = None \<and>
         hd (split_on CHR ''/'' (trim_start_slashes (normalized k))) \<in> {''dev'', ''proc'', ''sys''}))"
    for seen ks
  proof (induction ks arbitrary: seen)
    case (Cons k ks)
    then have k: "check_mount f seen k = Inr (insert (normalized k) seen)" "normalized k \<notin> seen"
      "normalized k \<noteq> ''/''"
      "\<not> (f = None \<and> hd (split_on CHR ''/'' (trim_start_slashes (normalized k))) \<in> {''dev'', ''proc'', ''sys''})"
      by (simp_all add: check_mount_def Let_def split: if_splits)
    then have "foldE (check_mount f) (insert (normalized k) seen) ks = Inr t" using Cons.prems by simp
    from Cons.IH [OF this] k show ?case by auto
  qed simp
  have "\<forall>x. f = Some x \<longrightarrow> isOk (ext4_layout Z (ext4_from x)) \<and>
      (fm_esp x = None \<longrightarrow> EspMount \<notin> set (map snd m))"
    using t(2) by (auto simp: check_format_def isOk_iff bindE_Inr_iff split: if_splits)
  with mounts [OF t(1)] t(3,4) show ?thesis by auto
qed

section \<open>An example\<close>

text \<open>The plan of the repository's own test: a result that copies from a producer.\<close>

abbreviation "sample_remote \<equiv> RemoteImage (Remote ''registry.test'' ''base'' (RefTag ''1''))"

definition sample_authored :: authored_plan where
  "sample_authored =
     \<lparr>ap_stages =
        [(StageRef ''base'', ExtendStage sample_remote [(ImagePath ''/tmp'', TmpfsMount)] []),
         (StageRef ''orphan'', ExtendStage sample_remote [] []),
         (StageRef ''producer'', ExtendStage (Local (StageRef ''base'')) [] []),
         (StageRef ''result'', ExtendStage (Local (StageRef ''base'')) []
            [CopyDirective (Some (StageRef ''producer'')) (ImagePath ''/out'') (ImagePath ''/payload'')])],
      ap_image = ImageShorthand (Local (StageRef ''result'')), ap_requirements = None\<rparr>"

definition sample_cycle :: authored_plan where
  "sample_cycle = sample_authored\<lparr>ap_stages :=
     [(StageRef ''x'', ExtendStage (Local (StageRef ''y'')) [] []),
      (StageRef ''y'', ExtendStage (Local (StageRef ''x'')) [] [])]\<rparr>"

definition sample_limits :: carapace_limits where
  "sample_limits = \<lparr>zero_sectors = 1, zero_bytes = 512\<rparr>"

definition sample_plan :: plan where
  "sample_plan = (case plan_try_from sample_limits sample_authored of Inr p \<Rightarrow> p | Inl _ \<Rightarrow> undefined)"

lemma sample_plan_accepted: "plan_try_from sample_limits sample_authored = Inr sample_plan"
proof -
  have "isOk (plan_try_from sample_limits sample_authored)" by code_simp
  then show ?thesis by (auto simp: sample_plan_def isOk_iff)
qed

interpretation sample: accepted_plan sample_limits sample_authored sample_plan
  by unfold_locales (rule sample_plan_accepted)

theorem plan_order_correct_witness:
  "plan_try_from sample_limits sample_authored = Inr sample_plan \<and> distinct (pl_order sample_plan) \<and>
   pl_order sample_plan = [StageRef ''base'', StageRef ''producer'', StageRef ''result'']"
proof -
  have "pl_order sample_plan = [StageRef ''base'', StageRef ''producer'', StageRef ''result'']"
    by code_simp
  with plan_order_correct [OF sample_plan_accepted] sample_plan_accepted show ?thesis by blast
qed

theorem plan_graph_errors_witness:
  "(StageRef ''x'', StageRef ''x'') \<in> (stage_graph (case stages_of sample_limits sample_cycle of
     Inr S \<Rightarrow> S | Inl _ \<Rightarrow> []))\<^sup>+"
proof -
  have "plan_try_from sample_limits sample_cycle = Inl (StageCycle (StageRef ''x''))" by code_simp
  from plan_graph_errors [OF this, of "StageRef ''x''"] show ?thesis by auto
qed

theorem stage_mounts_safe_witness:
  "\<exists>s. stage_try_from sample_limits (ExtendStage sample_remote [(ImagePath ''/tmp'', TmpfsMount)] []) = Inr s \<and>
     ''/'' \<notin> set (map normalized (bt_keys (sg_mount s))) \<and> sg_mount s = [(ImagePath ''/tmp'', TmpfsMount)]"
proof -
  have "stage_try_from sample_limits (ExtendStage sample_remote [(ImagePath ''/tmp'', TmpfsMount)] []) =
      Inr \<lparr>sg_from = sample_remote, sg_bootstrap = False, sg_format = None,
        sg_mount = [(ImagePath ''/tmp'', TmpfsMount)], sg_derive = []\<rparr>" by code_simp
  from stage_mounts_safe [OF this] this show ?thesis by auto
qed

end
