(* ===== verification/Graph.thy ===== *)
theory Graph
  imports Planner_Order
begin

text \<open>
  Image names and pins (\<open>image.rs\<close>, \<open>lock.rs\<close>) and the build graph of an accepted
  plan (\<open>graph.rs\<close>): which remote images are read, at which pinned index, which
  of them are activated as a root, and which steps may use the network.
\<close>

section \<open>Names and pins\<close>

datatype identity_error = BadReference | BadDigest

datatype image_reference = ImageReference (reference_text: string)

instantiation image_reference :: linorder
begin

definition less_eq_image_reference :: "image_reference \<Rightarrow> image_reference \<Rightarrow> bool" where
  "less_eq_image_reference a b \<longleftrightarrow> reference_text a \<le> reference_text b"

definition less_image_reference :: "image_reference \<Rightarrow> image_reference \<Rightarrow> bool" where
  "less_image_reference a b \<longleftrightarrow> reference_text a < reference_text b"

instance
  by standard (auto simp: less_eq_image_reference_def less_image_reference_def image_reference.expand)

end

definition reference_of :: "hexlib \<Rightarrow> remote \<Rightarrow> image_reference" where
  "reference_of H r = ImageReference (remote_display H r)"

definition reference_parse :: "hexlib \<Rightarrow> string \<Rightarrow> identity_error + image_reference" where
  "reference_parse H s =
     okOr BadReference (map_option (reference_of H) (remote_new H s))"

datatype index_digest = IndexDigest (index_bytes: "byte list")

definition index_digest_parse :: "hexlib \<Rightarrow> string \<Rightarrow> identity_error + index_digest" where
  "index_digest_parse H s =
     bindE (mapErr (\<lambda>_. BadDigest) (digest_from_str H s)) (\<lambda>d. Inr (IndexDigest (as_sha256_array d)))"

datatype lock_error = MissingPin string | MixedImage string | SelectedSourceMissing

type_synonym image_lock = "(image_reference, index_digest) btree"

definition lock_from :: "hexlib \<Rightarrow> plan_lock \<Rightarrow> image_lock" where
  "lock_from H raw =
     foldl (\<lambda>images (remote, pin).
       bt_insert (reference_of H remote) (IndexDigest (as_sha256_array pin)) images) [] (lk_images raw)"

definition lock_resolve :: "image_lock \<Rightarrow> image_reference \<Rightarrow> lock_error + index_digest" where
  "lock_resolve lock reference = okOr (MissingPin (reference_text reference)) (bt_get lock reference)"

section \<open>The build graph\<close>

record image_input =
  in_reference :: image_reference
  in_index :: "index_digest option"
  in_root_required :: bool

record build_graph =
  bg_plan :: plan
  bg_inputs :: "image_input list"
  bg_network_steps :: "(stage_ref \<times> nat) list"

type_synonym graph_inputs = "(image_reference, image_input) btree"

definition add_input ::
    "hexlib \<Rightarrow> image_lock \<Rightarrow> graph_inputs \<Rightarrow> remote \<times> bool \<Rightarrow> lock_error + graph_inputs" where
  "add_input H lock inputs source =
     (case source of (remote, bootstrap) \<Rightarrow>
        let reference = reference_of H remote in
        bindE (if bootstrap then Inr None
               else bindE (lock_resolve lock reference) (\<lambda>pin. Inr (Some pin))) (\<lambda>index.
          let inputs = (case bt_get inputs reference of
                Some _ \<Rightarrow> inputs
              | None \<Rightarrow> bt_insert reference
                  \<lparr>in_reference = reference, in_index = index, in_root_required = False\<rparr> inputs);
              input = the (bt_get inputs reference) in
          if (in_index input = None) \<noteq> bootstrap
          then Inl (MixedImage (reference_text (in_reference input))) else Inr inputs))"

definition networked :: "stage_ref \<Rightarrow> nat \<Rightarrow> directive list \<Rightarrow> (stage_ref \<times> nat) list" where
  "networked name index steps =
     concat (map (\<lambda>(i, d). case d of
         Exec e \<Rightarrow> if es_network e then [(name, i)] else []
       | Copy _ \<Rightarrow> []) (enumerate index steps))"

definition visit_stage ::
    "hexlib \<Rightarrow> plan \<Rightarrow> graph_inputs \<times> (stage_ref \<times> nat) list \<Rightarrow> stage_ref \<Rightarrow>
     lock_error + (graph_inputs \<times> (stage_ref \<times> nat) list)" where
  "visit_stage H p st name =
     (case st of (inputs, network) \<Rightarrow>
        let stage = stage_of p name in
        bindE (case sg_from stage of
                 Local _ \<Rightarrow> Inr inputs
               | RemoteImage remote \<Rightarrow>
                   (case bt_get inputs (reference_of H remote) of
                      None \<Rightarrow> Inl SelectedSourceMissing
                    | Some input \<Rightarrow>
                        Inr (bt_insert (reference_of H remote) (input\<lparr>in_root_required := True\<rparr>) inputs)))
          (\<lambda>inputs. Inr (inputs, network @ networked name 0 (sg_derive stage))))"

definition build_graph_new :: "hexlib \<Rightarrow> plan \<Rightarrow> image_lock \<Rightarrow> lock_error + build_graph" where
  "build_graph_new H p lock =
     bindE (foldE (add_input H lock) [] (remote_sources p)) (\<lambda>inputs.
       bindE (foldE (visit_stage H p) (inputs, []) (pl_order p)) (\<lambda>(inputs, network).
         Inr \<lparr>bg_plan = p, bg_inputs = map snd inputs, bg_network_steps = network\<rparr>))"

definition execution_required :: "build_graph \<Rightarrow> bool" where
  "execution_required g \<longleftrightarrow> commands_required (bg_plan g) \<or> root_reader_required (bg_plan g)"

definition bootstrapped :: "build_graph \<Rightarrow> bool" where
  "bootstrapped g \<longleftrightarrow> list_ex (\<lambda>i. in_index i = None) (bg_inputs g)"

section \<open>The inputs\<close>

text \<open>What the inputs say of a set of sources, and of the references that are activated.\<close>

definition inputs_inv ::
    "hexlib \<Rightarrow> image_lock \<Rightarrow> (remote \<times> bool) set \<Rightarrow> image_reference set \<Rightarrow> graph_inputs \<Rightarrow> bool" where
  "inputs_inv H lock srcs roots m \<longleftrightarrow>
     bt_wf m \<and>
     (\<forall>k i. bt_get m k = Some i \<longrightarrow> k \<in> reference_of H ` fst ` srcs \<and> in_reference i = k \<and>
        (in_index i = None \<or> in_index i = bt_get lock k) \<and> (in_root_required i \<longleftrightarrow> k \<in> roots)) \<and>
     (\<forall>s\<in>srcs. \<exists>i. bt_get m (reference_of H (fst s)) = Some i \<and> (in_index i = None \<longleftrightarrow> snd s))"

lemma inputs_invI:
  assumes "bt_wf m"
    and "\<And>k i. bt_get m k = Some i \<Longrightarrow> k \<in> reference_of H ` fst ` srcs \<and> in_reference i = k \<and>
      (in_index i = None \<or> in_index i = bt_get lock k) \<and> (in_root_required i \<longleftrightarrow> k \<in> roots)"
    and "\<And>s. s \<in> srcs \<Longrightarrow> \<exists>i. bt_get m (reference_of H (fst s)) = Some i \<and> (in_index i = None \<longleftrightarrow> snd s)"
  shows "inputs_inv H lock srcs roots m"
  unfolding inputs_inv_def using assms by blast

lemma inputs_invD:
  assumes "inputs_inv H lock srcs roots m"
  shows "bt_wf m"
    and "bt_get m k = Some i \<Longrightarrow> k \<in> reference_of H ` fst ` srcs \<and> in_reference i = k \<and>
      (in_index i = None \<or> in_index i = bt_get lock k) \<and> (in_root_required i \<longleftrightarrow> k \<in> roots)"
    and "s \<in> srcs \<Longrightarrow> \<exists>i. bt_get m (reference_of H (fst s)) = Some i \<and> (in_index i = None \<longleftrightarrow> snd s)"
  using assms unfolding inputs_inv_def by blast+

lemma add_input_cases:
  assumes "add_input H lock m (r, b) = Inr m'"
  obtains i where "bt_get m (reference_of H r) = Some i" "m' = m" "in_index i = None \<longleftrightarrow> b"
  | i where "bt_get m (reference_of H r) = None" "m' = bt_insert (reference_of H r) i m"
      "in_reference i = reference_of H r" "\<not> in_root_required i" "in_index i = None \<longleftrightarrow> b"
      "in_index i = None \<or> in_index i = bt_get lock (reference_of H r)"
proof (cases "bt_get m (reference_of H r)")
  case None
  with assms that(2) show ?thesis
    by (cases b) (auto simp: add_input_def Let_def bindE_Inr_iff lock_resolve_def split: if_splits)
next
  case (Some i)
  with assms that(1) show ?thesis
    by (cases b) (auto simp: add_input_def Let_def bindE_Inr_iff split: if_splits)
qed

lemma add_input_inv:
  assumes "inputs_inv H lock srcs {} m" "add_input H lock m s = Inr m'"
  shows "inputs_inv H lock (insert s srcs) {} m'"
proof -
  obtain r b where s: "s = (r, b)" by (cases s)
  note inv = inputs_invD [OF assms(1)]
  from assms(2) [unfolded s] show ?thesis
  proof (cases rule: add_input_cases)
    case (1 i)
    show ?thesis
    proof (rule inputs_invI)
      show "bt_wf m'" using inv(1) 1(2) by simp
      show "k \<in> reference_of H ` fst ` insert s srcs \<and> in_reference j = k \<and>
          (in_index j = None \<or> in_index j = bt_get lock k) \<and> (in_root_required j \<longleftrightarrow> k \<in> {})"
        if "bt_get m' k = Some j" for k j
        using inv(2) [of k j] that 1(2) by blast
      show "\<exists>j. bt_get m' (reference_of H (fst t)) = Some j \<and> (in_index j = None \<longleftrightarrow> snd t)"
        if "t \<in> insert s srcs" for t
        using that inv(3) [of t] 1 s by auto
    qed
  next
    case (2 i)
    show ?thesis
    proof (rule inputs_invI)
      show "bt_wf m'" using inv(1) 2(2) by simp
      show "k \<in> reference_of H ` fst ` insert s srcs \<and> in_reference j = k \<and>
          (in_index j = None \<or> in_index j = bt_get lock k) \<and> (in_root_required j \<longleftrightarrow> k \<in> {})"
        if j: "bt_get m' k = Some j" for k j
      proof (cases "k = reference_of H r")
        case True
        with j 2(2) have "j = i" by simp
        with 2(3-6) True s show ?thesis by simp
      next
        case False
        with j 2(2) have "bt_get m k = Some j" by simp
        from inv(2) [OF this] show ?thesis by blast
      qed
      show "\<exists>j. bt_get m' (reference_of H (fst t)) = Some j \<and> (in_index j = None \<longleftrightarrow> snd t)"
        if t: "t \<in> insert s srcs" for t
      proof (cases "t = s")
        case True
        then show ?thesis using 2 s by simp
      next
        case False
        with t have "t \<in> srcs" by simp
        from inv(3) [OF this] obtain j where "bt_get m (reference_of H (fst t)) = Some j"
          "in_index j = None \<longleftrightarrow> snd t" by (elim exE conjE)
        with 2(1,2) show ?thesis by (cases "reference_of H (fst t) = reference_of H r") simp_all
      qed
    qed
  qed
qed

lemma add_inputs_inv:
  "inputs_inv H lock srcs {} m \<Longrightarrow> foldE (add_input H lock) m ss = Inr m' \<Longrightarrow>
     inputs_inv H lock (srcs \<union> set ss) {} m'"
proof (induction ss arbitrary: m srcs)
  case (Cons s ss)
  from Cons.prems obtain m1 where m1: "add_input H lock m s = Inr m1" "foldE (add_input H lock) m1 ss = Inr m'"
    by (auto split: sum.splits)
  from Cons.IH [OF add_input_inv [OF Cons.prems(1) m1(1)] m1(2)] show ?case by simp
qed simp

lemma inputs_inv_empty: "inputs_inv H lock {} {} []"
  by (simp add: inputs_inv_def)

text \<open>The references that a list of stages activates.\<close>

definition root_refs :: "hexlib \<Rightarrow> plan \<Rightarrow> stage_ref set \<Rightarrow> image_reference set" where
  "root_refs H p names = {reference_of H r | n r. n \<in> names \<and> sg_from (stage_of p n) = RemoteImage r}"

lemma root_refs_insert:
  "root_refs H p (insert n names) =
     (case sg_from (stage_of p n) of Local _ \<Rightarrow> {} | RemoteImage r \<Rightarrow> {reference_of H r}) \<union> root_refs H p names"
  by (auto simp: root_refs_def split: image_ref.splits)

lemma activate_inv:
  assumes "inputs_inv H lock srcs roots m" "bt_get m k = Some i"
  shows "inputs_inv H lock srcs (insert k roots) (bt_insert k (i\<lparr>in_root_required := True\<rparr>) m)"
proof (rule inputs_invI)
  note inv = inputs_invD [OF assms(1)]
  let ?m = "bt_insert k (i\<lparr>in_root_required := True\<rparr>) m"
  show "bt_wf ?m" using inv(1) by simp
  show "l \<in> reference_of H ` fst ` srcs \<and> in_reference j = l \<and>
      (in_index j = None \<or> in_index j = bt_get lock l) \<and> (in_root_required j \<longleftrightarrow> l \<in> insert k roots)"
    if j: "bt_get ?m l = Some j" for l j
  proof (cases "l = k")
    case True
    then show ?thesis using j inv(2) [OF assms(2)] by auto
  next
    case False
    then show ?thesis using j inv(2) [of l j] by simp
  qed
  show "\<exists>j. bt_get ?m (reference_of H (fst s)) = Some j \<and> (in_index j = None \<longleftrightarrow> snd s)" if "s \<in> srcs" for s
    using inv(3) [OF that] assms(2) by (cases "reference_of H (fst s) = k") auto
qed

lemma visit_stages_inv:
  assumes "inputs_inv H lock srcs (root_refs H p V) m" "root_refs H p (set ns) \<subseteq> reference_of H ` fst ` srcs"
  shows "\<exists>m'. foldE (visit_stage H p) (m, net) ns =
      Inr (m', net @ concat (map (\<lambda>n. networked n 0 (sg_derive (stage_of p n))) ns)) \<and>
    inputs_inv H lock srcs (root_refs H p (V \<union> set ns)) m'"
  using assms
proof (induction ns arbitrary: m V net)
  case (Cons n ns)
  let ?net = "net @ networked n 0 (sg_derive (stage_of p n))"
  have "\<exists>m1. visit_stage H p (m, net) n = Inr (m1, ?net) \<and> inputs_inv H lock srcs (root_refs H p (insert n V)) m1"
  proof (cases "sg_from (stage_of p n)")
    case (Local x)
    then show ?thesis using Cons.prems(1) by (simp add: visit_stage_def root_refs_insert)
  next
    case (RemoteImage r)
    then have "reference_of H r \<in> reference_of H ` fst ` srcs"
      using Cons.prems(2) by (auto simp: root_refs_insert)
    then obtain i where i: "bt_get m (reference_of H r) = Some i"
      using Cons.prems(1) unfolding inputs_inv_def by fastforce
    show ?thesis using activate_inv [OF Cons.prems(1) i] RemoteImage i
      by (simp add: visit_stage_def root_refs_insert)
  qed
  then obtain m1 where m1: "visit_stage H p (m, net) n = Inr (m1, ?net)"
    "inputs_inv H lock srcs (root_refs H p (insert n V)) m1" by blast
  have "root_refs H p (set ns) \<subseteq> reference_of H ` fst ` srcs"
    using Cons.prems(2) by (auto simp: root_refs_insert)
  from Cons.IH [OF m1(2) this, of ?net] m1(1) show ?case by simp
qed simp

lemma remote_sources_roots:
  "root_refs H p (set (pl_order p)) \<subseteq> reference_of H ` fst ` set (remote_sources p)"
  by (force simp: root_refs_def remote_sources_def)

section \<open>Correctness of the graph\<close>

lemma build_graph_ok:
  assumes "build_graph_new H p lock = Inr g"
  obtains m where "inputs_inv H lock (set (remote_sources p)) (root_refs H p (set (pl_order p))) m"
    "g = \<lparr>bg_plan = p, bg_inputs = map snd m,
      bg_network_steps = concat (map (\<lambda>n. networked n 0 (sg_derive (stage_of p n))) (pl_order p))\<rparr>"
proof -
  from assms obtain m where m: "foldE (add_input H lock) [] (remote_sources p) = Inr m"
    by (auto simp: build_graph_new_def bindE_Inr_iff)
  have inv: "inputs_inv H lock (set (remote_sources p)) (root_refs H p {}) m"
    using add_inputs_inv [OF inputs_inv_empty m] by (simp add: root_refs_def)
  from visit_stages_inv [OF inv remote_sources_roots, of "[]"] obtain m' where
    "foldE (visit_stage H p) (m, []) (pl_order p) =
       Inr (m', concat (map (\<lambda>n. networked n 0 (sg_derive (stage_of p n))) (pl_order p)))"
    "inputs_inv H lock (set (remote_sources p)) (root_refs H p (set (pl_order p))) m'" by auto
  with assms m that show ?thesis by (simp add: build_graph_new_def)
qed

lemma build_graph_isOk:
  "isOk (build_graph_new H p lock) \<longleftrightarrow> isOk (foldE (add_input H lock) [] (remote_sources p))"
proof (cases "foldE (add_input H lock) [] (remote_sources p)")
  case (Inl e)
  then show ?thesis by (simp add: build_graph_new_def)
next
  case (Inr m)
  have inv: "inputs_inv H lock (set (remote_sources p)) (root_refs H p {}) m"
    using add_inputs_inv [OF inputs_inv_empty Inr] by (simp add: root_refs_def)
  from visit_stages_inv [OF inv remote_sources_roots, of "[]"] Inr show ?thesis
    by (auto simp: build_graph_new_def)
qed

text \<open>Sources that can be read together: pinned unless bootstrapped, and never both.\<close>

definition sources_ok :: "hexlib \<Rightarrow> image_lock \<Rightarrow> (remote \<times> bool) set \<Rightarrow> bool" where
  "sources_ok H lock srcs \<longleftrightarrow>
     reference_of H ` {r. (r, False) \<in> srcs} \<subseteq> dom (bt_get lock) \<and>
     reference_of H ` {r. (r, False) \<in> srcs} \<inter> reference_of H ` {r. (r, True) \<in> srcs} = {}"

lemma add_input_total:
  assumes "inputs_inv H lock srcs {} m" "sources_ok H lock (insert s srcs)"
  shows "isOk (add_input H lock m s)"
proof -
  obtain r b where s: "s = (r, b)" by (cases s)
  let ?k = "reference_of H r"
  have pin: "b \<or> (\<exists>d. bt_get lock ?k = Some d)" using assms(2) by (auto simp: sources_ok_def s)
  show ?thesis
  proof (cases "bt_get m ?k")
    case None
    with pin show ?thesis by (cases b) (auto simp: add_input_def s Let_def lock_resolve_def)
  next
    case (Some i)
    from inputs_invD(2) [OF assms(1) Some] obtain t where t: "t \<in> srcs" "reference_of H (fst t) = ?k" by auto
    with inputs_invD(3) [OF assms(1) t(1)] Some have "in_index i = None \<longleftrightarrow> snd t" by simp
    moreover have "snd t = b"
    proof (cases t)
      case (Pair r' b')
      with t assms(2) show ?thesis unfolding sources_ok_def s by (cases b; cases b') auto
    qed
    ultimately show ?thesis using Some pin
      by (cases b) (auto simp: add_input_def s Let_def lock_resolve_def)
  qed
qed

lemma sources_ok_mono: "sources_ok H lock B \<Longrightarrow> A \<subseteq> B \<Longrightarrow> sources_ok H lock A"
  unfolding sources_ok_def by blast

lemma add_inputs_total:
  assumes "inputs_inv H lock srcs {} m" "sources_ok H lock (srcs \<union> set ss)"
  shows "isOk (foldE (add_input H lock) m ss)"
  using assms
proof (induction ss arbitrary: srcs m)
  case (Cons s ss)
  have "sources_ok H lock (insert s srcs)" using Cons.prems(2) by (rule sources_ok_mono) auto
  then obtain m1 where m1: "add_input H lock m s = Inr m1"
    using add_input_total [OF Cons.prems(1)] unfolding isOk_iff by blast
  from Cons.IH [OF add_input_inv [OF Cons.prems(1) m1]] Cons.prems(2) m1 show ?case by simp
qed simp

lemma inputs_inv_sources_ok:
  assumes "inputs_inv H lock srcs roots m"
  shows "sources_ok H lock srcs"
proof -
  note inv = inputs_invD [OF assms]
  have "reference_of H r \<in> dom (bt_get lock)" if "(r, False) \<in> srcs" for r
    using inv(3) [OF that] inv(2) by fastforce
  moreover have "reference_of H r \<noteq> reference_of H r'" if "(r, False) \<in> srcs" "(r', True) \<in> srcs" for r r'
    using inv(3) [OF that(1)] inv(3) [OF that(2)] by auto
  ultimately show ?thesis unfolding sources_ok_def by auto
qed

text \<open>
  C26: The build graph of a plan reads every remote image once, in ascending order of its
  reference: exactly the images that the ordered stages start from or that the image names,
  each without a pin exactly when it is bootstrapped and otherwise at its pin in the lock; an
  image is marked for activation exactly when an ordered stage starts from it; and the
  network steps are the steps of the ordered stages that ask for the network, in order.
\<close>

theorem build_graph_correct:
  assumes "build_graph_new H p lock = Inr g"
  shows "bg_plan g = p \<and> sorted_wrt (<) (map in_reference (bg_inputs g)) \<and>
    set (map in_reference (bg_inputs g)) = reference_of H ` fst ` set (remote_sources p) \<and>
    (\<forall>i\<in>set (bg_inputs g).
       (in_index i = None \<or> in_index i = bt_get lock (in_reference i)) \<and>
       (\<forall>(r, b)\<in>set (remote_sources p). reference_of H r = in_reference i \<longrightarrow> (in_index i = None \<longleftrightarrow> b)) \<and>
       (in_root_required i \<longleftrightarrow> in_reference i \<in> root_refs H p (set (pl_order p)))) \<and>
    bg_network_steps g = concat (map (\<lambda>n. networked n 0 (sg_derive (stage_of p n))) (pl_order p))"
proof -
  from assms obtain m where inv: "inputs_inv H lock (set (remote_sources p)) (root_refs H p (set (pl_order p))) m"
    and g: "g = \<lparr>bg_plan = p, bg_inputs = map snd m,
      bg_network_steps = concat (map (\<lambda>n. networked n 0 (sg_derive (stage_of p n))) (pl_order p))\<rparr>"
    by (rule build_graph_ok)
  note I = inputs_invD [OF inv]
  have get: "bt_get m k = Some i" if "(k, i) \<in> set m" for k i using that bt_get_iff [OF I(1)] by blast
  have keys: "map in_reference (map snd m) = map fst m"
    using I(2) [OF get] by (auto simp: list_eq_iff_nth_eq dest: nth_mem)
  have "sorted_wrt (<) (map fst m)" using I(1) by (simp add: bt_wf_def bt_keys_def)
  moreover have "set (map fst m) = reference_of H ` fst ` set (remote_sources p)"
  proof
    show "set (map fst m) \<subseteq> reference_of H ` fst ` set (remote_sources p)" using I(2) [OF get] by auto
    show "reference_of H ` fst ` set (remote_sources p) \<subseteq> set (map fst m)"
    proof (rule image_subsetI)
      fix r assume "r \<in> fst ` set (remote_sources p)"
      then obtain t where "t \<in> set (remote_sources p)" "r = fst t" by auto
      with I(3) [OF this(1)] show "reference_of H r \<in> set (map fst m)"
        by (auto dest!: map_of_SomeD intro: rev_image_eqI)
    qed
  qed
  moreover have "(in_index i = None \<or> in_index i = bt_get lock (in_reference i)) \<and>
      (\<forall>(r, b)\<in>set (remote_sources p). reference_of H r = in_reference i \<longrightarrow> (in_index i = None \<longleftrightarrow> b)) \<and>
      (in_root_required i \<longleftrightarrow> in_reference i \<in> root_refs H p (set (pl_order p)))"
    if "i \<in> set (map snd m)" for i
  proof -
    from that obtain k where "(k, i) \<in> set m" by auto
    then have k: "bt_get m k = Some i" by (rule get)
    from I(2) [OF k] have r: "in_reference i = k" "in_index i = None \<or> in_index i = bt_get lock k"
      "in_root_required i \<longleftrightarrow> k \<in> root_refs H p (set (pl_order p))" by auto
    have "in_index i = None \<longleftrightarrow> b" if "(x, b) \<in> set (remote_sources p)" "reference_of H x = k" for x b
      using I(3) [OF that(1)] that(2) k by simp
    with r show ?thesis by auto
  qed
  ultimately show ?thesis unfolding g keys [symmetric] by simp
qed

text \<open>
  The graph is built exactly when every image that is not bootstrapped has a pin and no
  image is both bootstrapped and not.
\<close>

theorem build_graph_accepts_iff:
  "isOk (build_graph_new H p lock) \<longleftrightarrow>
     reference_of H ` {r. (r, False) \<in> set (remote_sources p)} \<subseteq> dom (bt_get lock) \<and>
     reference_of H ` {r. (r, False) \<in> set (remote_sources p)} \<inter>
       reference_of H ` {r. (r, True) \<in> set (remote_sources p)} = {}"
proof -
  have "isOk (build_graph_new H p lock) \<longleftrightarrow> sources_ok H lock (set (remote_sources p))"
  proof
    assume "isOk (build_graph_new H p lock)"
    then obtain g where "build_graph_new H p lock = Inr g" by (auto simp: isOk_iff)
    then obtain m where "inputs_inv H lock (set (remote_sources p)) (root_refs H p (set (pl_order p))) m"
      by (rule build_graph_ok)
    then show "sources_ok H lock (set (remote_sources p))" by (rule inputs_inv_sources_ok)
  next
    assume "sources_ok H lock (set (remote_sources p))"
    then show "isOk (build_graph_new H p lock)"
      using add_inputs_total [OF inputs_inv_empty] by (simp add: build_graph_isOk)
  qed
  then show ?thesis by (simp add: sources_ok_def)
qed

definition sample_lock :: image_lock where
  "sample_lock = [(ImageReference ''registry.test/base:1'', IndexDigest (replicate 32 0))]"

theorem build_graph_correct_witness:
  "\<exists>g. build_graph_new hex_ref sample_plan sample_lock = Inr g \<and>
     map in_reference (bg_inputs g) = [ImageReference ''registry.test/base:1''] \<and>
     (\<forall>i\<in>set (bg_inputs g). in_root_required i)"
proof -
  have "isOk (build_graph_new hex_ref sample_plan sample_lock)" by code_simp
  then obtain g where g: "build_graph_new hex_ref sample_plan sample_lock = Inr g" by (auto simp: isOk_iff)
  have "map in_reference (bg_inputs (case build_graph_new hex_ref sample_plan sample_lock of Inr g \<Rightarrow> g | Inl _ \<Rightarrow> undefined)) =
      [ImageReference ''registry.test/base:1'']" by code_simp
  then have one: "map in_reference (bg_inputs g) = [ImageReference ''registry.test/base:1'']" using g by simp
  have "StageRef ''base'' \<in> set (pl_order sample_plan)" by code_simp
  moreover have "sg_from (stage_of sample_plan (StageRef ''base'')) = sample_remote" by code_simp
  moreover have "reference_of hex_ref (Remote ''registry.test'' ''base'' (RefTag ''1'')) =
      ImageReference ''registry.test/base:1''" by code_simp
  ultimately have root: "ImageReference ''registry.test/base:1'' \<in>
      root_refs hex_ref sample_plan (set (pl_order sample_plan))"
    unfolding root_refs_def by (intro CollectI exI conjI) (rule sym, assumption+)
  have "\<forall>i\<in>set (bg_inputs g). in_root_required i \<longleftrightarrow>
      in_reference i \<in> root_refs hex_ref sample_plan (set (pl_order sample_plan))"
    using build_graph_correct [OF g] by blast
  moreover have "\<forall>i\<in>set (bg_inputs g). in_reference i = ImageReference ''registry.test/base:1''"
    using one by (cases "bg_inputs g") auto
  ultimately show ?thesis using g one root by simp
qed

end
