(* ===== verification/Cache_Resolve.thy ===== *)
theory Cache_Resolve
  imports Cache_Read Graph
begin

text \<open>
  From a pin to an authenticated image: \<open>cache/resolve.rs\<close>.  The JSON readers of
  indexes and manifests are derived code of another crate and a parameter, the record
  \<open>json\<close>; so is the name of the processor that the program was built for.
\<close>

record json =
  js_index :: "byte list \<Rightarrow> string + index"
  js_manifest :: "byte list \<Rightarrow> string + manifest"

datatype host_architecture = Amd64 | Arm64

definition host_current :: "string \<Rightarrow> cache_error + host_architecture" where
  "host_current arch =
     (if arch = ''x86_64'' then Inr Amd64
      else if arch = ''aarch64'' then Inr Arm64
      else Inl (CacheInvalid ''unsupported host architecture''))"

fun oci_name :: "host_architecture \<Rightarrow> string" where
  "oci_name Amd64 = ''amd64''"
| "oci_name Arm64 = ''arm64''"

definition host_matches :: "host_architecture \<Rightarrow> platform \<Rightarrow> bool" where
  "host_matches arch p \<longleftrightarrow>
     pf_os p = ''pichi'' \<and> pf_architecture p = oci_name arch \<and>
     (case pf_variant p of None \<Rightarrow> True
      | Some v \<Rightarrow> if v = '''' then True else if v = ''v8'' then arch = Arm64 else False)"

record resolved_image =
  ri_manifest_bytes :: verified_metadata
  ri_manifest :: manifest
  ri_architecture :: host_architecture
  ri_root :: "byte list option"

definition compatible :: "host_architecture \<Rightarrow> index_descriptor \<Rightarrow> bool" where
  "compatible arch descriptor \<longleftrightarrow>
     ix_artifact_type descriptor = Some mt_artifact \<and>
     (case ix_platform descriptor of None \<Rightarrow> False | Some p \<Rightarrow> host_matches arch p)"

text \<open>\<open>candidates.next()\<close> twice: there must be a first and no second.\<close>

definition only_one :: "'e \<Rightarrow> 'e \<Rightarrow> 'a list \<Rightarrow> 'e + 'a" where
  "only_one missing ambiguous xs =
     (case xs of [] \<Rightarrow> Inl missing | [x] \<Rightarrow> Inr x | x # y # zs \<Rightarrow> Inl ambiguous)"

definition parse_digest :: "hexlib \<Rightarrow> string \<Rightarrow> string \<Rightarrow> cache_error + digest" where
  "parse_digest H message s = mapErr (\<lambda>_. CacheInvalid message) (digest_from_str H s)"

definition cache_tags :: "json \<Rightarrow> cache \<Rightarrow> cache_error + index" where
  "cache_tags J cache =
     bindE (regular_file cache 0 ''index.json'') (\<lambda>f.
     bindE (read_metadata_file f None) (\<lambda>bytes.
     bindE (mapErr CacheJson (js_index J bytes)) (\<lambda>index.
     bindE (failIf (ix_schema_version index \<noteq> 2 \<or> ix_index_media_type index \<noteq> mt_index)
              (CacheInvalid ''invalid local cache index'')) (\<lambda>_.
       Inr index))))"

definition verify_layer ::
    "hexlib \<Rightarrow> sha256 \<Rightarrow> cache \<Rightarrow> nat \<Rightarrow> layer \<Rightarrow> cache_error + nat" where
  "verify_layer H sha cache n layer =
     (if layer_is_scute layer then Inr n
      else bindE (parse_digest H ''invalid layer digest'' (layer_digest layer)) (\<lambda>digest.
           bindE (cache_verify H sha cache n digest (layer_size layer)) (\<lambda>_. Inr (Suc n))))"

text \<open>The number is that of the files opened so far.\<close>

definition verify_metadata :: "hexlib \<Rightarrow> sha256 \<Rightarrow> cache \<Rightarrow> resolved_image \<Rightarrow> cache_error + unit" where
  "verify_metadata H sha cache img =
     (let manifest = ri_manifest img; config = mf_config manifest in
      bindE (if config_descriptor_is_empty config then Inr 0
             else bindE (parse_digest H ''invalid config digest'' (cd_digest config)) (\<lambda>digest.
                  bindE (cache_verify H sha cache 0 digest (cd_size config)) (\<lambda>_. Inr 1))) (\<lambda>n.
      bindE (foldE (verify_layer H sha cache) n (mf_layers manifest)) (\<lambda>_. Inr ())))"

definition cache_resolve ::
    "hexlib \<Rightarrow> sha256 \<Rightarrow> json \<Rightarrow> string \<Rightarrow> cache \<Rightarrow> index_digest \<Rightarrow> cache_error + resolved_image" where
  "cache_resolve H sha J host cache pin =
     bindE (host_current host) (\<lambda>architecture.
     bindE (cache_metadata H sha cache 0 (Sha256 (index_bytes pin)) None) (\<lambda>indexed.
     bindE (mapErr CacheJson (js_index J (vm_bytes indexed))) (\<lambda>parsed.
     bindE (failIf (ix_schema_version parsed \<noteq> 2 \<or> ix_index_media_type parsed \<noteq> mt_index)
              (CacheInvalid ''lock must reference an OCI image index'')) (\<lambda>_.
     bindE (only_one (CacheInvalid ''index has no compatible host platform'')
              (CacheInvalid ''index has ambiguous host platform entries'')
              (filter (compatible architecture) (ix_manifests parsed))) (\<lambda>selected.
     bindE (failIf (ix_media_type selected \<noteq> mt_manifest)
              (CacheInvalid ''selected descriptor is not an image manifest'')) (\<lambda>_.
     bindE (parse_digest H ''invalid manifest digest'' (ix_digest selected)) (\<lambda>digest.
     bindE (cache_metadata H sha cache 1 digest (Some (ix_size selected))) (\<lambda>bytes.
     bindE (mapErr CacheJson (js_manifest J (vm_bytes bytes))) (\<lambda>manifest.
     bindE (mapErr CacheManifest (manifest_validate H manifest)) (\<lambda>_.
     bindE (failIf (mf_schema_version manifest \<noteq> 2 \<or> mf_media_type manifest \<noteq> mt_manifest)
              (CacheInvalid ''invalid manifest envelope'')) (\<lambda>_.
     bindE (mapErr CacheManifest (carapace_root H manifest)) (\<lambda>root.
       Inr \<lparr>ri_manifest_bytes = bytes, ri_manifest = manifest, ri_architecture = architecture,
            ri_root = root\<rparr>))))))))))))"

definition cached_index :: "hexlib \<Rightarrow> image_reference \<Rightarrow> index \<Rightarrow> cache_error + index_digest" where
  "cached_index H reference tags =
     (case split_once CHR ''@'' (reference_text reference) of
        Some (_, digest) \<Rightarrow>
          mapErr (\<lambda>_. CacheInvalid ''invalid bootstrap digest'') (index_digest_parse H digest)
      | None \<Rightarrow>
          bindE (only_one (CacheInvalid ''bootstrap image is not in local cache'')
                   (CacheInvalid ''ambiguous bootstrap tag in local cache'')
                   (filter (\<lambda>entry. bt_get (ix_annotations entry) ''org.opencontainers.image.ref.name''
                              = Some (reference_text reference)) (ix_manifests tags))) (\<lambda>selected.
            mapErr (\<lambda>_. CacheInvalid ''invalid cached bootstrap digest'')
              (index_digest_parse H (ix_digest selected))))"

section \<open>What is resolved\<close>

lemma only_one_Inr [simp]: "only_one a b xs = Inr x \<longleftrightarrow> xs = [x]"
  by (auto simp: only_one_def split: list.splits)

lemma failIf_Inr_iff: "failIf b e = Inr u \<longleftrightarrow> \<not> b"
  by (simp add: failIf_def)

lemma mapErr_Inr_iff': "mapErr f r = Inr a \<longleftrightarrow> r = Inr a"
  by (cases r) (simp_all add: mapErr_def)

text \<open>The named conditions on an image selected from a pinned index.\<close>

definition index_selects ::
    "hexlib \<Rightarrow> json \<Rightarrow> host_architecture \<Rightarrow> byte list \<Rightarrow> digest \<Rightarrow> nat \<Rightarrow> bool" where
  "index_selects H J arch bytes digest extent \<longleftrightarrow>
     (case js_index J bytes of Inl _ \<Rightarrow> False | Inr ix \<Rightarrow>
        ix_schema_version ix = 2 \<and> ix_index_media_type ix = mt_index \<and>
        (case filter (compatible arch) (ix_manifests ix) of
           [selected] \<Rightarrow> ix_media_type selected = mt_manifest \<and>
             digest_from_str H (ix_digest selected) = Inr digest \<and> ix_size selected = extent
         | _ \<Rightarrow> False))"

definition manifest_accepted :: "hexlib \<Rightarrow> json \<Rightarrow> verified_metadata \<Rightarrow> resolved_image \<Rightarrow> bool" where
  "manifest_accepted H J bytes img \<longleftrightarrow>
     js_manifest J (vm_bytes bytes) = Inr (ri_manifest img) \<and>
     ri_manifest_bytes img = bytes \<and>
     manifest_validate H (ri_manifest img) = Inr () \<and>
     mf_schema_version (ri_manifest img) = 2 \<and> mf_media_type (ri_manifest img) = mt_manifest \<and>
     carapace_root H (ri_manifest img) = Inr (ri_root img)"

lemma index_selects_iff:
  "index_selects H J arch bytes digest extent \<longleftrightarrow>
     (\<exists>ix selected. js_index J bytes = Inr ix \<and> ix_schema_version ix = 2 \<and>
        ix_index_media_type ix = mt_index \<and> filter (compatible arch) (ix_manifests ix) = [selected] \<and>
        ix_media_type selected = mt_manifest \<and> digest_from_str H (ix_digest selected) = Inr digest \<and>
        ix_size selected = extent)"
  by (auto simp: index_selects_def split: sum.splits list.splits)

lemma resolved_image_eqI:
  fixes img :: resolved_image
  shows "ri_manifest_bytes img = b \<Longrightarrow> ri_manifest img = m \<Longrightarrow> ri_architecture img = a \<Longrightarrow>
     ri_root img = r \<Longrightarrow>
     img = \<lparr>ri_manifest_bytes = b, ri_manifest = m, ri_architecture = a, ri_root = r\<rparr>"
  by simp

lemma cache_resolve_iff:
  "cache_resolve H sha J host cache pin = Inr img \<longleftrightarrow>
     host_current host = Inr (ri_architecture img) \<and>
     (\<exists>indexed digest extent bytes.
        cache_metadata H sha cache 0 (Sha256 (index_bytes pin)) None = Inr indexed \<and>
        index_selects H J (ri_architecture img) (vm_bytes indexed) digest extent \<and>
        cache_metadata H sha cache 1 digest (Some extent) = Inr bytes \<and>
        manifest_accepted H J bytes img)"
  (is "?l \<longleftrightarrow> ?r")
proof
  assume ?l
  then show ?r
    unfolding cache_resolve_def bindE_Inr_iff failIf_Inr_iff mapErr_Inr_iff' only_one_Inr parse_digest_def
    by (elim exE conjE) (fastforce simp: index_selects_iff manifest_accepted_def)
next
  assume ?r
  then show ?l
    unfolding cache_resolve_def bindE_Inr_iff failIf_Inr_iff mapErr_Inr_iff' only_one_Inr parse_digest_def
      index_selects_iff manifest_accepted_def
    by (elim exE conjE) (intro exI conjI, assumption+, auto)
qed

section \<open>Over a content store\<close>

text \<open>What an authenticated image is, over the contents of the store alone.\<close>

definition authentic :: "sha256 \<Rightarrow> (digest \<Rightarrow> byte list option) \<Rightarrow> digest \<Rightarrow> nat \<Rightarrow> bool" where
  "authentic sha content d extent \<longleftrightarrow>
     (case content d of None \<Rightarrow> False | Some c \<Rightarrow> length c = extent \<and> sha c = digest_as_bytes d)"

definition metadata_digests :: "resolved_image \<Rightarrow> (string \<times> nat) list" where
  "metadata_digests img =
     (let config = mf_config (ri_manifest img) in
      (if config_descriptor_is_empty config then [] else [(cd_digest config, cd_size config)]) @
      map (\<lambda>l. (layer_digest l, layer_size l))
        (filter (\<lambda>l. \<not> layer_is_scute l) (mf_layers (ri_manifest img))))"

context content_store
begin

lemma resolve_iff:
  "cache_resolve H sha J host cache pin = Inr img \<longleftrightarrow>
     host_current host = Inr (ri_architecture img) \<and>
     (\<exists>indexed. content (Sha256 (index_bytes pin)) = Some indexed \<and> sha indexed = index_bytes pin \<and>
        length indexed \<le> max_metadata_bytes \<and>
        index_selects H J (ri_architecture img) indexed
          (vm_digest (ri_manifest_bytes img)) (length (vm_bytes (ri_manifest_bytes img)))) \<and>
     content (vm_digest (ri_manifest_bytes img)) = Some (vm_bytes (ri_manifest_bytes img)) \<and>
     Sha256 (sha (vm_bytes (ri_manifest_bytes img))) = vm_digest (ri_manifest_bytes img) \<and>
     length (vm_bytes (ri_manifest_bytes img)) \<le> max_metadata_bytes \<and>
     manifest_accepted H J (ri_manifest_bytes img) img"
  (is "?l \<longleftrightarrow> ?r")
proof
  assume ?l
  then obtain indexed digest extent bytes where *:
    "host_current host = Inr (ri_architecture img)"
    "cache_metadata H sha cache 0 (Sha256 (index_bytes pin)) None = Inr indexed"
    "index_selects H J (ri_architecture img) (vm_bytes indexed) digest extent"
    "cache_metadata H sha cache 1 digest (Some extent) = Inr bytes"
    "manifest_accepted H J bytes img"
    unfolding cache_resolve_iff by blast
  then have "ri_manifest_bytes img = bytes" by (simp add: manifest_accepted_def)
  with * show ?r by (auto simp: metadata_iff)
next
  assume r: ?r
  then obtain indexed where "content (Sha256 (index_bytes pin)) = Some indexed" "sha indexed = index_bytes pin"
    "length indexed \<le> max_metadata_bytes"
    "index_selects H J (ri_architecture img) indexed
       (vm_digest (ri_manifest_bytes img)) (length (vm_bytes (ri_manifest_bytes img)))" by blast
  with r show ?l unfolding cache_resolve_iff
    by (intro conjI exI [of _ "\<lparr>vm_digest = Sha256 (index_bytes pin), vm_bytes = indexed\<rparr>"]
        exI [of _ "vm_digest (ri_manifest_bytes img)"] exI [of _ "length (vm_bytes (ri_manifest_bytes img))"]
        exI [of _ "ri_manifest_bytes img"]) (simp_all add: metadata_iff)
qed

lemma verify_layers_iff:
  "isOk (foldE (verify_layer H sha cache) n layers) \<longleftrightarrow>
     list_all (\<lambda>l. layer_is_scute l \<or>
       (case digest_from_str H (layer_digest l) of Inl _ \<Rightarrow> False
        | Inr d \<Rightarrow> authentic sha content d (layer_size l))) layers"
proof (induction layers arbitrary: n)
  case Nil
  then show ?case by simp
next
  case (Cons l layers)
  show ?case
  proof (cases "layer_is_scute l")
    case True
    with Cons show ?thesis by (simp add: verify_layer_def)
  next
    case False
    show ?thesis
    proof (cases "digest_from_str H (layer_digest l)")
      case (Inl e)
      with False show ?thesis by (simp add: verify_layer_def parse_digest_def mapErr_def)
    next
      case (Inr d)
      have v: "cache_verify H sha cache n d (layer_size l) = Inr () \<longleftrightarrow> authentic sha content d (layer_size l)"
        by (simp add: verify_iff authentic_def)
      show ?thesis using False Inr Cons v
        by (cases "cache_verify H sha cache n d (layer_size l)")
           (auto simp: verify_layer_def parse_digest_def mapErr_def)
    qed
  qed
qed

lemma verify_metadata_iff:
  "verify_metadata H sha cache img = Inr () \<longleftrightarrow>
     list_all (\<lambda>(text, extent). case digest_from_str H text of Inl _ \<Rightarrow> False
        | Inr d \<Rightarrow> authentic sha content d extent) (metadata_digests img)"
proof -
  define config where "config = mf_config (ri_manifest img)"
  have ok: "r = Inr () \<longleftrightarrow> isOk r" for r :: "'e + unit" by (cases r) auto
  have layers: "isOk (bindE (foldE (verify_layer H sha cache) n (mf_layers (ri_manifest img))) (\<lambda>_. Inr ())) \<longleftrightarrow>
      isOk (foldE (verify_layer H sha cache) n (mf_layers (ri_manifest img)))" for n
    by (cases "foldE (verify_layer H sha cache) n (mf_layers (ri_manifest img))") auto
  have fl: "list_all (\<lambda>(text, extent). case digest_from_str H text of Inl _ \<Rightarrow> False
        | Inr d \<Rightarrow> authentic sha content d extent)
       (map (\<lambda>l. (layer_digest l, layer_size l)) (filter (\<lambda>l. \<not> layer_is_scute l) ls)) \<longleftrightarrow>
     list_all (\<lambda>l. layer_is_scute l \<or> (case digest_from_str H (layer_digest l) of Inl _ \<Rightarrow> False
        | Inr d \<Rightarrow> authentic sha content d (layer_size l))) ls" for ls
    by (induction ls) auto
  have "isOk (verify_metadata H sha cache img) \<longleftrightarrow> list_all (\<lambda>(text, extent).
      case digest_from_str H text of Inl _ \<Rightarrow> False | Inr d \<Rightarrow> authentic sha content d extent)
      (metadata_digests img)" (is ?ok)
  proof (cases "config_descriptor_is_empty config")
    case True
    then show ?ok
      by (simp add: verify_metadata_def metadata_digests_def Let_def layers fl verify_layers_iff
          flip: config_def)
  next
    case False
    have v: "cache_verify H sha cache 0 d e = Inr () \<longleftrightarrow> authentic sha content d e" for d e
      by (simp add: verify_iff authentic_def)
    show ?ok
    proof (cases "digest_from_str H (cd_digest config)")
      case (Inl e)
      with False show ?ok
        by (simp add: verify_metadata_def metadata_digests_def Let_def parse_digest_def mapErr_def
            flip: config_def)
    next
      case (Inr d)
      with False v [of d "cd_size config"] show ?ok
        by (cases "cache_verify H sha cache 0 d (cd_size config)")
           (auto simp: verify_metadata_def metadata_digests_def Let_def parse_digest_def mapErr_def
             layers fl verify_layers_iff simp flip: config_def One_nat_def)
    qed
  qed
  then show ?thesis by (simp only: ok)
qed

end

end
