(* ===== verification/Paths.thy ===== *)
theory Paths
  imports Plan_Names
begin

text \<open>
  Paths as the standard library reads them (\<open>Path::components\<close>, \<open>Path::iter\<close>,
  \<open>Path::starts_with\<close>), and the lexical check of a path inside a context
  (\<open>path.rs\<close>).  A normalized \<open>PathBuf\<close> is the list of its components.
\<close>

section \<open>Components\<close>

datatype component = RootDir | CurDir | ParentDir | Normal string

definition component_of :: "string \<Rightarrow> component" where
  "component_of part = (if part = ''..'' then ParentDir else Normal part)"

text \<open>Empty parts and inner dots are dropped; a leading dot and a leading slash are kept.\<close>

definition components :: "string \<Rightarrow> component list" where
  "components path =
     (let parts = filter (\<lambda>p. p \<noteq> []) (split_on CHR ''/'' path);
          rest = (\<lambda>ps. map component_of (filter (\<lambda>p. p \<noteq> ''.'') ps)) in
      if starts_with ''/'' path then RootDir # rest parts
      else if parts \<noteq> [] \<and> hd parts = ''.'' then CurDir # rest (tl parts)
      else rest parts)"

fun component_text :: "component \<Rightarrow> string" where
  "component_text RootDir = ''/''"
| "component_text CurDir = ''.''"
| "component_text ParentDir = ''..''"
| "component_text (Normal part) = part"

definition path_iter :: "string \<Rightarrow> string list" where
  "path_iter path = map component_text (components path)"

definition is_absolute :: "string \<Rightarrow> bool" where
  "is_absolute path \<longleftrightarrow> starts_with ''/'' path"

text \<open>A path that ends in a separator, or in a dot after one, names a directory.\<close>

definition names_directory :: "string \<Rightarrow> bool" where
  "names_directory path \<longleftrightarrow> ends_with ''/'' path \<or> ends_with ''/.'' path"

type_synonym path = "string list"

text \<open>A component that names an entry of a directory.\<close>

definition plain :: "string \<Rightarrow> bool" where
  "plain part \<longleftrightarrow> part \<noteq> [] \<and> part \<noteq> ''.'' \<and> part \<noteq> ''..'' \<and> CHR ''/'' \<notin> set part"

lemma components_plain:
  assumes "Normal part \<in> set (components path)"
  shows "plain part"
proof -
  let ?parts = "filter (\<lambda>p. p \<noteq> []) (split_on CHR ''/'' path)"
  have "set (tl ?parts) \<subseteq> set ?parts" by (cases ?parts) auto
  with assms have "part \<in> set ?parts" "part \<noteq> ''.''" "part \<noteq> ''..''"
    by (auto simp: components_def Let_def component_of_def split: if_splits)
  then show ?thesis by (auto simp: plain_def dest: split_on_parts)
qed

lemma path_iter_parts:
  "part \<in> set (path_iter path) \<Longrightarrow> part = ''/'' \<or> part = ''.'' \<or> part = ''..'' \<or> plain part"
proof -
  assume "part \<in> set (path_iter path)"
  then obtain c where "c \<in> set (components path)" "part = component_text c" by (auto simp: path_iter_def)
  then have "c \<in> set (components path)" "part = component_text c" by simp_all
  then show ?thesis by (metis component.exhaust component_text.simps components_plain)
qed

lemma path_iter_relative: "\<not> is_absolute path \<Longrightarrow> ''/'' \<notin> set (path_iter path)"
proof
  assume a: "\<not> is_absolute path" "''/'' \<in> set (path_iter path)"
  then obtain c where c: "c \<in> set (components path)" "component_text c = ''/''" by (auto simp: path_iter_def)
  have "RootDir \<notin> set (components path)"
    using a(1) by (auto simp: components_def Let_def component_of_def is_absolute_def)
  with c(1) have "c \<noteq> RootDir" by blast
  show False
    by (rule component.exhaust [of c]) (use c \<open>c \<noteq> RootDir\<close> components_plain [of "''/''" path] in \<open>auto simp: plain_def\<close>)
qed

section \<open>Paths inside a context\<close>

datatype path_error = PathAbsolute | PathEscape | PathEmpty | PathNul

text \<open>A file path must name something; a directory path may be the root of the context.\<close>

datatype path_kind = FilePath | DirectoryPath

fun allow_root :: "path_kind \<Rightarrow> bool" where
  "allow_root FilePath = False"
| "allow_root DirectoryPath = True"

record relative_path =
  rp_path :: string

definition normalize_step :: "path \<Rightarrow> component \<Rightarrow> path_error + path" where
  "normalize_step parts c =
     (case c of
        RootDir \<Rightarrow> Inl PathAbsolute
      | ParentDir \<Rightarrow> if parts = [] then Inl PathEscape else Inr (butlast parts)
      | CurDir \<Rightarrow> Inr parts
      | Normal part \<Rightarrow> Inr (parts @ [part]))"

definition relative_path_try_from :: "path_kind \<Rightarrow> string \<Rightarrow> path_error + relative_path" where
  "relative_path_try_from kind path =
     (if CHR 0x00 \<in> set path then Inl PathNul
      else bindE (foldE normalize_step [] (components path)) (\<lambda>parts.
        if parts = [] \<and> \<not> allow_root kind then Inl PathEmpty
        else Inr \<lparr>rp_path = path\<rparr>))"

text \<open>How deep a path leads below its start.\<close>

fun depth :: "int \<Rightarrow> component list \<Rightarrow> int list" where
  "depth d [] = [d]"
| "depth d (c # cs) = d # depth (case c of Normal _ \<Rightarrow> d + 1 | ParentDir \<Rightarrow> d - 1 | _ \<Rightarrow> d) cs"

lemma depth_not_Nil [simp]: "depth d cs \<noteq> []"
  by (cases cs) auto

lemma normalize_depth:
  "int (length n) = d \<Longrightarrow>
     isOk (foldE normalize_step n cs) \<longleftrightarrow> RootDir \<notin> set cs \<and> list_all (\<lambda>d. 0 \<le> d) (depth d cs)"
proof (induction cs arbitrary: n d)
  case (Cons c cs)
  show ?case
  proof (cases c)
    case RootDir
    then show ?thesis by (simp add: normalize_step_def)
  next
    case CurDir
    with Cons show ?thesis by (simp add: normalize_step_def)
  next
    case ParentDir
    show ?thesis
    proof (cases "n = []")
      case True
      have "\<not> list_all (\<lambda>d. 0 \<le> d) (depth (-1) cs)" by (cases cs) auto
      with True ParentDir Cons.prems show ?thesis by (simp add: normalize_step_def)
    next
      case False
      then have "int (length (butlast n)) = d - 1" using Cons.prems by (cases n) auto
      from Cons.IH [OF this] False ParentDir Cons.prems show ?thesis by (simp add: normalize_step_def)
    qed
  next
    case (Normal part)
    have "int (length (n @ [part])) = d + 1" using Cons.prems by simp
    from Cons.IH [OF this] Normal Cons.prems show ?thesis by (simp add: normalize_step_def)
  qed
qed simp

lemma normalize_length:
  "int (length n) = d \<Longrightarrow> foldE normalize_step n cs = Inr m \<Longrightarrow> int (length m) = last (depth d cs)"
proof (induction cs arbitrary: n d)
  case (Cons c cs)
  from Cons.prems obtain n1 where n1: "normalize_step n c = Inr n1" "foldE normalize_step n1 cs = Inr m"
    by (auto split: sum.splits)
  have "int (length n1) = (case c of Normal _ \<Rightarrow> d + 1 | ParentDir \<Rightarrow> d - 1 | _ \<Rightarrow> d)"
    using n1(1) Cons.prems(1)
    by (cases n rule: rev_cases) (auto simp: normalize_step_def split: if_splits component.splits)
  from Cons.IH [OF this n1(2)] show ?case by simp
qed simp

text \<open>
  A context path is accepted exactly when it has no NUL byte, is relative, never leads
  above its start at any of its prefixes, and, for a file, does not end at its start.
\<close>

theorem relative_path_accepts_iff:
  "isOk (relative_path_try_from kind path) \<longleftrightarrow>
     CHR 0x00 \<notin> set path \<and> RootDir \<notin> set (components path) \<and>
     list_all (\<lambda>d. 0 \<le> d) (depth 0 (components path)) \<and>
     (if allow_root kind then True else 0 < last (depth 0 (components path)))"
proof -
  have n: "isOk (foldE normalize_step [] (components path)) \<longleftrightarrow>
      RootDir \<notin> set (components path) \<and> list_all (\<lambda>d. 0 \<le> d) (depth 0 (components path))"
    by (rule normalize_depth) simp
  show ?thesis
  proof (cases "foldE normalize_step [] (components path)")
    case (Inl e)
    with n show ?thesis by (auto simp: relative_path_try_from_def)
  next
    case (Inr m)
    have "m = [] \<longleftrightarrow> \<not> 0 < last (depth 0 (components path))"
      using normalize_length [OF _ Inr, of 0] by (cases m) auto
    with Inr n show ?thesis by (auto simp: relative_path_try_from_def)
  qed
qed

end
