(* ===== verification/Output_Stage.thy ===== *)
theory Output_Stage
  imports Cache_Resolve Paths
begin

text \<open>
  The private staging directory of an output: \<open>output/mod.rs\<close>.  The state is what
  the staging holds: the blobs under \<open>blobs/sha256\<close> by name and the other files by
  name.  Its last field is what the operating system will answer to the coming calls
  that can fail, in order: \<open>Done\<close>, or an error, with the number of bytes that a failing
  write has left in the file.  When the list is used up every call succeeds.
\<close>

datatype outcome = Done | Failed io_error nat

record staged =
  sg_blobs :: "(string, byte list) btree"
  sg_files :: "(string, byte list) btree"
  sg_os :: "outcome list"

type_synonym 'a op = "staged \<Rightarrow> (cache_error + 'a) \<times> staged"

definition op_return :: "'a \<Rightarrow> 's \<Rightarrow> ('e + 'a) \<times> 's" where
  "op_return a s = (Inr a, s)"

definition op_bind ::
    "('s \<Rightarrow> ('e + 'a) \<times> 's) \<Rightarrow> ('a \<Rightarrow> 's \<Rightarrow> ('e + 'b) \<times> 's) \<Rightarrow> 's \<Rightarrow> ('e + 'b) \<times> 's" where
  "op_bind m f s = (case m s of (Inl e, s') \<Rightarrow> (Inl e, s') | (Inr a, s') \<Rightarrow> f a s')"

definition op_lift :: "'e + 'a \<Rightarrow> 's \<Rightarrow> ('e + 'a) \<times> 's" where
  "op_lift r s = (r, s)"

text \<open>One system call.\<close>

definition sys :: "unit op" where
  "sys s = (case sg_os s of
      [] \<Rightarrow> (Inr (), s)
    | Done # os \<Rightarrow> (Inr (), s\<lparr>sg_os := os\<rparr>)
    | Failed e _ # os \<Rightarrow> (Inl (CacheIo e), s\<lparr>sg_os := os\<rparr>))"

section \<open>Creating a staging directory\<close>

datatype publish_kind = RenameDirectory string | MoveChildren

text \<open>What the calls made by \<open>create\<close> find at the destination.\<close>

record probe =
  pr_parent :: "io_error + bool"
  pr_entry :: "io_error + unit option"
  pr_directory :: "io_error + bool"
  pr_entries :: "io_error + (io_error + string) list"
  pr_open :: "io_error + unit"
  pr_staging :: "io_error + unit"

definition path_file_name :: "string \<Rightarrow> string option" where
  "path_file_name path =
     (case rev (components path) of Normal name # _ \<Rightarrow> Some name | _ \<Rightarrow> None)"

definition staged_create :: "probe \<Rightarrow> string \<Rightarrow> io_error + publish_kind" where
  "staged_create probe destination =
     bindE (okOr (OsError ''output must name a new directory'') (path_file_name destination)) (\<lambda>name.
     bindE (pr_parent probe) (\<lambda>directory.
     bindE (failIf (\<not> directory) (OsError ''output parent'')) (\<lambda>_.
     bindE (pr_entry probe) (\<lambda>entry.
       case entry of
         None \<Rightarrow> bindE (pr_staging probe) (\<lambda>_. Inr (RenameDirectory name))
       | Some _ \<Rightarrow>
           bindE (pr_directory probe) (\<lambda>directory.
           bindE (failIf (\<not> directory) (OsError ''output exists'')) (\<lambda>_.
           bindE (pr_entries probe) (\<lambda>entries.
           bindE (case entries of [] \<Rightarrow> Inr () | Inl e # _ \<Rightarrow> Inl e
                  | Inr _ # _ \<Rightarrow> Inl (OsError ''output exists'')) (\<lambda>_.
           bindE (pr_open probe) (\<lambda>_.
           bindE (pr_staging probe) (\<lambda>_. Inr MoveChildren))))))))))"

section \<open>Pending files\<close>

text \<open>A file of the staging: a blob by its name, or a file beside the blobs.\<close>

datatype place = Blob string | Top string

definition put_place :: "place \<Rightarrow> byte list \<Rightarrow> staged \<Rightarrow> staged" where
  "put_place place bytes s =
     (case place of
        Blob name \<Rightarrow> s\<lparr>sg_blobs := bt_insert name bytes (sg_blobs s)\<rparr>
      | Top name \<Rightarrow> s\<lparr>sg_files := bt_insert name bytes (sg_files s)\<rparr>)"

definition remove_place :: "place \<Rightarrow> staged \<Rightarrow> staged" where
  "remove_place place s =
     (case place of
        Blob name \<Rightarrow> s\<lparr>sg_blobs := bt_delete name (sg_blobs s)\<rparr>
      | Top name \<Rightarrow> s\<lparr>sg_files := bt_delete name (sg_files s)\<rparr>)"

text \<open>Dropping a temporary path removes the file; a failure to remove it is ignored.\<close>

definition drop_pending :: "place \<Rightarrow> staged \<Rightarrow> staged" where
  "drop_pending place s =
     (case sys s of (Inl e, s') \<Rightarrow> s' | (Inr u, s') \<Rightarrow> remove_place place s')"

text \<open>The open file of a pending path: the coming answers, and what the file holds.\<close>

type_synonym open_file = "outcome list \<times> byte list"

fun file_write :: "open_file writer" where
  "file_write ([], held) bytes = (Inr (), ([], held @ bytes))"
| "file_write (Done # os, held) bytes = (Inr (), (os, held @ bytes))"
| "file_write (Failed e k # os, held) bytes = (Inl e, (os, held @ take k bytes))"

text \<open>
  \<open>pending_file\<close>, what a caller writes into the file, \<open>sync_all\<close> and \<open>keep\<close>: the
  common course of the operations that store a file.
\<close>

definition with_pending :: "place \<Rightarrow> (open_file \<Rightarrow> (cache_error + unit) \<times> open_file) \<Rightarrow> unit op" where
  "with_pending place body =
     op_bind sys (\<lambda>_ s.
       case sys s of (Inl e, s1) \<Rightarrow> (Inl e, drop_pending place s1)
       | (Inr u, s1) \<Rightarrow>
           (case body (sg_os s1, []) of (r, os, held) \<Rightarrow>
             (case op_bind (op_lift r) (\<lambda>_. op_bind sys (\<lambda>_. sys))
                     (put_place place held (s1\<lparr>sg_os := os\<rparr>)) of
                (Inl e, s2) \<Rightarrow> (Inl e, drop_pending place s2)
              | (Inr u, s2) \<Rightarrow> (Inr (), s2))))"

definition copy_blob :: "hexlib \<Rightarrow> sha256 \<Rightarrow> cache \<Rightarrow> nat \<Rightarrow> digest \<Rightarrow> nat \<Rightarrow> unit op" where
  "copy_blob H sha cache n digest extent =
     with_pending (Blob (digest_hex H digest)) (copy_verified H sha file_write cache n digest extent)"

definition store_verified :: "hexlib \<Rightarrow> sha256 \<Rightarrow> stream \<Rightarrow> digest \<Rightarrow> nat \<Rightarrow> unit op" where
  "store_verified H sha reader digest extent =
     with_pending (Blob (digest_hex H digest)) (\<lambda>d.
       case copy_loop file_write ''truncated produced scute'' extent reader [] d of
         (Inl e, d') \<Rightarrow> (Inl e, d')
       | (Inr (hashed, rest), d') \<Rightarrow>
           (case fst (read_some 1 rest) of
              Inl e \<Rightarrow> (Inl (CacheIo e), d')
            | Inr extra \<Rightarrow>
                if length extra \<noteq> 0 \<or> sha hashed \<noteq> digest_as_bytes digest
                then (Inl (CacheInvalid ''produced scute content mismatch''), d')
                else (Inr (), d')))"

definition write_file :: "place \<Rightarrow> byte list \<Rightarrow> unit op" where
  "write_file place bytes =
     with_pending place (\<lambda>d. case file_write d bytes of (r, d') \<Rightarrow> (mapErr CacheIo r, d'))"

definition store_blob :: "hexlib \<Rightarrow> sha256 \<Rightarrow> byte list \<Rightarrow> digest op" where
  "store_blob H sha bytes =
     (let digest = Sha256 (sha bytes) in
      op_bind (write_file (Blob (digest_hex H digest)) bytes) (\<lambda>_. op_return digest))"

text \<open>
  A sealed layer keeps the name of its encoded file in the same directory, until it is
  installed under its digest.  The first argument is that name, absent once it has
  been installed; the new name is returned with the result.
\<close>

record sealed_scute =
  ss_descriptor :: scute_descriptor
  ss_root :: "byte list"
  ss_parent :: "byte list"

definition install_blob :: "string option \<Rightarrow> string \<Rightarrow> staged \<Rightarrow> (cache_error + unit) \<times> string option \<times> staged" where
  "install_blob name destination s =
     (case name of
        None \<Rightarrow> (Inl (CacheIo (OsError ''encoded scute blob already installed'')), None, s)
      | Some pending \<Rightarrow>
          (case sys s of
             (Inl e, s') \<Rightarrow> (Inl e, Some pending, s')
           | (Inr u, s') \<Rightarrow>
               (case bt_get (sg_blobs s') pending of
                  None \<Rightarrow> (Inl (CacheIo (OsError ''ENOENT'')), Some pending, s')
                | Some bytes \<Rightarrow>
                    (Inr (), None,
                     s'\<lparr>sg_blobs := bt_insert destination bytes (bt_delete pending (sg_blobs s'))\<rparr>))))"

definition install_scute ::
    "hexlib \<Rightarrow> sealed_scute \<Rightarrow> string option \<Rightarrow> staged \<Rightarrow> (cache_error + unit) \<times> string option \<times> staged" where
  "install_scute H scute name s =
     (case parse_digest H ''invalid produced scute digest'' (sd_digest (ss_descriptor scute)) of
        Inl e \<Rightarrow> (Inl e, name, s)
      | Inr digest \<Rightarrow>
          (case sys s of
             (Inl e, s') \<Rightarrow> (Inl e, name, s')
           | (Inr u, s') \<Rightarrow> install_blob name (digest_hex H digest) s'))"

section \<open>Publication\<close>

datatype node = FileNode "byte list" | DirNode "(string \<times> node) list"

definition staged_children :: "staged \<Rightarrow> (string, node) btree" where
  "staged_children s =
     bt_insert ''blobs''
       (DirNode [(''sha256'', DirNode (map (\<lambda>(name, bytes). (name, FileNode bytes)) (sg_blobs s)))])
       (map (\<lambda>(name, bytes). (name, FileNode bytes)) (sg_files s))"

definition canonical_blob :: "string \<Rightarrow> bool" where
  "canonical_blob name \<longleftrightarrow>
     length name = 64 \<and> list_all (\<lambda>c. is_digit c \<or> (CHR ''a'' \<le> c \<and> c \<le> CHR ''f'')) name"

fun check_blob_names :: "string list \<Rightarrow> unit op" where
  "check_blob_names [] = op_return ()"
| "check_blob_names (name # names) =
     op_bind sys (\<lambda>_.
       if \<not> canonical_blob name
       then op_lift (Inl (CacheIo (OsError ''unfinished or noncanonical output blob'')))
       else check_blob_names names)"

text \<open>The state of a publication: what is staged, what the destination holds, the coming answers.\<close>

type_synonym tree = "(string, node) btree"
type_synonym moving = "tree \<times> tree \<times> outcome list"

fun next_outcome :: "outcome list \<Rightarrow> io_error option \<times> outcome list" where
  "next_outcome [] = (None, [])"
| "next_outcome (Done # os) = (None, os)"
| "next_outcome (Failed e _ # os) = (Some e, os)"

text \<open>\<open>renameat_with\<close> and \<open>NOREPLACE\<close>: the target must not exist.\<close>

definition rename_new :: "string \<Rightarrow> moving \<Rightarrow> (io_error + unit) \<times> moving" where
  "rename_new name m =
     (case m of (staging, parent, os) \<Rightarrow>
       (case next_outcome os of
          (Some e, os') \<Rightarrow> (Inl e, (staging, parent, os'))
        | (None, os') \<Rightarrow>
            (case bt_get staging name of
               None \<Rightarrow> (Inl (OsError ''ENOENT''), (staging, parent, os'))
             | Some node \<Rightarrow>
                 if bt_get parent name \<noteq> None then (Inl (OsError ''EEXIST''), (staging, parent, os'))
                 else (Inr (), (bt_delete name staging, bt_insert name node parent, os')))))"

text \<open>Moving a published name back; a failure is ignored.\<close>

definition rename_back :: "moving \<Rightarrow> string \<Rightarrow> moving" where
  "rename_back m name =
     (case m of (staging, parent, os) \<Rightarrow>
       (case next_outcome os of
          (Some e, os') \<Rightarrow> (staging, parent, os')
        | (None, os') \<Rightarrow>
            (case bt_get parent name of
               None \<Rightarrow> (staging, parent, os')
             | Some node \<Rightarrow> (bt_insert name node staging, bt_delete name parent, os'))))"

fun publish_loop :: "string list \<Rightarrow> string list \<Rightarrow> moving \<Rightarrow> (io_error + unit) \<times> moving" where
  "publish_loop published [] m = (Inr (), m)"
| "publish_loop published (name # names) m =
     (case rename_new name m of
        (Inr u, m') \<Rightarrow> publish_loop (published @ [name]) names m'
      | (Inl e, m') \<Rightarrow> (Inl e, foldl rename_back m' (rev published)))"

fun sys_times :: "nat \<Rightarrow> unit op" where
  "sys_times 0 = op_return ()"
| "sys_times (Suc n) = op_bind sys (\<lambda>_. sys_times n)"

text \<open>
  Opening the staging, listing it, the moves in the order of the names, and the
  removal of the empty staging directory.
\<close>

definition publish_children :: "tree \<Rightarrow> staged \<Rightarrow> (cache_error + unit) \<times> tree" where
  "publish_children parent s =
     (let names = bt_keys (staged_children s) in
      case op_bind sys (\<lambda>_. op_bind sys (\<lambda>_. sys_times (length names))) s of
        (Inl e, s') \<Rightarrow> (Inl e, parent)
      | (Inr u, s') \<Rightarrow>
          (case publish_loop [] names (staged_children s', parent, sg_os s') of
             (Inl e, (staging, parent', os)) \<Rightarrow> (Inl (CacheIo e), parent')
           | (Inr u, (staging, parent', os)) \<Rightarrow>
               (case next_outcome os of
                  (Some e, _) \<Rightarrow> (Inl (CacheIo e), parent')
                | (None, _) \<Rightarrow> (Inr (), parent'))))"

definition publish :: "publish_kind \<Rightarrow> tree \<Rightarrow> staged \<Rightarrow> (cache_error + unit) \<times> tree" where
  "publish kind parent s =
     (case op_bind sys (\<lambda>_. op_bind sys (\<lambda>_. check_blob_names (bt_keys (sg_blobs s)))) s of
        (Inl e, s') \<Rightarrow> (Inl e, parent)
      | (Inr u, s') \<Rightarrow>
          (case kind of
             RenameDirectory name \<Rightarrow>
               (case next_outcome (sg_os s') of
                  (Some e, _) \<Rightarrow> (Inl (CacheIo e), parent)
                | (None, _) \<Rightarrow>
                    if bt_get parent name \<noteq> None then (Inl (CacheIo (OsError ''EEXIST'')), parent)
                    else (Inr (), bt_insert name (DirNode (staged_children s')) parent))
           | MoveChildren \<Rightarrow> publish_children parent s'))"

section \<open>Facts about pending files\<close>

interpretation pending: byte_sink file_write snd
proof
  fix d d' :: open_file and bytes
  show "file_write d bytes = (Inr (), d') \<Longrightarrow> snd d' = snd d @ bytes"
    by (cases "(d, bytes)" rule: file_write.cases) auto
qed

lemma sys_cases:
  "sys s = (r, s') \<Longrightarrow> sg_blobs s' = sg_blobs s \<and> sg_files s' = sg_files s"
  by (auto simp: sys_def split: list.splits outcome.splits)

lemma op_bind_Inr_iff:
  "op_bind m f s = (Inr b, s2) \<longleftrightarrow> (\<exists>a s1. m s = (Inr a, s1) \<and> f a s1 = (Inr b, s2))"
  by (auto simp: op_bind_def split: prod.splits sum.splits)

lemma put_place_fields [simp]:
  "sg_blobs (put_place (Blob name) bytes s) = bt_insert name bytes (sg_blobs s)"
  "sg_files (put_place (Blob name) bytes s) = sg_files s"
  "sg_blobs (put_place (Top name) bytes s) = sg_blobs s"
  "sg_files (put_place (Top name) bytes s) = bt_insert name bytes (sg_files s)"
  by (simp_all add: put_place_def)

lemma with_pending_Inr:
  assumes "with_pending place body s = (Inr (), s')"
  shows "\<exists>os os' held. body (os, []) = (Inr (), os', held) \<and>
     sg_blobs s' = sg_blobs (put_place place held s) \<and> sg_files s' = sg_files (put_place place held s)"
proof -
  from assms obtain s0 s1 os held s2 where
    "sys s = (Inr (), s0)" "sys s0 = (Inr (), s1)"
    and b: "body (sg_os s1, []) = (Inr (), os, held)"
    and "sys (put_place place held (s1\<lparr>sg_os := os\<rparr>)) = (Inr (), s2)" "sys s2 = (Inr (), s')"
    by (auto simp: with_pending_def op_bind_def op_lift_def split: prod.splits sum.splits)
  then have "sg_blobs s' = sg_blobs (put_place place held s)" "sg_files s' = sg_files (put_place place held s)"
    by (cases place; auto dest!: sys_cases)+
  with b show ?thesis by blast
qed

lemma with_pending_frame:
  assumes "with_pending (Blob name) body s = (r, s')" "bt_wf (sg_blobs s)"
  shows "bt_wf (sg_blobs s') \<and> (m \<noteq> name \<longrightarrow> bt_get (sg_blobs s') m = bt_get (sg_blobs s) m)"
proof -
  define inv where "inv t \<longleftrightarrow> bt_wf (sg_blobs t) \<and> (m \<noteq> name \<longrightarrow> bt_get (sg_blobs t) m = bt_get (sg_blobs s) m)" for t :: staged
  have start: "inv s" using assms(2) by (simp add: inv_def)
  have call: "inv t \<Longrightarrow> sys t = (x, t') \<Longrightarrow> inv t'" for t t' x
    using sys_cases [of t x t'] by (simp add: inv_def)
  have put: "inv t \<Longrightarrow> inv (put_place (Blob name) held (t\<lparr>sg_os := os\<rparr>))" for t held os
    by (simp add: inv_def)
  have drop: "inv t \<Longrightarrow> inv (drop_pending (Blob name) t)" for t
    using call [of t] by (auto simp: drop_pending_def remove_place_def inv_def bt_wf_delete bt_get_delete
        split: prod.splits sum.splits)
  have tail: "inv t \<Longrightarrow> op_bind (op_lift r0) (\<lambda>_. op_bind sys (\<lambda>_. sys)) t = (x, t') \<Longrightarrow> inv t'"
    for t t' r0 x
    by (auto simp: op_bind_def op_lift_def split: prod.splits sum.splits dest: call)
  obtain r0 s0 where c0: "sys s = (r0, s0)" by (cases "sys s")
  have i0: "inv s0" by (rule call [OF start c0])
  obtain r1 s1 where c1: "sys s0 = (r1, s1)" by (cases "sys s0")
  have i1: "inv s1" by (rule call [OF i0 c1])
  obtain r2 os held where c2: "body (sg_os s1, []) = (r2, os, held)" by (cases "body (sg_os s1, [])")
  let ?t = "put_place (Blob name) held (s1\<lparr>sg_os := os\<rparr>)"
  obtain r3 s3 where c3: "op_bind (op_lift r2) (\<lambda>_. op_bind sys (\<lambda>_. sys)) ?t = (r3, s3)"
    by (cases "op_bind (op_lift r2) (\<lambda>_. op_bind sys (\<lambda>_. sys)) ?t")
  have i3: "inv s3" by (rule tail [OF put [OF i1] c3])
  have "s' \<in> {s0, drop_pending (Blob name) s1, drop_pending (Blob name) s3, s3}"
    using assms(1) c0 c1 c2 c3
    by (cases r0; cases r1; cases r3) (simp_all add: with_pending_def op_bind_def [of sys])
  then have "inv s'" using i0 i1 i3 drop by auto
  then show ?thesis by (simp add: inv_def)
qed

section \<open>Every blob has the content its name says\<close>

definition blobs_sealed :: "hexlib \<Rightarrow> sha256 \<Rightarrow> staged \<Rightarrow> bool" where
  "blobs_sealed H sha s \<longleftrightarrow> bt_wf (sg_blobs s) \<and>
     list_all (\<lambda>(name, bytes). canonical_blob name \<longrightarrow> name = hex_encode H (sha bytes)) (sg_blobs s)"

text \<open>
  The steps that a build makes on its staging, as long as they succeed; an error ends
  the build and discards the staging.  \<open>scratch\<close> is what the sealing of a layer does in
  the directory, under temporary names; \<open>unlink\<close> is \<open>remove_file\<close>.
\<close>

inductive stage_step :: "hexlib \<Rightarrow> sha256 \<Rightarrow> staged \<Rightarrow> staged \<Rightarrow> bool" for H sha where
  copy: "copy_blob H sha cache n digest extent s = (Inr (), s') \<Longrightarrow> stage_step H sha s s'"
| verified: "store_verified H sha reader digest extent s = (Inr (), s') \<Longrightarrow> stage_step H sha s s'"
| blob: "store_blob H sha bytes s = (Inr digest, s') \<Longrightarrow> stage_step H sha s s'"
| top: "write_file (Top name) bytes s = (Inr (), s') \<Longrightarrow> stage_step H sha s s'"
| install: "install_scute H scute (Some pending) s = (Inr (), name, s') \<Longrightarrow>
     digest_from_str H (sd_digest (ss_descriptor scute)) = Inr digest \<Longrightarrow>
     bt_get (sg_blobs s) pending = Some bytes \<Longrightarrow> sha bytes = digest_as_bytes digest \<Longrightarrow>
     stage_step H sha s s'"
| scratch: "\<not> canonical_blob name \<Longrightarrow>
     stage_step H sha s (s\<lparr>sg_blobs := bt_insert name bytes (sg_blobs s), sg_os := os\<rparr>)"
| unlink: "stage_step H sha s (s\<lparr>sg_blobs := bt_delete name (sg_blobs s), sg_os := os\<rparr>)"

lemma blobs_sealed_insert:
  assumes "blobs_sealed H sha s" "sg_blobs s' = bt_insert name bytes (sg_blobs s)"
    and "\<not> canonical_blob name \<or> name = hex_encode H (sha bytes)"
  shows "blobs_sealed H sha s'"
proof -
  have "set (bt_insert k v m) \<subseteq> insert (k, v) (set m)" for k :: string and v :: "byte list" and m
    by (induction k v m rule: bt_insert.induct) auto
  with assms show ?thesis by (fastforce simp: blobs_sealed_def list_all_iff)
qed

lemma blobs_sealed_delete:
  "blobs_sealed H sha s \<Longrightarrow> sg_blobs s' = bt_delete name (sg_blobs s) \<Longrightarrow> blobs_sealed H sha s'"
  using bt_delete_subset [of name "sg_blobs s"] by (auto simp: blobs_sealed_def list_all_iff bt_wf_delete)

lemma blobs_sealed_same:
  "blobs_sealed H sha s \<Longrightarrow> sg_blobs s' = sg_blobs s \<Longrightarrow> blobs_sealed H sha s'"
  by (simp add: blobs_sealed_def)

lemma copy_blob_stores:
  assumes "copy_blob H sha cache n digest extent s = (Inr (), s')"
  shows "\<exists>bytes. sg_blobs s' = bt_insert (digest_hex H digest) bytes (sg_blobs s) \<and>
     sg_files s' = sg_files s \<and> length bytes = extent \<and> sha bytes = digest_as_bytes digest"
proof -
  from with_pending_Inr [OF assms [unfolded copy_blob_def]] obtain os os' held where
    "copy_verified H sha file_write cache n digest extent (os, []) = (Inr (), os', held)"
    "sg_blobs s' = bt_insert (digest_hex H digest) held (sg_blobs s)" "sg_files s' = sg_files s" by auto
  with pending.copy_holds_verified [OF this(1)] show ?thesis by auto
qed

lemma store_verified_stores:
  assumes "store_verified H sha reader digest extent s = (Inr (), s')"
  shows "\<exists>bytes. sg_blobs s' = bt_insert (digest_hex H digest) bytes (sg_blobs s) \<and>
     sg_files s' = sg_files s \<and> length bytes = extent \<and> sha bytes = digest_as_bytes digest"
proof -
  obtain os os' held where b: "(case copy_loop file_write ''truncated produced scute'' extent reader [] (os, []) of
       (Inl e, d') \<Rightarrow> (Inl e, d')
     | (Inr (hashed, rest), d') \<Rightarrow>
         (case fst (read_some 1 rest) of
            Inl e \<Rightarrow> (Inl (CacheIo e), d')
          | Inr extra \<Rightarrow>
              if length extra \<noteq> 0 \<or> sha hashed \<noteq> digest_as_bytes digest
              then (Inl (CacheInvalid ''produced scute content mismatch''), d')
              else (Inr (), d'))) = (Inr (), os', held)"
    and p: "sg_blobs s' = bt_insert (digest_hex H digest) held (sg_blobs s)" "sg_files s' = sg_files s"
    using with_pending_Inr [OF assms [unfolded store_verified_def]] by auto
  from b obtain hashed rest where
    l: "copy_loop file_write ''truncated produced scute'' extent reader [] (os, []) = (Inr (hashed, rest), os', held)"
    and s: "sha hashed = digest_as_bytes digest"
    by (auto split: prod.splits sum.splits if_splits)
  from copy_loop_holds_hashed [where held = snd, OF pending.put_appends l] copy_loop_hashed [OF l] s p
  show ?thesis by auto
qed

lemma write_file_stores:
  assumes "write_file place bytes s = (Inr (), s')"
  shows "sg_blobs s' = sg_blobs (put_place place bytes s) \<and> sg_files s' = sg_files (put_place place bytes s)"
proof -
  from with_pending_Inr [OF assms [unfolded write_file_def]] obtain os os' held where
    b: "(case file_write (os, []) bytes of (r, d') \<Rightarrow> (mapErr CacheIo r, d')) = (Inr (), os', held)"
    and p: "sg_blobs s' = sg_blobs (put_place place held s)" "sg_files s' = sg_files (put_place place held s)"
    by blast
  from b have "file_write (os, []) bytes = (Inr (), os', held)"
    by (auto simp: mapErr_Inr_iff' split: prod.splits)
  with pending.put_appends [OF this] p show ?thesis by auto
qed

lemma store_blob_stores:
  assumes "store_blob H sha bytes s = (Inr digest, s')"
  shows "digest = Sha256 (sha bytes) \<and> sg_files s' = sg_files s \<and>
     sg_blobs s' = bt_insert (hex_encode H (sha bytes)) bytes (sg_blobs s)"
  using assms write_file_stores [of "Blob (hex_encode H (sha bytes))" bytes s s']
  by (auto simp: store_blob_def Let_def op_bind_Inr_iff op_return_def)

lemma install_scute_stores:
  assumes "install_scute H scute (Some pending) s = (Inr (), name, s')"
    and "digest_from_str H (sd_digest (ss_descriptor scute)) = Inr digest"
    and "bt_get (sg_blobs s) pending = Some bytes"
  shows "name = None \<and> sg_files s' = sg_files s \<and>
     sg_blobs s' = bt_insert (digest_hex H digest) bytes (bt_delete pending (sg_blobs s))"
  using assms
  by (auto simp: install_scute_def parse_digest_def mapErr_def install_blob_def
      split: prod.splits sum.splits option.splits dest!: sys_cases)

lemma stage_step_sealed:
  "stage_step H sha s s' \<Longrightarrow> blobs_sealed H sha s \<Longrightarrow> blobs_sealed H sha s'"
proof (induction rule: stage_step.induct)
  case (copy cache n digest extent s s')
  then show ?case using copy_blob_stores [OF copy(1)]
    by (cases digest) (auto intro: blobs_sealed_insert)
next
  case (verified reader digest extent s s')
  then show ?case using store_verified_stores [OF verified(1)]
    by (cases digest) (auto intro: blobs_sealed_insert)
next
  case (blob bytes s digest s')
  then show ?case using store_blob_stores [OF blob(1)] by (auto intro: blobs_sealed_insert)
next
  case (top name bytes s s')
  then show ?case using write_file_stores [OF top(1)] by (auto intro: blobs_sealed_same)
next
  case (install scute pending s name s' digest bytes)
  let ?mid = "s\<lparr>sg_blobs := bt_delete pending (sg_blobs s)\<rparr>"
  have "blobs_sealed H sha ?mid" by (rule blobs_sealed_delete [OF install(5)]) simp
  moreover have "sg_blobs s' = bt_insert (digest_hex H digest) bytes (sg_blobs ?mid)"
    using install_scute_stores [OF install(1-3)] by simp
  ultimately show ?case by (rule blobs_sealed_insert) (use install(4) in \<open>cases digest; simp\<close>)
next
  case (scratch name s bytes os)
  then show ?case by (auto intro: blobs_sealed_insert)
next
  case (unlink s name os)
  then show ?case by (auto intro: blobs_sealed_delete)
qed

section \<open>The staging as a content store\<close>

definition bytes_handle :: "byte list \<Rightarrow> handle" where
  "bytes_handle bytes =
     \<lparr>h_regular = Inr True, h_length = Inr (length bytes),
      h_stream = (if bytes = [] then [] else [Inr bytes])\<rparr>"

text \<open>\<open>Cache::open\<close> on the staging directory, while nothing else writes there and no read fails.\<close>

definition staged_cache :: "staged \<Rightarrow> cache" where
  "staged_cache s n path =
     (case strip_prefix ''blobs/sha256/'' path of
        Some name \<Rightarrow> map_sum id bytes_handle (okOr (OsError ''ENOENT'') (bt_get (sg_blobs s) name))
      | None \<Rightarrow> map_sum id bytes_handle (okOr (OsError ''ENOENT'') (bt_get (sg_files s) path)))"

definition staged_content :: "hexlib \<Rightarrow> staged \<Rightarrow> digest \<Rightarrow> byte list option" where
  "staged_content H s d = bt_get (sg_blobs s) (digest_hex H d)"

lemma stable_bytes_handle: "stable bytes (bytes_handle bytes)"
  by (simp add: stable_def bytes_handle_def)

lemma staged_cache_blob:
  "staged_cache s n (blob_path H d) =
     map_sum id bytes_handle (okOr (OsError ''ENOENT'') (bt_get (sg_blobs s) (digest_hex H d)))"
  by (cases d) (simp add: staged_cache_def blob_path_def strip_prefix_def starts_with_def)

interpretation staging: content_store H "staged_cache s" "staged_content H s" for H s
proof
  fix d c n
  show "staged_content H s d = Some c \<Longrightarrow> \<exists>f. staged_cache s n (blob_path H d) = Inr f \<and> stable c f"
    by (auto simp: staged_cache_blob staged_content_def okOr_def intro: stable_bytes_handle)
  show "staged_content H s d = None \<Longrightarrow> \<exists>e. staged_cache s n (blob_path H d) = Inl e"
    by (auto simp: staged_cache_blob staged_content_def okOr_def)
qed

section \<open>Publication is all or nothing\<close>

lemma bt_insert_delete: "bt_wf m \<Longrightarrow> bt_get m k = Some v \<Longrightarrow> bt_insert k v (bt_delete k m) = m"
proof (induction k m rule: bt_delete.induct)
  case (2 k k' v' m)
  show ?case
  proof (cases "k = k'")
    case True
    with 2 show ?thesis by (cases m) (auto simp: bt_wf_def bt_keys_def)
  next
    case False
    with 2 have "bt_get m k = Some v" "bt_wf m" by (auto simp: bt_wf_def bt_keys_def)
    moreover from this 2(2) have "k' < k" by (fastforce simp: bt_wf_def bt_keys_def dest: map_of_SomeD)
    ultimately show ?thesis using 2 False by auto
  qed
qed simp

lemma bt_delete_insert: "bt_wf m \<Longrightarrow> bt_get m k = None \<Longrightarrow> bt_delete k (bt_insert k v m) = m"
  by (induction k v m rule: bt_insert.induct) (auto simp: bt_wf_def bt_keys_def split: if_splits)

definition no_faults :: "outcome list \<Rightarrow> bool" where
  "no_faults os \<longleftrightarrow> list_all (\<lambda>a. a = Done) os"

definition fault_count :: "outcome list \<Rightarrow> nat" where
  "fault_count os = length (filter (\<lambda>a. a \<noteq> Done) os)"

lemma next_outcome_no_faults:
  "no_faults os \<Longrightarrow> \<exists>os'. next_outcome os = (None, os') \<and> no_faults os'"
  by (cases os rule: next_outcome.cases) (auto simp: no_faults_def)

lemma next_outcome_fault:
  "next_outcome os = (Some e, os') \<Longrightarrow> fault_count os \<le> 1 \<Longrightarrow> no_faults os'"
  by (cases os rule: next_outcome.cases) (auto simp: no_faults_def fault_count_def filter_empty_conv list_all_iff)

lemma next_outcome_count:
  "next_outcome os = (None, os') \<Longrightarrow> fault_count os' = fault_count os"
  by (cases os rule: next_outcome.cases) (auto simp: fault_count_def)

text \<open>The destination when every entry has been moved into it.\<close>

definition published_tree :: "tree \<Rightarrow> tree \<Rightarrow> tree" where
  "published_tree children parent = foldl (\<lambda>p (name, node). bt_insert name node p) parent children"

lemma published_tree_get:
  "bt_wf children \<Longrightarrow> bt_get (published_tree children parent) name =
     (case bt_get children name of Some node \<Rightarrow> Some node | None \<Rightarrow> bt_get parent name)"
proof (induction children arbitrary: parent)
  case (Cons c children)
  then have "bt_wf children" "\<forall>x\<in>set children. fst c < fst x" by (auto simp: bt_wf_def bt_keys_def)
  then have "bt_get children (fst c) = None" by (force simp: map_of_eq_None_iff)
  with Cons \<open>bt_wf children\<close> show ?case
    by (cases c) (auto simp: published_tree_def split: option.splits)
qed (simp add: published_tree_def)

text \<open>A move that is taken back leaves no trace.\<close>

lemma rename_back_new:
  assumes "rename_new name (S, P, os) = (Inr (), S', P', os1)" "bt_wf S" "bt_wf P"
    and "next_outcome os2 = (None, os3)"
  shows "rename_back (S', P', os2) name = (S, P, os3)"
  using assms
  by (auto simp: rename_new_def rename_back_def bt_insert_delete bt_delete_insert
      split: prod.splits option.splits if_splits)

definition undoes :: "string list \<Rightarrow> tree \<times> tree \<Rightarrow> tree \<times> tree \<Rightarrow> bool" where
  "undoes published now start \<longleftrightarrow>
     (\<forall>os. no_faults os \<longrightarrow>
        (case foldl rename_back (fst now, snd now, os) (rev published) of (S, P, _) \<Rightarrow> (S, P) = start))"

lemma undoes_step:
  assumes "undoes published (S, P) start" "rename_new name (S, P, os) = (Inr (), S', P', os1)"
    and "bt_wf S" "bt_wf P"
  shows "undoes (published @ [name]) (S', P') start"
  unfolding undoes_def
proof (intro allI impI)
  fix os2 assume "no_faults os2"
  then obtain os3 where "next_outcome os2 = (None, os3)" "no_faults os3"
    using next_outcome_no_faults by blast
  with rename_back_new [OF assms(2-4) this(1)] assms(1)
  show "case foldl rename_back (fst (S', P'), snd (S', P'), os2) (rev (published @ [name])) of
      (S, P, _) \<Rightarrow> (S, P) = start" by (simp add: undoes_def)
qed

lemma publish_loop_outcome:
  "publish_loop published (map fst S) (S, P, os) = (r, S', P', os') \<Longrightarrow>
   bt_wf S \<Longrightarrow> bt_wf P \<Longrightarrow> fst ` set S \<inter> fst ` set P = {} \<Longrightarrow> fault_count os \<le> 1 \<Longrightarrow>
   undoes published (S, P) (S0, P0) \<Longrightarrow>
     (case r of Inl e \<Rightarrow> (S', P') = (S0, P0) | Inr u \<Rightarrow> S' = [] \<and> P' = published_tree S P)"
proof (induction S arbitrary: published P os)
  case Nil
  then show ?case by (auto simp: published_tree_def)
next
  case (Cons c S)
  obtain name node where c: "c = (name, node)" by (cases c)
  have wf: "bt_wf S" "\<forall>x\<in>set S. name < fst x" using Cons.prems(2) c by (auto simp: bt_wf_def bt_keys_def)
  have fresh: "bt_get P name = None" using Cons.prems(4) c by (force simp: map_of_eq_None_iff)
  obtain f os1 where n: "next_outcome os = (f, os1)" by (cases "next_outcome os")
  show ?case
  proof (cases f)
    case (Some e)
    have "no_faults os1" using next_outcome_fault n Some Cons.prems(5) by simp
    with Cons.prems(1,6) n Some c show ?thesis
      by (auto simp: rename_new_def undoes_def split: prod.splits)
  next
    case None
    have mv: "rename_new name (c # S, P, os) = (Inr (), S, bt_insert name node P, os1)"
      using n None c fresh by (simp add: rename_new_def)
    have "fst ` set (bt_insert name node P) = insert name (fst ` set P)"
      using bt_keys_insert [of name node P] by (simp add: bt_keys_def)
    moreover have "name \<notin> fst ` set S" using wf(2) by auto
    ultimately have "fst ` set S \<inter> fst ` set (bt_insert name node P) = {}" using Cons.prems(4) by auto
    with Cons.IH [of "published @ [name]" "bt_insert name node P" os1] undoes_step [OF Cons.prems(6) mv Cons.prems(2,3)]
      Cons.prems mv wf next_outcome_count [of os os1] n None c
    show ?thesis by (cases r; simp add: published_tree_def)
  qed
qed

lemma sys_faults:
  "sys s = (r, s') \<Longrightarrow> sg_blobs s' = sg_blobs s \<and> sg_files s' = sg_files s \<and> fault_count (sg_os s') \<le> fault_count (sg_os s)"
  by (auto simp: sys_def fault_count_def split: list.splits outcome.splits)

lemma sys_times_faults:
  "sys_times n s = (r, s') \<Longrightarrow> sg_blobs s' = sg_blobs s \<and> sg_files s' = sg_files s \<and> fault_count (sg_os s') \<le> fault_count (sg_os s)"
proof (induction n arbitrary: s)
  case (Suc n)
  then show ?case
    by (cases "sys s") (fastforce simp: op_bind_def split: sum.splits dest: sys_faults)
qed (simp add: op_return_def)

lemma staged_children_cong:
  "sg_blobs s' = sg_blobs s \<Longrightarrow> sg_files s' = sg_files s \<Longrightarrow> staged_children s' = staged_children s"
  by (simp add: staged_children_def)

lemma staged_children_wf: "bt_wf (sg_files s) \<Longrightarrow> bt_wf (staged_children s)"
  unfolding staged_children_def by (rule bt_wf_insert) (simp add: bt_wf_def bt_keys_def comp_def case_prod_unfold)

lemma publish_children_outcome:
  assumes "publish_children parent s = (r, parent')"
    and "bt_wf (sg_files s)" "bt_wf parent"
    and "set (bt_keys (staged_children s)) \<inter> set (bt_keys parent) = {}"
    and "fault_count (sg_os s) \<le> 1"
  shows "parent' = published_tree (staged_children s) parent \<or> parent' = parent \<and> \<not> isOk r"
proof -
  let ?names = "bt_keys (staged_children s)"
  obtain r1 s1 where c1: "op_bind sys (\<lambda>_. op_bind sys (\<lambda>_. sys_times (length ?names))) s = (r1, s1)"
    by (cases "op_bind sys (\<lambda>_. op_bind sys (\<lambda>_. sys_times (length ?names))) s")
  show ?thesis
  proof (cases r1)
    case (Inl e)
    with assms(1) c1 show ?thesis by (auto simp: publish_children_def Let_def)
  next
    case (Inr u)
    from c1 have f: "sg_blobs s1 = sg_blobs s" "sg_files s1 = sg_files s" "fault_count (sg_os s1) \<le> 1"
      using assms(5) unfolding op_bind_def
      by (auto split: prod.splits sum.splits dest!: sys_faults sys_times_faults)
    obtain r2 S' P' os' where l: "publish_loop [] (map fst (staged_children s)) (staged_children s, parent, sg_os s1)
        = (r2, S', P', os')"
      by (cases "publish_loop [] (map fst (staged_children s)) (staged_children s, parent, sg_os s1)")
    have "undoes [] (staged_children s, parent) (staged_children s, parent)" by (simp add: undoes_def)
    from publish_loop_outcome [OF l staged_children_wf [OF assms(2)] assms(3) _ f(3) this] assms(4)
    have o: "case r2 of Inl e \<Rightarrow> (S', P') = (staged_children s, parent)
      | Inr u \<Rightarrow> S' = [] \<and> P' = published_tree (staged_children s) parent" by (simp add: bt_keys_def)
    have "parent' = P' \<and> (isOk r \<longrightarrow> isOk r2)"
      using assms(1) c1 Inr l staged_children_cong [OF f(1,2)]
      by (auto simp: publish_children_def Let_def bt_keys_def split: sum.splits prod.splits option.splits)
    with o show ?thesis by (cases r2) auto
  qed
qed

lemma check_blob_names_Inr:
  "check_blob_names names s = (Inr (), s') \<Longrightarrow> list_all canonical_blob names"
  by (induction names arbitrary: s)
     (auto simp: op_bind_Inr_iff op_lift_def split: if_splits)

lemma check_blob_names_same:
  "check_blob_names names s = (r, s') \<Longrightarrow> sg_blobs s' = sg_blobs s \<and> sg_files s' = sg_files s \<and> fault_count (sg_os s') \<le> fault_count (sg_os s)"
proof (induction names arbitrary: s)
  case (Cons name names)
  then show ?case
    by (cases "sys s") (fastforce simp: op_bind_def op_lift_def split: sum.splits if_splits dest: sys_faults)
qed (simp add: op_return_def)

lemma publish_canonical:
  assumes "publish kind parent s = (Inr (), parent')"
  shows "list_all canonical_blob (bt_keys (sg_blobs s))"
proof -
  from assms obtain s' where
    "op_bind sys (\<lambda>_. op_bind sys (\<lambda>_. check_blob_names (bt_keys (sg_blobs s)))) s = (Inr (), s')"
    by (auto simp: publish_def split: prod.splits sum.splits)
  then show ?thesis by (auto simp: op_bind_Inr_iff dest: check_blob_names_Inr)
qed

text \<open>What the destination holds after a complete publication.\<close>

definition published :: "publish_kind \<Rightarrow> staged \<Rightarrow> tree \<Rightarrow> tree" where
  "published kind s parent =
     (case kind of
        RenameDirectory name \<Rightarrow> bt_insert name (DirNode (staged_children s)) parent
      | MoveChildren \<Rightarrow> published_tree (staged_children s) parent)"

text \<open>C17: However a build stored blobs in its staging, when publication succeeds every
published blob has a canonical name and the content with that digest.\<close>

theorem published_blobs_sealed:
  assumes "(stage_step H sha)\<^sup>*\<^sup>* s0 s" "sg_blobs s0 = []"
    and "publish kind parent s = (Inr (), parent')"
  shows "list_all (\<lambda>(name, bytes). canonical_blob name \<and> name = hex_encode H (sha bytes)) (sg_blobs s)"
proof -
  from assms(1) have "blobs_sealed H sha s0 \<Longrightarrow> blobs_sealed H sha s"
    by (induction rule: rtranclp_induct) (auto intro: stage_step_sealed)
  then have "blobs_sealed H sha s" using assms(2) by (simp add: blobs_sealed_def)
  with publish_canonical [OF assms(3)] show ?thesis
    by (fastforce simp: blobs_sealed_def bt_keys_def list_all_iff)
qed

definition empty_staging :: staged where
  "empty_staging = \<lparr>sg_blobs = [], sg_files = [], sg_os = []\<rparr>"

definition constant_sha :: sha256 where
  "constant_sha bytes = replicate 32 0"

lemma published_blobs_sealed_witness:
  "\<exists>d. store_blob hex_ref constant_sha [1, 2] empty_staging = (Inr d, snd (store_blob hex_ref constant_sha [1, 2] empty_staging)) \<and>
     list_all (\<lambda>(name, bytes). canonical_blob name \<and> name = hex_encode hex_ref (constant_sha bytes))
       (sg_blobs (snd (store_blob hex_ref constant_sha [1, 2] empty_staging)))"
proof -
  let ?s = "snd (store_blob hex_ref constant_sha [1, 2] empty_staging)"
  have e: "store_blob hex_ref constant_sha [1, 2] empty_staging = (Inr (Sha256 (replicate 32 0)), ?s)"
    by code_simp
  then have "(stage_step hex_ref constant_sha)\<^sup>*\<^sup>* empty_staging ?s"
    by (intro r_into_rtranclp stage_step.blob)
  moreover have "sg_blobs empty_staging = []" by (simp add: empty_staging_def)
  moreover have "publish MoveChildren [] ?s = (Inr (), snd (publish MoveChildren [] ?s))" by code_simp
  ultimately show ?thesis using published_blobs_sealed [of hex_ref constant_sha empty_staging ?s] e by blast
qed

text \<open>C21: When at most one system call of a publication fails and no staged name is taken,
the destination is either untouched or holds everything that was staged; it is complete
whenever success is reported.\<close>

theorem publish_all_or_nothing:
  assumes "publish kind parent s = (r, parent')" "bt_wf (sg_files s)" "bt_wf parent"
    and "set (bt_keys (staged_children s)) \<inter> set (bt_keys parent) = {}"
    and "fault_count (sg_os s) \<le> 1"
  shows "parent' = published kind s parent \<or> parent' = parent \<and> \<not> isOk r"
proof -
  let ?m = "op_bind sys (\<lambda>_. op_bind sys (\<lambda>_. check_blob_names (bt_keys (sg_blobs s))))"
  obtain r1 s1 where c: "?m s = (r1, s1)" by (cases "?m s")
  show ?thesis
  proof (cases r1)
    case (Inl e)
    with assms(1) c show ?thesis by (auto simp: publish_def)
  next
    case (Inr u)
    with c have f: "sg_blobs s1 = sg_blobs s" "sg_files s1 = sg_files s" "fault_count (sg_os s1) \<le> 1"
      using assms(5) unfolding op_bind_def
      by (auto split: prod.splits sum.splits dest!: sys_faults check_blob_names_same)
    note k = staged_children_cong [OF f(1,2)]
    show ?thesis
    proof (cases kind)
      case (RenameDirectory name)
      with assms(1) c Inr k show ?thesis
        by (auto simp: publish_def published_def split: prod.splits option.splits if_splits)
    next
      case MoveChildren
      with assms(1) c Inr have "publish_children parent s1 = (r, parent')" by (simp add: publish_def)
      from publish_children_outcome [OF this _ assms(3) _ f(3)] assms(2,4) f k MoveChildren
      show ?thesis by (simp add: published_def)
    qed
  qed
qed

definition fault_staging :: staged where
  "fault_staging = \<lparr>sg_blobs = [], sg_files = [(''index.json'', [1]), (''oci-layout'', [2])],
     sg_os = replicate 8 Done @ [Failed (OsError ''EIO'') 0]\<rparr>"

lemma publish_all_or_nothing_witness:
  "snd (publish MoveChildren [] fault_staging) = [] \<and> \<not> isOk (fst (publish MoveChildren [] fault_staging))"
proof -
  have "publish MoveChildren [] fault_staging = (Inl (CacheIo (OsError ''EIO'')), [])" by code_simp
  moreover have "bt_wf (sg_files fault_staging)" by code_simp
  moreover have "fault_count (sg_os fault_staging) \<le> 1" by code_simp
  moreover have "set (bt_keys (staged_children fault_staging)) \<inter> set (bt_keys ([] :: tree)) = {}"
    by (simp add: bt_keys_def)
  moreover have "published MoveChildren fault_staging [] \<noteq> []" by code_simp
  ultimately show ?thesis
    using publish_all_or_nothing [of MoveChildren "[]" fault_staging "Inl (CacheIo (OsError ''EIO''))" "[]"] by simp
qed

section \<open>Resolving from a content store\<close>

text \<open>C14: Resolving a pin against a store of stable contents succeeds with an image exactly
when the content under the pin has that hash and is an index with one compatible
descriptor, the content under the descriptor's digest has that hash and length, both are
small, and it is an acceptable manifest, the image's.\<close>

theorem resolve_content:
  assumes "content_store H cache content"
  shows "cache_resolve H sha J host cache pin = Inr img \<longleftrightarrow>
     host_current host = Inr (ri_architecture img) \<and>
     (\<exists>indexed. content (Sha256 (index_bytes pin)) = Some indexed \<and> sha indexed = index_bytes pin \<and>
        length indexed \<le> max_metadata_bytes \<and>
        index_selects H J (ri_architecture img) indexed
          (vm_digest (ri_manifest_bytes img)) (length (vm_bytes (ri_manifest_bytes img)))) \<and>
     content (vm_digest (ri_manifest_bytes img)) = Some (vm_bytes (ri_manifest_bytes img)) \<and>
     Sha256 (sha (vm_bytes (ri_manifest_bytes img))) = vm_digest (ri_manifest_bytes img) \<and>
     length (vm_bytes (ri_manifest_bytes img)) \<le> max_metadata_bytes \<and>
     manifest_accepted H J (ri_manifest_bytes img) img"
  by (rule content_store.resolve_iff [OF assms])

definition sum_sha :: sha256 where
  "sum_sha bytes = replicate 32 (foldr (+) bytes 0)"

definition sample_descriptor :: index_descriptor where
  "sample_descriptor =
     \<lparr>ix_media_type = mt_manifest, ix_artifact_type = Some mt_artifact,
      ix_digest = ''sha256:'' @ hex_encode hex_ref (replicate 32 2), ix_size = 1,
      ix_platform = Some \<lparr>pf_os = ''pichi'', pf_architecture = ''arm64'', pf_variant = Some ''v8''\<rparr>,
      ix_annotations = []\<rparr>"

definition sample_json :: json where
  "sample_json =
     \<lparr>js_index = (\<lambda>bytes. if bytes = [1] then Inr (index_default\<lparr>ix_manifests := [sample_descriptor]\<rparr>)
        else Inl ''not an index''),
      js_manifest = (\<lambda>bytes. if bytes = [2] then Inr example_manifest else Inl ''not a manifest'')\<rparr>"

definition sample_staging :: staged where
  "sample_staging = empty_staging\<lparr>sg_blobs :=
     [(hex_encode hex_ref (replicate 32 1), [1]), (hex_encode hex_ref (replicate 32 2), [2])]\<rparr>"

definition sample_image :: resolved_image where
  "sample_image =
     \<lparr>ri_manifest_bytes = \<lparr>vm_digest = Sha256 (replicate 32 2), vm_bytes = [2]\<rparr>,
      ri_manifest = example_manifest, ri_architecture = Arm64, ri_root = Some (replicate 32 17)\<rparr>"

lemma sample_resolves:
  "cache_resolve hex_ref sum_sha sample_json ''aarch64'' (staged_cache sample_staging)
     (IndexDigest (replicate 32 1)) = Inr sample_image"
  by code_simp

lemma resolve_content_witness:
  "manifest_accepted hex_ref sample_json (ri_manifest_bytes sample_image) sample_image"
  using resolve_content [OF staging.content_store_axioms, of hex_ref sum_sha sample_json "''aarch64''"
      sample_staging "IndexDigest (replicate 32 1)" sample_image]
  by (simp add: sample_resolves)

end
