(* ===== verification/Input_Resolve.thy ===== *)
theory Input_Resolve
  imports Output_Stage Planner_Order
begin

text \<open>
  The inputs of a captured build: \<open>input/mod.rs\<close> from \<open>CheckedImage\<close> on, and
  \<open>input/availability.rs\<close>.  The files of the cache are opened one after the other; the
  number of those opened before is threaded through, as the cache may change between
  two of them.
\<close>

text \<open>The panic of indexing the map of images with a missing reference is the value \<open>ImageMissing\<close>.\<close>

datatype input_error =
    InputCache cache_error
  | Components string
  | MissingExecutionCarapace string
  | ImageMissing

datatype checked_image = CheckedImage (ci_image: resolved_image)

definition later :: "nat \<Rightarrow> cache \<Rightarrow> cache" where
  "later n cache k path = cache (n + k) path"

definition checked_verify ::
    "hexlib \<Rightarrow> sha256 \<Rightarrow> cache \<Rightarrow> resolved_image \<Rightarrow> cache_error + checked_image" where
  "checked_verify H sha cache img =
     bindE (verify_metadata H sha cache img) (\<lambda>_. Inr (CheckedImage img))"

definition checked_root :: "checked_image \<Rightarrow> byte list option" where
  "checked_root c = ri_root (ci_image c)"

definition checked_layers :: "checked_image \<Rightarrow> layer list" where
  "checked_layers c = mf_layers (ri_manifest (ci_image c))"

fun layer_boot_config :: "layer \<Rightarrow> boot_config_descriptor option" where
  "layer_boot_config (BootConfigLayer d) = Some d"
| "layer_boot_config _ = None"

fun find_map :: "('a \<Rightarrow> 'b option) \<Rightarrow> 'a list \<Rightarrow> 'b option" where
  "find_map f [] = None"
| "find_map f (x # xs) = (case f x of None \<Rightarrow> find_map f xs | Some y \<Rightarrow> Some y)"

definition checked_bootconfig ::
    "hexlib \<Rightarrow> sha256 \<Rightarrow> cache \<Rightarrow> nat \<Rightarrow> checked_image \<Rightarrow> cache_error + verified_metadata option" where
  "checked_bootconfig H sha cache n c =
     (case find_map layer_boot_config (checked_layers c) of
        None \<Rightarrow> Inr None
      | Some d \<Rightarrow>
          bindE (parse_digest H ''invalid bootconfig digest'' (bd_digest d)) (\<lambda>digest.
          bindE (cache_metadata H sha cache n digest (Some (bd_size d))) (\<lambda>m. Inr (Some m))))"

section \<open>Resolving every input\<close>

type_synonym images = "(image_reference, checked_image) btree"

definition needs_tags :: "build_graph \<Rightarrow> bool" where
  "needs_tags g \<longleftrightarrow>
     list_ex (\<lambda>i. in_index i = None \<and> CHR ''@'' \<notin> set (reference_text (in_reference i))) (bg_inputs g)"

definition input_pin :: "hexlib \<Rightarrow> index \<Rightarrow> image_input \<Rightarrow> cache_error + index_digest" where
  "input_pin H tags input =
     (case in_index input of Some pin \<Rightarrow> Inr pin | None \<Rightarrow> cached_index H (in_reference input) tags)"

definition resolve_input ::
    "hexlib \<Rightarrow> sha256 \<Rightarrow> json \<Rightarrow> string \<Rightarrow> cache \<Rightarrow> index \<Rightarrow> nat \<times> images \<Rightarrow> image_input \<Rightarrow>
       input_error + nat \<times> images" where
  "resolve_input H sha J host cache tags state input =
     (case state of (n, images) \<Rightarrow>
       bindE (mapErr InputCache (input_pin H tags input)) (\<lambda>pin.
       bindE (mapErr InputCache (cache_resolve H sha J host (later n cache) pin)) (\<lambda>img.
       bindE (mapErr InputCache (checked_verify H sha (later (n + 2) cache) img)) (\<lambda>checked.
       bindE (failIf (in_root_required input \<and> checked_root checked = None)
                (MissingExecutionCarapace (reference_text (in_reference input)))) (\<lambda>_.
         Inr (n + 2 + length (metadata_digests img), bt_insert (in_reference input) checked images))))))"

section \<open>Availability of components\<close>

record availability =
  av_root :: bool
  av_boot :: bool

definition image_availability :: "checked_image \<Rightarrow> availability" where
  "image_availability c =
     \<lparr>av_root = (checked_root c \<noteq> None), av_boot = list_ex layer_is_pmi (checked_layers c)\<rparr>"

type_synonym available = "(stage_ref, availability) btree"

fun source_availability ::
    "hexlib \<Rightarrow> available \<Rightarrow> images \<Rightarrow> image_ref \<Rightarrow> input_error + availability" where
  "source_availability H stages images (Local name) =
     okOr (Components (''stage '' @ stage_text name @ '' is not available'')) (bt_get stages name)"
| "source_availability H stages images (RemoteImage remote) =
     bindE (okOr ImageMissing (bt_get images (reference_of H remote))) (\<lambda>c. Inr (image_availability c))"

definition stage_availability ::
    "hexlib \<Rightarrow> plan \<Rightarrow> images \<Rightarrow> available \<Rightarrow> stage_ref \<Rightarrow> input_error + available" where
  "stage_availability H p images stages name =
     (let stage = stage_of p name in
      bindE (source_availability H stages images (sg_from stage)) (\<lambda>source.
      bindE (failIf (\<not> av_root source)
               (Components (''stage '' @ stage_text name @ '' requires a carapace input''))) (\<lambda>_.
        Inr (bt_insert name
               (if sg_format stage \<noteq> None then \<lparr>av_root = True, av_boot = False\<rparr> else source) stages))))"

definition check_selection ::
    "hexlib \<Rightarrow> plan \<Rightarrow> images \<Rightarrow> available \<Rightarrow> input_error + unit" where
  "check_selection H p images stages =
     (let source = source_availability H stages images in
      case pl_image p of
        ImageShorthand reference \<Rightarrow>
          bindE (source reference) (\<lambda>selected.
            failIf (\<not> av_root selected \<and> \<not> av_boot selected) (Components ''image contains neither root nor PMI''))
      | ImageComponents root boot \<Rightarrow>
          bindE (case root of None \<Rightarrow> Inr ()
                 | Some r \<Rightarrow> bindE (source r) (\<lambda>a.
                     failIf (\<not> av_root a) (Components ''selected root source has no carapace''))) (\<lambda>_.
            case boot of None \<Rightarrow> Inr ()
            | Some (BootExtract extract define) \<Rightarrow>
                bindE (source (ex_from extract)) (\<lambda>a.
                  failIf (\<not> av_root a) (Components ''PMI file source has no carapace''))
            | Some b \<Rightarrow>
                bindE (source (boot_source b)) (\<lambda>a.
                  failIf (\<not> av_boot a) (Components ''selected boot source has no PMI''))))"

definition availability_validate :: "hexlib \<Rightarrow> plan \<Rightarrow> images \<Rightarrow> input_error + unit" where
  "availability_validate H p images =
     bindE (foldE (stage_availability H p images) [] (pl_order p)) (\<lambda>stages.
       check_selection H p images stages)"

record resolved_build =
  rb_graph :: build_graph
  rb_cache :: cache
  rb_images :: images

definition captured_resolve ::
    "hexlib \<Rightarrow> sha256 \<Rightarrow> json \<Rightarrow> string \<Rightarrow> build_graph \<Rightarrow> cache \<Rightarrow> input_error + resolved_build" where
  "captured_resolve H sha J host g cache =
     bindE (if needs_tags g then mapErr InputCache (cache_tags J cache) else Inr index_default) (\<lambda>tags.
     bindE (foldE (resolve_input H sha J host cache tags) (if needs_tags g then 1 else 0, []) (bg_inputs g))
       (\<lambda>(n, images).
     bindE (availability_validate H (bg_plan g) images) (\<lambda>_.
       Inr \<lparr>rb_graph = g, rb_cache = cache, rb_images = images\<rparr>)))"

section \<open>What the resolved images are\<close>

text \<open>The image that a pin denotes over the contents of the cache.\<close>

definition pinned_image ::
    "hexlib \<Rightarrow> sha256 \<Rightarrow> json \<Rightarrow> string \<Rightarrow> (digest \<Rightarrow> byte list option) \<Rightarrow> index_digest \<Rightarrow> resolved_image \<Rightarrow> bool" where
  "pinned_image H sha J host content pin img \<longleftrightarrow>
     host_current host = Inr (ri_architecture img) \<and>
     (case content (Sha256 (index_bytes pin)) of None \<Rightarrow> False | Some indexed \<Rightarrow>
        sha indexed = index_bytes pin \<and>
        index_selects H J (ri_architecture img) indexed
          (vm_digest (ri_manifest_bytes img)) (length (vm_bytes (ri_manifest_bytes img)))) \<and>
     content (vm_digest (ri_manifest_bytes img)) = Some (vm_bytes (ri_manifest_bytes img)) \<and>
     Sha256 (sha (vm_bytes (ri_manifest_bytes img))) = vm_digest (ri_manifest_bytes img) \<and>
     manifest_accepted H J (ri_manifest_bytes img) img"

text \<open>Its configuration, firmware and other small files are in the cache under their digests.\<close>

definition metadata_present :: "hexlib \<Rightarrow> sha256 \<Rightarrow> (digest \<Rightarrow> byte list option) \<Rightarrow> resolved_image \<Rightarrow> bool" where
  "metadata_present H sha content img \<longleftrightarrow>
     list_all (\<lambda>(text, extent). case digest_from_str H text of Inl _ \<Rightarrow> False
        | Inr d \<Rightarrow> authentic sha content d extent) (metadata_digests img)"

definition input_authentic ::
    "hexlib \<Rightarrow> sha256 \<Rightarrow> json \<Rightarrow> string \<Rightarrow> (digest \<Rightarrow> byte list option) \<Rightarrow> index \<Rightarrow> image_input \<Rightarrow>
       image_reference \<times> checked_image \<Rightarrow> bool" where
  "input_authentic H sha J host content tags input entry \<longleftrightarrow>
     fst entry = in_reference input \<and>
     (in_root_required input \<longrightarrow> checked_root (snd entry) \<noteq> None) \<and>
     (case input_pin H tags input of Inl _ \<Rightarrow> False
      | Inr pin \<Rightarrow> pinned_image H sha J host content pin (ci_image (snd entry))) \<and>
     metadata_present H sha content (ci_image (snd entry))"

lemma content_store_later: "content_store H cache content \<Longrightarrow> content_store H (later n cache) content"
  unfolding content_store_def later_def by blast

lemma resolve_input_authentic:
  assumes "content_store H cache content"
    and "resolve_input H sha J host cache tags (n, images) input = Inr (n', images')"
  shows "\<exists>c. images' = bt_insert (in_reference input) c images \<and>
     input_authentic H sha J host content tags input (in_reference input, c)"
proof -
  from assms(2) obtain pin img where p: "input_pin H tags input = Inr pin"
    "cache_resolve H sha J host (later n cache) pin = Inr img"
    "verify_metadata H sha (later (n + 2) cache) img = Inr ()"
    "\<not> (in_root_required input \<and> ri_root img = None)"
    "images' = bt_insert (in_reference input) (CheckedImage img) images"
    by (auto simp: resolve_input_def checked_verify_def checked_root_def bindE_Inr_iff mapErr_Inr_iff' failIf_Inr_iff)
  note s = content_store_later [OF assms(1)]
  have "pinned_image H sha J host content pin img"
    using p(2) unfolding content_store.resolve_iff [OF s] by (auto simp: pinned_image_def)
  moreover have "metadata_present H sha content img"
    using p(3) unfolding content_store.verify_metadata_iff [OF s] by (simp add: metadata_present_def)
  ultimately show ?thesis using p by (auto simp: input_authentic_def checked_root_def)
qed

lemma resolve_inputs_authentic:
  "foldE (resolve_input H sha J host cache tags) (n, images) inputs = Inr (n', images') \<Longrightarrow>
   content_store H cache content \<Longrightarrow>
   sorted_wrt (<) (map in_reference (done @ inputs)) \<Longrightarrow>
   list_all2 (input_authentic H sha J host content tags) done images \<Longrightarrow>
     list_all2 (input_authentic H sha J host content tags) (done @ inputs) images'"
proof (induction inputs arbitrary: n images \<open>done\<close>)
  case (Cons input inputs)
  from Cons.prems(1) obtain n1 images1 where
    r: "resolve_input H sha J host cache tags (n, images) input = Inr (n1, images1)"
    and rest: "foldE (resolve_input H sha J host cache tags) (n1, images1) inputs = Inr (n', images')"
    by (auto split: sum.splits)
  from resolve_input_authentic [OF Cons.prems(2) r] obtain c where
    c: "images1 = bt_insert (in_reference input) c images"
      "input_authentic H sha J host content tags input (in_reference input, c)" by blast
  have "map fst images = map in_reference done"
    using Cons.prems(4) by (induction rule: list_all2_induct) (simp_all add: input_authentic_def)
  then have "fst ` set images = in_reference ` set done" by (metis set_map)
  then have "\<forall>e\<in>set images. fst e < in_reference input"
    using Cons.prems(3) by (force simp: sorted_wrt_append)
  from bt_insert_last [OF this] c(1) have "images1 = images @ [(in_reference input, c)]" by simp
  with Cons.prems(4) c(2) have "list_all2 (input_authentic H sha J host content tags) (done @ [input]) images1"
    by (simp add: list_all2_appendI)
  from Cons.IH [OF rest Cons.prems(2) _ this] Cons.prems(3) show ?case by simp
qed simp

lemma captured_resolve_InrE:
  assumes "captured_resolve H sha J host g cache = Inr b"
  obtains tags n n' where "needs_tags g \<longrightarrow> cache_tags J cache = Inr tags"
    "foldE (resolve_input H sha J host cache tags) (n, []) (bg_inputs g) = Inr (n', rb_images b)"
    "availability_validate H (bg_plan g) (rb_images b) = Inr ()"
    "rb_graph b = g" "rb_cache b = cache"
  using assms by (auto simp: captured_resolve_def bindE_Inr_iff mapErr_Inr_iff' split: if_splits prod.splits)

text \<open>C23: A resolved build holds, for every input of its graph in order, the image that the
input's pin or its cached tag denotes over the contents of the cache, with its small
files present under their digests, and with a root when a stage is built on it.\<close>

theorem resolved_inputs:
  assumes "content_store H cache content" "sorted_wrt (<) (map in_reference (bg_inputs g))"
    and "captured_resolve H sha J host g cache = Inr b"
  shows "\<exists>tags. (needs_tags g \<longrightarrow> cache_tags J cache = Inr tags) \<and>
     list_all2 (input_authentic H sha J host content tags) (bg_inputs g) (rb_images b)"
  using assms(3)
proof (rule captured_resolve_InrE)
  fix tags n n'
  assume "needs_tags g \<longrightarrow> cache_tags J cache = Inr tags"
    and f: "foldE (resolve_input H sha J host cache tags) (n, []) (bg_inputs g) = Inr (n', rb_images b)"
  with resolve_inputs_authentic [OF f assms(1), of "[]"] assms(2) show ?thesis by auto
qed

definition bootable_manifest :: manifest where
  "bootable_manifest = example_manifest\<lparr>mf_layers :=
     [Scute \<lparr>sd_digest = ''sha256:00'', sd_size = 5000,
        sd_annotations = \<lparr>sa_data_blocks = 2, sa_salt = replicate 64 CHR ''0''\<rparr>\<rparr>,
      Pmi \<lparr>pd_digest = ''sha256:'' @ hex_encode hex_ref (replicate 32 3), pd_size = 1\<rparr>]\<rparr>"

definition bootable_json :: json where
  "bootable_json = sample_json\<lparr>js_manifest := (\<lambda>bytes. Inr bootable_manifest)\<rparr>"

definition bootable_staging :: staged where
  "bootable_staging = empty_staging\<lparr>sg_blobs :=
     [(hex_encode hex_ref (replicate 32 1), [1]), (hex_encode hex_ref (replicate 32 2), [2]),
      (hex_encode hex_ref (replicate 32 3), [3])]\<rparr>"

definition sample_graph :: build_graph where
  "sample_graph =
     \<lparr>bg_plan = \<lparr>pl_stages = [], pl_image = ImageShorthand sample_remote,
        pl_requirements = None, pl_order = []\<rparr>,
      bg_inputs = [\<lparr>in_reference = reference_of hex_ref (Remote ''registry.test'' ''base'' (RefTag ''1'')),
        in_index = Some (IndexDigest (replicate 32 1)), in_root_required = True\<rparr>],
      bg_network_steps = []\<rparr>"

lemma resolved_inputs_witness:
  "\<exists>b tags. captured_resolve hex_ref sum_sha bootable_json ''aarch64'' sample_graph (staged_cache bootable_staging)
       = Inr b \<and> list_all2 (input_authentic hex_ref sum_sha bootable_json ''aarch64''
          (staged_content hex_ref bootable_staging) tags) (bg_inputs sample_graph) (rb_images b)"
proof -
  have "isOk (captured_resolve hex_ref sum_sha bootable_json ''aarch64'' sample_graph (staged_cache bootable_staging))"
    by code_simp
  then obtain b where b: "captured_resolve hex_ref sum_sha bootable_json ''aarch64'' sample_graph
      (staged_cache bootable_staging) = Inr b"
    by (metis isOk.elims(2))
  have "sorted_wrt (<) (map in_reference (bg_inputs sample_graph))" by (simp add: sample_graph_def)
  from resolved_inputs [OF staging.content_store_axioms this b] b show ?thesis by blast
qed

end
