(* ===== verification/Boot_Config.thy ===== *)
theory Boot_Config
  imports Plan_Model
begin

text \<open>
  The native Linux boot configuration: \<open>boot_config/mod.rs\<close> (limits, encoding
  of values, the canonical text) and \<open>boot_config/parser.rs\<close> (the parser).  The
  parser's position is the text that is left; an error carries its reason and
  not the position.
\<close>

section \<open>Values and keys\<close>

type_synonym config_map = "(string, string list) btree"

record boot_config =
  bc_values :: config_map
  bc_text :: string

definition boot_config_default :: boot_config where
  "boot_config_default = \<lparr>bc_values = [], bc_text = []\<rparr>"

definition max_nodes :: nat where "max_nodes = 8192"

datatype boot_config_error =
    InvalidKey string
  | ValueBytes
  | BothQuotes
  | NodeLimit
  | HasNul
  | NoKeys
  | UnclosedGroup
  | ExpectedKey
  | BareKeyDelimiter
  | ExpectedAssignmentSign
  | DuplicateValue
  | ExpectedDelimiter
  | UnterminatedQuote
  | TextAfterQuote
  | OutOfFuel

definition config_check_key :: "string \<Rightarrow> boot_config_error + unit" where
  "config_check_key k = (if key_new k = None then Inl (InvalidKey k) else Inr ())"

definition space :: "char \<Rightarrow> bool" where
  "space c \<longleftrightarrow> c \<in> {CHR '' '', CHR 0x09, CHR 0x0A, CHR 0x0D, CHR 0x0B, CHR 0x0C}"

definition is_graphic :: "char \<Rightarrow> bool" where
  "is_graphic c \<longleftrightarrow> 33 \<le> chr_code c \<and> chr_code c \<le> 126"

definition check_value :: "string \<Rightarrow> boot_config_error + unit" where
  "check_value v = (if list_all (\<lambda>c. is_graphic c \<or> space c) v then Inr () else Inl ValueBytes)"

text \<open>The characters that end an unquoted value.\<close>

definition delimits :: "char \<Rightarrow> bool" where
  "delimits c \<longleftrightarrow> c \<in> {CHR '','', CHR '';'', CHR 0x0A, CHR ''#'', CHR ''}''}"

definition is_quote :: "char \<Rightarrow> bool" where
  "is_quote c \<longleftrightarrow> c = CHR 0x27 \<or> c = CHR 0x22"

definition encode_value :: "string \<Rightarrow> string \<Rightarrow> boot_config_error + string" where
  "encode_value value out =
     bindE (check_value value) (\<lambda>_.
       let quote = (if CHR 0x22 \<notin> set value then Some CHR 0x22
                    else if CHR 0x27 \<notin> set value then Some CHR 0x27 else None) in
       case quote of
         Some q \<Rightarrow> Inr (out @ [q] @ value @ [q])
       | None \<Rightarrow>
           if \<not> list_ex delimits value \<and>
              \<not> (value \<noteq> [] \<and> (space (hd value) \<or> is_quote (hd value))) \<and>
              \<not> (value \<noteq> [] \<and> space (last value))
           then Inr (out @ value) else Inl BothQuotes)"

section \<open>The canonical text\<close>

text \<open>What precedes each dot of a key.\<close>

definition key_parents :: "string \<Rightarrow> string list" where
  "key_parents k = map (\<lambda>i. take i k) (filter (\<lambda>i. k ! i = CHR ''.'') [0..<length k])"

definition usize_max :: nat where "usize_max = 2 ^ 64 - 1"

definition saturating_add :: "nat \<Rightarrow> nat \<Rightarrow> nat" where
  "saturating_add a b = min usize_max (a + b)"

definition count_entry ::
    "string set \<times> string set \<times> nat \<Rightarrow> string \<times> string list \<Rightarrow>
     boot_config_error + (string set \<times> string set \<times> nat)" where
  "count_entry st entry =
     (case (st, entry) of ((parents, nodes, count), key, value) \<Rightarrow>
        bindE (config_check_key key) (\<lambda>_.
          Inr (parents \<union> set (key_parents key), nodes \<union> set (key_parents key) \<union> {key},
               saturating_add count (length value))))"

definition count_nodes ::
    "config_map \<Rightarrow> boot_config_error + (string set \<times> string set \<times> nat)" where
  "count_nodes values = foldE count_entry ({}, {}, 0) values"

fun encode_items :: "string list \<Rightarrow> string \<Rightarrow> boot_config_error + string" where
  "encode_items [] out = Inr out"
| "encode_items [item] out = encode_value item out"
| "encode_items (item # items) out =
     bindE (encode_value item out) (\<lambda>out. encode_items items (out @ '', ''))"

definition encode_entry :: "string \<Rightarrow> string \<times> string list \<Rightarrow> boot_config_error + string" where
  "encode_entry out entry =
     (case entry of (key, value) \<Rightarrow>
        let out = out @ key in
        bindE (if value \<noteq> [] then encode_items value (out @ '' = '') else Inr out) (\<lambda>out.
          Inr (out @ '';'' @ [CHR 0x0A])))"

definition boot_config_try_from :: "config_map \<Rightarrow> boot_config_error + boot_config" where
  "boot_config_try_from values =
     bindE (count_nodes values) (\<lambda>(parents, nodes, count).
       if saturating_add count (card nodes) > max_nodes then Inl NodeLimit
       else
         let kept = filter (\<lambda>(key, value). value \<noteq> [] \<or> key \<notin> parents) values in
         bindE (foldE encode_entry [] kept) (\<lambda>text.
           Inr \<lparr>bc_values = kept, bc_text = text\<rparr>))"

section \<open>The parser\<close>

definition skip_spaces :: "bool \<Rightarrow> string \<Rightarrow> string" where
  "skip_spaces newline s = dropWhile (\<lambda>c. space c \<and> (newline \<or> c \<noteq> CHR 0x0A)) s"

definition skip_comment :: "string \<Rightarrow> string" where
  "skip_comment s = dropWhile (\<lambda>c. c \<noteq> CHR 0x0A) s"

definition trim_end_spaces :: "string \<Rightarrow> string" where
  "trim_end_spaces s = List.rev (dropWhile space (List.rev s))"

text \<open>A value and the text after it.\<close>

definition parse_quoted :: "char \<Rightarrow> string \<Rightarrow> boot_config_error + (string \<times> string)" where
  "parse_quoted q r =
     (let value = takeWhile (\<lambda>c. c \<noteq> q) r; r = dropWhile (\<lambda>c. c \<noteq> q) r in
      if r = [] then Inl UnterminatedQuote
      else let r = skip_spaces False (tl r) in
        if r \<noteq> [] \<and> \<not> delimits (hd r) then Inl TextAfterQuote else Inr (value, r))"

definition parse_bare :: "string \<Rightarrow> string \<times> string" where
  "parse_bare r =
     (let value = takeWhile (\<lambda>c. \<not> delimits c) r; r = dropWhile (\<lambda>c. \<not> delimits c) r in
      (if r = [] then value else trim_end_spaces value, r))"

definition parse_value :: "string \<Rightarrow> boot_config_error + (string \<times> string)" where
  "parse_value s =
     (let r = skip_spaces False s in
      bindE (if r \<noteq> [] \<and> is_quote (hd r) then parse_quoted (hd r) (tl r) else Inr (parse_bare r))
        (\<lambda>(value, r). bindE (check_value value) (\<lambda>_. Inr (value, r))))"

lemma skip_spaces_length: "length (skip_spaces b s) \<le> length s"
  by (simp add: skip_spaces_def length_dropWhile_le)

lemma skip_comment_length: "length (skip_comment s) \<le> length s"
  by (simp add: skip_comment_def length_dropWhile_le)

lemma parse_quoted_length: "parse_quoted q r = Inr (v, r') \<Longrightarrow> length r' \<le> length r"
  using length_dropWhile_le [of "\<lambda>c. c \<noteq> q" r]
    skip_spaces_length [of False "tl (dropWhile (\<lambda>c. c \<noteq> q) r)"]
  by (auto simp: parse_quoted_def Let_def split: if_splits)

lemma parse_value_length:
  assumes "parse_value s = Inr (v, r')"
  shows "length r' \<le> length s"
proof -
  let ?r = "skip_spaces False s"
  have "length r' \<le> length ?r"
    using assms parse_quoted_length [of "hd ?r" "tl ?r" v r'] length_dropWhile_le [of "\<lambda>c. \<not> delimits c" ?r]
    by (auto simp: parse_value_def Let_def bindE_Inr_iff parse_bare_def split: if_splits)
  then show ?thesis using skip_spaces_length [of False s] by simp
qed

text \<open>White space and comments between the values of an array.\<close>

function skip_lines :: "string \<Rightarrow> string" where
  "skip_lines s =
     (let r = skip_spaces True s in
      if r \<noteq> [] \<and> hd r = CHR ''#'' then skip_lines (skip_comment r) else r)"
  by pat_completeness auto

termination
proof (relation "measure length")
  fix s r :: string
  assume r: "r = skip_spaces True s" "r \<noteq> [] \<and> hd r = CHR ''#''"
  then obtain r' where "r = CHR ''#'' # r'" by (metis list.exhaust_sel)
  then have "length (skip_comment r) < length r"
    using length_dropWhile_le [of "\<lambda>c. c \<noteq> CHR 0x0A" r'] by (simp add: skip_comment_def)
  then show "(skip_comment r, s) \<in> measure length"
    using skip_spaces_length [of True s] r by simp
qed simp

declare skip_lines.simps [simp del]

lemma skip_lines_length: "length (skip_lines s) \<le> length s"
proof (induction s rule: skip_lines.induct)
  case (1 s)
  show ?case
  proof (cases "skip_spaces True s \<noteq> [] \<and> hd (skip_spaces True s) = CHR ''#''")
    case True
    with 1 have "length (skip_lines (skip_comment (skip_spaces True s))) \<le>
        length (skip_comment (skip_spaces True s))" by simp
    with True show ?thesis
      using skip_comment_length [of "skip_spaces True s"] skip_spaces_length [of True s]
      by (simp add: skip_lines.simps [of s] Let_def)
  next
    case False
    then show ?thesis using skip_spaces_length [of True s]
      by (auto simp: skip_lines.simps [of s] Let_def)
  qed
qed

function parse_more :: "string list \<Rightarrow> string \<Rightarrow> boot_config_error + (string list \<times> string)" where
  "parse_more values s =
     (if s \<noteq> [] \<and> hd s = CHR '',''
      then (case parse_value (skip_lines (tl s)) of
              Inl e \<Rightarrow> Inl e
            | Inr (value, r) \<Rightarrow>
                if length (values @ [value]) > max_nodes then Inl NodeLimit
                else parse_more (values @ [value]) r)
      else Inr (values, s))"
  by pat_completeness auto

termination
proof (relation "measure (\<lambda>(values, s). length s)")
  fix vs s v r and p :: "string \<times> string"
  assume s: "s \<noteq> [] \<and> hd s = CHR '',''" "parse_value (skip_lines (tl s)) = Inr p" "(v, r) = p"
  then have "length r \<le> length (skip_lines (tl s))" using parse_value_length [of "skip_lines (tl s)" v r] by simp
  also have "\<dots> \<le> length (tl s)" by (rule skip_lines_length)
  also have "\<dots> < length s" using s by simp
  finally show "((vs @ [v], r), vs, s) \<in> measure (\<lambda>(values, s). length s)" by simp
qed simp

declare parse_more.simps [simp del]

definition parse_array :: "string \<Rightarrow> boot_config_error + (string list \<times> string)" where
  "parse_array s = bindE (parse_value s) (\<lambda>(value, r). parse_more [value] r)"

record parser =
  ps_rest :: string
  ps_values :: config_map
  ps_keys :: "string set"
  ps_allocated :: nat

definition check_nodes :: "parser \<Rightarrow> boot_config_error + unit" where
  "check_nodes p = (if card (ps_keys p) + ps_allocated p > max_nodes then Inl NodeLimit else Inr ())"

definition key_char :: "char \<Rightarrow> bool" where
  "key_char c \<longleftrightarrow> is_alphanumeric c \<or> c = CHR ''.'' \<or> c = CHR ''-'' \<or> c = CHR ''_''"

text \<open>A key and the character after it.\<close>

definition parse_key :: "string \<Rightarrow> parser \<Rightarrow> boot_config_error + (string \<times> char \<times> parser)" where
  "parse_key prefix p =
     (let word = takeWhile key_char (ps_rest p); r = dropWhile key_char (ps_rest p) in
      if word = [] then Inl ExpectedKey
      else
        let key = (if prefix = [] then word else prefix @ ''.'' @ word) in
        bindE (config_check_key key) (\<lambda>_.
          let p = p\<lparr>ps_keys := ps_keys p \<union> set (key_parents key) \<union> {key}\<rparr> in
          bindE (check_nodes p) (\<lambda>_.
            let r = skip_spaces False r in
            if r = [] then Inl BareKeyDelimiter
            else
              let values = (case bt_get (ps_values p) key of
                              None \<Rightarrow> bt_insert key [] (ps_values p) | Some _ \<Rightarrow> ps_values p) in
              Inr (key, hd r, p\<lparr>ps_rest := r, ps_values := values\<rparr>))))"

definition is_assign :: "char \<Rightarrow> bool" where
  "is_assign c \<longleftrightarrow> c = CHR ''='' \<or> c = CHR '':'' \<or> c = CHR ''+''"

definition parse_assign :: "string \<Rightarrow> char \<Rightarrow> parser \<Rightarrow> boot_config_error + parser" where
  "parse_assign key op p =
     (let r = tl (ps_rest p) in
      if op \<noteq> CHR ''='' \<and> (r = [] \<or> hd r \<noteq> CHR ''='') then Inl ExpectedAssignmentSign
      else
        bindE (parse_array (if op \<noteq> CHR ''='' then tl r else r)) (\<lambda>(values, r).
          let current = the (bt_get (ps_values p) key) in
          if op = CHR ''='' \<and> current \<noteq> [] then Inl DuplicateValue
          else
            let p = (if op = CHR ''+''
                     then p\<lparr>ps_allocated := ps_allocated p + length values,
                            ps_values := bt_insert key (current @ values) (ps_values p)\<rparr>
                     else p\<lparr>ps_allocated := ps_allocated p + (length values - (if current \<noteq> [] then 1 else 0)),
                            ps_values := bt_insert key values (ps_values p)\<rparr>) in
            bindE (check_nodes p) (\<lambda>_. Inr (p\<lparr>ps_rest := r\<rparr>))))"

definition parse_delimiter :: "char \<Rightarrow> parser \<Rightarrow> boot_config_error + parser" where
  "parse_delimiter op p =
     (if op = CHR '';'' \<or> op = CHR 0x0A then Inr (p\<lparr>ps_rest := tl (ps_rest p)\<rparr>)
      else if op = CHR ''#'' then Inr (p\<lparr>ps_rest := skip_comment (ps_rest p)\<rparr>)
      else if op = CHR ''}'' then Inr p
      else Inl ExpectedDelimiter)"

text \<open>The keys of one group, until it is closed; every turn of the loop uses up fuel.\<close>

fun parse_scope :: "nat \<Rightarrow> string \<Rightarrow> parser \<Rightarrow> boot_config_error + parser" where
  "parse_scope 0 prefix p = Inl OutOfFuel"
| "parse_scope (Suc n) prefix p =
     (let p = p\<lparr>ps_rest := skip_spaces True (ps_rest p)\<rparr>; r = ps_rest p in
      if r = [] then (if prefix = [] then Inr p else Inl UnclosedGroup)
      else if hd r = CHR '';'' then parse_scope n prefix (p\<lparr>ps_rest := tl r\<rparr>)
      else if hd r = CHR ''#'' then parse_scope n prefix (p\<lparr>ps_rest := skip_comment r\<rparr>)
      else if hd r = CHR ''}'' \<and> prefix \<noteq> [] then Inr (p\<lparr>ps_rest := tl r\<rparr>)
      else
        bindE (parse_key prefix p) (\<lambda>(key, op, p).
          bindE (if op = CHR ''{'' then parse_scope n key (p\<lparr>ps_rest := tl (ps_rest p)\<rparr>)
                 else if is_assign op then parse_assign key op p
                 else parse_delimiter op p) (\<lambda>p.
            parse_scope n prefix p)))"

definition parser_new :: "string \<Rightarrow> parser" where
  "parser_new text = \<lparr>ps_rest = text, ps_values = [], ps_keys = {}, ps_allocated = 0\<rparr>"

definition config_parse :: "string \<Rightarrow> boot_config_error + config_map" where
  "config_parse text =
     (if CHR 0x00 \<in> set text then Inl HasNul
      else bindE (parse_scope (Suc (length text)) [] (parser_new text)) (\<lambda>p.
        if text \<noteq> [] \<and> ps_values p = [] then Inl NoKeys else Inr (ps_values p)))"

definition boot_config_from_str :: "string \<Rightarrow> boot_config_error + boot_config" where
  "boot_config_from_str text = bindE (config_parse text) boot_config_try_from"

end
