(* ===== verification/Boot_Config_Roundtrip.thy ===== *)
theory Boot_Config_Roundtrip
  imports Boot_Config_Text
begin

text \<open>
  The canonical text of a boot configuration: what it is, and that the parser
  reads it back.
\<close>

section \<open>What the encoder writes\<close>

definition value_text :: "string \<Rightarrow> string" where
  "value_text v = (if CHR 0x22 \<notin> set v then [CHR 0x22] @ v @ [CHR 0x22]
     else if CHR 0x27 \<notin> set v then [CHR 0x27] @ v @ [CHR 0x27] else v)"

definition value_ok :: "string \<Rightarrow> bool" where
  "value_ok v \<longleftrightarrow> isOk (encode_value v [])"

definition items_text :: "string list \<Rightarrow> string" where
  "items_text vs = (case vs of [] \<Rightarrow> [] | v # ws \<Rightarrow> value_text v @ concat (map (\<lambda>w. '', '' @ value_text w) ws))"

definition entry_text :: "string \<times> string list \<Rightarrow> string" where
  "entry_text e = (case e of (k, vs) \<Rightarrow>
     k @ (if vs \<noteq> [] then '' = '' @ items_text vs else []) @ '';'' @ [CHR 0x0A])"

lemma encode_value_iff:
  "encode_value v out = Inr t \<longleftrightarrow> value_ok v \<and> t = out @ value_text v"
  by (auto simp: encode_value_def value_ok_def value_text_def Let_def check_value_def isOk_iff)

lemma items_text_simps:
  "items_text [] = []" "items_text [v] = value_text v"
  "items_text (v # w # ws) = value_text v @ '', '' @ items_text (w # ws)"
  by (simp_all add: items_text_def)

lemma encode_items_iff:
  "encode_items vs out = Inr t \<longleftrightarrow> list_all value_ok vs \<and> t = out @ items_text vs"
proof (induction vs out arbitrary: t rule: encode_items.induct)
  case (3 v w ws out)
  then show ?case by (auto simp: bindE_Inr_iff encode_value_iff items_text_simps)
qed (auto simp: items_text_simps encode_value_iff)

lemma encode_entry_iff:
  "encode_entry out e = Inr t \<longleftrightarrow> list_all value_ok (snd e) \<and> t = out @ entry_text e"
  by (cases e) (auto simp: encode_entry_def entry_text_def bindE_Inr_iff encode_items_iff split: if_splits)

lemma encode_entries_iff:
  "foldE encode_entry out es = Inr t \<longleftrightarrow>
     list_all (\<lambda>e. list_all value_ok (snd e)) es \<and> t = out @ concat (map entry_text es)"
proof (induction es arbitrary: out)
  case (Cons e es)
  show ?case
  proof (cases "encode_entry out e")
    case (Inl x)
    then have "\<not> list_all value_ok (snd e)" using encode_entry_iff [of out e] by auto
    with Inl show ?thesis by simp
  next
    case (Inr o1)
    with Cons encode_entry_iff [of out e o1] show ?thesis by auto
  qed
qed auto

section \<open>Nodes\<close>

definition nodes_of :: "config_map \<Rightarrow> string set" where
  "nodes_of es = (\<Union>(k, vs)\<in>set es. insert k (set (key_parents k)))"

definition parents_of :: "config_map \<Rightarrow> string set" where
  "parents_of es = (\<Union>(k, vs)\<in>set es. set (key_parents k))"

definition value_count :: "config_map \<Rightarrow> nat" where
  "value_count es = sum_list (map (\<lambda>(k, vs). length vs) es)"

lemma nodes_simps [simp]:
  "nodes_of [] = {}" "nodes_of (e # es) = insert (fst e) (set (key_parents (fst e))) \<union> nodes_of es"
  "nodes_of (es @ fs) = nodes_of es \<union> nodes_of fs"
  "parents_of [] = {}" "parents_of (e # es) = set (key_parents (fst e)) \<union> parents_of es"
  "value_count [] = 0" "value_count (e # es) = length (snd e) + value_count es" "value_count (es @ fs) = value_count es + value_count fs"
  by (auto simp: nodes_of_def parents_of_def value_count_def split_beta)

lemma finite_nodes [simp]: "finite (nodes_of es)"
  by (auto simp: nodes_of_def)

lemma config_check_key_eq: "config_check_key k = (if key_valid k then Inr () else Inl (InvalidKey k))"
  by (simp add: config_check_key_def key_new_def)

lemma count_entry_eq:
  "count_entry (P, N, c) (k, vs) =
     (if key_valid k
      then Inr (P \<union> set (key_parents k), N \<union> set (key_parents k) \<union> {k}, saturating_add c (length vs))
      else Inl (InvalidKey k))"
  by (simp add: count_entry_def config_check_key_eq)

lemma count_nodes_go:
  "foldE count_entry (P, N, c) es = Inr t \<longleftrightarrow>
     list_all (\<lambda>e. key_valid (fst e)) es \<and>
     t = (P \<union> parents_of es, N \<union> nodes_of es, if es = [] then c else min usize_max (c + value_count es))"
proof (induction es arbitrary: P N c)
  case Nil
  then show ?case by auto
next
  case (Cons e es)
  obtain k vs where e: "e = (k, vs)" by (cases e)
  have "(if es = [] then saturating_add c (length vs)
      else min usize_max (saturating_add c (length vs) + value_count es)) =
      min usize_max (c + value_count (e # es))"
    by (auto simp: saturating_add_def e min_def)
  then show ?case
    by (auto simp: e count_entry_eq Cons.IH insert_commute Un_assoc Un_commute Un_left_commute)
qed

lemma count_nodes_iff:
  "count_nodes es = Inr t \<longleftrightarrow> list_all (\<lambda>e. key_valid (fst e)) es \<and>
     t = (parents_of es, nodes_of es, min usize_max (value_count es))"
  unfolding count_nodes_def count_nodes_go by auto

lemma saturating_limit: "saturating_add (min usize_max a) b \<le> max_nodes \<longleftrightarrow> a + b \<le> max_nodes"
  by (auto simp: saturating_add_def usize_max_def max_nodes_def min_def)

text \<open>A configuration in canonical form is one that the encoder accepts and keeps whole.\<close>

definition config_ok :: "config_map \<Rightarrow> bool" where
  "config_ok es \<longleftrightarrow> list_all (\<lambda>e. key_valid (fst e) \<and> list_all value_ok (snd e)) es \<and>
     value_count es + card (nodes_of es) \<le> max_nodes"

definition kept_of :: "config_map \<Rightarrow> config_map" where
  "kept_of es = filter (\<lambda>(k, vs). vs \<noteq> [] \<or> k \<notin> parents_of es) es"

lemma boot_config_try_from_iff:
  "boot_config_try_from es = Inr c \<longleftrightarrow>
     list_all (\<lambda>e. key_valid (fst e)) es \<and> value_count es + card (nodes_of es) \<le> max_nodes \<and>
     list_all (\<lambda>e. list_all value_ok (snd e)) (kept_of es) \<and>
     c = \<lparr>bc_values = kept_of es, bc_text = concat (map entry_text (kept_of es))\<rparr>"
proof -
  have "boot_config_try_from es = Inr c \<longleftrightarrow>
      (\<exists>t. count_nodes es = Inr t \<and> (case t of (P, N, n) \<Rightarrow> \<not> saturating_add n (card N) > max_nodes \<and>
        (\<exists>text. foldE encode_entry [] (filter (\<lambda>(k, vs). vs \<noteq> [] \<or> k \<notin> P) es) = Inr text \<and>
          c = \<lparr>bc_values = filter (\<lambda>(k, vs). vs \<noteq> [] \<or> k \<notin> P) es, bc_text = text\<rparr>)))"
    by (auto simp: boot_config_try_from_def bindE_Inr_iff Let_def split_beta)
  then show ?thesis
    unfolding count_nodes_iff encode_entries_iff kept_of_def
    by (auto simp: saturating_limit not_less)
qed

lemma nodes_of_mono: "set es \<subseteq> set fs \<Longrightarrow> nodes_of es \<subseteq> nodes_of fs"
  by (auto simp: nodes_of_def)

lemma total_filter: "value_count (filter P es) \<le> value_count es"
  by (induction es) auto

lemma kept_of_ok:
  assumes "boot_config_try_from es = Inr c"
  shows "config_ok (bc_values c) \<and> kept_of (bc_values c) = bc_values c \<and>
    bc_text c = concat (map entry_text (bc_values c))"
proof -
  have c: "bc_values c = kept_of es" "bc_text c = concat (map entry_text (kept_of es))"
    and ok: "list_all (\<lambda>e. key_valid (fst e)) es" "value_count es + card (nodes_of es) \<le> max_nodes"
      "list_all (\<lambda>e. list_all value_ok (snd e)) (kept_of es)"
    using assms by (auto simp: boot_config_try_from_iff)
  have sub: "set (kept_of es) \<subseteq> set es" by (auto simp: kept_of_def)
  have "card (nodes_of (kept_of es)) \<le> card (nodes_of es)" using nodes_of_mono [OF sub] by (simp add: card_mono)
  moreover have "value_count (kept_of es) \<le> value_count es" by (simp add: kept_of_def total_filter)
  ultimately have "config_ok (kept_of es)"
    using ok sub by (auto simp: config_ok_def list_all_iff)
  moreover have "parents_of (kept_of es) \<subseteq> parents_of es" using sub by (auto simp: parents_of_def)
  then have "kept_of (kept_of es) = kept_of es"
    by (auto simp: kept_of_def [of "kept_of es"] filter_id_conv) (auto simp: kept_of_def)
  ultimately show ?thesis using c by simp
qed

lemma config_ok_try_from:
  assumes "config_ok es" "kept_of es = es"
  shows "boot_config_try_from es = Inr \<lparr>bc_values = es, bc_text = concat (map entry_text es)\<rparr>"
  using assms by (auto simp: boot_config_try_from_iff config_ok_def list_all_iff)

section \<open>Reading values back\<close>

lemma skip_spaces_simps [simp]:
  "skip_spaces b [] = []"
  "skip_spaces b (CHR '' '' # s) = skip_spaces b s"
  "skip_spaces True (CHR 0x0A # s) = skip_spaces True s"
  by (simp_all add: skip_spaces_def space_def)

lemma skip_spaces_stop: "\<not> space c \<Longrightarrow> skip_spaces b (c # s) = c # s"
  by (simp add: skip_spaces_def)

lemma takeWhile_until: "\<forall>x\<in>set xs. P x \<Longrightarrow> \<not> P y \<Longrightarrow> takeWhile P (xs @ y # ys) = xs"
  by (simp add: takeWhile_append2)

lemma dropWhile_until: "\<forall>x\<in>set xs. P x \<Longrightarrow> \<not> P y \<Longrightarrow> dropWhile P (xs @ y # ys) = y # ys"
  by (simp add: dropWhile_append2)

lemma trim_end_spaces_id: "v = [] \<or> \<not> space (last v) \<Longrightarrow> trim_end_spaces v = v"
  by (cases v rule: rev_cases) (auto simp: trim_end_spaces_def)

lemma value_okD:
  assumes "value_ok v"
  shows "check_value v = Inr ()" "CHR 0x22 \<in> set v \<Longrightarrow> CHR 0x27 \<in> set v \<Longrightarrow>
    v \<noteq> [] \<and> (\<forall>c\<in>set v. \<not> delimits c) \<and> \<not> space (hd v) \<and> \<not> is_quote (hd v) \<and> \<not> space (last v)"
  using assms
  by (auto simp: value_ok_def isOk_iff encode_value_def bindE_Inr_iff Let_def list_ex_iff split: if_splits)

lemma delimits_space: "delimits d \<Longrightarrow> d \<noteq> CHR 0x0A \<Longrightarrow> \<not> space d"
  by (auto simp: delimits_def space_def)

text \<open>The first character of an encoded value starts it.\<close>

lemma value_text_first:
  assumes "value_ok v"
  shows "\<exists>c s. value_text v = c # s \<and> \<not> space c \<and> c \<noteq> CHR ''#''"
proof (cases "CHR 0x22 \<in> set v \<and> CHR 0x27 \<in> set v")
  case True
  with value_okD(2) [OF assms] obtain c s where "v = c # s" "\<not> space c" "\<not> delimits c"
    by (cases v) auto
  with True show ?thesis by (auto simp: value_text_def delimits_def)
next
  case False
  then show ?thesis by (auto simp: value_text_def space_def)
qed

lemma parse_value_text:
  assumes v: "value_ok v" and d: "delimits d" "d \<noteq> CHR 0x0A"
  shows "parse_value (value_text v @ d # r) = Inr (v, d # r)"
proof (cases "CHR 0x22 \<in> set v \<and> CHR 0x27 \<in> set v")
  case True
  note ok = value_okD(2) [OF v conjunct1 [OF True] conjunct2 [OF True]]
  from ok obtain c s where cs: "v = c # s" by (cases v) auto
  have t: "value_text v = v" using True by (simp add: value_text_def)
  have "skip_spaces False (v @ d # r) = v @ d # r" using cs ok by (simp add: skip_spaces_stop)
  moreover have "parse_bare (v @ d # r) = (v, d # r)"
    using ok d by (simp add: parse_bare_def takeWhile_until dropWhile_until trim_end_spaces_id)
  ultimately show ?thesis using ok value_okD(1) [OF v] unfolding t by (simp add: parse_value_def cs)
next
  case False
  then obtain q where q: "is_quote q" "q \<notin> set v" and t: "value_text v = q # v @ [q]"
    unfolding value_text_def is_quote_def by (metis append_Cons append_Nil)
  have "\<not> space q" using q(1) by (auto simp: is_quote_def space_def)
  then have "skip_spaces False (q # v @ q # d # r) = q # v @ q # d # r" by (rule skip_spaces_stop)
  moreover have "parse_quoted q (v @ q # d # r) = Inr (v, d # r)"
  proof -
    have "\<forall>c\<in>set v. c \<noteq> q" using q(2) by blast
    then have "takeWhile (\<lambda>c. c \<noteq> q) (v @ q # d # r) = v" "dropWhile (\<lambda>c. c \<noteq> q) (v @ q # d # r) = q # d # r"
      by (simp_all add: takeWhile_until dropWhile_until)
    then show ?thesis using d delimits_space [OF d] by (simp add: parse_quoted_def skip_spaces_stop)
  qed
  ultimately show ?thesis using q value_okD(1) [OF v] by (simp add: parse_value_def t)
qed

lemma skip_lines_value:
  assumes "value_ok v"
  shows "skip_lines (CHR '' '' # value_text v @ r) = value_text v @ r"
proof -
  obtain c s where "value_text v = c # s" "\<not> space c" "c \<noteq> CHR ''#''"
    using value_text_first [OF assms] by blast
  then show ?thesis by (simp add: skip_lines.simps [of "CHR '' '' # _"] skip_spaces_stop Let_def)
qed

lemma parse_more_text:
  assumes "list_all value_ok ws" "length vs + length ws \<le> max_nodes"
  shows "parse_more vs (concat (map (\<lambda>w. '', '' @ value_text w) ws) @ CHR '';'' # r) =
    Inr (vs @ ws, CHR '';'' # r)"
  using assms
proof (induction ws arbitrary: vs)
  case Nil
  then show ?case by (simp add: parse_more.simps)
next
  case (Cons w ws)
  let ?r = "concat (map (\<lambda>w. '', '' @ value_text w) ws) @ CHR '';'' # r"
  have "\<exists>d r'. ?r = d # r' \<and> delimits d \<and> d \<noteq> CHR 0x0A"
    by (cases ws) (auto simp: delimits_def)
  then obtain d r' where d: "?r = d # r'" "delimits d" "d \<noteq> CHR 0x0A" by blast
  have w: "value_ok w" using Cons.prems by simp
  have "parse_value (skip_lines (CHR '' '' # value_text w @ ?r)) = Inr (w, ?r)"
    unfolding skip_lines_value [OF w] d(1) by (rule parse_value_text [OF w d(2,3)])
  moreover have "parse_more (vs @ [w]) ?r = Inr ((vs @ [w]) @ ws, CHR '';'' # r)"
    using Cons.prems by (intro Cons.IH) auto
  ultimately show ?case using Cons.prems
    by (simp add: parse_more.simps [of vs "CHR '','' # _"])
qed

lemma parse_array_text:
  assumes "list_all value_ok vs" "vs \<noteq> []" "length vs \<le> max_nodes"
  shows "parse_array (CHR '' '' # items_text vs @ CHR '';'' # r) = Inr (vs, CHR '';'' # r)"
proof -
  obtain v ws where vs: "vs = v # ws" using assms(2) by (cases vs) auto
  let ?r = "concat (map (\<lambda>w. '', '' @ value_text w) ws) @ CHR '';'' # r"
  have "\<exists>d r'. ?r = d # r' \<and> delimits d \<and> d \<noteq> CHR 0x0A"
    by (cases ws) (auto simp: delimits_def)
  then obtain d r' where d: "?r = d # r'" "delimits d" "d \<noteq> CHR 0x0A" by blast
  have v: "value_ok v" using assms vs by simp
  have "parse_value (CHR '' '' # value_text v @ ?r) = parse_value (value_text v @ ?r)"
    by (simp add: parse_value_def)
  also have "\<dots> = Inr (v, ?r)" unfolding d(1) by (rule parse_value_text [OF v d(2,3)])
  finally show ?thesis using parse_more_text [of ws "[v]" r] assms vs
    by (simp add: parse_array_def items_text_def)
qed

section \<open>Reading entries back\<close>

text \<open>The state of the parser after some entries.\<close>

definition parsed :: "config_map \<Rightarrow> string \<Rightarrow> parser" where
  "parsed xs r = \<lparr>ps_rest = r, ps_values = xs, ps_keys = nodes_of xs, ps_allocated = value_count xs\<rparr>"

lemma set_join_subset: "set (join_with c ps) \<subseteq> insert c (\<Union>p\<in>set ps. set p)"
  by (induction c ps rule: join_with.induct) auto

lemma key_valid_chars:
  assumes "key_valid k"
  shows "k \<noteq> [] \<and> list_all key_char k"
proof -
  have parts: "list_all key_part_ok (split_on CHR ''.'' k)" using assms by (simp add: key_valid_def)
  have "key_char c" if "c \<in> set k" for c
  proof -
    have "c \<in> set (join_with CHR ''.'' (split_on CHR ''.'' k))" using that by simp
    then have "c = CHR ''.'' \<or> (\<exists>p\<in>set (split_on CHR ''.'' k). c \<in> set p)" using set_join_subset by fastforce
    with parts show ?thesis by (auto simp: list_all_iff key_part_ok_def key_char_def)
  qed
  moreover have "k \<noteq> []" using parts by (auto simp: key_part_ok_def)
  ultimately show ?thesis by (simp add: list_all_iff)
qed

lemma key_char_not [simp]:
  "\<not> key_char CHR '' ''" "\<not> key_char CHR '';''" "\<not> key_char CHR 0x0A" "\<not> key_char CHR ''}''"
  "\<not> key_char CHR ''#''"
  by (simp_all add: key_char_def is_alphanumeric_def is_digit_def is_lower_def is_upper_def chr_code_def)

lemma key_char_not_space: "key_char c \<Longrightarrow> \<not> space c"
  by (auto simp: space_def key_char_def is_alphanumeric_def is_digit_def is_lower_def is_upper_def chr_code_def)

lemma parse_key_text:
  assumes k: "key_valid k" "\<forall>e\<in>set xs. fst e < k"
    and n: "card (nodes_of (xs @ [(k, vs)])) + value_count xs \<le> max_nodes"
    and r: "r \<noteq> []" "\<not> key_char (hd r)" "skip_spaces False r = op # r'"
  shows "parse_key [] (parsed xs (k @ r)) = Inr (k, op,
    \<lparr>ps_rest = op # r', ps_values = xs @ [(k, [])], ps_keys = nodes_of (xs @ [(k, vs)]),
     ps_allocated = value_count xs\<rparr>)"
proof -
  obtain c r1 where c: "r = c # r1" "\<not> key_char c" using r by (cases r) auto
  have kk: "k \<noteq> []" "\<forall>x\<in>set k. key_char x" using key_valid_chars [OF k(1)] by (auto simp: list_all_iff)
  have w: "takeWhile key_char (k @ c # r1) = k" "dropWhile key_char (k @ c # r1) = r"
    using kk c by (simp_all add: takeWhile_until dropWhile_until)
  have e: "nodes_of xs \<union> set (key_parents k) \<union> {k} = nodes_of (xs @ [(k, vs)])" by auto
  have kv: "config_check_key k = Inr ()" using k(1) by (simp add: config_check_key_eq)
  show ?thesis
    unfolding parse_key_def parsed_def Let_def parser.select_convs parser.simps c(1) w
    using kk kv n r(3) [unfolded c(1)] bt_insert_last [OF k(2)] bt_get_last [OF k(2)] e
    by (simp add: check_nodes_def del: nodes_simps)
qed

text \<open>One entry is read in one or two turns of the loop.\<close>

lemma parse_entry_text:
  assumes k: "key_valid k" "list_all value_ok vs" "\<forall>e\<in>set xs. fst e < k"
    and n: "card (nodes_of (xs @ [(k, vs)])) + value_count (xs @ [(k, vs)]) \<le> max_nodes"
    and pad: "pad \<in> {[], [CHR 0x0A]}"
  shows "parse_scope (Suc (Suc m)) [] (parsed xs (pad @ entry_text (k, vs) @ r)) =
    parse_scope (if vs = [] then Suc m else m) [] (parsed (xs @ [(k, vs)]) (CHR 0x0A # r))"
proof -
  obtain c k' where ck: "k = c # k'" "key_char c"
    using key_valid_chars [OF k(1)] by (cases k) auto
  have start: "skip_spaces True (pad @ k @ s) = k @ s" for s
    using pad ck key_char_not_space [OF ck(2)] by (auto simp: skip_spaces_stop)
  have hd: "hd (k @ s) \<noteq> CHR '';''" "hd (k @ s) \<noteq> CHR ''#''" "k @ s \<noteq> []" for s
    using ck by (auto simp: key_char_def is_alphanumeric_def is_digit_def is_lower_def is_upper_def chr_code_def)
  have n': "card (nodes_of (xs @ [(k, vs)])) + value_count xs \<le> max_nodes" using n by simp
  have turn: "parse_scope (Suc i) [] (parsed xs (pad @ k @ s)) =
      bindE (parse_key [] (parsed xs (k @ s))) (\<lambda>(key, op, p).
        bindE (if op = CHR ''{'' then parse_scope i key (p\<lparr>ps_rest := tl (ps_rest p)\<rparr>)
               else if is_assign op then parse_assign key op p else parse_delimiter op p) (parse_scope i []))"
    for i s
  proof -
    have "(parsed xs (pad @ k @ s))\<lparr>ps_rest := skip_spaces True (ps_rest (parsed xs (pad @ k @ s)))\<rparr> =
        parsed xs (k @ s)" "ps_rest (parsed xs (k @ s)) = k @ s"
      using start by (simp_all add: parsed_def)
    then show ?thesis using hd [of s] by (auto simp: Let_def)
  qed
  show ?thesis
  proof (cases "vs = []")
    case True
    have "parse_key [] (parsed xs (k @ '';'' @ [CHR 0x0A] @ r)) = Inr (k, CHR '';'',
        \<lparr>ps_rest = CHR '';'' # CHR 0x0A # r, ps_values = xs @ [(k, [])], ps_keys = nodes_of (xs @ [(k, vs)]),
         ps_allocated = value_count xs\<rparr>)"
      by (rule parse_key_text [OF k(1,3) n']) (auto simp: skip_spaces_stop space_def)
    then show ?thesis using turn [of "Suc m" "'';'' @ [CHR 0x0A] @ r"] True
      by (simp add: entry_text_def parse_delimiter_def is_assign_def parsed_def del: parse_scope.simps)
  next
    case False
    let ?t = "'' = '' @ items_text vs @ '';'' @ [CHR 0x0A] @ r"
    let ?p = "\<lparr>ps_rest = CHR ''='' # CHR '' '' # items_text vs @ CHR '';'' # CHR 0x0A # r,
        ps_values = xs @ [(k, [])], ps_keys = nodes_of (xs @ [(k, vs)]), ps_allocated = value_count xs\<rparr>"
    have key: "parse_key [] (parsed xs (k @ ?t)) = Inr (k, CHR ''='', ?p)"
      by (rule parse_key_text [OF k(1,3) n']) (auto simp: skip_spaces_stop space_def)
    have "length vs \<le> max_nodes" using n by simp
    then have arr: "parse_array (CHR '' '' # items_text vs @ CHR '';'' # CHR 0x0A # r) =
        Inr (vs, CHR '';'' # CHR 0x0A # r)"
      using k(2) False by (intro parse_array_text)
    have "map_of (xs @ [(k, [])]) k = Some []" using bt_get_last [OF k(3)] by (simp add: map_add_def)
    then have assign: "parse_assign k CHR ''='' ?p = Inr (parsed (xs @ [(k, vs)]) (CHR '';'' # CHR 0x0A # r))"
      using arr n bt_insert_replace [OF k(3)]
      by (simp add: parse_assign_def Let_def check_nodes_def parsed_def ac_simps)
    have "parse_scope (Suc m) [] (parsed (xs @ [(k, vs)]) (CHR '';'' # CHR 0x0A # r)) =
        parse_scope m [] (parsed (xs @ [(k, vs)]) (CHR 0x0A # r))"
      by (simp add: parsed_def skip_spaces_stop space_def)
    then show ?thesis using turn [of "Suc m" ?t] key assign False
      by (simp add: entry_text_def is_assign_def del: parse_scope.simps)
  qed
qed

lemma parse_entries_text:
  assumes "list_all (\<lambda>e. key_valid (fst e) \<and> list_all value_ok (snd e)) es"
    and "sorted_wrt (<) (map fst (xs @ es))"
    and "value_count (xs @ es) + card (nodes_of (xs @ es)) \<le> max_nodes"
    and "2 * length es < n" "pad \<in> {[], [CHR 0x0A]}"
  shows "parse_scope n [] (parsed xs (pad @ concat (map entry_text es))) = Inr (parsed (xs @ es) [])"
  using assms
proof (induction es arbitrary: xs n pad)
  case Nil
  then obtain m where "n = Suc m" by (cases n) auto
  with Nil(5) show ?case by (auto simp: parsed_def)
next
  case (Cons e es)
  obtain k vs where e: "e = (k, vs)" by (cases e)
  from Cons.prems(4) obtain m where n: "n = Suc (Suc m)" "2 * length es < m"
    by (cases n; cases "n - 1") auto
  have "nodes_of (xs @ [(k, vs)]) \<subseteq> nodes_of (xs @ e # es)" using e by auto
  then have "card (nodes_of (xs @ [(k, vs)])) \<le> card (nodes_of (xs @ e # es))"
    by (intro card_mono) auto
  then have lim: "card (nodes_of (xs @ [(k, vs)])) + value_count (xs @ [(k, vs)]) \<le> max_nodes"
    using Cons.prems(3) e by simp
  have lt: "\<forall>x\<in>set xs. fst x < k" using Cons.prems(2) e by (auto simp: sorted_wrt_append)
  have "parse_scope (Suc (Suc m)) [] (parsed xs (pad @ entry_text (k, vs) @ concat (map entry_text es))) =
      parse_scope (if vs = [] then Suc m else m) []
        (parsed (xs @ [(k, vs)]) (CHR 0x0A # concat (map entry_text es)))"
    using Cons.prems(1,5) e lt lim by (intro parse_entry_text) auto
  moreover have "parse_scope (if vs = [] then Suc m else m) []
      (parsed (xs @ [(k, vs)]) ([CHR 0x0A] @ concat (map entry_text es))) = Inr (parsed ((xs @ [(k, vs)]) @ es) [])"
    using Cons.prems(1,2,3) e n(2) by (intro Cons.IH) auto
  ultimately show ?case by (simp add: e n(1))
qed

lemma entry_text_length: "key_valid (fst e) \<Longrightarrow> 2 < length (entry_text e)"
  using key_valid_chars [of "fst e"] by (cases e; cases "fst e") (auto simp: entry_text_def)

lemma entries_text_length:
  "list_all (\<lambda>e. key_valid (fst e) \<and> Q e) es \<Longrightarrow> 2 * length es \<le> length (concat (map entry_text es))"
proof (induction es)
  case (Cons e es)
  then show ?case using entry_text_length [of e] by auto
qed simp

lemma value_text_nul: "value_ok v \<Longrightarrow> CHR 0x00 \<notin> set (value_text v)"
  using value_okD(1) [of v]
  by (auto simp: check_value_def list_all_iff value_text_def is_graphic_def space_def chr_code_def split: if_splits)

lemma entry_text_nul:
  assumes "key_valid (fst e)" "list_all value_ok (snd e)"
  shows "CHR 0x00 \<notin> set (entry_text e)"
proof -
  obtain k vs where e: "e = (k, vs)" by (cases e)
  have "CHR 0x00 \<notin> set k"
    using key_valid_chars [of k] assms e
    by (auto simp: list_all_iff key_char_def is_alphanumeric_def is_digit_def is_lower_def is_upper_def chr_code_def)
  moreover have "CHR 0x00 \<notin> set (items_text vs)"
    using assms e value_text_nul by (cases vs) (auto simp: items_text_def list_all_iff)
  ultimately show ?thesis by (simp add: e entry_text_def)
qed

lemma config_parse_text:
  assumes "config_ok es" "bt_wf es"
  shows "config_parse (concat (map entry_text es)) = Inr es"
proof -
  let ?t = "concat (map entry_text es)"
  have ok: "list_all (\<lambda>e. key_valid (fst e) \<and> list_all value_ok (snd e)) es"
    "value_count es + card (nodes_of es) \<le> max_nodes"
    using assms(1) by (auto simp: config_ok_def)
  have "2 * length es < Suc (length ?t)"
    using entries_text_length [OF ok(1)] by simp
  then have "parse_scope (Suc (length ?t)) [] (parsed [] ([] @ ?t)) = Inr (parsed ([] @ es) [])"
    using ok assms(2) by (intro parse_entries_text) (auto simp: bt_wf_def bt_keys_def)
  moreover have "parser_new ?t = parsed [] ?t" by (simp add: parser_new_def parsed_def)
  moreover have "CHR 0x00 \<notin> set ?t" using ok(1) entry_text_nul by (fastforce simp: list_all_iff)
  moreover have "?t = []" if "es = []" using that by simp
  moreover have "ps_values (parsed es []) = es" by (simp add: parsed_def)
  ultimately show ?thesis by (auto simp: config_parse_def simp del: parse_scope.simps)
qed

text \<open>
  A boot configuration survives its canonical text: parsing the text of a configuration
  made from any map of keys to values gives back the same values and the same text.
\<close>

lemma boot_config_reads_back:
  assumes "bt_wf values" "boot_config_try_from values = Inr c"
  shows "boot_config_from_str (bc_text c) = Inr c"
proof -
  from kept_of_ok [OF assms(2)] have c: "config_ok (bc_values c)" "kept_of (bc_values c) = bc_values c"
    "bc_text c = concat (map entry_text (bc_values c))" by auto
  have "bc_values c = kept_of values" using assms(2) by (auto simp: boot_config_try_from_iff)
  then have "bt_wf (bc_values c)" using assms(1) by (simp add: kept_of_def bt_wf_filter)
  with c have "config_parse (bc_text c) = Inr (bc_values c)" by (simp add: config_parse_text)
  then show ?thesis
    using config_ok_try_from [OF c(1,2)] c(3) by (simp add: boot_config_from_str_def)
qed

section \<open>Parsed configurations\<close>

lemma parse_key_wf: "parse_key prefix p = Inr (k, op, p') \<Longrightarrow> bt_wf (ps_values p) \<Longrightarrow> bt_wf (ps_values p')"
  by (auto simp: parse_key_def Let_def bindE_Inr_iff split: if_splits option.splits)

lemma parse_assign_wf: "parse_assign k op p = Inr p' \<Longrightarrow> bt_wf (ps_values p) \<Longrightarrow> bt_wf (ps_values p')"
  by (auto simp: parse_assign_def Let_def bindE_Inr_iff split: if_splits)

lemma parse_delimiter_wf: "parse_delimiter op p = Inr p' \<Longrightarrow> ps_values p' = ps_values p"
  by (auto simp: parse_delimiter_def split: if_splits)

lemma parse_scope_wf: "parse_scope n prefix p = Inr p' \<Longrightarrow> bt_wf (ps_values p) \<Longrightarrow> bt_wf (ps_values p')"
proof (induction n prefix p arbitrary: p' rule: parse_scope.induct)
  case (2 n prefix p)
  let ?r = "skip_spaces True (ps_rest p)"
  let ?p = "p\<lparr>ps_rest := ?r\<rparr>"
  have r: "?r = ps_rest ?p" by simp
  consider "?r = []" | "?r \<noteq> []" "hd ?r = CHR '';''" | "?r \<noteq> []" "hd ?r \<noteq> CHR '';''" "hd ?r = CHR ''#''"
    | "?r \<noteq> []" "hd ?r = CHR ''}''" "prefix \<noteq> []"
    | "?r \<noteq> []" "hd ?r \<noteq> CHR '';''" "hd ?r \<noteq> CHR ''#''" "\<not> (hd ?r = CHR ''}'' \<and> prefix \<noteq> [])" by blast
  then show ?case
  proof cases
    case 1
    with 2(5,6) show ?thesis by (auto split: if_splits)
  next
    case c: 2
    from 2(1) [of ?p ?r, OF refl r c] 2(5,6) c show ?thesis by simp
  next
    case c: 3
    from 2(2) [of ?p ?r, OF refl r c] 2(5,6) c show ?thesis by simp
  next
    case 4
    with 2(5,6) show ?thesis by auto
  next
    case c: 5
    with 2(5) obtain key op p1 p2 where k: "parse_key prefix ?p = Inr (key, op, p1)"
      and b: "(if op = CHR ''{'' then parse_scope n key (p1\<lparr>ps_rest := tl (ps_rest p1)\<rparr>)
               else if is_assign op then parse_assign key op p1 else parse_delimiter op p1) = Inr p2"
      and s: "parse_scope n prefix p2 = Inr p'"
      by (auto simp: bindE_Inr_iff Let_def)
    have "bt_wf (ps_values p1)" using parse_key_wf [OF k] 2(6) by simp
    then have "bt_wf (ps_values p2)"
      using b 2(3) [of ?p ?r op key p1, OF refl r c]
        parse_assign_wf [of key op p1 p2] parse_delimiter_wf [of op p1 p2]
      by (fastforce split: if_splits)
    then show ?thesis using 2(4) [of ?p ?r p2, OF refl r c] s by simp
  qed
qed simp

lemma config_parse_wf: "config_parse text = Inr es \<Longrightarrow> bt_wf es"
  by (auto simp: config_parse_def bindE_Inr_iff parser_new_def dest!: parse_scope_wf split: if_splits
      simp del: parse_scope.simps)

lemma boot_config_from_str_wf: "boot_config_from_str text = Inr c \<Longrightarrow> bt_wf (bc_values c)"
  by (auto simp: boot_config_from_str_def bindE_Inr_iff boot_config_try_from_iff kept_of_def bt_wf_filter
      dest!: config_parse_wf)

definition boot_config_valid :: "boot_config \<Rightarrow> bool" where
  "boot_config_valid c \<longleftrightarrow> (\<exists>es. bt_wf es \<and> boot_config_try_from es = Inr c)"

interpretation boot_text: sound_codec boot_config_valid bc_text boot_config_from_str
proof
  fix c assume "boot_config_valid c"
  then show "boot_config_from_str (bc_text c) = Inr c"
    unfolding boot_config_valid_def using boot_config_reads_back by blast
next
  fix t c assume "boot_config_from_str t = Inr c"
  then show "boot_config_valid c"
    unfolding boot_config_valid_def boot_config_from_str_def bindE_Inr_iff
    using config_parse_wf by blast
qed

text \<open>
  C32: A boot configuration made from any map of keys to values survives its text: the parser
  reads the canonical text back to the same values and the same text.
\<close>

theorem boot_config_roundtrip:
  assumes "bt_wf values" "boot_config_try_from values = Inr c"
  shows "boot_config_from_str (bc_text c) = Inr c"
  using assms by (intro boot_text.dec_enc) (auto simp: boot_config_valid_def)

definition sample_config :: config_map where
  "sample_config = [(''bare'', []), (''corium'', []), (''corium.root'', [[]]),
     (''kernel'', [''a'' @ [CHR 0x22, CHR 0x27] @ ''b'', ''with # ; , }'']), (''kernel.console'', [''x'' @ [CHR 0x22]])]"

theorem boot_config_roundtrip_witness:
  "\<exists>c. boot_config_try_from sample_config = Inr c \<and> length (bc_values c) = 4 \<and>
     boot_config_from_str (bc_text c) = Inr c"
proof -
  have "isOk (boot_config_try_from sample_config)" by code_simp
  then obtain c where c: "boot_config_try_from sample_config = Inr c" by (auto simp: isOk_iff)
  have "(case boot_config_try_from sample_config of Inr c \<Rightarrow> length (bc_values c) = 4 | Inl _ \<Rightarrow> False)"
    by code_simp
  moreover have "bt_wf sample_config" by code_simp
  ultimately show ?thesis using c boot_config_roundtrip [of sample_config c] by auto
qed

end
