(* ===== verification/Pipeline_Boot.thy ===== *)
theory Pipeline_Boot
  imports Boot_Config_Roundtrip
begin

text \<open>
  The boot configuration of an image as it is built:
  \<open>pipeline/boot_config.rs\<close>.  The configuration is kept as compressed bytes.  The
  Zstandard codec is another crate: its two directions are the record \<open>zstd\<close>, and
  what the code relies on is \<open>zstd_ok\<close>: what it compresses, it decodes, with
  nothing left over, and a frame is never empty.
\<close>

record zstd =
  zs_compress :: "string \<Rightarrow> byte list"
  zs_decode :: "byte list \<Rightarrow> string + (string \<times> byte list)"

definition zstd_ok :: "zstd \<Rightarrow> bool" where
  "zstd_ok Z \<longleftrightarrow> (\<forall>t. zs_decode Z (zs_compress Z t) = Inr (t, []) \<and> zs_compress Z t \<noteq> [])"

datatype boot_error = FrameError string | TrailingBytes | ConfigError boot_config_error

record image_boot =
  ib_bytes :: "byte list"
  ib_root :: "byte list option"

definition boot_decode :: "zstd \<Rightarrow> byte list \<Rightarrow> boot_error + boot_config" where
  "boot_decode Z bytes =
     (if bytes = [] then Inr boot_config_default
      else bindE (mapErr FrameError (zs_decode Z bytes)) (\<lambda>(text, rest).
        if rest \<noteq> [] then Inl TrailingBytes
        else mapErr ConfigError (boot_config_from_str text)))"

definition boot_encode :: "zstd \<Rightarrow> boot_config \<Rightarrow> byte list" where
  "boot_encode Z c = (if bc_values c = [] then [] else zs_compress Z (bc_text c))"

definition boot_inherited :: "zstd \<Rightarrow> byte list \<Rightarrow> byte list option \<Rightarrow> boot_error + image_boot" where
  "boot_inherited Z bytes root =
     bindE (boot_decode Z bytes) (\<lambda>parsed.
       Inr \<lparr>ib_bytes = (if bc_values parsed = [] then [] else bytes), ib_root = root\<rparr>)"

fun config_items :: "config_value \<Rightarrow> string list" where
  "config_items (CString v) = [v]"
| "config_items (CList v) = v"

definition overlay_one :: "config_map \<Rightarrow> key \<times> config_value option \<Rightarrow> config_map" where
  "overlay_one values entry =
     (case entry of
        (k, None) \<Rightarrow> bt_delete (key_text k) values
      | (k, Some v) \<Rightarrow> bt_insert (key_text k) (config_items v) values)"

definition boot_overlay ::
    "zstd \<Rightarrow> image_boot option \<Rightarrow> (key \<times> config_value option) list \<Rightarrow> boot_error + image_boot" where
  "boot_overlay Z base overlay =
     bindE (case base of None \<Rightarrow> Inr boot_config_default | Some b \<Rightarrow> boot_decode Z (ib_bytes b)) (\<lambda>parsed.
       let values = foldl overlay_one (bc_values parsed) overlay in
       bindE (mapErr ConfigError (boot_config_try_from values)) (\<lambda>config.
         Inr \<lparr>ib_bytes = boot_encode Z config,
              ib_root = (case base of None \<Rightarrow> None | Some b \<Rightarrow> ib_root b)\<rparr>))"

definition boot_bind :: "hexlib \<Rightarrow> zstd \<Rightarrow> byte list \<Rightarrow> image_boot \<Rightarrow> boot_error + image_boot" where
  "boot_bind H Z root b =
     bindE (boot_decode Z (ib_bytes b)) (\<lambda>config.
       bindE (if bt_get (bc_values config) ''corium.root'' \<noteq> None
              then bindE (mapErr ConfigError (boot_config_try_from
                     (bt_insert ''corium.root'' [hex_encode H root] (bc_values config)))) (\<lambda>c.
                   Inr (boot_encode Z c))
              else Inr (ib_bytes b)) (\<lambda>bytes.
         Inr \<lparr>ib_bytes = bytes, ib_root = Some root\<rparr>))"

section \<open>Encoding and decoding\<close>

lemma boot_config_empty: "boot_config_valid c \<Longrightarrow> bc_values c = [] \<Longrightarrow> c = boot_config_default"
  by (auto simp: boot_config_valid_def boot_config_try_from_iff boot_config_default_def)

lemma boot_config_default_valid: "boot_config_valid boot_config_default"
  unfolding boot_config_valid_def
  by (rule exI [of _ "[]"]) (simp add: boot_config_default_def boot_config_try_from_iff kept_of_def max_nodes_def)

lemma boot_decode_valid: "boot_decode Z b = Inr c \<Longrightarrow> boot_config_valid c"
  using boot_config_default_valid
  by (auto simp: boot_decode_def bindE_Inr_iff split: if_splits intro: boot_text.dec_valid)

text \<open>The stored bytes denote the configuration, whatever compressor wrote them.\<close>

locale boot_store =
  fixes Z :: zstd
  assumes zstd: "zstd_ok Z"
begin

lemma decode_encode: "boot_config_valid c \<Longrightarrow> boot_decode Z (boot_encode Z c) = Inr c"
  using zstd boot_config_empty [of c] boot_text.dec_enc [of c]
  by (auto simp: boot_decode_def boot_encode_def zstd_ok_def)

end

sublocale boot_store \<subseteq> stored: sound_codec boot_config_valid "boot_encode Z" "boot_decode Z"
  by unfold_locales (auto intro: decode_encode boot_decode_valid)

text \<open>An instance of the codec: every byte of the text after a marker byte.\<close>

definition char_byte :: "char \<Rightarrow> byte" where "char_byte c = of_nat (of_char c :: nat)"

definition byte_char :: "byte \<Rightarrow> char" where "byte_char b = char_of (unat b)"

definition zstd_ref :: zstd where
  "zstd_ref = \<lparr>zs_compress = (\<lambda>t. 1 # map char_byte t),
     zs_decode = (\<lambda>b. if b \<noteq> [] \<and> hd b = 1 then Inr (map byte_char (tl b), []) else Inl ''bad frame'')\<rparr>"

lemma byte_char_byte [simp]: "byte_char (char_byte c) = c"
proof -
  have "(of_char c :: nat) < 256" using of_char_mod_256 [of c, where 'a = nat] by (metis mod_less_divisor zero_less_numeral)
  then have "unat (of_nat (of_char c) :: byte) = of_char c" by (simp add: unat_of_nat)
  then show ?thesis by (simp add: byte_char_def char_byte_def)
qed

lemma zstd_ref_ok: "zstd_ok zstd_ref"
  by (simp add: zstd_ok_def zstd_ref_def comp_def)

interpretation ref_store: boot_store zstd_ref
  by unfold_locales (rule zstd_ref_ok)

section \<open>Overlays\<close>

text \<open>What an overlay says of a key.\<close>

definition overlaid :: "config_map \<Rightarrow> (key \<times> config_value option) list \<Rightarrow> string \<Rightarrow> string list option" where
  "overlaid base ov k = (case map_of (map (\<lambda>(k, v). (key_text k, v)) ov) k of
     None \<Rightarrow> bt_get base k | Some v \<Rightarrow> map_option config_items v)"

lemma overlay_one_wf: "bt_wf m \<Longrightarrow> bt_wf (overlay_one m e)"
  by (auto simp: overlay_one_def bt_wf_delete split: prod.split option.split)

lemma overlay_wf: "bt_wf m \<Longrightarrow> bt_wf (foldl overlay_one m ov)"
  by (induction ov arbitrary: m) (auto simp: overlay_one_wf)

lemma overlay_get:
  assumes "bt_wf m" "distinct (map (key_text \<circ> fst) ov)"
  shows "bt_get (foldl overlay_one m ov) k = overlaid m ov k"
  using assms
proof (induction ov arbitrary: m)
  case (Cons e ov)
  obtain k1 v where e: "e = (k1, v)" by (cases e)
  have one: "bt_get (overlay_one m e) k = (if k = key_text k1 then map_option config_items v else bt_get m k)"
    using Cons.prems(1) by (auto simp: e overlay_one_def bt_get_delete split: option.split)
  have none: "map_of (map (\<lambda>(k, v). (key_text k, v)) ov) (key_text k1) = None"
    using Cons.prems(2) e by (force simp: map_of_eq_None_iff split_beta)
  have "bt_get (foldl overlay_one (overlay_one m e) ov) k = overlaid (overlay_one m e) ov k"
    using Cons.prems by (intro Cons.IH overlay_one_wf) auto
  then show ?case using one none by (auto simp: overlaid_def e split: option.split)
qed (simp add: overlaid_def)

lemma bt_get_kept:
  assumes "bt_wf m"
  shows "bt_get (kept_of m) k = (if bt_get m k = Some [] \<and> k \<in> parents_of m then None else bt_get m k)"
proof -
  have "bt_get (kept_of m) k = Some v \<longleftrightarrow> bt_get m k = Some v \<and> (v \<noteq> [] \<or> k \<notin> parents_of m)" for v
    using bt_get_iff [OF bt_wf_filter [OF assms], of _ k v] bt_get_iff [OF assms, of k v]
    by (auto simp: kept_of_def)
  then have "bt_get (kept_of m) k = Some v \<longleftrightarrow>
      (if bt_get m k = Some [] \<and> k \<in> parents_of m then None else bt_get m k) = Some v" for v
    by auto
  then show ?thesis by (metis option.exhaust)
qed

lemma parents_of_get:
  assumes "bt_wf m"
  shows "k \<in> parents_of m \<longleftrightarrow> (\<exists>k'. bt_get m k' \<noteq> None \<and> k \<in> set (key_parents k'))"
  using bt_get_iff [OF assms] by (fastforce simp: parents_of_def)

text \<open>A map that is made canonical: bare keys with children are implicit.\<close>

definition canonical_get :: "(string \<Rightarrow> string list option) \<Rightarrow> string \<Rightarrow> string list option" where
  "canonical_get g k =
     (if g k = Some [] \<and> (\<exists>k'. g k' \<noteq> None \<and> k \<in> set (key_parents k')) then None else g k)"

lemma boot_made:
  assumes "bt_wf m" "boot_config_try_from m = Inr c"
  shows "boot_config_valid c" "bt_get (bc_values c) k = canonical_get (bt_get m) k"
proof -
  show "boot_config_valid c" using assms by (auto simp: boot_config_valid_def)
  have "bc_values c = kept_of m" using assms(2) by (simp add: boot_config_try_from_iff)
  then show "bt_get (bc_values c) k = canonical_get (bt_get m) k"
    using bt_get_kept [OF assms(1), of k] parents_of_get [OF assms(1), of k]
    by (simp add: canonical_get_def)
qed

lemma valid_wf: "boot_config_valid c \<Longrightarrow> bt_wf (bc_values c)"
  using boot_text.dec_enc [of c] boot_config_from_str_wf by blast

context boot_store
begin

lemma overlay_effect:
  assumes "(case base of None \<Rightarrow> Inr boot_config_default | Some b \<Rightarrow> boot_decode Z (ib_bytes b)) = Inr c0"
    and "distinct (map (key_text \<circ> fst) ov)" "boot_overlay Z base ov = Inr b"
  shows "\<exists>c. boot_decode Z (ib_bytes b) = Inr c \<and>
    (\<forall>k. bt_get (bc_values c) k = canonical_get (overlaid (bc_values c0) ov) k)"
proof -
  have wf: "bt_wf (bc_values c0)"
    using assms(1) boot_decode_valid [THEN valid_wf] valid_wf [OF boot_config_default_valid]
    by (auto split: option.splits)
  from assms(1,3) obtain c where c: "boot_config_try_from (foldl overlay_one (bc_values c0) ov) = Inr c"
    "ib_bytes b = boot_encode Z c"
    by (auto simp: boot_overlay_def bindE_Inr_iff Let_def)
  have "bt_get (foldl overlay_one (bc_values c0) ov) = overlaid (bc_values c0) ov"
    using overlay_get [OF wf assms(2)] by blast
  with boot_made [OF overlay_wf [OF wf] c(1)] decode_encode [of c] c(2) show ?thesis by auto
qed

lemma bind_effect:
  assumes "boot_decode Z (ib_bytes b) = Inr c" "boot_bind H Z root b = Inr b'"
  shows "ib_root b' = Some root \<and> (\<exists>c'. boot_decode Z (ib_bytes b') = Inr c' \<and>
    (\<forall>k. bt_get (bc_values c') k =
       (if k = ''corium.root'' \<and> bt_get (bc_values c) k \<noteq> None then Some [hex_encode H root]
        else bt_get (bc_values c) k)))"
proof (cases "bt_get (bc_values c) ''corium.root'' = None")
  case True
  with assms show ?thesis by (auto simp: boot_bind_def)
next
  case False
  let ?m = "bt_insert ''corium.root'' [hex_encode H root] (bc_values c)"
  have v: "boot_config_valid c" using assms(1) by (rule boot_decode_valid)
  have wf: "bt_wf (bc_values c)" using v by (rule valid_wf)
  from assms False obtain c' where c': "boot_config_try_from ?m = Inr c'" "ib_bytes b' = boot_encode Z c'"
    "ib_root b' = Some root" by (auto simp: boot_bind_def bindE_Inr_iff)
  from v obtain m where "bt_wf m" "boot_config_try_from m = Inr c" by (auto simp: boot_config_valid_def)
  then have "kept_of (bc_values c) = bc_values c" using kept_of_ok by blast
  then have keep: "\<not> (bt_get (bc_values c) k = Some [] \<and> k \<in> parents_of (bc_values c))" for k
    using bt_get_kept [OF wf, of k] by auto
  have parents: "k \<in> parents_of ?m \<longleftrightarrow> k \<in> parents_of (bc_values c)" for k
  proof -
    have "bt_get ?m k' \<noteq> None \<longleftrightarrow> bt_get (bc_values c) k' \<noteq> None" for k' using False by simp
    then show ?thesis unfolding parents_of_get [OF wf] parents_of_get [OF bt_wf_insert [OF wf]] by presburger
  qed
  have get: "canonical_get (bt_get ?m) k = bt_get ?m k" for k
  proof (cases "k = ''corium.root''")
    case True
    then show ?thesis by (simp add: canonical_get_def)
  next
    case False
    then have "\<not> (bt_get ?m k = Some [] \<and> k \<in> parents_of ?m)" using keep [of k] parents [of k] by simp
    then show ?thesis unfolding canonical_get_def parents_of_get [OF bt_wf_insert [OF wf], of k] by meson
  qed
  have dec: "boot_decode Z (ib_bytes b') = Inr c'"
    using decode_encode [OF boot_made(1) [OF bt_wf_insert [OF wf] c'(1)]] c'(2) by simp
  have "bt_get (bc_values c') k = bt_get ?m k" for k
    using boot_made(2) [OF bt_wf_insert [OF wf] c'(1), of k] get by simp
  with dec c'(3) False show ?thesis by simp
qed

end

text \<open>
  An overlay changes exactly the keys it names: decoding the bytes of the result gives,
  for every key, the value that the overlay sets, nothing where it deletes, and the value of
  the base elsewhere, where a bare key that has children is implicit.  This holds for every
  compressor whose output decodes to its input.
\<close>

theorem boot_overlay_effect:
  assumes "zstd_ok Z"
    and "(case base of None \<Rightarrow> Inr boot_config_default | Some b \<Rightarrow> boot_decode Z (ib_bytes b)) = Inr c0"
    and "distinct (map (key_text \<circ> fst) ov)" "boot_overlay Z base ov = Inr b"
  shows "\<exists>c. boot_decode Z (ib_bytes b) = Inr c \<and>
    (\<forall>k. bt_get (bc_values c) k = canonical_get (overlaid (bc_values c0) ov) k)"
  using boot_store.overlay_effect [OF boot_store.intro [OF assms(1)] assms(2-4)] .

text \<open>
  Binding a root writes its digest under \<open>corium.root\<close> when the configuration has that key,
  leaves every other key as it was, and records the root.
\<close>

theorem boot_bind_effect:
  assumes "zstd_ok Z" "boot_decode Z (ib_bytes b) = Inr c" "boot_bind H Z root b = Inr b'"
  shows "ib_root b' = Some root \<and> (\<exists>c'. boot_decode Z (ib_bytes b') = Inr c' \<and>
    (\<forall>k. bt_get (bc_values c') k =
       (if k = ''corium.root'' \<and> bt_get (bc_values c) k \<noteq> None then Some [hex_encode H root]
        else bt_get (bc_values c) k)))"
  using boot_store.bind_effect [OF boot_store.intro [OF assms(1)] assms(2,3)] .

definition sample_overlay :: "(key \<times> config_value option) list" where
  "sample_overlay = [(Key ''corium.root'', Some (CString [])), (Key ''kernel.quiet'', Some (CList []))]"

theorem boot_overlay_effect_witness:
  "\<exists>b c. boot_overlay zstd_ref None sample_overlay = Inr b \<and> boot_decode zstd_ref (ib_bytes b) = Inr c \<and>
     bt_get (bc_values c) ''corium.root'' = Some [[]]"
proof -
  have "isOk (boot_overlay zstd_ref None sample_overlay)" by code_simp
  then obtain b where b: "boot_overlay zstd_ref None sample_overlay = Inr b" by (auto simp: isOk_iff)
  have "distinct (map (key_text \<circ> fst) sample_overlay)" by code_simp
  from boot_overlay_effect [OF zstd_ref_ok _ this b, of boot_config_default] obtain c where
    "boot_decode zstd_ref (ib_bytes b) = Inr c"
    "\<forall>k. bt_get (bc_values c) k = canonical_get (overlaid (bc_values boot_config_default) sample_overlay) k" by auto
  with b show ?thesis
    by (auto simp: canonical_get_def overlaid_def sample_overlay_def boot_config_default_def)
qed

theorem boot_bind_effect_witness:
  "\<exists>b b' c'. boot_overlay zstd_ref None sample_overlay = Inr b \<and>
     boot_bind hex_ref zstd_ref [17, 18] b = Inr b' \<and> boot_decode zstd_ref (ib_bytes b') = Inr c' \<and>
     bt_get (bc_values c') ''corium.root'' = Some [''1112'']"
proof -
  have "isOk (boot_overlay zstd_ref None sample_overlay)" by code_simp
  then obtain b where b: "boot_overlay zstd_ref None sample_overlay = Inr b" by (auto simp: isOk_iff)
  have "distinct (map (key_text \<circ> fst) sample_overlay)" by code_simp
  from ref_store.overlay_effect [OF _ this b, of boot_config_default] obtain c where
    c: "boot_decode zstd_ref (ib_bytes b) = Inr c"
    "\<forall>k. bt_get (bc_values c) k = canonical_get (overlaid (bc_values boot_config_default) sample_overlay) k" by auto
  have root: "bt_get (bc_values c) ''corium.root'' = Some [[]]"
    by (simp add: c(2) canonical_get_def overlaid_def sample_overlay_def)
  have "isOk (bindE (boot_overlay zstd_ref None sample_overlay) (boot_bind hex_ref zstd_ref [17, 18]))"
    by code_simp
  then obtain b' where b': "boot_bind hex_ref zstd_ref [17, 18] b = Inr b'" by (auto simp: b isOk_iff)
  have "hex_encode hex_ref [17, 18] = ''1112''" by code_simp
  with boot_bind_effect [OF zstd_ref_ok c(1) b'] root b b' show ?thesis by auto
qed

end
