(* ===== verification/Cache_Chain.thy ===== *)
theory Cache_Chain
  imports Cache_Resolve
begin

text \<open>
  The chain of layers of an image: \<open>cache/chain.rs\<close>.  Each layer is looked up among the
  prepared variants of its source, which are files beside the blob.  A prepared hash file
  starts with a header of another crate: its decoder is the parameter \<open>decode\<close>, its
  fields the record \<open>verity\<close>.  Directories and files are looked up by the number of
  files opened before and the path, as in the other reads of the cache.
\<close>

record verity =
  vt_sha256_normal :: bool
  vt_salt :: "byte list"
  vt_data_block :: nat
  vt_hash_block :: nat
  vt_data_size :: "io_error + nat"
  vt_total_size :: "io_error + nat"
  vt_tree_size :: "io_error + nat"
  vt_prefix_size :: nat

type_synonym verity_decoder = "byte list \<Rightarrow> io_error + verity"

text \<open>A file read at positions; \<open>h_at offset n\<close> is \<open>read_exact_at\<close> of \<open>n\<close> bytes.\<close>

record random_handle = handle +
  h_at :: "nat \<Rightarrow> nat \<Rightarrow> io_error + byte list"

record prepared =
  pp_directory :: "nat \<Rightarrow> string \<Rightarrow> io_error + (io_error + string) list"
  pp_file :: "nat \<Rightarrow> string \<Rightarrow> io_error + random_handle"

record scute_files =
  sf_data :: random_handle
  sf_hash :: random_handle

definition has_verity_extension :: "string \<Rightarrow> bool" where
  "has_verity_extension name \<longleftrightarrow> name \<noteq> ''.verity'' \<and> ends_with ''.verity'' name"

fun compressed_layer :: "layer \<Rightarrow> bool" where
  "compressed_layer (ScuteZstd _) = True"
| "compressed_layer _ = False"

text \<open>
  One directory entry.  The state is the number of files opened and the variant selected
  so far.  Its name, header, parent root, extents and root block are checked in the order
  of the code; a variant of another convention or of another root is passed over.
\<close>

type_synonym selection = "nat \<times> (scute_files \<times> byte list) option"

definition prepared_variant ::
    "sha256 \<Rightarrow> verity_decoder \<Rightarrow> prepared \<Rightarrow> layer \<Rightarrow> byte list \<Rightarrow> string \<Rightarrow> string \<Rightarrow> nat \<Rightarrow> string \<Rightarrow>
       cache_error + nat \<times> (scute_files \<times> byte list) option" where
  "prepared_variant sha decode store layer root source directory n name =
     bindE (regular_file (pp_file store) n (directory @ ''/'' @ name)) (\<lambda>hash.
     bindE (mapErr CacheIo (h_at hash 0 512)) (\<lambda>rec.
     bindE (mapErr CacheIo (decode rec)) (\<lambda>header.
       if \<not> vt_sha256_normal header then Inr (n + 1, None)
       else
         bindE (failIf (length (vt_salt header) < 32)
                  (CacheInvalid ''prepared scute salt has no parent root'')) (\<lambda>_.
         let parent = take 32 (vt_salt header) in
         bindE (mapErr CacheIo (vt_data_size header)) (\<lambda>extent.
         bindE (mapErr CacheIo (h_length hash)) (\<lambda>len.
         bindE (mapErr CacheIo (vt_total_size header)) (\<lambda>total_size.
         bindE (failIf (len \<noteq> total_size) (CacheInvalid ''prepared hash extent mismatch'')) (\<lambda>_.
         bindE (regular_file (pp_file store) (n + 1)
                  (if compressed_layer layer \<or> layer_size layer \<noteq> extent
                   then directory @ ''/'' @ show_dec extent @ ''.deflated'' else source)) (\<lambda>data.
         bindE (mapErr CacheIo (h_length data)) (\<lambda>data_len.
         bindE (failIf (data_len \<noteq> extent) (CacheInvalid ''prepared data extent mismatch'')) (\<lambda>_.
         bindE (mapErr CacheIo (vt_tree_size header)) (\<lambda>tree_size.
         bindE (mapErr CacheIo
                  (if tree_size = 0 then h_at data 0 (vt_data_block header)
                   else h_at hash (vt_prefix_size header) (vt_hash_block header))) (\<lambda>block.
           if sha (vt_salt header @ block) \<noteq> root then Inr (n + 2, None)
           else Inr (n + 2, Some (\<lparr>sf_data = data, sf_hash = hash\<rparr>, parent)))))))))))))))"

definition prepared_entry ::
    "sha256 \<Rightarrow> verity_decoder \<Rightarrow> prepared \<Rightarrow> layer \<Rightarrow> byte list \<Rightarrow> string \<Rightarrow> string \<Rightarrow>
       selection \<Rightarrow> io_error + string \<Rightarrow> cache_error + selection" where
  "prepared_entry sha decode store layer root source directory selection entry =
     (case selection of (n, selected) \<Rightarrow>
       bindE (mapErr CacheIo entry) (\<lambda>name.
         if \<not> has_verity_extension name then Inr (n, selected)
         else bindE (prepared_variant sha decode store layer root source directory n name) (\<lambda>(n', variant).
           case variant of
             None \<Rightarrow> Inr (n', selected)
           | Some v \<Rightarrow>
               bindE (failIf (selected \<noteq> None) (CacheInvalid ''ambiguous prepared scute variants'')) (\<lambda>_.
                 Inr (n', Some v)))))"

definition prepared_scute ::
    "hexlib \<Rightarrow> sha256 \<Rightarrow> verity_decoder \<Rightarrow> prepared \<Rightarrow> nat \<Rightarrow> layer \<Rightarrow> byte list \<Rightarrow>
       cache_error + nat \<times> scute_files \<times> byte list" where
  "prepared_scute H sha decode store n layer root =
     bindE (parse_digest H ''invalid scute digest'' (layer_digest layer)) (\<lambda>digest.
       let source = blob_path H digest; directory = source @ ''.prepared'' in
       bindE (mapErr CacheIo (pp_directory store n directory)) (\<lambda>entries.
       bindE (foldE (prepared_entry sha decode store layer root source directory) (n + 1, None) entries)
         (\<lambda>(n', selected).
           case selected of
             None \<Rightarrow> Inl (CacheInvalid ''prepared scute does not match the chain root'')
           | Some (files, parent) \<Rightarrow> Inr (n', files, parent))))"

record chain =
  ch_root :: "byte list"
  ch_scutes :: "scute_files list"

definition zero_root :: "byte list" where "zero_root = replicate 32 0"

text \<open>The state of the loop: files opened, the root that the next layer must have, layers found.\<close>

type_synonym chain_state = "nat \<times> byte list \<times> scute_files list"

definition chain_layer ::
    "hexlib \<Rightarrow> sha256 \<Rightarrow> verity_decoder \<Rightarrow> prepared \<Rightarrow> chain_state \<Rightarrow> layer \<Rightarrow> cache_error + chain_state" where
  "chain_layer H sha decode store state layer =
     (case state of (n, parent, scutes) \<Rightarrow>
       if \<not> layer_is_scute layer then Inr (n, parent, scutes)
       else
         bindE (failIf (parent = zero_root) (CacheInvalid ''scutes are not in base-to-tip order'')) (\<lambda>_.
         bindE (prepared_scute H sha decode store n layer parent) (\<lambda>(n', files, previous).
           Inr (n', previous, scutes @ [files]))))"

definition from_index ::
    "hexlib \<Rightarrow> sha256 \<Rightarrow> verity_decoder \<Rightarrow> prepared \<Rightarrow> resolved_image \<Rightarrow> cache_error + chain" where
  "from_index H sha decode store img =
     bindE (okOr (CacheInvalid ''indexed image has no carapace'') (ri_root img)) (\<lambda>root.
     bindE (foldE (chain_layer H sha decode store) (0, root, []) (rev (mf_layers (ri_manifest img))))
       (\<lambda>(n, parent, scutes).
     bindE (failIf (scutes = [] \<or> parent \<noteq> zero_root)
              (CacheInvalid ''manifest does not contain a complete chain'')) (\<lambda>_.
       Inr \<lparr>ch_root = root, ch_scutes = rev scutes\<rparr>)))"

section \<open>Every layer commits to the one below it\<close>

text \<open>
  \<open>commits sha decode layer files root parent\<close>: the header of the hash file has a salt
  that starts with \<open>parent\<close>, and the salt and the root block hash to \<open>root\<close>.
\<close>

definition commits :: "sha256 \<Rightarrow> verity_decoder \<Rightarrow> scute_files \<Rightarrow> byte list \<Rightarrow> byte list \<Rightarrow> bool" where
  "commits sha decode files root parent \<longleftrightarrow>
     (case h_at (sf_hash files) 0 512 of Inl _ \<Rightarrow> False | Inr rec \<Rightarrow>
       (case decode rec of Inl _ \<Rightarrow> False | Inr header \<Rightarrow>
         vt_sha256_normal header \<and> length parent = 32 \<and> parent = take 32 (vt_salt header) \<and>
         h_length (sf_data files) = vt_data_size header \<and>
         h_length (sf_hash files) = vt_total_size header \<and>
         (case (if vt_tree_size header = Inr 0 then h_at (sf_data files) 0 (vt_data_block header)
                else h_at (sf_hash files) (vt_prefix_size header) (vt_hash_block header)) of
            Inl _ \<Rightarrow> False | Inr block \<Rightarrow> sha (vt_salt header @ block) = root)))"

text \<open>A chain from the root of its tip down to the zero root, tip first.\<close>

fun linked :: "sha256 \<Rightarrow> verity_decoder \<Rightarrow> byte list \<Rightarrow> scute_files list \<Rightarrow> byte list \<Rightarrow> bool" where
  "linked sha decode root [] base \<longleftrightarrow> root = base"
| "linked sha decode root (files # rest) base \<longleftrightarrow> root \<noteq> zero_root \<and>
     (\<exists>parent. commits sha decode files root parent \<and> linked sha decode parent rest base)"

lemma if_Inr_iff: "(if c then Inr x else r) = Inr y \<longleftrightarrow> c \<and> x = y \<or> \<not> c \<and> r = Inr y"
  by simp

lemma prepared_variant_commits:
  assumes "prepared_variant sha decode store layer root source directory n name = Inr (n', Some (files, parent))"
  shows "commits sha decode files root parent"
proof -
  note unfolds = bindE_Inr_iff failIf_Inr_iff mapErr_Inr_iff' if_Inr_iff prod.inject
  from assms obtain hash rec header extent tree_size data block where
    h: "h_at hash 0 512 = Inr rec" "decode rec = Inr header" "vt_sha256_normal header"
      "32 \<le> length (vt_salt header)" "vt_data_size header = Inr extent" "h_length data = Inr extent"
      "vt_tree_size header = Inr tree_size" "vt_total_size header = h_length hash"
      "sha (vt_salt header @ block) = root" "files = \<lparr>sf_data = data, sf_hash = hash\<rparr>"
      "parent = take 32 (vt_salt header)"
    and b: "(if tree_size = 0 then h_at data 0 (vt_data_block header)
        else h_at hash (vt_prefix_size header) (vt_hash_block header)) = Inr block"
    unfolding prepared_variant_def Let_def unfolds by fastforce
  from h b show ?thesis by (cases "tree_size = 0") (simp_all add: commits_def)
qed

lemma prepared_fold_commits:
  "foldE (prepared_entry sha decode store layer root source directory) (n, selected) entries = Inr (n', Some (files, parent)) \<Longrightarrow>
     (\<And>f p. selected = Some (f, p) \<Longrightarrow> commits sha decode f root p) \<Longrightarrow> commits sha decode files root parent"
proof (induction entries arbitrary: n selected)
  case (Cons entry entries)
  from Cons.prems(1) obtain n1 selected1 where
    e: "prepared_entry sha decode store layer root source directory (n, selected) entry = Inr (n1, selected1)"
    and rest: "foldE (prepared_entry sha decode store layer root source directory) (n1, selected1) entries
      = Inr (n', Some (files, parent))"
    by (auto split: sum.splits)
  have "commits sha decode f root p" if "selected1 = Some (f, p)" for f p
  proof -
    have "selected1 = selected \<or> (\<exists>m name. prepared_variant sha decode store layer root source directory n name = Inr (m, selected1))"
      using e by (auto simp: prepared_entry_def bindE_Inr_iff split: if_splits option.splits)
    with that Cons.prems(2) prepared_variant_commits show ?thesis by blast
  qed
  with Cons.IH [OF rest] show ?case by blast
qed simp

lemma prepared_scute_commits:
  assumes "prepared_scute H sha decode store n layer root = Inr (n', files, parent)"
  shows "commits sha decode files root parent"
proof -
  from assms obtain source directory entries where
    "foldE (prepared_entry sha decode store layer root source directory) (n + 1, None) entries = Inr (n', Some (files, parent))"
    by (auto simp: prepared_scute_def Let_def bindE_Inr_iff split: option.splits)
  then show ?thesis by (rule prepared_fold_commits) simp
qed

lemma linked_append:
  "linked sha decode root (xs @ ys) base \<longleftrightarrow>
     (\<exists>mid. linked sha decode root xs mid \<and> linked sha decode mid ys base)"
  by (induction xs arbitrary: root) auto

lemma chain_fold_linked:
  "foldE (chain_layer H sha decode store) (n, parent, scutes) layers = Inr (n', parent', scutes') \<Longrightarrow>
     linked sha decode root scutes parent \<Longrightarrow>
     linked sha decode root scutes' parent' \<and> length scutes' = length scutes + length (filter layer_is_scute layers)"
proof (induction layers arbitrary: n parent scutes)
  case (Cons layer layers)
  show ?case
  proof (cases "layer_is_scute layer")
    case False
    with Cons show ?thesis by (simp add: chain_layer_def)
  next
    case True
    from Cons.prems(1) obtain st where
      e: "chain_layer H sha decode store (n, parent, scutes) layer = Inr st"
      and st: "foldE (chain_layer H sha decode store) st layers = Inr (n', parent', scutes')"
      by (auto split: sum.splits)
    from e True obtain n1 files previous where
      p: "parent \<noteq> zero_root" "prepared_scute H sha decode store n layer parent = Inr (n1, files, previous)"
      and "st = (n1, previous, scutes @ [files])"
      by (auto simp: chain_layer_def bindE_Inr_iff failIf_Inr_iff)
    with st have rest: "foldE (chain_layer H sha decode store) (n1, previous, scutes @ [files]) layers = Inr (n', parent', scutes')"
      by simp
    have "linked sha decode root (scutes @ [files]) previous"
      using Cons.prems(2) p prepared_scute_commits [OF p(2)] by (auto simp: linked_append)
    from Cons.IH [OF rest this] True show ?thesis by simp
  qed
qed simp

text \<open>C30: A chain discovered for an image starts at the root of its manifest and every layer,
from the tip to the base, commits by its salt and root block to the one below it; the last
commits to the zero root, and there is one for every layer of the manifest.\<close>

theorem chain_linked:
  assumes "from_index H sha decode store img = Inr chain"
  shows "ri_root img = Some (ch_root chain) \<and> ch_scutes chain \<noteq> [] \<and>
     length (ch_scutes chain) = length (filter layer_is_scute (mf_layers (ri_manifest img))) \<and>
     linked sha decode (ch_root chain) (rev (ch_scutes chain)) zero_root"
proof -
  from assms obtain root n scutes where
    r: "ri_root img = Some root"
    and l: "foldE (chain_layer H sha decode store) (0, root, []) (rev (mf_layers (ri_manifest img))) = Inr (n, zero_root, scutes)"
    and c: "scutes \<noteq> []" "chain = \<lparr>ch_root = root, ch_scutes = rev scutes\<rparr>"
    by (auto simp: from_index_def bindE_Inr_iff failIf_Inr_iff okOr_def split: option.splits prod.splits)
  have "linked sha decode root [] root" by simp
  from chain_fold_linked [OF l this] r c show ?thesis by (simp flip: rev_filter)
qed

definition sample_handle_at :: random_handle where
  "sample_handle_at =
     \<lparr>h_regular = Inr True, h_length = Inr 2, h_stream = [], h_at = (\<lambda>offset n. Inr (replicate n 0))\<rparr>"

definition sample_header :: verity where
  "sample_header =
     \<lparr>vt_sha256_normal = True, vt_salt = zero_root @ [1], vt_data_block = 2, vt_hash_block = 2,
      vt_data_size = Inr 2, vt_total_size = Inr 2, vt_tree_size = Inr 0, vt_prefix_size = 0\<rparr>"

definition sample_prepared :: prepared where
  "sample_prepared =
     \<lparr>pp_directory = (\<lambda>n path. Inr [Inr ''.'', Inr ''..'', Inr ''a.verity'', Inr ''2.deflated'']),
      pp_file = (\<lambda>n path. Inr sample_handle_at)\<rparr>"

definition sample_chained :: resolved_image where
  "sample_chained =
     \<lparr>ri_manifest_bytes = \<lparr>vm_digest = Sha256 [], vm_bytes = []\<rparr>,
      ri_manifest = example_manifest\<lparr>mf_layers :=
        [ScuteZstd \<lparr>sd_digest = ''sha256:'' @ replicate 64 CHR ''0'', sd_size = 9,
          sd_annotations = \<lparr>sa_data_blocks = 1, sa_salt = ''''\<rparr>\<rparr>,
         Pmi \<lparr>pd_digest = ''sha256:01'', pd_size = 1\<rparr>]\<rparr>,
      ri_architecture = Amd64, ri_root = Some (replicate 32 5)\<rparr>"

lemma chain_linked_witness:
  "\<exists>chain. from_index hex_ref (\<lambda>bytes. replicate 32 5) (\<lambda>rec. Inr sample_header) sample_prepared sample_chained
       = Inr chain \<and>
     linked (\<lambda>bytes. replicate 32 5) (\<lambda>rec. Inr sample_header) (ch_root chain) (rev (ch_scutes chain)) zero_root"
proof -
  have "isOk (from_index hex_ref (\<lambda>bytes. replicate 32 5) (\<lambda>rec. Inr sample_header) sample_prepared sample_chained)"
    by code_simp
  then obtain chain where
    "from_index hex_ref (\<lambda>bytes. replicate 32 5) (\<lambda>rec. Inr sample_header) sample_prepared sample_chained = Inr chain"
    by (metis isOk.elims(2))
  with chain_linked [OF this] show ?thesis by blast
qed

end
