(* ===== verification/Pipeline_Output.thy ===== *)
theory Pipeline_Output
  imports Input_Resolve Pipeline_Boot Cache_Chain
begin

text \<open>
  The components of an image as a build computes them: \<open>pipeline/output.rs\<close>,
  \<open>pipeline/pmi.rs\<close>, \<open>pipeline/root.rs\<close> (the hash) and the loop over the stages in
  \<open>pipeline/mod.rs\<close>.  What executes a stage in the sandbox and seals its layer, and
  what reads a firmware file out of a root, is the record \<open>worker\<close>.  Files of the cache
  are opened at distinct moments, one for each place of the code that reads one.
\<close>

record root =
  rt_base :: "checked_image option"
  rt_produced :: "sealed_scute list"

definition root_hash :: "root \<Rightarrow> byte list option" where
  "root_hash r =
     (if rt_produced r \<noteq> [] then Some (ss_root (last (rt_produced r)))
      else Option.bind (rt_base r) checked_root)"

record firmware_file =
  fw_descriptor :: pmi_descriptor
  fw_reader :: stream

datatype pmi = PmiInherited checked_image | PmiFile firmware_file

text \<open>The \<open>expect\<close> of a selected image without firmware is the value \<open>None\<close>.\<close>

fun pmi_layer :: "pmi \<Rightarrow> layer option" where
  "pmi_layer (PmiInherited c) = List.find layer_is_pmi (checked_layers c)"
| "pmi_layer (PmiFile f) = Some (Pmi (fw_descriptor f))"

fun pmi_root :: "pmi \<Rightarrow> byte list option" where
  "pmi_root (PmiInherited c) = checked_root c"
| "pmi_root (PmiFile _) = None"

fun pmi_inherited :: "pmi \<Rightarrow> checked_image option" where
  "pmi_inherited (PmiInherited c) = Some c"
| "pmi_inherited (PmiFile _) = None"

record stage_output =
  so_root :: "root option"
  so_pmi :: "pmi option"
  so_boot :: "image_boot option"

text \<open>\<open>RootPanic\<close> is the panic of taking the hash of a root without layers.\<close>

datatype pipeline_error =
    StageIncomplete stage_ref
  | RemoteUnresolved
  | NoStageSource stage_ref
  | NoSelectedRoot
  | NoSelectedPmi
  | NoPmiSource
  | ReaderRequired
  | NoComponents
  | BootWithoutPmi
  | RootPanic
  | PipelineBoot boot_error
  | PipelineCache cache_error
  | WorkFailed string
  | InStage stage_ref pipeline_error

type_synonym outputs = "(stage_ref, stage_output) btree"

record worker =
  wk_stage :: "outputs \<Rightarrow> stage \<Rightarrow> root \<Rightarrow> string + sealed_scute"
  wk_extract :: "root \<Rightarrow> image_path \<Rightarrow> string + firmware_file"

text \<open>What the pipeline is given: the codecs, the hash, the build and the worker.\<close>

record env =
  ev_hex :: hexlib
  ev_zstd :: zstd
  ev_sha :: sha256
  ev_build :: resolved_build
  ev_worker :: worker

definition nonempty_boot :: "image_boot option \<Rightarrow> image_boot option" where
  "nonempty_boot b = (case b of None \<Rightarrow> None | Some c \<Rightarrow> if ib_bytes c = [] then None else Some c)"

definition output_remote :: "env \<Rightarrow> nat \<Rightarrow> checked_image \<Rightarrow> pipeline_error + stage_output" where
  "output_remote E n base =
     (let has_boot = list_ex layer_is_pmi (checked_layers base) in
      bindE (mapErr PipelineCache
               (checked_bootconfig (ev_hex E) (ev_sha E) (rb_cache (ev_build E)) n base)) (\<lambda>bytes.
      bindE (case bytes of None \<Rightarrow> Inr None
             | Some m \<Rightarrow> bindE (mapErr PipelineBoot (boot_inherited (ev_zstd E) (vm_bytes m) (checked_root base)))
                 (\<lambda>c. Inr (Some c))) (\<lambda>config.
        Inr \<lparr>so_root = (if checked_root base = None then None
                        else Some \<lparr>rt_base = Some base, rt_produced = []\<rparr>),
             so_pmi = (if has_boot then Some (PmiInherited base) else None),
             so_boot = nonempty_boot config\<rparr>)))"

fun output_resolve :: "env \<Rightarrow> nat \<Rightarrow> outputs \<Rightarrow> image_ref \<Rightarrow> pipeline_error + stage_output" where
  "output_resolve E n outputs (Local name) = okOr (StageIncomplete name) (bt_get outputs name)"
| "output_resolve E n outputs (RemoteImage remote) =
     bindE (okOr RemoteUnresolved (bt_get (rb_images (ev_build E)) (reference_of (ev_hex E) remote)))
       (output_remote E n)"

definition output_bind :: "env \<Rightarrow> stage_output \<Rightarrow> pipeline_error + stage_output" where
  "output_bind E out =
     (case (so_root out, so_boot out) of
        (Some r, Some config) \<Rightarrow>
          bindE (okOr RootPanic (root_hash r)) (\<lambda>hash.
          bindE (mapErr PipelineBoot (boot_bind (ev_hex E) (ev_zstd E) hash config)) (\<lambda>c.
            Inr (out\<lparr>so_boot := Some c\<rparr>)))
      | _ \<Rightarrow> Inr out)"

definition defined_keys :: "(key, config_value) btree \<Rightarrow> (key \<times> config_value option) list" where
  "defined_keys m = map (\<lambda>(k, v). (k, Some v)) m"

definition inherited_config :: "env \<Rightarrow> stage_output \<Rightarrow> boot \<Rightarrow> pipeline_error + image_boot option" where
  "inherited_config E source b =
     (case b of
        BootInheritDefined _ define \<Rightarrow>
          bindE (mapErr PipelineBoot (boot_overlay (ev_zstd E) None (defined_keys define)))
            (\<lambda>c. Inr (Some c))
      | BootInheritExtended _ overlay \<Rightarrow>
          bindE (mapErr PipelineBoot (boot_overlay (ev_zstd E) (so_boot source) overlay))
            (\<lambda>c. Inr (Some c))
      | _ \<Rightarrow> Inr (so_boot source))"

text \<open>The boot components of an image that names its components one by one.\<close>

definition select_boot ::
    "env \<Rightarrow> nat \<Rightarrow> outputs \<Rightarrow> bool \<Rightarrow> boot \<Rightarrow> pipeline_error + pmi option \<times> image_boot option" where
  "select_boot E n outputs reader b =
     (case b of
        BootExtract extract define \<Rightarrow>
          bindE (output_resolve E n outputs (ex_from extract)) (\<lambda>source.
          bindE (okOr NoPmiSource (so_root source)) (\<lambda>r.
          bindE (failIf (\<not> reader) ReaderRequired) (\<lambda>_.
          bindE (mapErr WorkFailed (wk_extract (ev_worker E) r (ex_path extract))) (\<lambda>f.
          bindE (mapErr PipelineBoot (boot_overlay (ev_zstd E) None (defined_keys define))) (\<lambda>config.
            Inr (Some (PmiFile f), Some config))))))
      | _ \<Rightarrow>
          bindE (output_resolve E n outputs (boot_source b)) (\<lambda>source.
          bindE (okOr NoSelectedPmi (so_pmi source)) (\<lambda>pmi.
          bindE (inherited_config E source b) (\<lambda>config.
            Inr (Some pmi, config)))))"

definition select_components ::
    "env \<Rightarrow> nat \<Rightarrow> outputs \<Rightarrow> bool \<Rightarrow> image \<Rightarrow> pipeline_error + stage_output" where
  "select_components E n outputs reader img =
     (case img of
        ImageShorthand reference \<Rightarrow> output_resolve E n outputs reference
      | ImageComponents root boot \<Rightarrow>
          bindE (case root of None \<Rightarrow> Inr None
                 | Some reference \<Rightarrow>
                     bindE (output_resolve E n outputs reference) (\<lambda>source.
                     bindE (okOr NoSelectedRoot (so_root source)) (\<lambda>r. Inr (Some r)))) (\<lambda>r.
          bindE (case boot of None \<Rightarrow> Inr (None, None)
                 | Some b \<Rightarrow> select_boot E (n + 1) outputs reader b) (\<lambda>(pmi, config).
            Inr \<lparr>so_root = r, so_pmi = pmi, so_boot = nonempty_boot config\<rparr>)))"

definition output_select ::
    "env \<Rightarrow> nat \<Rightarrow> outputs \<Rightarrow> bool \<Rightarrow> pipeline_error + stage_output" where
  "output_select E n outputs reader =
     bindE (select_components E n outputs reader (pl_image (bg_plan (rb_graph (ev_build E))))) (\<lambda>out.
     bindE (failIf (so_root out = None \<and> so_pmi out = None) NoComponents) (\<lambda>_.
     bindE (failIf (so_boot out \<noteq> None \<and> so_pmi out = None) BootWithoutPmi) (\<lambda>_.
       case so_root out of
         None \<Rightarrow> Inr out
       | Some r \<Rightarrow>
           bindE (okOr RootPanic (root_hash r)) (\<lambda>hash.
             if rt_produced r \<noteq> [] \<or>
                (case so_pmi out of None \<Rightarrow> False | Some pmi \<Rightarrow> pmi_root pmi \<noteq> Some hash) \<or>
                (case so_boot out of None \<Rightarrow> False | Some config \<Rightarrow> ib_root config \<noteq> Some hash)
             then output_bind E out else Inr out))))"

section \<open>The loop over the stages\<close>

text \<open>
  A stage that formats starts a new root from one layer; any other adds its layer to the
  root it is built on and rebinds the boot configuration it inherits.
\<close>

definition produce_stage ::
    "env \<Rightarrow> outputs \<Rightarrow> stage \<Rightarrow> root \<Rightarrow> stage_output \<Rightarrow> pipeline_error + stage_output" where
  "produce_stage E outputs stage source input =
     bindE (mapErr WorkFailed (wk_stage (ev_worker E) outputs stage source)) (\<lambda>scute.
       if sg_format stage \<noteq> None
       then Inr \<lparr>so_root = Some \<lparr>rt_base = None, rt_produced = [scute]\<rparr>, so_pmi = None, so_boot = None\<rparr>
       else output_bind E
              (input\<lparr>so_root := Some \<lparr>rt_base = rt_base source, rt_produced = rt_produced source @ [scute]\<rparr>\<rparr>))"

definition execute_stage ::
    "env \<Rightarrow> nat \<times> outputs \<Rightarrow> stage_ref \<Rightarrow> pipeline_error + nat \<times> outputs" where
  "execute_stage E state name =
     (case state of (n, outputs) \<Rightarrow>
       let stage = stage_of (bg_plan (rb_graph (ev_build E))) name in
       bindE (output_resolve E n outputs (sg_from stage)) (\<lambda>input.
       bindE (okOr (NoStageSource name) (so_root input)) (\<lambda>source.
       bindE (mapErr (InStage name) (produce_stage E outputs stage source (input\<lparr>so_root := None\<rparr>))) (\<lambda>out.
         Inr (n + 1, bt_insert name out outputs)))))"

definition pipeline_execute :: "env \<Rightarrow> pipeline_error + stage_output" where
  "pipeline_execute E =
     bindE (foldE (execute_stage E) (0, []) (pl_order (bg_plan (rb_graph (ev_build E))))) (\<lambda>(n, outputs).
       output_select E n outputs True)"

text \<open>\<open>Pipeline::run\<close>: without stages and files to read there is nothing to execute.\<close>

definition pipeline_output :: "env \<Rightarrow> pipeline_error + stage_output" where
  "pipeline_output E =
     (if \<not> execution_required (rb_graph (ev_build E)) then output_select E 0 [] False
      else pipeline_execute E)"

section \<open>Availability predicts the components\<close>

fun component_error :: "pipeline_error \<Rightarrow> bool" where
  "component_error (PipelineBoot _) = False"
| "component_error (PipelineCache _) = False"
| "component_error (WorkFailed _) = False"
| "component_error (InStage _ e) = component_error e"
| "component_error _ = True"

text \<open>What an output is known to be when its components are known.\<close>

definition output_ok :: "stage_output \<Rightarrow> bool" where
  "output_ok out \<longleftrightarrow>
     (case so_root out of None \<Rightarrow> True | Some r \<Rightarrow> root_hash r \<noteq> None) \<and>
     (so_boot out \<noteq> None \<longrightarrow> so_pmi out \<noteq> None)"

definition abstracts :: "stage_output \<Rightarrow> availability \<Rightarrow> bool" where
  "abstracts out a \<longleftrightarrow> output_ok out \<and>
     (av_root a \<longleftrightarrow> so_root out \<noteq> None) \<and> (av_boot a \<longleftrightarrow> so_pmi out \<noteq> None)"

definition outputs_abstract :: "outputs \<Rightarrow> available \<Rightarrow> bool" where
  "outputs_abstract outputs stages \<longleftrightarrow>
     (\<forall>name. rel_option abstracts (bt_get outputs name) (bt_get stages name))"

text \<open>The two computations in step: no component error, and results that agree.\<close>

definition in_step :: "('a \<Rightarrow> bool) \<Rightarrow> pipeline_error + 'a \<Rightarrow> bool" where
  "in_step P r \<longleftrightarrow> (case r of Inl e \<Rightarrow> \<not> component_error e | Inr x \<Rightarrow> P x)"

lemma in_step_simps [simp]:
  "in_step P (Inl e) \<longleftrightarrow> \<not> component_error e"
  "in_step P (Inr x) \<longleftrightarrow> P x"
  by (simp_all add: in_step_def)

lemma in_step_bind:
  "in_step Q r \<Longrightarrow> (\<And>x. r = Inr x \<Longrightarrow> Q x \<Longrightarrow> in_step P (f x)) \<Longrightarrow> in_step P (bindE r f)"
  by (cases r) auto

lemma in_step_mapErr:
  "(\<And>e. \<not> component_error (g e)) \<Longrightarrow> (\<And>x. r = Inr x \<Longrightarrow> P x) \<Longrightarrow> in_step P (mapErr g r)"
  by (cases r) (simp_all add: mapErr_def)

lemma in_step_InStage: "in_step P r \<Longrightarrow> in_step P (mapErr (InStage name) r)"
  by (cases r) (simp_all add: mapErr_def)

lemma in_step_okOr: "x \<noteq> None \<Longrightarrow> (\<And>y. x = Some y \<Longrightarrow> P y) \<Longrightarrow> in_step P (okOr e x)"
  by (cases x) (simp_all add: okOr_def)

lemma find_map_boot: "find_map layer_boot_config layers \<noteq> None \<longleftrightarrow> list_ex layer_is_boot_config layers"
proof (induction layers)
  case (Cons l layers)
  then show ?case by (cases l) auto
qed simp

lemma manifest_boot_needs_pmi:
  "manifest_validate H m = Inr () \<Longrightarrow> list_ex layer_is_boot_config (mf_layers m) \<Longrightarrow> list_ex layer_is_pmi (mf_layers m)"
proof -
  have ex: "list_ex P xs \<longleftrightarrow> length (filter P xs) \<noteq> 0" for P and xs :: "layer list"
    by (induction xs) auto
  assume "manifest_validate H m = Inr ()" "list_ex layer_is_boot_config (mf_layers m)"
  then show ?thesis unfolding ex manifest_validate_def Let_def by (auto simp: bindE_Inr_iff split: if_splits)
qed

definition images_valid :: "hexlib \<Rightarrow> images \<Rightarrow> bool" where
  "images_valid H images \<longleftrightarrow>
     list_all (\<lambda>(k, c). manifest_validate H (ri_manifest (ci_image c)) = Inr ()) images"

lemma output_remote_in_step:
  assumes "manifest_validate H (ri_manifest (ci_image c)) = Inr ()"
  shows "in_step (\<lambda>out. abstracts out (image_availability c)) (output_remote E n c)"
proof -
  have pmi: "list_ex layer_is_pmi (checked_layers c)" if "find_map layer_boot_config (checked_layers c) \<noteq> None"
    using manifest_boot_needs_pmi [OF assms] that unfolding find_map_boot checked_layers_def by blast
  show ?thesis
    unfolding output_remote_def Let_def
  proof (rule in_step_bind [where Q = "\<lambda>bytes. bytes \<noteq> None \<longrightarrow> list_ex layer_is_pmi (checked_layers c)"])
    show "in_step (\<lambda>bytes. bytes \<noteq> None \<longrightarrow> list_ex layer_is_pmi (checked_layers c))
        (mapErr PipelineCache (checked_bootconfig (ev_hex E) (ev_sha E) (rb_cache (ev_build E)) n c))"
      using pmi by (intro in_step_mapErr) (auto simp: checked_bootconfig_def split: option.splits)
  next
    fix bytes :: "verified_metadata option"
    assume b: "bytes \<noteq> None \<longrightarrow> list_ex layer_is_pmi (checked_layers c)"
    show "in_step (\<lambda>out. abstracts out (image_availability c))
       (bindE (case bytes of None \<Rightarrow> Inr None
             | Some m \<Rightarrow> bindE (mapErr PipelineBoot (boot_inherited (ev_zstd E) (vm_bytes m) (checked_root c)))
                 (\<lambda>c. Inr (Some c))) (\<lambda>config.
        Inr \<lparr>so_root = (if checked_root c = None then None
                        else Some \<lparr>rt_base = Some c, rt_produced = []\<rparr>),
             so_pmi = (if list_ex layer_is_pmi (checked_layers c) then Some (PmiInherited c) else None),
             so_boot = nonempty_boot config\<rparr>))"
      by (rule in_step_bind [where Q = "\<lambda>config. config \<noteq> None \<longrightarrow> list_ex layer_is_pmi (checked_layers c)"])
         (use b in \<open>auto simp: abstracts_def output_ok_def image_availability_def root_hash_def nonempty_boot_def
            split: option.splits intro!: in_step_bind [where Q = "\<lambda>_. True"] in_step_mapErr\<close>)
  qed
qed

lemma output_resolve_in_step:
  assumes "outputs_abstract outputs stages" "images_valid H (rb_images (ev_build E))" "ev_hex E = H"
    and "source_availability H stages (rb_images (ev_build E)) reference = Inr a"
  shows "in_step (\<lambda>out. abstracts out a) (output_resolve E n outputs reference)"
proof (cases reference)
  case (Local name)
  with assms(4) have "bt_get stages name = Some a" by (auto simp: okOr_def split: option.splits)
  moreover have "rel_option abstracts (bt_get outputs name) (bt_get stages name)"
    using assms(1) by (simp add: outputs_abstract_def)
  ultimately show ?thesis using Local by (cases "bt_get outputs name") (auto simp: okOr_def)
next
  case (RemoteImage remote)
  with assms(4) obtain c where c: "bt_get (rb_images (ev_build E)) (reference_of H remote) = Some c"
    "a = image_availability c"
    by (auto simp: okOr_def bindE_Inr_iff split: option.splits)
  have "manifest_validate H (ri_manifest (ci_image c)) = Inr ()"
    using assms(2) map_of_SomeD [OF c(1)] by (auto simp: images_valid_def list_all_iff)
  with output_remote_in_step [OF this, of E n] c RemoteImage assms(3) show ?thesis by (simp add: okOr_def)
qed

lemma output_bind_in_step:
  assumes "output_ok out"
  shows "in_step (\<lambda>out'. output_ok out' \<and> so_root out' = so_root out \<and> so_pmi out' = so_pmi out) (output_bind E out)"
proof (cases "so_root out")
  case None
  with assms show ?thesis by (simp add: output_bind_def)
next
  case (Some r)
  show ?thesis
  proof (cases "so_boot out")
    case None
    with assms Some show ?thesis by (simp add: output_bind_def)
  next
    case b: (Some config)
    from assms Some obtain hash where "root_hash r = Some hash" by (auto simp: output_ok_def)
    with assms Some b show ?thesis
      by (auto simp: output_bind_def okOr_def output_ok_def intro!: in_step_bind [where Q = "\<lambda>_. True"] in_step_mapErr)
  qed
qed

lemma produce_stage_in_step:
  assumes "output_ok input"
  shows "in_step (\<lambda>out. abstracts out
      (if sg_format stage \<noteq> None then \<lparr>av_root = True, av_boot = False\<rparr>
       else \<lparr>av_root = True, av_boot = (so_pmi input \<noteq> None)\<rparr>))
    (produce_stage E outputs stage source input)"
  unfolding produce_stage_def
proof (rule in_step_bind [where Q = "\<lambda>_. True"], goal_cases)
  case 1
  show ?case by (rule in_step_mapErr) simp_all
next
  case (2 scute)
  let ?r = "\<lparr>rt_base = rt_base source, rt_produced = rt_produced source @ [scute]\<rparr>"
  have "output_ok (input\<lparr>so_root := Some ?r\<rparr>)" using assms by (simp add: output_ok_def root_hash_def)
  from output_bind_in_step [OF this, of E] show ?case
    by (cases "sg_format stage"; cases "output_bind E (input\<lparr>so_root := Some ?r\<rparr>)")
       (auto simp: abstracts_def output_ok_def root_hash_def)
qed

lemma execute_stage_in_step:
  assumes "outputs_abstract outputs stages" "images_valid H (rb_images (ev_build E))" "ev_hex E = H"
    and "p = bg_plan (rb_graph (ev_build E))"
    and "stage_availability H p (rb_images (ev_build E)) stages name = Inr stages'"
  shows "in_step (\<lambda>(n', outputs'). outputs_abstract outputs' stages') (execute_stage E (n, outputs) name)"
proof -
  let ?stage = "stage_of p name"
  from assms(5) obtain source where src: "source_availability H stages (rb_images (ev_build E)) (sg_from ?stage) = Inr source"
    "av_root source"
    "stages' = bt_insert name (if sg_format ?stage \<noteq> None then \<lparr>av_root = True, av_boot = False\<rparr> else source) stages"
    by (auto simp: stage_availability_def Let_def bindE_Inr_iff failIf_Inr_iff)
  show ?thesis
    unfolding execute_stage_def Let_def prod.case assms(4) [symmetric]
  proof (rule in_step_bind [OF output_resolve_in_step [OF assms(1-3) src(1)]])
    fix input assume a: "abstracts input source"
    then obtain r where r: "so_root input = Some r" using src(2) by (auto simp: abstracts_def)
    have ok: "output_ok (input\<lparr>so_root := None\<rparr>)" using a by (simp add: abstracts_def output_ok_def)
    have eq: "\<lparr>av_root = True, av_boot = so_pmi (input\<lparr>so_root := None\<rparr>) \<noteq> None\<rparr> = source"
      using a src(2) by (simp add: abstracts_def)
    note step = produce_stage_in_step [OF ok, of ?stage E outputs r, unfolded eq]
    have ins: "outputs_abstract (bt_insert name out outputs) stages'"
      if "abstracts out (if sg_format ?stage \<noteq> None then \<lparr>av_root = True, av_boot = False\<rparr> else source)" for out
      using assms(1) that src(3) by (auto simp: outputs_abstract_def split: if_split_asm)
    show "in_step (\<lambda>(n', outputs'). outputs_abstract outputs' stages')
       (bindE (okOr (NoStageSource name) (so_root input)) (\<lambda>source.
        bindE (mapErr (InStage name) (produce_stage E outputs ?stage source (input\<lparr>so_root := None\<rparr>))) (\<lambda>out.
          Inr (n + 1, bt_insert name out outputs))))"
      unfolding r okOr_def option.case bindE_simps
      by (rule in_step_bind [OF in_step_InStage [OF step]]) (unfold in_step_simps prod.case, rule ins)
  qed
qed

lemma execute_stages_in_step:
  "foldE (stage_availability H p (rb_images (ev_build E))) stages names = Inr stages' \<Longrightarrow>
   outputs_abstract outputs stages \<Longrightarrow> images_valid H (rb_images (ev_build E)) \<Longrightarrow> ev_hex E = H \<Longrightarrow>
   p = bg_plan (rb_graph (ev_build E)) \<Longrightarrow>
     in_step (\<lambda>(n', outputs'). outputs_abstract outputs' stages') (foldE (execute_stage E) (n, outputs) names)"
proof (induction names arbitrary: n outputs stages)
  case (Cons name names)
  from Cons.prems(1) obtain stages1 where a: "stage_availability H p (rb_images (ev_build E)) stages name = Inr stages1"
    "foldE (stage_availability H p (rb_images (ev_build E))) stages1 names = Inr stages'"
    by (auto split: sum.splits)
  from execute_stage_in_step [OF Cons.prems(2-5) a(1), of n]
  show ?case
  proof (cases "execute_stage E (n, outputs) name")
    case (Inr st)
    with execute_stage_in_step [OF Cons.prems(2-5) a(1), of n]
    have "outputs_abstract (snd st) stages1" by (auto split: prod.splits)
    from Cons.IH [OF a(2) this Cons.prems(3-5), of "fst st"] Inr show ?thesis by simp
  qed simp
qed simp

lemma nonempty_boot_None: "nonempty_boot None = None"
  by (simp add: nonempty_boot_def)

lemma select_boot_in_step:
  assumes "outputs_abstract outputs stages" "images_valid H (rb_images (ev_build E))" "ev_hex E = H"
    and "reader \<or> (\<forall>x y. b \<noteq> BootExtract x y)"
    and "source_availability H stages (rb_images (ev_build E)) (boot_source b) = Inr a"
    and "case b of BootExtract _ _ \<Rightarrow> av_root a | _ \<Rightarrow> av_boot a"
  shows "in_step (\<lambda>(pmi, config). pmi \<noteq> None) (select_boot E n outputs reader b)"
proof -
  note res = output_resolve_in_step [OF assms(1-3,5), of n]
  show ?thesis
  proof (cases "\<exists>x y. b = BootExtract x y")
    case True
    then obtain x y where b: "b = BootExtract x y" by blast
    have s: "in_step (\<lambda>out. so_root out \<noteq> None) (output_resolve E n outputs (ex_from x))"
      using res assms(6) b by (auto simp: boot_source_def abstracts_def in_step_def split: sum.splits)
    show ?thesis using assms(4) unfolding select_boot_def b boot.case
      by (intro in_step_bind [OF s]) (auto simp: okOr_def failIf_def
          intro!: in_step_bind [where Q = "\<lambda>_. True"] in_step_mapErr)
  next
    case False
    then have s: "in_step (\<lambda>out. so_pmi out \<noteq> None) (output_resolve E n outputs (boot_source b))"
      using res assms(6) by (cases b) (auto simp: abstracts_def in_step_def split: sum.splits)
    have conf: "in_step (\<lambda>_. True) (inherited_config E source b)" for source
      by (cases b) (auto simp: inherited_config_def intro!: in_step_bind [where Q = "\<lambda>_. True"] in_step_mapErr)
    have eq: "select_boot E n outputs reader b = bindE (output_resolve E n outputs (boot_source b)) (\<lambda>source.
          bindE (okOr NoSelectedPmi (so_pmi source)) (\<lambda>pmi.
          bindE (inherited_config E source b) (\<lambda>config. Inr (Some pmi, config))))"
      using False by (cases b) (simp_all add: select_boot_def)
    show ?thesis unfolding eq
    proof (rule in_step_bind [OF s])
      fix source :: stage_output assume "so_pmi source \<noteq> None"
      then obtain pmi where "so_pmi source = Some pmi" by blast
      then show "in_step (\<lambda>(pmi, config). pmi \<noteq> None) (bindE (okOr NoSelectedPmi (so_pmi source)) (\<lambda>pmi.
          bindE (inherited_config E source b) (\<lambda>config. Inr (Some pmi, config))))"
        by (simp add: okOr_def in_step_bind [OF conf])
    qed
  qed
qed

lemma boot_source_images_valid:
  assumes "check_selection H p images stages = Inr ()" "pl_image p = ImageComponents root (Some b)"
  shows "\<exists>a. source_availability H stages images (boot_source b) = Inr a \<and>
     (case b of BootExtract _ _ \<Rightarrow> av_root a | _ \<Rightarrow> av_boot a)"
  using assms by (cases b) (auto simp: check_selection_def Let_def bindE_Inr_iff failIf_Inr_iff boot_source_def)

lemma output_select_in_step:
  assumes rel: "outputs_abstract outputs stages" "images_valid H (rb_images (ev_build E))" "ev_hex E = H"
    and p: "p = bg_plan (rb_graph (ev_build E))" "reader \<or> \<not> root_reader_required p"
    and sel: "check_selection H p (rb_images (ev_build E)) stages = Inr ()"
    and some: "pl_image p \<noteq> ImageComponents None None"
  shows "in_step (\<lambda>out. output_ok out) (output_select E n outputs reader)"
proof -
  have comp: "in_step (\<lambda>out. output_ok out \<and> (so_root out \<noteq> None \<or> so_pmi out \<noteq> None))
      (select_components E n outputs reader (pl_image p))"
  proof (cases "pl_image p")
    case (ImageShorthand reference)
    with sel obtain a where a: "source_availability H stages (rb_images (ev_build E)) reference = Inr a"
      "av_root a \<or> av_boot a"
      by (auto simp: check_selection_def Let_def bindE_Inr_iff failIf_Inr_iff)
    from output_resolve_in_step [OF rel a(1), of n] a(2) ImageShorthand show ?thesis
      by (auto simp: select_components_def abstracts_def in_step_def split: sum.splits)
  next
    case (ImageComponents root boot)
    have roots: "in_step (\<lambda>r. (r \<noteq> None \<longleftrightarrow> root \<noteq> None) \<and> (case r of None \<Rightarrow> True | Some r \<Rightarrow> root_hash r \<noteq> None))
        (case root of None \<Rightarrow> Inr None
         | Some reference \<Rightarrow>
             bindE (output_resolve E n outputs reference) (\<lambda>source.
             bindE (okOr NoSelectedRoot (so_root source)) (\<lambda>r. Inr (Some r))))"
    proof (cases root)
      case (Some reference)
      with sel ImageComponents obtain a where a:
        "source_availability H stages (rb_images (ev_build E)) reference = Inr a" "av_root a"
        by (auto simp: check_selection_def Let_def bindE_Inr_iff failIf_Inr_iff)
      have "in_step (\<lambda>out. output_ok out \<and> so_root out \<noteq> None) (output_resolve E n outputs reference)"
        using output_resolve_in_step [OF rel a(1), of n] a(2)
        by (auto simp: abstracts_def in_step_def split: sum.splits)
      then show ?thesis unfolding Some option.case
        by (rule in_step_bind) (auto simp: okOr_def output_ok_def)
    qed simp
    have boots: "in_step (\<lambda>(pmi, config). (pmi \<noteq> None \<longleftrightarrow> boot \<noteq> None) \<and> (config \<noteq> None \<longrightarrow> pmi \<noteq> None))
        (case boot of None \<Rightarrow> Inr (None, None) | Some b \<Rightarrow> select_boot E (n + 1) outputs reader b)"
    proof (cases boot)
      case (Some b)
      with sel ImageComponents obtain a where a:
        "source_availability H stages (rb_images (ev_build E)) (boot_source b) = Inr a"
        "case b of BootExtract _ _ \<Rightarrow> av_root a | _ \<Rightarrow> av_boot a"
        using boot_source_images_valid [of H p "rb_images (ev_build E)" stages root b] by auto
      have "reader \<or> (\<forall>x y. b \<noteq> BootExtract x y)"
        using p(2) ImageComponents Some by (auto simp: root_reader_required_def)
      from select_boot_in_step [OF rel this a, of "n + 1"] Some show ?thesis
        by (auto simp: in_step_def split: sum.splits)
    qed simp
    show ?thesis
      unfolding select_components_def ImageComponents image.case
      by (rule in_step_bind [OF roots], rule in_step_bind [OF boots])
         (use some ImageComponents in \<open>auto simp: output_ok_def nonempty_boot_def split: option.splits\<close>)
  qed
  show ?thesis
    unfolding output_select_def p(1) [symmetric]
  proof (rule in_step_bind [OF comp])
    fix out :: stage_output
    assume o: "output_ok out \<and> (so_root out \<noteq> None \<or> so_pmi out \<noteq> None)"
    show "in_step (\<lambda>out. output_ok out)
      (bindE (failIf (so_root out = None \<and> so_pmi out = None) NoComponents) (\<lambda>_.
       bindE (failIf (so_boot out \<noteq> None \<and> so_pmi out = None) BootWithoutPmi) (\<lambda>_.
       case so_root out of
         None \<Rightarrow> Inr out
       | Some r \<Rightarrow>
           bindE (okOr RootPanic (root_hash r)) (\<lambda>hash.
             if rt_produced r \<noteq> [] \<or>
                (case so_pmi out of None \<Rightarrow> False | Some pmi \<Rightarrow> pmi_root pmi \<noteq> Some hash) \<or>
                (case so_boot out of None \<Rightarrow> False | Some config \<Rightarrow> ib_root config \<noteq> Some hash)
             then output_bind E out else Inr out))))"
    proof (cases "so_root out")
      case None
      with o show ?thesis by (simp add: failIf_def output_ok_def)
    next
      case (Some r)
      with o obtain hash where h: "root_hash r = Some hash" by (auto simp: output_ok_def)
      have b: "in_step (\<lambda>out. output_ok out) (output_bind E out)"
        using output_bind_in_step [of out E] o by (auto simp: in_step_def split: sum.splits)
      show ?thesis using o b Some h by (auto simp: failIf_def output_ok_def okOr_def)
    qed
  qed
qed

lemma resolve_inputs_valid:
  "foldE (resolve_input H sha J host cache tags) (n, images) inputs = Inr (n', images') \<Longrightarrow>
     images_valid H images \<Longrightarrow> images_valid H images'"
proof (induction inputs arbitrary: n images)
  case (Cons input inputs)
  from Cons.prems(1) obtain n1 images1 where
    r: "resolve_input H sha J host cache tags (n, images) input = Inr (n1, images1)"
    and rest: "foldE (resolve_input H sha J host cache tags) (n1, images1) inputs = Inr (n', images')"
    by (auto split: sum.splits)
  from r obtain pin img where p: "cache_resolve H sha J host (later n cache) pin = Inr img"
    "images1 = bt_insert (in_reference input) (CheckedImage img) images"
    by (auto simp: resolve_input_def checked_verify_def bindE_Inr_iff mapErr_Inr_iff')
  have "manifest_validate H (ri_manifest img) = Inr ()"
    using p(1) unfolding cache_resolve_iff manifest_accepted_def by blast
  moreover have "set (bt_insert k v m) \<subseteq> insert (k, v) (set m)" for k :: image_reference and v :: checked_image and m
    by (induction k v m rule: bt_insert.induct) auto
  ultimately have "images_valid H images1"
    using Cons.prems(2) p(2) by (fastforce simp: images_valid_def list_all_iff)
  from Cons.IH [OF rest this] show ?case .
qed simp

lemma captured_resolve_valid:
  "captured_resolve H sha J host g cache = Inr b \<Longrightarrow>
     images_valid H (rb_images b) \<and> rb_graph b = g \<and> availability_validate H (bg_plan g) (rb_images b) = Inr ()"
  by (erule captured_resolve_InrE) (auto dest: resolve_inputs_valid simp: images_valid_def)

lemma pipeline_output_in_step:
  assumes "images_valid H (rb_images (ev_build E))" "ev_hex E = H" "p = bg_plan (rb_graph (ev_build E))"
    and "availability_validate H p (rb_images (ev_build E)) = Inr ()" "pl_image p \<noteq> ImageComponents None None"
  shows "in_step output_ok (pipeline_output E)"
proof -
  from assms(4) obtain stages where st: "foldE (stage_availability H p (rb_images (ev_build E))) [] (pl_order p) = Inr stages"
    "check_selection H p (rb_images (ev_build E)) stages = Inr ()"
    by (auto simp: availability_validate_def bindE_Inr_iff)
  have none: "outputs_abstract [] []" by (simp add: outputs_abstract_def)
  show ?thesis
  proof (cases "execution_required (rb_graph (ev_build E))")
    case False
    then have "pl_order p = []" "\<not> root_reader_required p"
      using assms(3) by (auto simp: execution_required_def commands_required_def)
    with output_select_in_step [OF none assms(1-3) _ _ assms(5), of False 0] st False
    show ?thesis by (simp add: pipeline_output_def)
  next
    case True
    show ?thesis
      unfolding pipeline_output_def pipeline_execute_def assms(3) [symmetric]
    proof (simp only: True not_True_eq_False if_False,
        rule in_step_bind [OF execute_stages_in_step [OF st(1) none assms(1-3)]])
      fix x :: "nat \<times> outputs"
      assume "case x of (n', outputs') \<Rightarrow> outputs_abstract outputs' stages"
      then show "in_step output_ok (case x of (n, outputs) \<Rightarrow> output_select E n outputs True)"
        using output_select_in_step [OF _ assms(1-3) _ st(2) assms(5), of "snd x" True "fst x"]
        by (cases x) simp
    qed
  qed
qed

text \<open>C12: Once the plan is accepted and the inputs are resolved, building the image never fails
for a missing component: no stage is used before it is complete, every source has the root
or the firmware it is selected for, and no hash is taken of an empty root.  What can fail
is work, a read of the cache and the text of a boot configuration.\<close>

theorem components_available:
  assumes "plan_try_from Z raw = Inr p" "build_graph_new (ev_hex E) p lock = Inr g"
    and "captured_resolve (ev_hex E) sha J host g cache = Inr (ev_build E)"
    and "pipeline_output E = Inl e"
  shows "\<not> component_error e"
proof -
  from assms(1) have "pl_image p \<noteq> ImageComponents None None" by (rule plan_try_from_InrE) simp
  moreover have "bg_plan g = p" using assms(2) by (rule build_graph_ok) simp
  ultimately have "in_step output_ok (pipeline_output E)"
    using captured_resolve_valid [OF assms(3)] by (intro pipeline_output_in_step) auto
  then show ?thesis using assms(4) by simp
qed

section \<open>The boot configuration of an output is bound to its root\<close>

definition output_bound :: "stage_output \<Rightarrow> bool" where
  "output_bound out \<longleftrightarrow>
     (case (so_root out, so_boot out) of (Some r, Some config) \<Rightarrow> ib_root config = root_hash r | _ \<Rightarrow> True)"

lemma output_bind_bound: "output_bind E out = Inr out' \<Longrightarrow>
    output_bound out' \<and> so_root out' = so_root out \<and> so_pmi out' = so_pmi out \<and>
    (so_boot out' = None \<longleftrightarrow> so_boot out = None)"
  by (auto simp: output_bind_def output_bound_def boot_bind_def bindE_Inr_iff okOr_def mapErr_Inr_iff'
      split: option.splits)

lemma output_select_InrE:
  assumes "output_select E n outputs reader = Inr out"
  obtains (unbound) "select_components E n outputs reader (pl_image (bg_plan (rb_graph (ev_build E)))) = Inr out"
      "so_root out \<noteq> None \<or> so_pmi out \<noteq> None" "so_boot out \<noteq> None \<longrightarrow> so_pmi out \<noteq> None" "output_bound out"
  | (bound) mid where "select_components E n outputs reader (pl_image (bg_plan (rb_graph (ev_build E)))) = Inr mid"
      "so_root mid \<noteq> None \<or> so_pmi mid \<noteq> None" "so_boot mid \<noteq> None \<longrightarrow> so_pmi mid \<noteq> None"
      "output_bind E mid = Inr out"
proof -
  from assms obtain mid where m: "select_components E n outputs reader (pl_image (bg_plan (rb_graph (ev_build E)))) = Inr mid"
    "so_root mid \<noteq> None \<or> so_pmi mid \<noteq> None" "so_boot mid \<noteq> None \<longrightarrow> so_pmi mid \<noteq> None"
    and r: "(case so_root mid of
         None \<Rightarrow> Inr mid
       | Some r \<Rightarrow>
           bindE (okOr RootPanic (root_hash r)) (\<lambda>hash.
             if rt_produced r \<noteq> [] \<or>
                (case so_pmi mid of None \<Rightarrow> False | Some pmi \<Rightarrow> pmi_root pmi \<noteq> Some hash) \<or>
                (case so_boot mid of None \<Rightarrow> False | Some config \<Rightarrow> ib_root config \<noteq> Some hash)
             then output_bind E mid else Inr mid)) = Inr out"
    unfolding output_select_def bindE_Inr_iff failIf_Inr_iff by blast
  show ?thesis
  proof (cases "so_root mid")
    case None
    with m r show ?thesis by (intro unbound) (auto simp: output_bound_def)
  next
    case (Some root)
    with r obtain hash where h: "root_hash root = Some hash" by (auto simp: bindE_Inr_iff okOr_def split: option.splits)
    show ?thesis
    proof (cases "output_bind E mid = Inr out")
      case True
      with m show ?thesis by (rule bound)
    next
      case False
      with r Some h have "out = mid" "case so_boot mid of None \<Rightarrow> True | Some config \<Rightarrow> ib_root config = Some hash"
        by (auto simp: okOr_def split: if_splits option.splits)
      with m Some h show ?thesis by (intro unbound) (auto simp: output_bound_def split: option.splits)
    qed
  qed
qed

lemma output_select_bound:
  assumes "output_select E n outputs reader = Inr out"
  shows "output_bound out \<and> (so_root out \<noteq> None \<or> so_pmi out \<noteq> None) \<and> (so_boot out \<noteq> None \<longrightarrow> so_pmi out \<noteq> None)"
  using assms by (rule output_select_InrE) (auto dest!: output_bind_bound)


section \<open>The layers of a root follow one another\<close>

text \<open>The hash under the produced layers: that of the base, or of no layers at all.\<close>

definition base_hash :: "root \<Rightarrow> byte list option" where
  "base_hash r = (case rt_base r of None \<Rightarrow> Some zero_root | Some c \<Rightarrow> checked_root c)"

fun layers_linked :: "byte list option \<Rightarrow> sealed_scute list \<Rightarrow> bool" where
  "layers_linked parent [] \<longleftrightarrow> True"
| "layers_linked parent (s # ss) \<longleftrightarrow> parent = Some (ss_parent s) \<and> layers_linked (Some (ss_root s)) ss"

definition root_linked :: "root \<Rightarrow> bool" where
  "root_linked r \<longleftrightarrow> root_hash r \<noteq> None \<and> base_hash r \<noteq> None \<and> layers_linked (base_hash r) (rt_produced r)"

text \<open>
  What the sealing of a layer promises (\<open>seal_snapshot(parent, ..)\<close>): its parent is the
  root it was made on, or no root for a layer that was formatted.
\<close>

definition worker_seals :: "worker \<Rightarrow> bool" where
  "worker_seals w \<longleftrightarrow> (\<forall>outputs stage source scute. wk_stage w outputs stage source = Inr scute \<longrightarrow>
     root_hash source \<noteq> None \<longrightarrow> Some (ss_parent scute) = (if sg_format stage \<noteq> None then Some zero_root else root_hash source))"

definition output_linked :: "stage_output \<Rightarrow> bool" where
  "output_linked out \<longleftrightarrow> (case so_root out of None \<Rightarrow> True | Some r \<Rightarrow> root_linked r)"

lemma layers_linked_append:
  "layers_linked parent (xs @ [s]) \<longleftrightarrow> layers_linked parent xs \<and>
     Some (ss_parent s) = (if xs = [] then parent else Some (ss_root (last xs)))"
  by (induction xs arbitrary: parent) auto

lemma root_linked_add:
  assumes "root_linked r" "Some (ss_parent s) = root_hash r"
  shows "root_linked \<lparr>rt_base = rt_base r, rt_produced = rt_produced r @ [s]\<rparr>"
  using assms
  by (auto simp: root_linked_def layers_linked_append base_hash_def root_hash_def split: option.splits if_splits)

lemma output_resolve_linked:
  assumes "output_resolve E n outputs reference = Inr out"
    and "list_all (\<lambda>(name, out). output_linked out) outputs"
  shows "output_linked out"
proof (cases reference)
  case (Local name)
  with assms show ?thesis by (auto simp: okOr_def list_all_iff split: option.splits dest: map_of_SomeD)
next
  case (RemoteImage remote)
  with assms(1) obtain c where "output_remote E n c = Inr out" by (auto simp: bindE_Inr_iff)
  then show ?thesis
    by (auto simp: output_remote_def Let_def bindE_Inr_iff output_linked_def root_linked_def root_hash_def base_hash_def
        split: option.splits if_splits)
qed

lemma bt_insert_list_all:
  "list_all P m \<Longrightarrow> P (k, v) \<Longrightarrow> list_all P (bt_insert k v m)"
  by (induction k v m rule: bt_insert.induct) auto

lemma produce_stage_linked:
  assumes "produce_stage E outputs stage source input = Inr out" "worker_seals (ev_worker E)" "root_linked source"
  shows "output_linked out"
proof -
  from assms(1) obtain scute where s: "wk_stage (ev_worker E) outputs stage source = Inr scute"
    by (auto simp: produce_stage_def bindE_Inr_iff mapErr_Inr_iff')
  with assms(2) have p: "Some (ss_parent scute) = (if sg_format stage \<noteq> None then Some zero_root else root_hash source)"
    using assms(3) unfolding worker_seals_def root_linked_def by blast
  show ?thesis
  proof (cases "sg_format stage")
    case (Some f)
    with assms(1) s p show ?thesis
      by (auto simp: produce_stage_def mapErr_def output_linked_def root_linked_def root_hash_def base_hash_def)
  next
    case None
    with p have "Some (ss_parent scute) = root_hash source" by simp
    from root_linked_add [OF assms(3) this] assms(1) s None show ?thesis
      by (auto simp: produce_stage_def mapErr_def output_linked_def dest!: output_bind_bound)
  qed
qed

lemma execute_stages_linked:
  "foldE (execute_stage E) (n, outputs) names = Inr (n', outputs') \<Longrightarrow> worker_seals (ev_worker E) \<Longrightarrow>
     list_all (\<lambda>(name, out). output_linked out) outputs \<Longrightarrow> list_all (\<lambda>(name, out). output_linked out) outputs'"
proof (induction names arbitrary: n outputs)
  case (Cons name names)
  from Cons.prems(1) obtain st where e: "execute_stage E (n, outputs) name = Inr st"
    and rest: "foldE (execute_stage E) st names = Inr (n', outputs')" by (auto split: sum.splits)
  from e obtain input source out where o:
    "output_resolve E n outputs (sg_from (stage_of (bg_plan (rb_graph (ev_build E))) name)) = Inr input"
    "so_root input = Some source"
    "produce_stage E outputs (stage_of (bg_plan (rb_graph (ev_build E))) name) source (input\<lparr>so_root := None\<rparr>) = Inr out"
    "st = (n + 1, bt_insert name out outputs)"
    by (auto simp: execute_stage_def Let_def bindE_Inr_iff mapErr_Inr_iff' okOr_def split: option.splits)
  have "output_linked input" by (rule output_resolve_linked [OF o(1) Cons.prems(3)])
  then have "root_linked source" using o(2) by (simp add: output_linked_def)
  then have "output_linked out" by (rule produce_stage_linked [OF o(3) Cons.prems(2)])
  then have "list_all (\<lambda>(name, out). output_linked out) (snd st)"
    using Cons.prems(3) o(4) by (simp add: bt_insert_list_all)
  from Cons.IH [of "fst st" "snd st"] rest Cons.prems(2) this show ?case by simp
qed simp

lemma output_select_linked:
  assumes "output_select E n outputs reader = Inr out" "list_all (\<lambda>(name, out). output_linked out) outputs"
  shows "output_linked out"
proof -
  from assms(1) obtain mid where m:
    "select_components E n outputs reader (pl_image (bg_plan (rb_graph (ev_build E)))) = Inr mid"
    "out = mid \<or> output_bind E mid = Inr out"
    by (rule output_select_InrE) (use assms(1) in auto)
  have "output_linked mid"
  proof (cases "pl_image (bg_plan (rb_graph (ev_build E)))")
    case (ImageShorthand reference)
    with m(1) have "output_resolve E n outputs reference = Inr mid" by (simp add: select_components_def)
    then show ?thesis by (rule output_resolve_linked [OF _ assms(2)])
  next
    case (ImageComponents root boot)
    with m(1) show ?thesis using output_resolve_linked [OF _ assms(2)]
      by (fastforce simp: select_components_def bindE_Inr_iff output_linked_def okOr_def split: option.splits prod.splits)
  qed
  with m(2) show ?thesis by (auto simp: output_linked_def dest!: output_bind_bound)
qed


section \<open>An example\<close>

definition sample_pins :: image_lock where
  "sample_pins = [(reference_of hex_ref (Remote ''registry.test'' ''base'' (RefTag ''1'')), IndexDigest (replicate 32 1))]"

definition example_graph :: build_graph where
  "example_graph = projr (build_graph_new hex_ref sample_plan sample_pins)"

definition example_build :: resolved_build where
  "example_build = projr (captured_resolve hex_ref sum_sha bootable_json ''aarch64'' example_graph
     (staged_cache bootable_staging))"

definition example_worker :: worker where
  "example_worker =
     \<lparr>wk_stage = (\<lambda>outputs stage source. Inr
        \<lparr>ss_descriptor = \<lparr>sd_digest = ''sha256:00'', sd_size = 1,
           sd_annotations = \<lparr>sa_data_blocks = 1, sa_salt = ''00''\<rparr>\<rparr>,
         ss_root = replicate 32 9,
         ss_parent = (if sg_format stage \<noteq> None then zero_root
           else (case root_hash source of None \<Rightarrow> [] | Some h \<Rightarrow> h))\<rparr>),
      wk_extract = (\<lambda>r path. Inl ''no file'')\<rparr>"

definition example_env :: "worker \<Rightarrow> env" where
  "example_env w =
     \<lparr>ev_hex = hex_ref, ev_zstd = zstd_ref, ev_sha = sum_sha, ev_build = example_build, ev_worker = w\<rparr>"

definition broken_worker :: worker where
  "broken_worker = example_worker\<lparr>wk_stage := (\<lambda>outputs stage source. Inl ''killed'')\<rparr>"

lemma projr_ok: "isOk r \<Longrightarrow> r = Inr (projr r)"
  by (cases r) auto

lemma example_graph_ok: "build_graph_new hex_ref sample_plan sample_pins = Inr example_graph"
  unfolding example_graph_def by (rule projr_ok) code_simp

lemma example_build_ok:
  "captured_resolve hex_ref sum_sha bootable_json ''aarch64'' example_graph (staged_cache bootable_staging) = Inr example_build"
  unfolding example_build_def by (rule projr_ok) code_simp

lemma components_available_witness:
  "pipeline_output (example_env broken_worker) = Inl (InStage (StageRef ''base'') (WorkFailed ''killed'')) \<and>
   \<not> component_error (InStage (StageRef ''base'') (WorkFailed ''killed''))"
proof -
  have e: "pipeline_output (example_env broken_worker) = Inl (InStage (StageRef ''base'') (WorkFailed ''killed''))"
    by code_simp
  have "build_graph_new (ev_hex (example_env broken_worker)) sample_plan sample_pins = Inr example_graph"
    and "captured_resolve (ev_hex (example_env broken_worker)) sum_sha bootable_json ''aarch64'' example_graph
      (staged_cache bootable_staging) = Inr (ev_build (example_env broken_worker))"
    using example_graph_ok example_build_ok by (simp_all add: example_env_def)
  from components_available [OF sample_plan_accepted this e] e show ?thesis by blast
qed

definition example_output :: stage_output where
  "example_output = projr (pipeline_output (example_env example_worker))"

lemma example_output_ok: "pipeline_output (example_env example_worker) = Inr example_output"
  unfolding example_output_def by (rule projr_ok) code_simp



end
