(* ===== verification/Manifest_Wire.thy ===== *)
theory Manifest_Wire
  imports Artifact_Manifest Serde_Model
begin

text \<open>
  Manifests, layers and indexes as trees of values: the derived \<open>Serialize\<close> and
  \<open>Deserialize\<close> of \<open>artifact/manifest.rs\<close> and \<open>artifact/index.rs\<close>.  These types
  accept unknown fields.  A layer is tagged by its media type among its own fields.
  \<open>to_value\<close> is the tree as the JSON library holds it: its objects are ordered by name.
\<close>

fun to_value :: "sval \<Rightarrow> sval" where
  "to_value (SMap fs) = SMap (bt_of_list (map (\<lambda>(k, v). (k, to_value v)) fs))"
| "to_value (SSeq vs) = SSeq (map to_value vs)"
| "to_value v = v"

fun value_field :: "sval \<Rightarrow> string \<Rightarrow> sval option" where
  "value_field (SMap fs) k = map_of fs k"
| "value_field _ k = None"

definition lax_fields :: "sval \<Rightarrow> string + (string \<times> sval) list" where
  "lax_fields v = (case v of SMap fs \<Rightarrow> Inr fs | _ \<Rightarrow> Inl ''expected a map'')"

section \<open>Writing\<close>

definition en_config_descriptor :: "config_descriptor encoder" where
  "en_config_descriptor c =
     SMap ([(''mediaType'', SStr (cd_media_type c)), (''digest'', SStr (cd_digest c)), (''size'', SNum (cd_size c))] @
       opt_field ''data'' SStr (cd_data c))"

definition en_scute_annotations :: "scute_annotations encoder" where
  "en_scute_annotations a =
     SMap [(''dev.pichi.scute.verity.data-blocks'', SStr (serialize_blocks (sa_data_blocks a))),
       (''dev.pichi.scute.verity.salt'', SStr (sa_salt a))]"

fun layer_fields :: "layer \<Rightarrow> (string \<times> sval) list" where
  "layer_fields (Scute d) = [(''digest'', SStr (sd_digest d)), (''size'', SNum (sd_size d)),
     (''annotations'', en_scute_annotations (sd_annotations d))]"
| "layer_fields (ScuteZstd d) = [(''digest'', SStr (sd_digest d)), (''size'', SNum (sd_size d)),
     (''annotations'', en_scute_annotations (sd_annotations d))]"
| "layer_fields (Pmi d) = [(''digest'', SStr (pd_digest d)), (''size'', SNum (pd_size d))]"
| "layer_fields (PmiZstd d) = [(''digest'', SStr (pd_digest d)), (''size'', SNum (pd_size d))]"
| "layer_fields (BootConfigLayer d) = [(''digest'', SStr (bd_digest d)), (''size'', SNum (bd_size d))]"

definition en_layer :: "layer encoder" where
  "en_layer l = SMap ((''mediaType'', SStr (layer_media_type l)) # layer_fields l)"

definition en_platform :: "platform encoder" where
  "en_platform p = SMap ([(''os'', SStr (pf_os p)), (''architecture'', SStr (pf_architecture p))] @
     opt_field ''variant'' SStr (pf_variant p))"

definition annotations_field :: "(string, string) btree \<Rightarrow> (string \<times> sval) list" where
  "annotations_field m = (if m = [] then [] else [(''annotations'', en_btree SStr m)])"

definition en_index_descriptor :: "index_descriptor encoder" where
  "en_index_descriptor d = SMap ([(''mediaType'', SStr (ix_media_type d))] @
     opt_field ''artifactType'' SStr (ix_artifact_type d) @
     [(''digest'', SStr (ix_digest d)), (''size'', SNum (ix_size d))] @
     opt_field ''platform'' en_platform (ix_platform d) @ annotations_field (ix_annotations d))"

definition en_index :: "index encoder" where
  "en_index ix = SMap [(''schemaVersion'', SNum (ix_schema_version ix)),
     (''mediaType'', SStr (ix_index_media_type ix)),
     (''manifests'', SSeq (map en_index_descriptor (ix_manifests ix)))]"

definition en_layout_marker :: "string encoder" where
  "en_layout_marker version = SMap [(''imageLayoutVersion'', SStr version)]"

section \<open>Reading\<close>

definition de_config_descriptor :: "config_descriptor decoder" where
  "de_config_descriptor v =
     bindE (lax_fields v) (\<lambda>fs.
     bindE (field_required de_string fs ''mediaType'') (\<lambda>media.
     bindE (field_required de_string fs ''digest'') (\<lambda>digest.
     bindE (field_required (de_uint u64_max) fs ''size'') (\<lambda>n.
     bindE (field_optional de_string fs ''data'') (\<lambda>data.
       Inr \<lparr>cd_media_type = media, cd_digest = digest, cd_size = n, cd_data = data\<rparr>)))))"

definition de_blocks :: "nat decoder" where
  "de_blocks v = bindE (de_string v) deserialize_blocks"

definition de_scute_annotations :: "scute_annotations decoder" where
  "de_scute_annotations v =
     bindE (lax_fields v) (\<lambda>fs.
     bindE (field_required de_blocks fs ''dev.pichi.scute.verity.data-blocks'') (\<lambda>blocks.
     bindE (field_required de_string fs ''dev.pichi.scute.verity.salt'') (\<lambda>salt.
       Inr \<lparr>sa_data_blocks = blocks, sa_salt = salt\<rparr>)))"

definition de_scute :: "(string \<times> sval) list \<Rightarrow> string + scute_descriptor" where
  "de_scute fs =
     bindE (field_required de_string fs ''digest'') (\<lambda>digest.
     bindE (field_required (de_uint u64_max) fs ''size'') (\<lambda>n.
     bindE (field_required de_scute_annotations fs ''annotations'') (\<lambda>a.
       Inr \<lparr>sd_digest = digest, sd_size = n, sd_annotations = a\<rparr>)))"

definition de_blob :: "(string \<times> sval) list \<Rightarrow> string + string \<times> nat" where
  "de_blob fs =
     bindE (field_required de_string fs ''digest'') (\<lambda>digest.
     bindE (field_required (de_uint u64_max) fs ''size'') (\<lambda>n. Inr (digest, n)))"

definition de_layer :: "layer decoder" where
  "de_layer v =
     bindE (lax_fields v) (\<lambda>fs.
     bindE (field_required de_string fs ''mediaType'') (\<lambda>tag.
       if tag = mt_scute then bindE (de_scute fs) (\<lambda>d. Inr (Scute d))
       else if tag = mt_scute_zstd then bindE (de_scute fs) (\<lambda>d. Inr (ScuteZstd d))
       else if tag = mt_pmi then bindE (de_blob fs) (\<lambda>(d, n). Inr (Pmi \<lparr>pd_digest = d, pd_size = n\<rparr>))
       else if tag = mt_pmi_zstd then bindE (de_blob fs) (\<lambda>(d, n). Inr (PmiZstd \<lparr>pd_digest = d, pd_size = n\<rparr>))
       else if tag = mt_bootconfig
       then bindE (de_blob fs) (\<lambda>(d, n). Inr (BootConfigLayer \<lparr>bd_digest = d, bd_size = n\<rparr>))
       else Inl ''unknown variant''))"

definition de_manifest :: "manifest decoder" where
  "de_manifest v =
     bindE (lax_fields v) (\<lambda>fs.
     bindE (field_required (de_uint u32_max) fs ''schemaVersion'') (\<lambda>version.
     bindE (field_required de_string fs ''mediaType'') (\<lambda>media.
     bindE (field_required de_string fs ''artifactType'') (\<lambda>artifact.
     bindE (field_required de_config_descriptor fs ''config'') (\<lambda>config.
     bindE (field_required (de_seq de_layer) fs ''layers'') (\<lambda>layers.
     bindE (field_default [] (de_btree de_string) fs ''annotations'') (\<lambda>annotations.
       Inr \<lparr>mf_schema_version = version, mf_media_type = media, mf_artifact_type = artifact,
            mf_config = config, mf_layers = layers, mf_annotations = annotations\<rparr>)))))))"

definition de_platform :: "platform decoder" where
  "de_platform v =
     bindE (lax_fields v) (\<lambda>fs.
     bindE (field_required de_string fs ''os'') (\<lambda>os.
     bindE (field_required de_string fs ''architecture'') (\<lambda>arch.
     bindE (field_optional de_string fs ''variant'') (\<lambda>variant.
       Inr \<lparr>pf_os = os, pf_architecture = arch, pf_variant = variant\<rparr>))))"

definition de_index_descriptor :: "index_descriptor decoder" where
  "de_index_descriptor v =
     bindE (lax_fields v) (\<lambda>fs.
     bindE (field_required de_string fs ''mediaType'') (\<lambda>media.
     bindE (field_optional de_string fs ''artifactType'') (\<lambda>artifact.
     bindE (field_required de_string fs ''digest'') (\<lambda>digest.
     bindE (field_required (de_uint u64_max) fs ''size'') (\<lambda>n.
     bindE (field_optional de_platform fs ''platform'') (\<lambda>platform.
     bindE (field_default [] (de_btree de_string) fs ''annotations'') (\<lambda>annotations.
       Inr \<lparr>ix_media_type = media, ix_artifact_type = artifact, ix_digest = digest, ix_size = n,
            ix_platform = platform, ix_annotations = annotations\<rparr>)))))))"

definition de_index :: "index decoder" where
  "de_index v =
     bindE (lax_fields v) (\<lambda>fs.
     bindE (field_required (de_uint u32_max) fs ''schemaVersion'') (\<lambda>version.
     bindE (field_required de_string fs ''mediaType'') (\<lambda>media.
     bindE (field_required (de_seq de_index_descriptor) fs ''manifests'') (\<lambda>manifests.
       Inr \<lparr>ix_schema_version = version, ix_index_media_type = media, ix_manifests = manifests\<rparr>))))"

definition de_layout_marker :: "string decoder" where
  "de_layout_marker v =
     bindE (struct_fields [''imageLayoutVersion''] v) (\<lambda>fs. field_required de_string fs ''imageLayoutVersion'')"

section \<open>A layer is read back from its value\<close>

lemma bt_of_list_get:
  "distinct (map fst fs) \<Longrightarrow> map_of (bt_of_list fs) k = map_of fs k"
proof -
  have "map_of (foldl (\<lambda>m (k, v). bt_insert k v m) m fs) k =
      (case map_of fs k of Some v \<Rightarrow> Some v | None \<Rightarrow> map_of m k)"
    if "distinct (map fst fs)" for m :: "('a::linorder \<times> 'b) list" and fs
    using that
    by (induction fs arbitrary: m)
       (auto simp: map_of_eq_None_iff [symmetric] split: option.splits prod.splits)
  from this [of fs "[]"] show "distinct (map fst fs) \<Longrightarrow> map_of (bt_of_list fs) k = map_of fs k"
    by (auto simp: bt_of_list_def split: option.splits)
qed

lemma to_value_fields:
  assumes "distinct (map fst fs)"
  shows "\<exists>gs. to_value (SMap fs) = SMap gs \<and> (\<forall>k. map_of gs k = map_option to_value (map_of fs k))"
proof -
  have "map_of (map (\<lambda>(k, v). (k, to_value v)) fs) k = map_option to_value (map_of fs k)" for k
    by (simp add: map_of_map)
  moreover have "distinct (map fst (map (\<lambda>(k, v). (k, to_value v)) fs))"
    using assms by (simp add: comp_def case_prod_unfold)
  ultimately show ?thesis by (simp add: bt_of_list_get)
qed

definition layer_wf :: "layer \<Rightarrow> bool" where
  "layer_wf l \<longleftrightarrow> layer_size l \<le> u64_max \<and>
     (case layer_scute l of None \<Rightarrow> True
      | Some (_, d) \<Rightarrow> 0 < sa_data_blocks (sd_annotations d) \<and> sa_data_blocks (sd_annotations d) \<le> u64_max)"

lemma de_scute_annotations_en:
  assumes "0 < sa_data_blocks a" "sa_data_blocks a \<le> u64_max"
  shows "de_scute_annotations (to_value (en_scute_annotations a)) = Inr a"
proof -
  let ?fs = "[(''dev.pichi.scute.verity.data-blocks'', SStr (serialize_blocks (sa_data_blocks a))),
       (''dev.pichi.scute.verity.salt'', SStr (sa_salt a))]"
  have "distinct (map fst ?fs)" by simp
  from to_value_fields [OF this] obtain gs where g: "to_value (en_scute_annotations a) = SMap gs"
    "\<And>k. map_of gs k = map_option to_value (map_of ?fs k)" by (auto simp: en_scute_annotations_def)
  have "deserialize_blocks (serialize_blocks (sa_data_blocks a)) = Inr (sa_data_blocks a)"
    using data_blocks.dec_enc assms by blast
  then show ?thesis
    by (simp add: g de_scute_annotations_def lax_fields_def field_required_def de_blocks_def de_string_def)
qed

lemma de_layer_en:
  assumes "layer_wf l"
  shows "de_layer (to_value (en_layer l)) = Inr l"
proof -
  have "distinct (map fst ((''mediaType'', SStr (layer_media_type l)) # layer_fields l))"
    by (cases l) simp_all
  from to_value_fields [OF this] obtain gs where g: "to_value (en_layer l) = SMap gs"
    "\<And>k. map_of gs k = map_option to_value (map_of ((''mediaType'', SStr (layer_media_type l)) # layer_fields l) k)"
    by (auto simp: en_layer_def)
  note tags = mt_scute_def mt_scute_zstd_def mt_pmi_def mt_pmi_zstd_def mt_bootconfig_def
  show ?thesis
    using assms g
    by (cases l)
       (simp_all add: de_layer_def lax_fields_def field_required_def de_string_def tags de_scute_def de_blob_def
          de_uint_def layer_wf_def de_scute_annotations_en)
qed

section \<open>An index is read back from its value\<close>

lemma en_platform_object: "en_platform p \<noteq> SNull"
  by (simp add: en_platform_def)

lemma de_platform_en: "de_platform (en_platform p) = Inr p"
  by (cases "pf_variant p")
     (simp_all add: de_platform_def en_platform_def lax_fields_def field_required_def de_string_def
        field_optional_def field_default_def opt_field_def de_option_def)

definition index_descriptor_wf :: "index_descriptor \<Rightarrow> bool" where
  "index_descriptor_wf d \<longleftrightarrow> ix_size d \<le> u64_max \<and> bt_wf (ix_annotations d)"

lemma de_index_descriptor_en:
  assumes "index_descriptor_wf d"
  shows "de_index_descriptor (en_index_descriptor d) = Inr d"
proof -
  let ?fs = "[(''mediaType'', SStr (ix_media_type d))] @
     opt_field ''artifactType'' SStr (ix_artifact_type d) @
     [(''digest'', SStr (ix_digest d)), (''size'', SNum (ix_size d))] @
     opt_field ''platform'' en_platform (ix_platform d) @ annotations_field (ix_annotations d)"
  have a: "map_of (annotations_field m) k =
      (if k = ''annotations'' \<and> m \<noteq> [] then Some (en_btree SStr m) else None)" for m k
    by (simp add: annotations_field_def)
  have "field_required de_string ?fs ''mediaType'' = Inr (ix_media_type d)"
    and "field_required de_string ?fs ''digest'' = Inr (ix_digest d)"
    and "field_required (de_uint u64_max) ?fs ''size'' = Inr (ix_size d)"
    using assms
    by (simp_all add: field_required_def de_string_def de_uint_def index_descriptor_wf_def serde_simps a)
  moreover have "field_optional de_string ?fs ''artifactType'' = Inr (ix_artifact_type d)"
    by (rule field_optional_opt [where e = SStr]) (auto simp: serde_simps a split: option.splits)
  moreover have "field_optional de_platform ?fs ''platform'' = Inr (ix_platform d)"
    by (rule field_optional_opt [where e = en_platform])
       (auto simp: serde_simps a de_platform_en en_platform_object split: option.splits)
  moreover have "field_default [] (de_btree de_string) ?fs ''annotations'' = Inr (ix_annotations d)"
    using assms by (auto simp: field_default_def serde_simps a index_descriptor_wf_def de_btree_en)
  ultimately show ?thesis
    unfolding de_index_descriptor_def en_index_descriptor_def lax_fields_def by simp
qed

lemma de_index_en:
  assumes "ix_schema_version ix \<le> u32_max" "list_all index_descriptor_wf (ix_manifests ix)"
  shows "de_index (en_index ix) = Inr ix"
  using assms
  by (simp add: de_index_def en_index_def lax_fields_def field_required_def de_string_def de_uint_def
      de_seq_map de_index_descriptor_en list_all_iff)

end
