(* ===== verification/Output_Assembly.thy ===== *)
theory Output_Assembly
  imports Pipeline_Output Manifest_Wire
begin

text \<open>
  The assembly of an output image in the staging: \<open>output/assembly.rs\<close>.  The manifest of
  the selected base is edited as a JSON value, so that fields this program does not know
  are kept.  The JSON library reads and writes values: the record \<open>codec\<close>.  A JSON object
  is the list of its fields in the order of their names.  The view of the staging through
  the cache reader, which resolves the result, is the parameter \<open>view\<close>.
\<close>

record codec =
  jv_read :: "byte list \<Rightarrow> string + sval"
  jv_write :: "sval \<Rightarrow> byte list"

datatype assembly_error =
    AssemblyCache cache_error
  | AssemblyJson string
  | InvalidAnnotations
  | DigestUnreadable
  | BaseWithoutScutes
  | ScuteParent
  | RootAncestry
  | IncompatibleVerity string
  | UnreadableAnnotation
  | ConfigWithoutPmi
  | AssemblyPanic string
  | RootChanged
  | UnsupportedCommit
  | PathNotText

type_synonym 'a assembly_op = "staged \<Rightarrow> (assembly_error + 'a) \<times> staged"

definition op_err :: "('e \<Rightarrow> 'f) \<Rightarrow> ('s \<Rightarrow> ('e + 'a) \<times> 's) \<Rightarrow> 's \<Rightarrow> ('f + 'a) \<times> 's" where
  "op_err g m s = (case m s of (r, s') \<Rightarrow> (mapErr g r, s'))"

fun op_fold :: "('b \<Rightarrow> 'a \<Rightarrow> 's \<Rightarrow> ('e + 'b) \<times> 's) \<Rightarrow> 'b \<Rightarrow> 'a list \<Rightarrow> 's \<Rightarrow> ('e + 'b) \<times> 's" where
  "op_fold f b [] = op_return b"
| "op_fold f b (x # xs) = op_bind (f b x) (\<lambda>b'. op_fold f b' xs)"

type_synonym object = "(string, sval) btree"

record assembly =
  ab_hex :: hexlib
  ab_sha :: sha256
  ab_json :: json
  ab_codec :: codec
  ab_host :: string
  ab_cache :: cache
  ab_view :: "staged \<Rightarrow> cache"

definition as_object :: "string \<Rightarrow> sval \<Rightarrow> assembly_error + object" where
  "as_object message v = (case v of SMap fs \<Rightarrow> Inr fs | _ \<Rightarrow> Inl (AssemblyPanic message))"

definition verity_defaults :: "(string \<times> nat) list" where
  "verity_defaults = [(key_data_block_size, 4096), (key_hash_block_size, 4096),
     (key_verity_version, 1), (key_hash_type, 1)]"

definition set_tip_annotation :: "hexlib \<Rightarrow> byte list \<Rightarrow> object \<Rightarrow> object" where
  "set_tip_annotation H root annotations =
     bt_insert key_root (SStr (digest_display H (Sha256 root))) (bt_delete key_algo annotations)"

section \<open>Resolving the staging\<close>

definition output_index :: "hexlib \<Rightarrow> digest \<Rightarrow> nat \<Rightarrow> host_architecture \<Rightarrow> index" where
  "output_index H digest extent arch = index_default\<lparr>ix_manifests :=
     [\<lparr>ix_media_type = mt_manifest, ix_artifact_type = Some mt_artifact,
       ix_digest = digest_display H digest, ix_size = extent,
       ix_platform = Some \<lparr>pf_os = ''pichi'', pf_architecture = oci_name arch, pf_variant = None\<rparr>,
       ix_annotations = []\<rparr>]\<rparr>"

text \<open>\<open>remove_file\<close>: the system call, then the file is gone; a missing file is an error.\<close>

definition remove_blob :: "string \<Rightarrow> unit op" where
  "remove_blob name = op_bind sys (\<lambda>_ s.
     case bt_get (sg_blobs s) name of
       None \<Rightarrow> (Inl (CacheIo (OsError ''ENOENT'')), s)
     | Some _ \<Rightarrow> (Inr (), s\<lparr>sg_blobs := bt_delete name (sg_blobs s)\<rparr>))"

definition resolve_staging :: "assembly \<Rightarrow> byte list \<Rightarrow> host_architecture \<Rightarrow> resolved_image op" where
  "resolve_staging A manifest arch =
     (let H = ab_hex A; sha = ab_sha A in
      op_bind (store_blob H sha manifest) (\<lambda>digest.
      let bytes = jv_write (ab_codec A) (en_index (output_index H digest (length manifest) arch)) in
      op_bind (store_blob H sha bytes) (\<lambda>index_digest.
      op_bind (op_lift (mapErr (\<lambda>_. CacheInvalid ''invalid output index digest'')
                 (index_digest_parse H (digest_display H index_digest)))) (\<lambda>pin.
      op_bind (write_file (Top ''index.json'') bytes) (\<lambda>_.
      op_bind (write_file (Top ''oci-layout'')
                 (jv_write (ab_codec A) (en_layout_marker layout_marker_default))) (\<lambda>_.
      op_bind sys (\<lambda>_.
      op_bind (\<lambda>s. (cache_resolve H sha (ab_json A) (ab_host A) (ab_view A s) pin, s)) (\<lambda>img.
      op_bind (\<lambda>s. (verify_metadata H sha (later 2 (ab_view A s)) img, s)) (\<lambda>_.
      op_bind (remove_blob (digest_hex H (Sha256 (sha bytes)))) (\<lambda>_.
        op_return img))))))))))"

section \<open>The parts of the manifest\<close>

definition parse_any :: "hexlib \<Rightarrow> string \<Rightarrow> assembly_error + digest" where
  "parse_any H s = mapErr (\<lambda>_. DigestUnreadable) (digest_from_str H s)"

definition output_metadata :: "stage_output \<Rightarrow> checked_image option" where
  "output_metadata out =
     (case so_root out of Some r \<Rightarrow> rt_base r | None \<Rightarrow> Option.bind (so_pmi out) pmi_inherited)"

definition fresh_manifest :: sval where
  "fresh_manifest = to_value (SMap
     [(''schemaVersion'', SNum 2), (''mediaType'', SStr mt_manifest), (''artifactType'', SStr mt_artifact),
      (''config'', en_config_descriptor config_descriptor_canonical), (''layers'', SSeq [])])"

definition manifest_value :: "codec \<Rightarrow> checked_image \<Rightarrow> assembly_error + sval" where
  "manifest_value C c = mapErr AssemblyJson (jv_read C (vm_bytes (ri_manifest_bytes (ci_image c))))"

definition empty_object_bytes :: "byte list" where
  "empty_object_bytes = [123, 125]"

definition assemble_config ::
    "assembly \<Rightarrow> requirements option \<Rightarrow> checked_image option \<Rightarrow> object \<Rightarrow> object assembly_op" where
  "assemble_config A reqs metadata fs =
     (let H = ab_hex A; sha = ab_sha A in
      case reqs of
        Some r \<Rightarrow>
          let bytes = jv_write (ab_codec A) (en_config (config_default\<lparr>cf_requirements := r\<rparr>)) in
          op_bind (op_err AssemblyCache (store_blob H sha bytes)) (\<lambda>digest.
            op_return (bt_insert ''config''
              (to_value (en_config_descriptor (config_descriptor_for (digest_display H digest) (length bytes)))) fs))
      | None \<Rightarrow>
          let config = map_option (\<lambda>c. mf_config (ri_manifest (ci_image c))) metadata in
          (case config of
             Some c \<Rightarrow>
               if \<not> config_descriptor_is_empty c
               then op_bind (op_lift (parse_any H (cd_digest c))) (\<lambda>digest.
                    op_bind (op_err AssemblyCache (copy_blob H sha (ab_cache A) 0 digest (cd_size c))) (\<lambda>_.
                      op_return fs))
               else op_bind (op_err AssemblyCache (store_blob H sha empty_object_bytes)) (\<lambda>_. op_return fs)
           | None \<Rightarrow> op_bind (op_err AssemblyCache (store_blob H sha empty_object_bytes)) (\<lambda>_. op_return fs)))"

definition manifest_annotations :: "object \<Rightarrow> assembly_error + object" where
  "manifest_annotations fs =
     (case bt_get fs ''annotations'' of
        None \<Rightarrow> Inr [] | Some (SMap m) \<Rightarrow> Inr m | Some _ \<Rightarrow> Inl InvalidAnnotations)"

definition value_layer :: "sval \<Rightarrow> nat \<Rightarrow> sval" where
  "value_layer v i =
     (case value_field v ''layers'' of
        Some (SSeq vs) \<Rightarrow> if i < length vs then vs ! i else SNull | _ \<Rightarrow> SNull)"

text \<open>The layers of the base: every encoded layer is copied while it is checked.\<close>

definition base_layer ::
    "assembly \<Rightarrow> sval \<Rightarrow> sval list \<Rightarrow> nat \<times> layer \<Rightarrow> sval list assembly_op" where
  "base_layer A original layers entry =
     (case entry of (i, layer) \<Rightarrow>
       if layer_is_scute layer
       then op_bind (op_lift (parse_any (ab_hex A) (layer_digest layer))) (\<lambda>digest.
            op_bind (op_err AssemblyCache (copy_blob (ab_hex A) (ab_sha A) (ab_cache A) (i + 1) digest (layer_size layer))) (\<lambda>_.
              op_return (layers @ [value_layer original i])))
       else op_return layers)"

definition install :: "hexlib \<Rightarrow> sealed_scute \<Rightarrow> string option \<Rightarrow> unit op" where
  "install H scute name s = (case install_scute H scute name s of (r, _, s') \<Rightarrow> (r, s'))"

text \<open>A produced layer; \<open>names\<close> gives the temporary name each one still has.\<close>

definition produced_layer ::
    "assembly \<Rightarrow> (nat \<Rightarrow> string option) \<Rightarrow> byte list \<times> sval list \<Rightarrow> nat \<times> sealed_scute \<Rightarrow>
       (byte list \<times> sval list) assembly_op" where
  "produced_layer A names state entry =
     (case (state, entry) of ((parent, layers), (i, scute)) \<Rightarrow>
       op_bind (op_lift (failIf (ss_parent scute \<noteq> parent) ScuteParent)) (\<lambda>_.
       op_bind (op_err AssemblyCache (install (ab_hex A) scute (names i))) (\<lambda>_.
         op_return (ss_root scute, layers @ [to_value (en_layer (ScuteZstd (ss_descriptor scute)))]))))"

definition verity_default ::
    "bool \<Rightarrow> object \<Rightarrow> string \<times> nat \<Rightarrow> assembly_error + object" where
  "verity_default inherited annotations entry =
     (case entry of (key, default_value) \<Rightarrow>
       bindE (case bt_get annotations key of
                None \<Rightarrow> Inr None
              | Some (SStr s) \<Rightarrow> (case parse_uint u32_max s of None \<Rightarrow> Inl UnreadableAnnotation | Some n \<Rightarrow> Inr (Some n))
              | Some _ \<Rightarrow> Inl (AssemblyPanic ''validated annotation'')) (\<lambda>given.
       bindE (failIf (inherited \<and> given \<noteq> None \<and> given \<noteq> Some default_value) (IncompatibleVerity key)) (\<lambda>_.
         Inr (if given = Some default_value then bt_delete key annotations else annotations))))"

definition assemble_root ::
    "assembly \<Rightarrow> (nat \<Rightarrow> string option) \<Rightarrow> root \<Rightarrow> object \<Rightarrow> (object \<times> sval list) assembly_op" where
  "assemble_root A names r annotations =
     op_bind (case rt_base r of
         None \<Rightarrow> op_return (zero_root, [])
       | Some base \<Rightarrow>
           op_bind (op_lift (manifest_value (ab_codec A) base)) (\<lambda>original.
           op_bind (op_fold (base_layer A original) [] (enumerate 0 (checked_layers base))) (\<lambda>layers.
           op_bind (op_lift (okOr BaseWithoutScutes (checked_root base))) (\<lambda>parent.
             op_return (parent, layers))))) (\<lambda>start.
     op_bind (op_fold (produced_layer A names) start (enumerate 0 (rt_produced r))) (\<lambda>(parent, layers).
     op_bind (op_lift (okOr (AssemblyPanic ''selected root'') (root_hash r))) (\<lambda>hash.
     op_bind (op_lift (failIf (parent \<noteq> hash) RootAncestry)) (\<lambda>_.
     op_bind (op_lift (foldE (verity_default (rt_base r \<noteq> None \<and> rt_produced r \<noteq> [])) annotations verity_defaults)) (\<lambda>annotations.
       op_return (set_tip_annotation (ab_hex A) parent annotations, layers))))))"

definition pmi_store :: "assembly \<Rightarrow> nat \<Rightarrow> pmi \<Rightarrow> layer assembly_op" where
  "pmi_store A n p =
     op_bind (op_lift (okOr (AssemblyPanic ''selected PMI'') (pmi_layer p))) (\<lambda>layer.
     op_bind (op_lift (parse_any (ab_hex A) (layer_digest layer))) (\<lambda>digest.
     op_bind (op_err AssemblyCache
        (case p of
           PmiInherited _ \<Rightarrow> copy_blob (ab_hex A) (ab_sha A) (ab_cache A) n digest (layer_size layer)
         | PmiFile f \<Rightarrow> store_verified (ab_hex A) (ab_sha A) (fw_reader f) digest (layer_size layer))) (\<lambda>_.
       op_return layer)))"

definition assemble_boot :: "assembly \<Rightarrow> stage_output \<Rightarrow> sval list \<Rightarrow> sval list assembly_op" where
  "assemble_boot A out layers =
     (case so_boot out of
        None \<Rightarrow> op_return layers
      | Some config \<Rightarrow>
          if ib_bytes config = [] then op_return layers
          else op_bind (op_lift (failIf (so_pmi out = None) ConfigWithoutPmi)) (\<lambda>_.
               op_bind (op_err AssemblyCache (store_blob (ab_hex A) (ab_sha A) (ib_bytes config))) (\<lambda>digest.
                 op_return (layers @ [to_value (en_layer (BootConfigLayer
                   \<lparr>bd_digest = digest_display (ab_hex A) digest, bd_size = length (ib_bytes config)\<rparr>))]))))"

definition carapace_prefix :: string where "carapace_prefix = ''dev.pichi.carapace.''"

text \<open>The closure of \<open>in_staging\<close>, and the function: an error discards the staging.\<close>

definition assemble ::
    "assembly \<Rightarrow> (nat \<Rightarrow> string option) \<Rightarrow> stage_output \<Rightarrow> requirements option \<Rightarrow> resolved_image assembly_op" where
  "assemble A names out reqs =
     (let metadata = output_metadata out in
      op_bind (op_lift (case metadata of Some c \<Rightarrow> manifest_value (ab_codec A) c | None \<Rightarrow> Inr fresh_manifest)) (\<lambda>v.
      op_bind (op_lift (as_object ''manifest object'' v)) (\<lambda>fs.
      op_bind (assemble_config A reqs metadata fs) (\<lambda>fs.
      op_bind (op_lift (manifest_annotations fs)) (\<lambda>annotations.
      let annotations = (if so_root out = None
            then filter (\<lambda>(name, _). \<not> starts_with carapace_prefix name) annotations else annotations) in
      op_bind (case so_root out of None \<Rightarrow> op_return (annotations, [])
               | Some r \<Rightarrow> assemble_root A names r annotations) (\<lambda>(annotations, layers).
      op_bind (case so_pmi out of None \<Rightarrow> op_return layers
               | Some p \<Rightarrow> op_bind (pmi_store A (length layers + 1) p) (\<lambda>layer.
                   op_return (layers @ [to_value (en_layer layer)]))) (\<lambda>layers.
      op_bind (assemble_boot A out layers) (\<lambda>layers.
      op_bind (op_lift (mapErr AssemblyCache (host_current (ab_host A)))) (\<lambda>arch.
        op_err AssemblyCache (resolve_staging A
          (jv_write (ab_codec A)
             (SMap (bt_insert ''layers'' (SSeq layers) (bt_insert ''annotations'' (SMap annotations) fs)))) arch))))))))))"

definition in_staging ::
    "assembly \<Rightarrow> (nat \<Rightarrow> string option) \<Rightarrow> stage_output \<Rightarrow> requirements option \<Rightarrow> staged \<Rightarrow>
       assembly_error + resolved_image \<times> staged" where
  "in_staging A names out reqs s =
     (case assemble A names out reqs s of (Inl e, _) \<Rightarrow> Inl e | (Inr img, s') \<Rightarrow> Inr (img, s'))"

section \<open>The build binding\<close>

datatype commit_kind = CommitSha1 | CommitSha256 | CommitOther

text \<open>
  What \<open>bind_build\<close> takes from the request and the captured build; a path is absent when
  it is not text, and the path of a lock when there is no lock.
\<close>

record provenance =
  pv_kind :: commit_kind
  pv_commit :: string
  pv_context :: "string option"
  pv_plan :: "string option"
  pv_lock :: "string option option"
  pv_bootstrapped :: bool
  pv_location :: "string option"

definition build_prefix :: string where "build_prefix = ''dev.pichi.build.''"

definition commit_algorithm :: "commit_kind \<Rightarrow> assembly_error + string" where
  "commit_algorithm k =
     (case k of CommitSha1 \<Rightarrow> Inr ''sha1'' | CommitSha256 \<Rightarrow> Inr ''sha256'' | CommitOther \<Rightarrow> Inl UnsupportedCommit)"

definition insert_optional :: "string \<Rightarrow> string option \<Rightarrow> object \<Rightarrow> object" where
  "insert_optional key v annotations =
     (case v of None \<Rightarrow> annotations | Some s \<Rightarrow> bt_insert (build_prefix @ key) (SStr s) annotations)"

definition bind_annotations :: "provenance \<Rightarrow> object \<Rightarrow> assembly_error + object" where
  "bind_annotations p annotations =
     bindE (commit_algorithm (pv_kind p)) (\<lambda>algorithm.
     bindE (okOr PathNotText (map_option (\<lambda>path. if path = [] then ''.'' else path) (pv_context p))) (\<lambda>context_text.
     bindE (okOr PathNotText (pv_plan p)) (\<lambda>plan.
       let kept = filter (\<lambda>(key, _). \<not> starts_with build_prefix key) annotations;
           bound = foldl (\<lambda>m (key, v). bt_insert (build_prefix @ key) (SStr v) m) kept
             [(''commit'', algorithm @ '':'' @ pv_commit p), (''context'', context_text), (''plan'', plan)] in
       bindE (case pv_lock p of None \<Rightarrow> Inr bound
              | Some path \<Rightarrow> bindE (okOr PathNotText path) (\<lambda>lock. Inr (insert_optional ''lock'' (Some lock) bound))) (\<lambda>bound.
         Inr (insert_optional ''location'' (pv_location p)
                (insert_optional ''bootstrapped'' (if pv_bootstrapped p then Some ''true'' else None) bound))))))"

definition bind_build :: "assembly \<Rightarrow> provenance \<Rightarrow> resolved_image \<Rightarrow> resolved_image assembly_op" where
  "bind_build A p img =
     op_bind (op_lift (mapErr AssemblyJson (jv_read (ab_codec A) (vm_bytes (ri_manifest_bytes img))))) (\<lambda>v.
     op_bind (op_lift (as_object ''validated manifest'' v)) (\<lambda>fs.
     op_bind (op_lift (manifest_annotations fs)) (\<lambda>annotations.
     op_bind (op_lift (bind_annotations p annotations)) (\<lambda>annotations.
     op_bind (op_err AssemblyCache (resolve_staging A
        (jv_write (ab_codec A) (SMap (bt_insert ''annotations'' (SMap annotations) fs))) (ri_architecture img))) (\<lambda>bound.
     op_bind (op_lift (failIf (ri_root img \<noteq> ri_root bound) RootChanged)) (\<lambda>_.
     let old = vm_digest (ri_manifest_bytes img);
         new = Sha256 (ab_sha A (vm_bytes (ri_manifest_bytes bound))) in
     op_bind (if old \<noteq> new
              then op_err AssemblyCache (remove_blob (digest_hex (ab_hex A) old)) else op_return ()) (\<lambda>_.
       op_return bound)))))))"

end
