(* ===== verification/Output_Assembly_Layers.thy ===== *)
theory Output_Assembly_Layers
  imports Output_Assembly
begin

text \<open>
  The manifest that the assembly writes, read back: its layers are those of the selected
  components, in order, and its root is the selected root.  The JSON library is described by
  \<open>codec_ok\<close>.
\<close>

section \<open>What the JSON library promises\<close>

text \<open>A JSON object is ordered by name, at every level.\<close>

fun value_ordered :: "sval \<Rightarrow> bool" where
  "value_ordered (SMap fs) \<longleftrightarrow> bt_wf fs \<and> list_all (\<lambda>(k, v). value_ordered v) fs"
| "value_ordered (SSeq vs) \<longleftrightarrow> list_all value_ordered vs"
| "value_ordered v \<longleftrightarrow> True"

text \<open>
  Reading a manifest or an index from written text is reading it from the value that was
  written, and reading one from any text is reading it from the value in that text.
\<close>

definition codec_ok :: "json \<Rightarrow> codec \<Rightarrow> bool" where
  "codec_ok J C \<longleftrightarrow>
     (\<forall>v m. js_manifest J (jv_write C v) = Inr m \<longrightarrow> de_manifest v = Inr m) \<and>
     (\<forall>v ix. js_index J (jv_write C v) = Inr ix \<longrightarrow> de_index v = Inr ix) \<and>
     (\<forall>b v m. jv_read C b = Inr v \<longrightarrow> js_manifest J b = Inr m \<longrightarrow> de_manifest v = Inr m) \<and>
     (\<forall>b v. jv_read C b = Inr v \<longrightarrow> value_ordered v)"

lemma codec_okD:
  assumes "codec_ok J C"
  shows "js_manifest J (jv_write C v) = Inr m \<Longrightarrow> de_manifest v = Inr m"
    and "js_index J (jv_write C v) = Inr ix \<Longrightarrow> de_index v = Inr ix"
    and "jv_read C b = Inr v \<Longrightarrow> js_manifest J b = Inr m \<Longrightarrow> de_manifest v = Inr m"
    and "jv_read C b = Inr v \<Longrightarrow> value_ordered v"
  using assms unfolding codec_ok_def by blast+

section \<open>The selected layers\<close>

definition selected_layers :: "hexlib \<Rightarrow> sha256 \<Rightarrow> stage_output \<Rightarrow> layer list" where
  "selected_layers H sha out =
     (case so_root out of None \<Rightarrow> []
      | Some r \<Rightarrow>
          (case rt_base r of None \<Rightarrow> [] | Some c \<Rightarrow> filter layer_is_scute (checked_layers c)) @
          map (\<lambda>s. ScuteZstd (ss_descriptor s)) (rt_produced r)) @
     (case so_pmi out of None \<Rightarrow> []
      | Some p \<Rightarrow> (case pmi_layer p of None \<Rightarrow> [] | Some l \<Rightarrow> [l])) @
     (case nonempty_boot (so_boot out) of None \<Rightarrow> []
      | Some config \<Rightarrow> [BootConfigLayer
          \<lparr>bd_digest = digest_display H (Sha256 (sha (ib_bytes config))), bd_size = length (ib_bytes config)\<rparr>])"

text \<open>The values from which a list of layers is read.\<close>

definition reads_layers :: "sval list \<Rightarrow> layer list \<Rightarrow> bool" where
  "reads_layers vs ls \<longleftrightarrow> list_all2 (\<lambda>v l. de_layer v = Inr l) vs ls"

lemma reads_layers_simps [simp]:
  "reads_layers [] []"
  "reads_layers vs ls \<Longrightarrow> reads_layers us ks \<Longrightarrow> reads_layers (vs @ us) (ls @ ks)"
  "reads_layers [v] [l] \<longleftrightarrow> de_layer v = Inr l"
  by (simp_all add: reads_layers_def list_all2_appendI)

lemma reads_layers_add: "reads_layers vs ls \<Longrightarrow> de_layer v = Inr l \<Longrightarrow> reads_layers (vs @ [v]) (ls @ [l])"
  by simp

lemma de_manifest_Inr:
  "de_manifest (SMap fs) = Inr m \<Longrightarrow>
     field_required (de_seq de_layer) fs ''layers'' = Inr (mf_layers m) \<and>
     field_default [] (de_btree de_string) fs ''annotations'' = Inr (mf_annotations m)"
  by (auto simp: de_manifest_def lax_fields_def bindE_Inr_iff)

lemma value_layer_reads:
  assumes "de_manifest v = Inr m" "i < length (mf_layers m)"
  shows "de_layer (value_layer v i) = Inr (mf_layers m ! i)"
proof -
  from assms(1) obtain fs where v: "v = SMap fs" by (cases v) (auto simp: de_manifest_def lax_fields_def)
  have "field_required (de_seq de_layer) fs ''layers'' = Inr (mf_layers m)"
    using de_manifest_Inr assms(1) v by blast
  then obtain vs where vs: "map_of fs ''layers'' = Some (SSeq vs)"
    "list_all2 (\<lambda>v l. de_layer v = Inr l) vs (mf_layers m)"
    by (auto simp: field_required_def de_seq_def traverseE_Inr_iff split: option.splits sval.splits)
  with v assms(2) show ?thesis
    by (auto simp: value_layer_def list_all2_conv_all_nth)
qed

section \<open>The parts of the assembly\<close>

lemma op_err_Inr_iff: "op_err g m s = (Inr a, s') \<longleftrightarrow> m s = (Inr a, s')"
  by (auto simp: op_err_def mapErr_Inr_iff' split: prod.splits)

lemma op_lift_Inr_iff: "op_lift r s = (Inr a, s') \<longleftrightarrow> r = Inr a \<and> s' = s"
  by (auto simp: op_lift_def)

lemma op_return_Inr_iff: "op_return b s = (Inr a, s') \<longleftrightarrow> a = b \<and> s' = s"
  by (auto simp: op_return_def)

lemmas op_Inr_iffs = op_bind_Inr_iff op_err_Inr_iff op_lift_Inr_iff op_return_Inr_iff

text \<open>What holds throughout a loop, of the elements done, the accumulator and the state.\<close>

lemma op_fold_run:
  assumes "op_fold f b zs s = (Inr b', s')" "I [] b s"
    and "\<And>c x xs ys s s' c'. zs = xs @ x # ys \<Longrightarrow> I xs c s \<Longrightarrow> f c x s = (Inr c', s') \<Longrightarrow> I (xs @ [x]) c' s'"
  shows "I zs b' s'"
proof -
  have "zs = xs @ ys \<Longrightarrow> I xs c t \<Longrightarrow> op_fold f c ys t = (Inr b', s') \<Longrightarrow> I zs b' s'" for xs ys c t
  proof (induction ys arbitrary: xs c t)
    case (Cons y ys)
    from Cons.prems(3) obtain c' t' where "f c y t = (Inr c', t')" "op_fold f c' ys t' = (Inr b', s')"
      by (auto simp: op_bind_Inr_iff)
    with Cons.IH [of "xs @ [y]" c' t'] assms(3) [OF Cons.prems(1,2)] Cons.prems(1) show ?case by simp
  qed (simp add: op_return_Inr_iff)
  from this [of "[]" zs b s] assms(1,2) show ?thesis by simp
qed

lemma op_fold_invariant:
  assumes "op_fold f b zs s = (Inr b', s')" "I [] b"
    and "\<And>c x xs ys s s' c'. zs = xs @ x # ys \<Longrightarrow> I xs c \<Longrightarrow> f c x s = (Inr c', s') \<Longrightarrow> I (xs @ [x]) c'"
  shows "I zs b'"
  by (rule op_fold_run [where I = "\<lambda>xs c s. I xs c", OF assms])

lemma base_layers_read:
  assumes "op_fold (base_layer A v) [] (enumerate 0 (mf_layers m)) s = (Inr layers, s')"
    and "de_manifest v = Inr m"
  shows "reads_layers layers (filter layer_is_scute (mf_layers m))"
proof -
  have "reads_layers layers (filter layer_is_scute (map snd (enumerate 0 (mf_layers m))))"
  proof (rule op_fold_invariant [OF assms(1)])
    fix c x xs ys s s' c'
    assume e: "enumerate 0 (mf_layers m) = xs @ x # ys"
      and i: "reads_layers c (filter layer_is_scute (map snd xs))" and f: "base_layer A v c x s = (Inr c', s')"
    have "length xs < length (enumerate 0 (mf_layers m))" using e by simp
    then have "x = (length xs, mf_layers m ! length xs)" "length xs < length (mf_layers m)"
      using nth_append_length [of xs x ys] by (simp_all flip: e add: nth_enumerate_eq)
    with f i value_layer_reads [OF assms(2)] show "reads_layers c' (filter layer_is_scute (map snd (xs @ [x])))"
      by (auto simp: base_layer_def op_Inr_iffs split: if_splits)
  qed simp
  then show ?thesis by simp
qed

lemma produced_layers_read:
  assumes "op_fold (produced_layer A names) (parent, layers) (enumerate 0 ss) s = (Inr (parent', layers'), s')"
    and "list_all (\<lambda>s. layer_wf (ScuteZstd (ss_descriptor s))) ss" "reads_layers layers ls"
  shows "reads_layers layers' (ls @ map (\<lambda>s. ScuteZstd (ss_descriptor s)) ss)"
proof -
  have "reads_layers (snd (parent', layers')) (ls @ map (\<lambda>s. ScuteZstd (ss_descriptor s)) (map snd (enumerate 0 ss)))"
  proof (rule op_fold_invariant [OF assms(1)])
    fix c x xs ys s s' c'
    assume e: "enumerate 0 ss = xs @ x # ys"
      and i: "reads_layers (snd c) (ls @ map (\<lambda>s. ScuteZstd (ss_descriptor s)) (map snd xs))"
      and f: "produced_layer A names c x s = (Inr c', s')"
    have "snd x \<in> set (map snd (enumerate 0 ss))" unfolding e by simp
    then have "layer_wf (ScuteZstd (ss_descriptor (snd x)))" using assms(2) by (simp add: list_all_iff)
    then have "de_layer (to_value (en_layer (ScuteZstd (ss_descriptor (snd x))))) = Inr (ScuteZstd (ss_descriptor (snd x)))"
      by (rule de_layer_en)
    from reads_layers_add [OF i this] f
    show "reads_layers (snd c') (ls @ map (\<lambda>s. ScuteZstd (ss_descriptor s)) (map snd (xs @ [x])))"
      by (auto simp: produced_layer_def op_Inr_iffs split: prod.splits)
  qed (simp add: assms(3))
  then show ?thesis by simp
qed

text \<open>What a selection must be for its values to be readable.\<close>

definition image_parsed :: "json \<Rightarrow> checked_image \<Rightarrow> bool" where
  "image_parsed J c \<longleftrightarrow> js_manifest J (vm_bytes (ri_manifest_bytes (ci_image c))) = Inr (ri_manifest (ci_image c))"

definition selection_wf :: "json \<Rightarrow> hexlib \<Rightarrow> sha256 \<Rightarrow> stage_output \<Rightarrow> bool" where
  "selection_wf J H sha out \<longleftrightarrow>
     (case output_metadata out of None \<Rightarrow> True | Some c \<Rightarrow> image_parsed J c) \<and>
     list_all layer_wf (selected_layers H sha out)"

lemma assemble_root_result:
  assumes "assemble_root A names r annotations s = (Inr (annotations', layers), s')"
    and "codec_ok (ab_json A) (ab_codec A)"
    and "\<And>c. rt_base r = Some c \<Longrightarrow> image_parsed (ab_json A) c"
    and "list_all (\<lambda>s. layer_wf (ScuteZstd (ss_descriptor s))) (rt_produced r)"
  shows "reads_layers layers
      ((case rt_base r of None \<Rightarrow> [] | Some c \<Rightarrow> filter layer_is_scute (checked_layers c)) @
       map (\<lambda>s. ScuteZstd (ss_descriptor s)) (rt_produced r))" (is ?reads)
    and "\<exists>hash. root_hash r = Some hash \<and>
      map_of annotations' key_root = Some (SStr (digest_display (ab_hex A) (Sha256 hash)))" (is ?root)
    and "bt_wf annotations \<Longrightarrow> bt_wf annotations'"
proof -
  let ?start = "case rt_base r of
         None \<Rightarrow> op_return (zero_root, [])
       | Some base \<Rightarrow>
           op_bind (op_lift (manifest_value (ab_codec A) base)) (\<lambda>original.
           op_bind (op_fold (base_layer A original) [] (enumerate 0 (checked_layers base))) (\<lambda>layers.
           op_bind (op_lift (okOr BaseWithoutScutes (checked_root base))) (\<lambda>parent.
             op_return (parent, layers))))"
  from assms(1) obtain p0 l0 s1 p1 s2 hash ann where
    st: "?start s = (Inr (p0, l0), s1)"
    and pr: "op_fold (produced_layer A names) (p0, l0) (enumerate 0 (rt_produced r)) s1 = (Inr (p1, layers), s2)"
    and h: "okOr (AssemblyPanic ''selected root'') (root_hash r) = Inr hash" "p1 = hash"
    and v: "foldE (verity_default (rt_base r \<noteq> None \<and> rt_produced r \<noteq> [])) annotations verity_defaults = Inr ann"
    and a: "annotations' = set_tip_annotation (ab_hex A) p1 ann"
    unfolding assemble_root_def by (auto simp: op_Inr_iffs failIf_Inr_iff split: prod.splits)
  have "reads_layers l0 (case rt_base r of None \<Rightarrow> [] | Some c \<Rightarrow> filter layer_is_scute (checked_layers c))"
  proof (cases "rt_base r")
    case None
    with st show ?thesis by (simp add: op_return_Inr_iff)
  next
    case (Some c)
    with st obtain v s0 where m: "jv_read (ab_codec A) (vm_bytes (ri_manifest_bytes (ci_image c))) = Inr v"
      and f: "op_fold (base_layer A v) [] (enumerate 0 (checked_layers c)) s = (Inr l0, s0)"
      by (auto simp: op_Inr_iffs manifest_value_def mapErr_Inr_iff')
    have "de_manifest v = Inr (ri_manifest (ci_image c))"
      using codec_okD(3) [OF assms(2) m] assms(3) [OF Some] by (simp add: image_parsed_def)
    from base_layers_read [OF f [unfolded checked_layers_def] this] Some
    show ?thesis by (simp add: checked_layers_def)
  qed
  from produced_layers_read [OF pr assms(4) this] show ?reads .
  show ?root using h a by (auto simp: set_tip_annotation_def okOr_def split: option.splits)
  assume wf: "bt_wf annotations"
  have "bt_wf ann"
    by (rule foldE_invariant [where P = bt_wf, OF v wf])
       (auto simp: verity_default_def bindE_Inr_iff bt_wf_delete split: prod.splits if_splits)
  with a show "bt_wf annotations'" by (simp add: set_tip_annotation_def bt_wf_delete)
qed

section \<open>Resolving the staging\<close>

lemma de_index_en_Inr:
  assumes "de_index (en_index (output_index H d n arch)) = Inr ix"
  shows "ix = output_index H d n arch"
proof -
  have "n \<le> u64_max"
  proof (rule ccontr)
    assume "\<not> n \<le> u64_max"
    then have "de_index_descriptor (en_index_descriptor (hd (ix_manifests (output_index H d n arch)))) \<noteq> Inr x" for x
      by (simp add: output_index_def de_index_descriptor_def en_index_descriptor_def lax_fields_def bindE_Inr_iff
          field_required_def opt_field_def annotations_field_def de_uint_def)
    then have "traverseE de_index_descriptor (map en_index_descriptor (ix_manifests (output_index H d n arch))) \<noteq> Inr xs" for xs
      by (auto simp: output_index_def split: sum.splits)
    with assms show False
      by (simp add: de_index_def en_index_def lax_fields_def field_required_def de_seq_def bindE_Inr_iff)
  qed
  then have "de_index (en_index (output_index H d n arch)) = Inr (output_index H d n arch)"
    by (intro de_index_en) (simp_all add: output_index_def index_default_def index_descriptor_wf_def u32_max_def)
  with assms show ?thesis by simp
qed

lemma de_manifest_en_index: "de_manifest (en_index ix) \<noteq> Inr m"
  by (simp add: de_manifest_def en_index_def lax_fields_def field_required_def bindE_Inr_iff)

lemma host_matches_oci: "host_matches a \<lparr>pf_os = ''pichi'', pf_architecture = oci_name b, pf_variant = None\<rparr> \<longleftrightarrow> a = b"
  by (cases a; cases b) (simp_all add: host_matches_def)

definition layout_index :: "assembly \<Rightarrow> resolved_image \<Rightarrow> byte list" where
  "layout_index A img = jv_write (ab_codec A) (en_index (output_index (ab_hex A)
     (vm_digest (ri_manifest_bytes img)) (length (vm_bytes (ri_manifest_bytes img))) (ri_architecture img)))"

lemma resolve_staging_steps:
  assumes "resolve_staging A manifest arch s = (Inr img, s')"
  defines "H \<equiv> ab_hex A" and "sha \<equiv> ab_sha A"
  defines "bytes \<equiv> jv_write (ab_codec A) (en_index (output_index H (Sha256 (sha manifest)) (length manifest) arch))"
  shows "\<exists>t pin. index_digest_parse H (digest_display H (Sha256 (sha bytes))) = Inr pin \<and>
     sg_blobs t = bt_insert (hex_encode H (sha bytes)) bytes (bt_insert (hex_encode H (sha manifest)) manifest (sg_blobs s)) \<and>
     cache_resolve H sha (ab_json A) (ab_host A) (ab_view A t) pin = Inr img \<and>
     verify_metadata H sha (later 2 (ab_view A t)) img = Inr () \<and>
     sg_blobs s' = bt_delete (hex_encode H (sha bytes)) (sg_blobs t)"
proof -
  from assms(1) obtain d s1 d' s2 pin u3 s3 u4 s4 u5 s5 u6 u7 where
    st: "store_blob H sha manifest s = (Inr d, s1)"
      "store_blob H sha (jv_write (ab_codec A) (en_index (output_index H d (length manifest) arch))) s1 = (Inr d', s2)"
      "index_digest_parse H (digest_display H d') = Inr pin"
      "write_file (Top ''index.json'') (jv_write (ab_codec A) (en_index (output_index H d (length manifest) arch))) s2 = (Inr u3, s3)"
      "write_file (Top ''oci-layout'') (jv_write (ab_codec A) (en_layout_marker layout_marker_default)) s3 = (Inr u4, s4)"
      "sys s4 = (Inr u5, s5)"
      "cache_resolve H sha (ab_json A) (ab_host A) (ab_view A s5) pin = Inr img"
      "verify_metadata H sha (later 2 (ab_view A s5)) img = Inr u6"
      "remove_blob (digest_hex H (Sha256 (sha (jv_write (ab_codec A) (en_index (output_index H d (length manifest) arch)))))) s5 = (Inr u7, s')"
    unfolding resolve_staging_def H_def [symmetric] sha_def [symmetric] Let_def
    by (auto simp: op_Inr_iffs mapErr_Inr_iff')
  have d: "d = Sha256 (sha manifest)" using store_blob_stores [OF st(1)] by simp
  have b: "jv_write (ab_codec A) (en_index (output_index H d (length manifest) arch)) = bytes"
    by (simp add: bytes_def d)
  note st' = st [unfolded b]
  have d': "d' = Sha256 (sha bytes)" using store_blob_stores [OF st'(2)] by simp
  have "sg_blobs s5 = bt_insert (hex_encode H (sha bytes)) bytes (bt_insert (hex_encode H (sha manifest)) manifest (sg_blobs s))"
    using store_blob_stores [OF st(1)] store_blob_stores [OF st'(2)] write_file_stores [OF st'(4) [simplified]]
      write_file_stores [OF st'(5) [simplified]] sys_cases [OF st(6)] by simp
  moreover have "sg_blobs s' = bt_delete (hex_encode H (sha bytes)) (sg_blobs s5)"
    using st'(9) by (auto simp: remove_blob_def op_bind_Inr_iff split: option.splits dest!: sys_cases)
  ultimately show ?thesis using st'(3,7,8) d' by auto
qed

lemma resolve_staging_result:
  assumes "resolve_staging A (jv_write (ab_codec A) v) arch s = (Inr img, s')"
    and "codec_ok (ab_json A) (ab_codec A)" "hex_laws (ab_hex A)" "\<And>b. length (ab_sha A b) = 32"
    and "\<And>t. content_store (ab_hex A) (ab_view A t) (staged_content (ab_hex A) t)"
    and "host_current (ab_host A) = Inr arch"
  shows "de_manifest v = Inr (ri_manifest img)"
    and "carapace_root (ab_hex A) (ri_manifest img) = Inr (ri_root img)"
    and "sg_blobs s' = bt_delete (hex_encode (ab_hex A) (ab_sha A (layout_index A img)))
      (bt_insert (hex_encode (ab_hex A) (ab_sha A (layout_index A img))) (layout_index A img)
        (bt_insert (hex_encode (ab_hex A) (ab_sha A (vm_bytes (ri_manifest_bytes img))))
          (vm_bytes (ri_manifest_bytes img)) (sg_blobs s)))"
    and "js_manifest (ab_json A) (vm_bytes (ri_manifest_bytes img)) = Inr (ri_manifest img) \<and>
      host_current (ab_host A) = Inr (ri_architecture img) \<and>
      vm_digest (ri_manifest_bytes img) = Sha256 (ab_sha A (vm_bytes (ri_manifest_bytes img)))"
    and "bt_wf (sg_blobs s) \<Longrightarrow> length (vm_bytes (ri_manifest_bytes img)) \<le> max_metadata_bytes \<and>
      vm_digest (ri_manifest_bytes img) = Sha256 (ab_sha A (vm_bytes (ri_manifest_bytes img))) \<and>
      list_all (\<lambda>(text, extent). case digest_from_str (ab_hex A) text of Inl _ \<Rightarrow> False
        | Inr d \<Rightarrow> d = Sha256 (ab_sha A (layout_index A img)) \<or>
            authentic (ab_sha A) (staged_content (ab_hex A) s') d extent) (metadata_digests img)"
proof -
  define H where "H = ab_hex A"
  define sha where "sha = ab_sha A"
  define manifest where "manifest = jv_write (ab_codec A) v"
  define oi where "oi = output_index H (Sha256 (sha manifest)) (length manifest) arch"
  define bytes where "bytes = jv_write (ab_codec A) (en_index oi)"
  from resolve_staging_steps [OF assms(1)] obtain t pin where
    pin: "index_digest_parse H (digest_display H (Sha256 (sha bytes))) = Inr pin"
    and blobs: "sg_blobs t = bt_insert (hex_encode H (sha bytes)) bytes (bt_insert (hex_encode H (sha manifest)) manifest (sg_blobs s))"
    and res: "cache_resolve H sha (ab_json A) (ab_host A) (ab_view A t) pin = Inr img"
    and ver: "verify_metadata H sha (later 2 (ab_view A t)) img = Inr ()"
    and s': "sg_blobs s' = bt_delete (hex_encode H (sha bytes)) (sg_blobs t)"
    unfolding H_def sha_def manifest_def oi_def bytes_def by blast
  have hl: "hex_laws H" and store: "content_store H (ab_view A t) (staged_content H t)"
    using assms(3,5) by (simp_all add: H_def)
  have parse: "digest_from_str H (digest_display H (Sha256 (sha b))) = Inr (Sha256 (sha b))" for b
    using assms(4) by (intro digest_from_display [OF hl]) (simp add: digest_wf_def sha_def)
  have p: "index_bytes pin = sha bytes"
    using pin parse by (auto simp: index_digest_parse_def mapErr_def)
  note r = iffD1 [OF content_store.resolve_iff [OF store] res]
  have arch: "ri_architecture img = arch" using r assms(6) by simp
  have "staged_content H t (Sha256 (sha bytes)) = Some bytes" by (simp add: staged_content_def blobs)
  with r p have sel: "index_selects H (ab_json A) (ri_architecture img) bytes
      (vm_digest (ri_manifest_bytes img)) (length (vm_bytes (ri_manifest_bytes img)))" by auto
  then obtain ix selected where ix: "js_index (ab_json A) bytes = Inr ix"
    "filter (compatible arch) (ix_manifests ix) = [selected]"
    "digest_from_str H (ix_digest selected) = Inr (vm_digest (ri_manifest_bytes img))"
    "ix_size selected = length (vm_bytes (ri_manifest_bytes img))"
    unfolding index_selects_iff arch by blast
  have "ix = oi"
    using codec_okD(2) [OF assms(2)] ix(1) de_index_en_Inr unfolding bytes_def oi_def by blast
  with ix have n: "ix_digest selected = digest_display H (Sha256 (sha manifest))" "ix_size selected = length manifest"
    by (auto simp: oi_def output_index_def split: if_splits)
  then have d: "vm_digest (ri_manifest_bytes img) = Sha256 (sha manifest)"
    and len: "length (vm_bytes (ri_manifest_bytes img)) = length manifest"
    using ix(3,4) parse by auto
  have acc: "js_manifest (ab_json A) (vm_bytes (ri_manifest_bytes img)) = Inr (ri_manifest img)"
    using r by (simp add: manifest_accepted_def)
  have "vm_bytes (ri_manifest_bytes img) \<noteq> bytes"
    using acc codec_okD(1) [OF assms(2)] de_manifest_en_index unfolding bytes_def by metis
  moreover have "staged_content H t (Sha256 (sha manifest)) = Some (vm_bytes (ri_manifest_bytes img))"
    using r d by simp
  ultimately have vm: "vm_bytes (ri_manifest_bytes img) = manifest"
    by (auto simp: staged_content_def blobs split: if_splits)
  have li: "layout_index A img = bytes"
    by (simp add: layout_index_def bytes_def oi_def H_def [symmetric] d len arch)
  show "sg_blobs s' = bt_delete (hex_encode (ab_hex A) (ab_sha A (layout_index A img)))
      (bt_insert (hex_encode (ab_hex A) (ab_sha A (layout_index A img))) (layout_index A img)
        (bt_insert (hex_encode (ab_hex A) (ab_sha A (vm_bytes (ri_manifest_bytes img))))
          (vm_bytes (ri_manifest_bytes img)) (sg_blobs s)))"
    unfolding li H_def [symmetric] sha_def [symmetric] vm s' blobs ..
  from vm show "de_manifest v = Inr (ri_manifest img)"
    using acc codec_okD(1) [OF assms(2)] by (simp add: manifest_def)
  show "carapace_root (ab_hex A) (ri_manifest img) = Inr (ri_root img)"
    using r by (simp add: manifest_accepted_def H_def)
  show "js_manifest (ab_json A) (vm_bytes (ri_manifest_bytes img)) = Inr (ri_manifest img) \<and>
      host_current (ab_host A) = Inr (ri_architecture img) \<and>
      vm_digest (ri_manifest_bytes img) = Sha256 (ab_sha A (vm_bytes (ri_manifest_bytes img)))"
    using acc r d by (simp add: sha_def)
  assume wf: "bt_wf (sg_blobs s)"
  have "content_store H (later 2 (ab_view A t)) (staged_content H t)"
    using store by (auto simp: content_store_def later_def)
  from iffD1 [OF content_store.verify_metadata_iff [OF this] ver]
  have auth: "list_all (\<lambda>(text, extent). case digest_from_str H text of Inl _ \<Rightarrow> False
        | Inr d \<Rightarrow> authentic sha (staged_content H t) d extent) (metadata_digests img)" .
  have keep: "staged_content H s' d = staged_content H t d" if "d \<noteq> Sha256 (sha bytes)" for d
  proof -
    have "digest_hex H d \<noteq> hex_encode H (sha bytes)"
    proof
      assume "digest_hex H d = hex_encode H (sha bytes)"
      then have "hex_decode H (digest_hex H d) = hex_decode H (hex_encode H (sha bytes))" by simp
      with hl that show False by (cases d) (simp add: hex_laws_def)
    qed
    then show ?thesis using wf by (simp add: staged_content_def s' blobs bt_get_delete)
  qed
  have "list_all (\<lambda>(text, extent). case digest_from_str H text of Inl _ \<Rightarrow> False
        | Inr d \<Rightarrow> d = Sha256 (sha bytes) \<or> authentic sha (staged_content H s') d extent) (metadata_digests img)"
  proof (rule list.pred_mono_strong [OF auth], clarify)
    fix name extent
    assume "case digest_from_str H name of Inl _ \<Rightarrow> False | Inr d \<Rightarrow> authentic sha (staged_content H t) d extent"
    then obtain d where d: "digest_from_str H name = Inr d" "authentic sha (staged_content H t) d extent"
      by (auto split: sum.splits)
    show "case digest_from_str H name of Inl _ \<Rightarrow> False
        | Inr d \<Rightarrow> d = Sha256 (sha bytes) \<or> authentic sha (staged_content H s') d extent"
      using d by (cases "d = Sha256 (sha bytes)") (simp_all add: authentic_def keep)
  qed
  with r d show "length (vm_bytes (ri_manifest_bytes img)) \<le> max_metadata_bytes \<and>
      vm_digest (ri_manifest_bytes img) = Sha256 (ab_sha A (vm_bytes (ri_manifest_bytes img))) \<and>
      list_all (\<lambda>(text, extent). case digest_from_str (ab_hex A) text of Inl _ \<Rightarrow> False
        | Inr d \<Rightarrow> d = Sha256 (ab_sha A (layout_index A img)) \<or>
            authentic (ab_sha A) (staged_content (ab_hex A) s') d extent) (metadata_digests img)"
    unfolding li H_def [symmetric] sha_def [symmetric] by simp
qed

section \<open>The assembled manifest\<close>

lemma bt_get_value_ordered: "value_ordered v \<Longrightarrow> v = SMap fs \<Longrightarrow> map_of fs k = Some w \<Longrightarrow> value_ordered w"
  by (auto simp: list_all_iff dest!: map_of_SomeD)

lemma assemble_config_fields:
  assumes "assemble_config A reqs metadata fs s = (Inr fs', s')"
  shows "map_of fs' ''annotations'' = map_of fs ''annotations''"
  using assms
  by (auto simp: assemble_config_def Let_def op_Inr_iffs split: option.splits if_splits)

text \<open>What a field of the written annotations says of those read back.\<close>

lemma de_btree_get:
  assumes "de_btree de_string (SMap fs) = Inr m" "distinct (map fst fs)"
  shows "bt_get m k = (case map_of fs k of Some (SStr s) \<Rightarrow> Some s | _ \<Rightarrow> None)"
proof -
  from assms(1) obtain kvs where t: "traverseE (\<lambda>(k, w). case de_string w of Inl e \<Rightarrow> Inl e | Inr a \<Rightarrow> Inr (k, a)) fs = Inr kvs"
    and m: "m = bt_of_list kvs" by (auto simp: de_btree_def split: sum.splits)
  then have l: "list_all2 (\<lambda>(k, w) (k', a). k' = k \<and> w = SStr a) fs kvs"
    unfolding traverseE_Inr_iff
    by (elim list_all2_mono) (auto simp: de_string_def split: sval.splits)
  then have "map fst kvs = map fst fs" by (induction rule: list_all2_induct) auto
  then have "map_of m k = map_of kvs k" using assms(2) m by (simp add: bt_of_list_get)
  moreover from l have "map_of kvs k = (case map_of fs k of Some (SStr s) \<Rightarrow> Some s | _ \<Rightarrow> None)"
    by (induction rule: list_all2_induct) auto
  ultimately show ?thesis by simp
qed

lemma carapace_root_declared:
  assumes "carapace_root H m = Inr root" "hex_laws H"
    and "bt_get (mf_annotations m) key_root = Some (digest_display H (Sha256 hash))"
  shows "root = Some hash"
proof -
  have colon: "CHR '':'' \<in> set (digest_display H (Sha256 hash))" by (simp add: digest_display_def)
  from assms(1,3) colon obtain d where "digest_display H d = digest_display H (Sha256 hash)"
    "root = Some (as_sha256_array d)"
    by (auto simp: carapace_root_def Let_def split: option.splits if_splits)
  moreover have "digest_hex H d = hex_encode H hash \<Longrightarrow> d = Sha256 hash"
    using assms(2) by (cases d) (metis digest_hex.simps hex_laws_def sum.inject(2))
  ultimately show ?thesis by (cases d) (auto simp: digest_display_def)
qed

lemma carapace_root_undeclared:
  "carapace_root H m = Inr root \<Longrightarrow> bt_get (mf_annotations m) key_root = None \<Longrightarrow> root = None"
  by (auto simp: carapace_root_def Let_def split: if_splits)

definition root_annotations :: "stage_output \<Rightarrow> object \<Rightarrow> object" where
  "root_annotations out annotations =
     (if so_root out = None
      then filter (\<lambda>(name, _). \<not> starts_with carapace_prefix name) annotations else annotations)"

lemma assemble_steps:
  assumes "assemble A names out reqs s = (Inr img, s')"
  obtains v fs fs1 s1 annotations annotations' layers s2 layers' s3 layers'' s4 arch where
    "(case output_metadata out of Some c \<Rightarrow> manifest_value (ab_codec A) c | None \<Rightarrow> Inr fresh_manifest) = Inr v"
    "v = SMap fs"
    "assemble_config A reqs (output_metadata out) fs s = (Inr fs1, s1)"
    "manifest_annotations fs1 = Inr annotations"
    "(case so_root out of None \<Rightarrow> op_return (root_annotations out annotations, [])
      | Some r \<Rightarrow> assemble_root A names r (root_annotations out annotations)) s1 = (Inr (annotations', layers), s2)"
    "(case so_pmi out of None \<Rightarrow> op_return layers
      | Some p \<Rightarrow> op_bind (pmi_store A (length layers + 1) p) (\<lambda>layer.
          op_return (layers @ [to_value (en_layer layer)]))) s2 = (Inr layers', s3)"
    "assemble_boot A out layers' s3 = (Inr layers'', s4)"
    "host_current (ab_host A) = Inr arch"
    "resolve_staging A (jv_write (ab_codec A)
       (SMap (bt_insert ''layers'' (SSeq layers'') (bt_insert ''annotations'' (SMap annotations') fs1)))) arch s4 = (Inr img, s')"
proof -
  have as_object: "as_object message v = Inr fs \<longleftrightarrow> v = SMap fs" for message v fs
    by (cases v) (auto simp: as_object_def)
  from assms show ?thesis
    unfolding assemble_def Let_def root_annotations_def [symmetric] op_Inr_iffs as_object split_paired_Ex
      prod.case mapErr_Inr_iff'
    by (elim exE conjE) (rule that, assumption+, simp_all only:)
qed

lemma manifest_annotations_wf:
  assumes "(case output_metadata out of Some c \<Rightarrow> manifest_value (ab_codec A) c | None \<Rightarrow> Inr fresh_manifest) = Inr (SMap fs)"
    and "codec_ok (ab_json A) (ab_codec A)" "assemble_config A reqs metadata fs s = (Inr fs1, s1)"
    and "manifest_annotations fs1 = Inr annotations"
  shows "bt_wf (root_annotations out annotations)"
proof -
  have "bt_wf annotations"
  proof (cases "map_of fs ''annotations''")
    case None
    with assms(4) assemble_config_fields [OF assms(3)] show ?thesis by (simp add: manifest_annotations_def)
  next
    case (Some w)
    with assms(4) assemble_config_fields [OF assms(3)] have w: "w = SMap annotations"
      by (auto simp: manifest_annotations_def split: sval.splits)
    show ?thesis
    proof (cases "output_metadata out")
      case None
      have "map_of fs ''annotations'' = None" if "fresh_manifest = SMap fs"
        using that by (auto simp: fresh_manifest_def bt_of_list_def)
      with None assms(1) Some show ?thesis by simp
    next
      case (Some c)
      with assms(1) have "jv_read (ab_codec A) (vm_bytes (ri_manifest_bytes (ci_image c))) = Inr (SMap fs)"
        by (simp add: manifest_value_def mapErr_Inr_iff')
      from bt_get_value_ordered [OF codec_okD(4) [OF assms(2) this] refl \<open>map_of fs _ = Some w\<close>] w
      show ?thesis by simp
    qed
  qed
  then show ?thesis by (simp add: root_annotations_def bt_wf_filter)
qed

lemma key_root_prefixed: "starts_with carapace_prefix key_root"
  by code_simp

lemma root_annotations_none:
  "so_root out = None \<Longrightarrow> map_of (root_annotations out annotations) key_root = None"
  using key_root_prefixed by (auto simp: root_annotations_def map_of_eq_None_iff)

lemma assemble_boot_reads:
  assumes "assemble_boot A out layers s = (Inr layers', s')" "reads_layers layers ls"
    and "list_all layer_wf (case nonempty_boot (so_boot out) of None \<Rightarrow> []
      | Some config \<Rightarrow> [BootConfigLayer
          \<lparr>bd_digest = digest_display (ab_hex A) (Sha256 (ab_sha A (ib_bytes config))), bd_size = length (ib_bytes config)\<rparr>])"
  shows "reads_layers layers' (ls @ (case nonempty_boot (so_boot out) of None \<Rightarrow> []
      | Some config \<Rightarrow> [BootConfigLayer
          \<lparr>bd_digest = digest_display (ab_hex A) (Sha256 (ab_sha A (ib_bytes config))), bd_size = length (ib_bytes config)\<rparr>]))"
proof (cases "nonempty_boot (so_boot out)")
  case None
  with assms(1,2) show ?thesis
    by (auto simp: assemble_boot_def nonempty_boot_def op_return_Inr_iff split: option.splits if_splits)
next
  case (Some config)
  then have b: "so_boot out = Some config" "ib_bytes config \<noteq> []"
    by (auto simp: nonempty_boot_def split: option.splits if_splits)
  define l where "l = BootConfigLayer
    \<lparr>bd_digest = digest_display (ab_hex A) (Sha256 (ab_sha A (ib_bytes config))), bd_size = length (ib_bytes config)\<rparr>"
  from assms(1) b have "layers' = layers @ [to_value (en_layer l)]"
    by (auto simp: assemble_boot_def op_Inr_iffs l_def dest!: store_blob_stores)
  moreover have "de_layer (to_value (en_layer l)) = Inr l"
    using assms(3) Some by (intro de_layer_en) (simp add: l_def)
  ultimately show ?thesis using assms(2) Some by (simp add: reads_layers_add flip: l_def)
qed

lemma assembled_manifest:
  assumes "assemble A names out reqs s = (Inr img, s')"
    and "codec_ok (ab_json A) (ab_codec A)" "hex_laws (ab_hex A)" "\<And>b. length (ab_sha A b) = 32"
    and "\<And>t. content_store (ab_hex A) (ab_view A t) (staged_content (ab_hex A) t)"
    and "selection_wf (ab_json A) (ab_hex A) (ab_sha A) out"
  shows "mf_layers (ri_manifest img) = selected_layers (ab_hex A) (ab_sha A) out"
    and "ri_root img = (case so_root out of None \<Rightarrow> None | Some r \<Rightarrow> root_hash r)"
proof -
  from assms(1) obtain v fs fs1 s1 annotations annotations' layers s2 layers' s3 layers'' s4 arch where
    m: "(case output_metadata out of Some c \<Rightarrow> manifest_value (ab_codec A) c | None \<Rightarrow> Inr fresh_manifest) = Inr v"
      "v = SMap fs"
    and c: "assemble_config A reqs (output_metadata out) fs s = (Inr fs1, s1)"
    and n: "manifest_annotations fs1 = Inr annotations"
    and r: "(case so_root out of None \<Rightarrow> op_return (root_annotations out annotations, [])
      | Some r \<Rightarrow> assemble_root A names r (root_annotations out annotations)) s1 = (Inr (annotations', layers), s2)"
    and p: "(case so_pmi out of None \<Rightarrow> op_return layers
      | Some p \<Rightarrow> op_bind (pmi_store A (length layers + 1) p) (\<lambda>layer.
          op_return (layers @ [to_value (en_layer layer)]))) s2 = (Inr layers', s3)"
    and b: "assemble_boot A out layers' s3 = (Inr layers'', s4)"
    and h: "host_current (ab_host A) = Inr arch"
    and z: "resolve_staging A (jv_write (ab_codec A)
       (SMap (bt_insert ''layers'' (SSeq layers'') (bt_insert ''annotations'' (SMap annotations') fs1)))) arch s4 = (Inr img, s')"
    by (rule assemble_steps)
  note result = resolve_staging_result [OF z assms(2,3,4,5) h]
  have wf: "bt_wf (root_annotations out annotations)"
    by (rule manifest_annotations_wf [OF m(1) [unfolded m(2)] assms(2) c n])
  let ?roots = "case so_root out of None \<Rightarrow> []
      | Some r \<Rightarrow>
          (case rt_base r of None \<Rightarrow> [] | Some c \<Rightarrow> filter layer_is_scute (checked_layers c)) @
          map (\<lambda>s. ScuteZstd (ss_descriptor s)) (rt_produced r)"
  let ?pmis = "case so_pmi out of None \<Rightarrow> []
      | Some p \<Rightarrow> (case pmi_layer p of None \<Rightarrow> [] | Some l \<Rightarrow> [l])"
  let ?boots = "case nonempty_boot (so_boot out) of None \<Rightarrow> []
      | Some config \<Rightarrow> [BootConfigLayer
          \<lparr>bd_digest = digest_display (ab_hex A) (Sha256 (ab_sha A (ib_bytes config))), bd_size = length (ib_bytes config)\<rparr>]"
  have sel: "selected_layers (ab_hex A) (ab_sha A) out = ?roots @ ?pmis @ ?boots"
    by (simp add: selected_layers_def)
  have ok: "list_all layer_wf ?roots" "list_all layer_wf ?pmis" "list_all layer_wf ?boots"
    using assms(6) unfolding selection_wf_def sel list_all_append by blast+
  have root: "reads_layers layers ?roots \<and> bt_wf annotations' \<and>
    (case so_root out of None \<Rightarrow> map_of annotations' key_root = None
     | Some r \<Rightarrow> \<exists>hash. root_hash r = Some hash \<and>
         map_of annotations' key_root = Some (SStr (digest_display (ab_hex A) (Sha256 hash))))"
  proof (cases "so_root out")
    case None
    with r wf root_annotations_none [OF None] show ?thesis by (auto simp: op_return_Inr_iff)
  next
    case (Some rt)
    with r have a: "assemble_root A names rt (root_annotations out annotations) s1 = (Inr (annotations', layers), s2)"
      by simp
    have "image_parsed (ab_json A) c" if "rt_base rt = Some c" for c
      using assms(6) that Some by (simp add: selection_wf_def output_metadata_def)
    moreover have "list_all (\<lambda>s. layer_wf (ScuteZstd (ss_descriptor s))) (rt_produced rt)"
      using ok(1) Some by (simp add: list_all_iff)
    ultimately show ?thesis using assemble_root_result [OF a assms(2)] wf Some by simp
  qed
  have "reads_layers layers' (?roots @ ?pmis)"
  proof (cases "so_pmi out")
    case None
    with p root show ?thesis by (simp add: op_return_Inr_iff)
  next
    case (Some q)
    with p obtain l where l: "pmi_layer q = Some l" "layers' = layers @ [to_value (en_layer l)]"
      by (auto simp: op_Inr_iffs pmi_store_def okOr_def split: option.splits)
    then have "de_layer (to_value (en_layer l)) = Inr l" using ok(2) Some by (intro de_layer_en) simp
    with root Some l show ?thesis by simp
  qed
  from assemble_boot_reads [OF b this ok(3)] have reads: "reads_layers layers'' (?roots @ ?pmis @ ?boots)" by simp
  from de_manifest_Inr [OF result(1)] have
    "traverseE de_layer layers'' = Inr (mf_layers (ri_manifest img))"
    and ann: "de_btree de_string (SMap annotations') = Inr (mf_annotations (ri_manifest img))"
    by (simp_all add: field_required_def field_default_def de_seq_def)
  moreover have "traverseE de_layer layers'' = Inr (?roots @ ?pmis @ ?boots)"
    using reads by (simp add: reads_layers_def traverseE_Inr_iff)
  ultimately show "mf_layers (ri_manifest img) = selected_layers (ab_hex A) (ab_sha A) out"
    unfolding sel by simp
  have get: "bt_get (mf_annotations (ri_manifest img)) key_root =
      (case map_of annotations' key_root of Some (SStr s) \<Rightarrow> Some s | _ \<Rightarrow> None)"
    using root by (intro de_btree_get [OF ann]) (simp add: bt_wf_distinct)
  show "ri_root img = (case so_root out of None \<Rightarrow> None | Some r \<Rightarrow> root_hash r)"
    using root carapace_root_undeclared [OF result(2)] carapace_root_declared [OF result(2) assms(3)] get
    by (auto split: option.splits)
qed

end
