(* ===== verification/Output_Assembly_Sound.thy ===== *)
theory Output_Assembly_Sound
  imports Output_Assembly_Layers
begin

text \<open>
  What an assembled image stands on: every blob that its manifest names is in the staging,
  under its digest and with that hash.  Blobs that were right stay right through every step
  of the assembly, and the temporary files of produced layers stay until they are installed.
\<close>

section \<open>What the operations on the staging keep\<close>

definition held :: "hexlib \<Rightarrow> sha256 \<Rightarrow> staged \<Rightarrow> string \<Rightarrow> bool" where
  "held H sha s name \<longleftrightarrow>
     (case digest_from_str H name of Inl _ \<Rightarrow> False
      | Inr d \<Rightarrow> (case staged_content H s d of None \<Rightarrow> False | Some c \<Rightarrow> sha c = digest_as_bytes d))"

definition extends :: "hexlib \<Rightarrow> sha256 \<Rightarrow> string set \<Rightarrow> staged \<Rightarrow> staged \<Rightarrow> bool" where
  "extends H sha R s s' \<longleftrightarrow>
     (bt_wf (sg_blobs s) \<longrightarrow> bt_wf (sg_blobs s') \<and>
        (\<forall>name. held H sha s name \<longrightarrow> held H sha s' name) \<and>
        (\<forall>name. length name \<noteq> 64 \<longrightarrow> name \<notin> R \<longrightarrow> bt_get (sg_blobs s') name = bt_get (sg_blobs s) name))"

lemma extends_refl: "extends H sha {} s s"
  by (simp add: extends_def)

lemma extends_trans [trans]: "extends H sha R s s1 \<Longrightarrow> extends H sha R' s1 s2 \<Longrightarrow> extends H sha (R \<union> R') s s2"
  by (auto simp: extends_def)

lemma extends_kept: "extends H sha {} s s1 \<Longrightarrow> extends H sha {} s1 s2 \<Longrightarrow> extends H sha {} s s2"
  using extends_trans [of H sha "{}" s s1 "{}" s2] by simp

lemma extends_held: "extends H sha R s s' \<Longrightarrow> bt_wf (sg_blobs s) \<Longrightarrow> held H sha s name \<Longrightarrow> held H sha s' name"
  by (auto simp: extends_def)

lemma extends_wf: "extends H sha R s s' \<Longrightarrow> bt_wf (sg_blobs s) \<Longrightarrow> bt_wf (sg_blobs s')"
  by (auto simp: extends_def)

lemma digest_hex_length: "hex_laws H \<Longrightarrow> digest_wf d \<Longrightarrow> length (digest_hex H d) = 64"
  by (cases d) (simp add: digest_wf_def hex_laws_encode_length)

lemma digest_hex_inj: "hex_laws H \<Longrightarrow> digest_hex H d = digest_hex H d' \<longleftrightarrow> d = d'"
proof -
  assume "hex_laws H"
  then have "hex_encode H b = hex_encode H b' \<Longrightarrow> b = b'" for b b'
    unfolding hex_laws_def by (metis sum.inject(2))
  then show ?thesis by (cases d; cases d') auto
qed

lemma extends_insert:
  assumes "hex_laws H" "digest_wf d" "sha c = digest_as_bytes d"
    and "sg_blobs s' = bt_insert (digest_hex H d) c (sg_blobs s)"
  shows "extends H sha {} s s'"
proof -
  have "held H sha s' name" if "held H sha s name" for name
    using that assms(3,4) digest_hex_inj [OF assms(1)]
    by (auto simp: held_def staged_content_def split: sum.splits)
  then show ?thesis using assms(4) digest_hex_length [OF assms(1,2)] by (auto simp: extends_def)
qed

lemma held_insert:
  "sha c = digest_as_bytes d \<Longrightarrow> sg_blobs s' = bt_insert (digest_hex H d) c (sg_blobs s) \<Longrightarrow>
   digest_from_str H name = Inr d \<Longrightarrow> held H sha s' name"
  by (simp add: held_def staged_content_def)

lemma extends_same: "sg_blobs s' = sg_blobs s \<Longrightarrow> extends H sha {} s s'"
  unfolding extends_def held_def staged_content_def by (simp only:) simp

lemma copy_blob_extends:
  assumes "copy_blob H sha cache n d extent s = (Inr u, s')" "hex_laws H" "digest_from_str H name = Inr d"
  shows "extends H sha {} s s' \<and> held H sha s' name"
proof -
  from copy_blob_stores [of H sha cache n d extent s s'] assms(1) obtain bytes where
    b: "sg_blobs s' = bt_insert (digest_hex H d) bytes (sg_blobs s)" "sha bytes = digest_as_bytes d" by auto
  from extends_insert [where sha = sha, OF assms(2) digest_from_str_wf [OF assms(2,3)] b(2,1)] held_insert [where sha = sha, OF b(2,1) assms(3)]
  show ?thesis ..
qed

lemma store_verified_extends:
  assumes "store_verified H sha reader d extent s = (Inr u, s')" "hex_laws H" "digest_wf d"
  shows "extends H sha {} s s'"
proof -
  from store_verified_stores [of H sha reader d extent s s'] assms(1) obtain bytes where
    b: "sg_blobs s' = bt_insert (digest_hex H d) bytes (sg_blobs s)" "sha bytes = digest_as_bytes d" by auto
  show ?thesis by (rule extends_insert [where sha = sha, OF assms(2,3) b(2,1)])
qed

lemma store_blob_extends:
  assumes "store_blob H sha bytes s = (Inr d, s')" "hex_laws H" "\<And>b. length (sha b) = 32"
  shows "extends H sha {} s s'"
proof -
  from store_blob_stores [OF assms(1)] have d: "d = Sha256 (sha bytes)"
    "sg_blobs s' = bt_insert (digest_hex H d) bytes (sg_blobs s)" by auto
  have "digest_wf d" using d(1) assms(3) by (simp add: digest_wf_def)
  from extends_insert [where sha = sha and c = bytes, OF assms(2) this _ d(2)] d(1) show ?thesis by simp
qed

section \<open>Installing produced layers\<close>

text \<open>
  The produced layers wait under temporary names of their own, with the content that their
  descriptors name; sealing a layer leaves it so.
\<close>

definition waits :: "hexlib \<Rightarrow> sha256 \<Rightarrow> staged \<Rightarrow> sealed_scute \<Rightarrow> string option \<Rightarrow> bool" where
  "waits H sha s scute name \<longleftrightarrow>
     (case name of None \<Rightarrow> False
      | Some pending \<Rightarrow> length pending \<noteq> 64 \<and>
          (case (bt_get (sg_blobs s) pending, digest_from_str H (sd_digest (ss_descriptor scute))) of
             (Some bytes, Inr d) \<Rightarrow> sha bytes = digest_as_bytes d
           | _ \<Rightarrow> False))"

definition produced_wait ::
    "hexlib \<Rightarrow> sha256 \<Rightarrow> (nat \<Rightarrow> string option) \<Rightarrow> sealed_scute list \<Rightarrow> staged \<Rightarrow> bool" where
  "produced_wait H sha names scutes s \<longleftrightarrow>
     distinct (map names [0..<length scutes]) \<and>
     list_all (\<lambda>(i, scute). waits H sha s scute (names i)) (enumerate 0 scutes)"

definition names_below :: "(nat \<Rightarrow> string option) \<Rightarrow> nat \<Rightarrow> string set" where
  "names_below names n = {name. \<exists>i<n. names i = Some name}"

lemma waits_extends:
  assumes "waits H sha s0 scute name" "extends H sha R s0 s" "bt_wf (sg_blobs s0)"
    and "\<And>pending. name = Some pending \<Longrightarrow> pending \<notin> R"
  shows "waits H sha s scute name"
  using assms by (auto simp: waits_def extends_def split: option.splits)

lemma install_extends:
  assumes "install H scute (Some pending) s = (Inr u, s')" "hex_laws H"
    and "waits H sha s scute (Some pending)" "bt_wf (sg_blobs s)"
  shows "extends H sha {pending} s s' \<and> held H sha s' (sd_digest (ss_descriptor scute))"
proof -
  from assms(3) obtain bytes d where w: "length pending \<noteq> 64" "bt_get (sg_blobs s) pending = Some bytes"
    "digest_from_str H (sd_digest (ss_descriptor scute)) = Inr d" "sha bytes = digest_as_bytes d"
    by (auto simp: waits_def split: option.splits sum.splits)
  from assms(1) obtain name' where "install_scute H scute (Some pending) s = (Inr (), name', s')"
    by (auto simp: install_def split: prod.splits)
  from install_scute_stores [OF this w(3,2)]
  have blobs: "sg_blobs s' = bt_insert (digest_hex H d) bytes (bt_delete pending (sg_blobs s))" by simp
  define t where "t = s\<lparr>sg_blobs := bt_delete pending (sg_blobs s)\<rparr>"
  have t: "sg_blobs s' = bt_insert (digest_hex H d) bytes (sg_blobs t)" by (simp add: t_def blobs)
  have "held H sha t name" if "held H sha s name" for name
  proof -
    from that obtain d' where d': "digest_from_str H name = Inr d'" by (auto simp: held_def split: sum.splits)
    then have "digest_hex H d' \<noteq> pending"
      using w(1) digest_hex_length [OF assms(2) digest_from_str_wf [OF assms(2)]] by blast
    with that d' assms(4) show ?thesis by (simp add: held_def staged_content_def t_def bt_get_delete)
  qed
  then have "extends H sha {pending} s t"
    using assms(4) by (auto simp: t_def extends_def bt_wf_delete bt_get_delete)
  from extends_trans [OF this extends_insert [where sha = sha, OF assms(2) digest_from_str_wf [OF assms(2) w(3)] w(4) t]]
    held_insert [where sha = sha, OF w(4) t w(3)]
  show ?thesis by simp
qed

lemma base_layers_held:
  assumes "op_fold (base_layer A v) [] (enumerate 0 ls) s = (Inr layers, s')"
    and "hex_laws (ab_hex A)" "bt_wf (sg_blobs s)"
  shows "extends (ab_hex A) (ab_sha A) {} s s' \<and>
    (\<forall>l\<in>set (filter layer_is_scute ls). held (ab_hex A) (ab_sha A) s' (layer_digest l))"
proof -
  define I where "I xs t \<longleftrightarrow> extends (ab_hex A) (ab_sha A) {} s t \<and>
    (\<forall>l\<in>set (filter layer_is_scute (map snd xs)). held (ab_hex A) (ab_sha A) t (layer_digest l))"
    for xs :: "(nat \<times> layer) list" and t
  have "I (enumerate 0 ls) s'"
  proof (rule op_fold_run [where I = "\<lambda>xs c t. I xs t", OF assms(1)])
    show "I [] s" by (simp add: I_def extends_refl)
    fix c x xs ys t t' c'
    assume i: "I xs t" and f: "base_layer A v c x t = (Inr c', t')"
    obtain k l where x: "x = (k, l)" by (cases x)
    show "I (xs @ [x]) t'"
    proof (cases "layer_is_scute l")
      case False
      with f x i show ?thesis by (simp add: base_layer_def op_return_Inr_iff I_def)
    next
      case True
      with f x obtain d u where "digest_from_str (ab_hex A) (layer_digest l) = Inr d"
        "copy_blob (ab_hex A) (ab_sha A) (ab_cache A) (k + 1) d (layer_size l) t = (Inr u, t')"
        by (auto simp: base_layer_def op_Inr_iffs parse_any_def mapErr_Inr_iff')
      then have e: "extends (ab_hex A) (ab_sha A) {} t t'" "held (ab_hex A) (ab_sha A) t' (layer_digest l)"
        using copy_blob_extends [OF _ assms(2)] by blast+
      have "bt_wf (sg_blobs t)" using i assms(3) by (auto simp: I_def intro: extends_wf)
      with e i x extends_kept [OF _ e(1)] extends_held [OF e(1)] show ?thesis by (auto simp: I_def)
    qed
  qed
  then show ?thesis by (simp add: I_def)
qed

lemma produced_layers_held:
  assumes "op_fold (produced_layer A names) start (enumerate 0 ss) s = (Inr result, s')"
    and "hex_laws (ab_hex A)" "bt_wf (sg_blobs s)" "produced_wait (ab_hex A) (ab_sha A) names ss s"
  shows "extends (ab_hex A) (ab_sha A) (names_below names (length ss)) s s' \<and>
    (\<forall>sc\<in>set ss. held (ab_hex A) (ab_sha A) s' (sd_digest (ss_descriptor sc)))"
proof -
  define I where "I xs t \<longleftrightarrow> extends (ab_hex A) (ab_sha A) (names_below names (length xs)) s t \<and>
    (\<forall>sc\<in>set (map snd xs). held (ab_hex A) (ab_sha A) t (sd_digest (ss_descriptor sc)))"
    for xs :: "(nat \<times> sealed_scute) list" and t
  have "I (enumerate 0 ss) s'"
  proof (rule op_fold_run [where I = "\<lambda>xs c t. I xs t", OF assms(1)])
    show "I [] s" by (simp add: I_def extends_refl names_below_def)
    fix c x xs ys t t' c'
    assume e: "enumerate 0 ss = xs @ x # ys" and i: "I xs t" and f: "produced_layer A names c x t = (Inr c', t')"
    have k: "length xs < length ss" using arg_cong [OF e, of length] by simp
    have x: "x = (length xs, ss ! length xs)"
      using nth_append_length [of xs x ys] k by (simp flip: e add: nth_enumerate_eq)
    have "x \<in> set (enumerate 0 ss)" unfolding e by simp
    then have w: "waits (ab_hex A) (ab_sha A) s (ss ! length xs) (names (length xs))"
      using assms(4) x by (auto simp: produced_wait_def list_all_iff)
    then obtain pending where p: "names (length xs) = Some pending" by (auto simp: waits_def split: option.splits)
    have fresh: "pending \<notin> names_below names (length xs)"
    proof
      assume "pending \<in> names_below names (length xs)"
      then obtain j where "j < length xs" "names j = names (length xs)" by (auto simp: names_below_def p)
      with assms(4) k show False by (auto simp: produced_wait_def distinct_conv_nth)
    qed
    have t: "bt_wf (sg_blobs t)" using i assms(3) by (auto simp: I_def intro: extends_wf)
    have w': "waits (ab_hex A) (ab_sha A) t (ss ! length xs) (Some pending)"
      using waits_extends [OF w _ assms(3), of "names_below names (length xs)" t] i fresh p by (simp add: I_def)
    from f x p obtain u where "install (ab_hex A) (ss ! length xs) (Some pending) t = (Inr u, t')"
      by (auto simp: produced_layer_def op_Inr_iffs split: prod.splits)
    from install_extends [OF this assms(2) w' t]
    have g: "extends (ab_hex A) (ab_sha A) {pending} t t'"
      "held (ab_hex A) (ab_sha A) t' (sd_digest (ss_descriptor (ss ! length xs)))" by auto
    have "names_below names (length (xs @ [x])) = names_below names (length xs) \<union> {pending}"
      using p by (auto simp: names_below_def less_Suc_eq)
    with i extends_trans [OF _ g(1)] extends_held [OF g(1) t] g(2) x show "I (xs @ [x]) t'"
      by (auto simp: I_def)
  qed
  then show ?thesis by (simp add: I_def)
qed

definition root_layers :: "root \<Rightarrow> layer list" where
  "root_layers r = (case rt_base r of None \<Rightarrow> [] | Some c \<Rightarrow> filter layer_is_scute (checked_layers c)) @
     map (\<lambda>s. ScuteZstd (ss_descriptor s)) (rt_produced r)"

lemma produced_wait_extends:
  assumes "produced_wait H sha names ss s" "extends H sha {} s s'" "bt_wf (sg_blobs s)"
  shows "produced_wait H sha names ss s'"
  using assms waits_extends [OF _ assms(2,3)]
  by (auto simp: produced_wait_def list_all_iff)

lemma assemble_root_held:
  assumes "assemble_root A names r annotations s = (Inr result, s')"
    and "hex_laws (ab_hex A)" "bt_wf (sg_blobs s)" "produced_wait (ab_hex A) (ab_sha A) names (rt_produced r) s"
  shows "extends (ab_hex A) (ab_sha A) (names_below names (length (rt_produced r))) s s' \<and>
    (\<forall>l\<in>set (root_layers r). held (ab_hex A) (ab_sha A) s' (layer_digest l))"
proof -
  let ?start = "case rt_base r of
         None \<Rightarrow> op_return (zero_root, [])
       | Some base \<Rightarrow>
           op_bind (op_lift (manifest_value (ab_codec A) base)) (\<lambda>original.
           op_bind (op_fold (base_layer A original) [] (enumerate 0 (checked_layers base))) (\<lambda>layers.
           op_bind (op_lift (okOr BaseWithoutScutes (checked_root base))) (\<lambda>parent.
             op_return (parent, layers))))"
  from assms(1) obtain start s1 result' where
    st: "?start s = (Inr start, s1)"
    and pr: "op_fold (produced_layer A names) start (enumerate 0 (rt_produced r)) s1 = (Inr result', s')"
    unfolding assemble_root_def by (auto simp: op_Inr_iffs failIf_Inr_iff split: prod.splits)
  have b: "extends (ab_hex A) (ab_sha A) {} s s1 \<and>
    (\<forall>l\<in>set (case rt_base r of None \<Rightarrow> [] | Some c \<Rightarrow> filter layer_is_scute (checked_layers c)).
       held (ab_hex A) (ab_sha A) s1 (layer_digest l))"
  proof (cases "rt_base r")
    case None
    with st show ?thesis by (simp add: op_return_Inr_iff extends_refl)
  next
    case (Some c)
    with st obtain v layers where "op_fold (base_layer A v) [] (enumerate 0 (checked_layers c)) s = (Inr layers, s1)"
      by (auto simp: op_Inr_iffs)
    from base_layers_held [OF this assms(2,3)] Some show ?thesis by simp
  qed
  then have s1: "bt_wf (sg_blobs s1)" "produced_wait (ab_hex A) (ab_sha A) names (rt_produced r) s1"
    using extends_wf produced_wait_extends assms(3,4) by blast+
  from produced_layers_held [OF pr assms(2) s1]
  have g: "extends (ab_hex A) (ab_sha A) (names_below names (length (rt_produced r))) s1 s'"
    "\<forall>sc\<in>set (rt_produced r). held (ab_hex A) (ab_sha A) s' (sd_digest (ss_descriptor sc))" by auto
  have "extends (ab_hex A) (ab_sha A) (names_below names (length (rt_produced r))) s s'"
    using extends_trans [OF conjunct1 [OF b] g(1)] by simp
  with b g extends_held [OF g(1) s1(1)] show ?thesis by (auto simp: root_layers_def)
qed

section \<open>The whole assembly\<close>

text \<open>What the parameters of the assembly promise.\<close>

definition assembly_ok :: "assembly \<Rightarrow> bool" where
  "assembly_ok A \<longleftrightarrow> codec_ok (ab_json A) (ab_codec A) \<and> hex_laws (ab_hex A) \<and>
     (\<forall>b. length (ab_sha A b) = 32) \<and>
     (\<forall>t. content_store (ab_hex A) (ab_view A t) (staged_content (ab_hex A) t))"

lemma assemble_config_extends:
  assumes "assemble_config A reqs metadata fs s = (Inr fs', s')" "hex_laws (ab_hex A)" "\<And>b. length (ab_sha A b) = 32"
  shows "extends (ab_hex A) (ab_sha A) {} s s'"
  using assms(1)
  by (auto simp: assemble_config_def Let_def op_Inr_iffs parse_any_def split: option.splits if_splits
      dest!: store_blob_extends [OF _ assms(2,3)] copy_blob_extends [OF _ assms(2)])

lemma pmi_store_extends:
  assumes "pmi_store A n p s = (Inr l, s')" "hex_laws (ab_hex A)"
  shows "extends (ab_hex A) (ab_sha A) {} s s'"
proof -
  from assms(1) obtain d u where d: "digest_from_str (ab_hex A) (layer_digest l) = Inr d"
    and c: "(case p of
           PmiInherited _ \<Rightarrow> copy_blob (ab_hex A) (ab_sha A) (ab_cache A) n d (layer_size l)
         | PmiFile f \<Rightarrow> store_verified (ab_hex A) (ab_sha A) (fw_reader f) d (layer_size l)) s = (Inr u, s')"
    by (auto simp: pmi_store_def op_Inr_iffs parse_any_def mapErr_Inr_iff')
  show ?thesis
  proof (cases p)
    case (PmiInherited c)
    with c copy_blob_extends [OF _ assms(2) d] show ?thesis by auto
  next
    case (PmiFile f)
    with c store_verified_extends [OF _ assms(2) digest_from_str_wf [OF assms(2) d]] show ?thesis by auto
  qed
qed

lemma assemble_boot_extends:
  assumes "assemble_boot A out layers s = (Inr layers', s')" "hex_laws (ab_hex A)" "\<And>b. length (ab_sha A b) = 32"
  shows "extends (ab_hex A) (ab_sha A) {} s s'"
  using assms(1)
  by (auto simp: assemble_boot_def op_Inr_iffs extends_refl split: option.splits if_splits
      dest!: store_blob_extends [OF _ assms(2,3)])

text \<open>Resolving adds the manifest, and removes the index that it has looked up.\<close>

lemma held_resolved:
  assumes "held H sha s name" "hex_laws H" "\<And>b. length (sha b) = 32" "bt_wf (sg_blobs s)"
    and "sg_blobs s' = bt_delete (hex_encode H (sha index))
      (bt_insert (hex_encode H (sha index)) index (bt_insert (hex_encode H (sha manifest)) manifest (sg_blobs s)))"
  shows "held H sha s' name \<or> digest_from_str H name = Inr (Sha256 (sha index))"
proof -
  from assms(1) obtain d where d: "digest_from_str H name = Inr d" by (auto simp: held_def split: sum.splits)
  have "held H sha s' name" if "d \<noteq> Sha256 (sha index)"
  proof -
    have i: "digest_hex H d \<noteq> hex_encode H (sha index)"
      using that digest_hex_inj [OF assms(2), of d "Sha256 (sha index)"] by simp
    have m: "digest_hex H d = hex_encode H (sha manifest) \<longleftrightarrow> d = Sha256 (sha manifest)"
      using digest_hex_inj [OF assms(2), of d "Sha256 (sha manifest)"] by simp
    show ?thesis using assms(1,4) d i m
      by (auto simp: held_def staged_content_def assms(5) bt_get_delete)
  qed
  with d show ?thesis by auto
qed

lemma selected_scutes:
  "l \<in> set (selected_layers H sha out) \<Longrightarrow> layer_is_scute l \<Longrightarrow>
     \<exists>r. so_root out = Some r \<and> l \<in> set (root_layers r)"
proof -
  have pmi: "layer_is_scute l \<Longrightarrow> pmi_layer p \<noteq> Some l" for p l
  proof (cases p)
    case (PmiInherited c)
    moreover have "layer_is_pmi l \<Longrightarrow> \<not> layer_is_scute l" for l by (cases l) auto
    ultimately show "layer_is_scute l \<Longrightarrow> pmi_layer p \<noteq> Some l" by (auto simp: find_Some_iff)
  qed auto
  assume "l \<in> set (selected_layers H sha out)" "layer_is_scute l"
  then show ?thesis using pmi
    by (cases "so_root out"; cases "so_pmi out"; cases "nonempty_boot (so_boot out)")
       (auto simp: selected_layers_def root_layers_def [symmetric] split: option.splits dest: sym [of "Some l"])
qed

lemma assembled_scutes_held:
  assumes "assemble A names out reqs s = (Inr img, s')" "assembly_ok A"
    and "selection_wf (ab_json A) (ab_hex A) (ab_sha A) out" "bt_wf (sg_blobs s)"
    and "case so_root out of None \<Rightarrow> True | Some r \<Rightarrow> produced_wait (ab_hex A) (ab_sha A) names (rt_produced r) s"
  shows "bt_wf (sg_blobs s') \<and> image_parsed (ab_json A) (CheckedImage img) \<and>
     host_current (ab_host A) = Inr (ri_architecture img) \<and>
     list_all (\<lambda>name. held (ab_hex A) (ab_sha A) s' name \<or>
      digest_from_str (ab_hex A) name = Inr (Sha256 (ab_sha A (layout_index A img))))
     (map layer_digest (mf_layers (ri_manifest img)) @
      (if config_descriptor_is_empty (mf_config (ri_manifest img)) then [] else [cd_digest (mf_config (ri_manifest img))]))"
proof -
  have ok: "codec_ok (ab_json A) (ab_codec A)" "hex_laws (ab_hex A)" "length (ab_sha A b) = 32"
    "content_store (ab_hex A) (ab_view A t) (staged_content (ab_hex A) t)" for b t
    using assms(2) by (simp_all add: assembly_ok_def)
  from assms(1) obtain v fs fs1 s1 annotations annotations' layers s2 layers' s3 layers'' s4 arch where
    c: "assemble_config A reqs (output_metadata out) fs s = (Inr fs1, s1)"
    and r: "(case so_root out of None \<Rightarrow> op_return (root_annotations out annotations, [])
      | Some r \<Rightarrow> assemble_root A names r (root_annotations out annotations)) s1 = (Inr (annotations', layers), s2)"
    and p: "(case so_pmi out of None \<Rightarrow> op_return layers
      | Some p \<Rightarrow> op_bind (pmi_store A (length layers + 1) p) (\<lambda>layer.
          op_return (layers @ [to_value (en_layer layer)]))) s2 = (Inr layers', s3)"
    and b: "assemble_boot A out layers' s3 = (Inr layers'', s4)"
    and h: "host_current (ab_host A) = Inr arch"
    and z: "resolve_staging A (jv_write (ab_codec A)
       (SMap (bt_insert ''layers'' (SSeq layers'') (bt_insert ''annotations'' (SMap annotations') fs1)))) arch s4 = (Inr img, s')"
    by (rule assemble_steps)
  have e1: "extends (ab_hex A) (ab_sha A) {} s s1" by (rule assemble_config_extends [OF c ok(2,3)])
  note w1 = extends_wf [OF e1 assms(4)]
  have r2: "bt_wf (sg_blobs s2) \<and> (\<forall>rt. so_root out = Some rt \<longrightarrow>
      (\<forall>l\<in>set (root_layers rt). held (ab_hex A) (ab_sha A) s2 (layer_digest l)))"
  proof (cases "so_root out")
    case None
    with r w1 show ?thesis by (simp add: op_return_Inr_iff)
  next
    case (Some rt)
    with r have a: "assemble_root A names rt (root_annotations out annotations) s1 = (Inr (annotations', layers), s2)"
      by simp
    have "produced_wait (ab_hex A) (ab_sha A) names (rt_produced rt) s1"
      using assms(4,5) Some e1 by (auto intro: produced_wait_extends)
    from assemble_root_held [OF a ok(2) w1 this] show ?thesis using Some w1 by (auto intro: extends_wf)
  qed
  have e3: "extends (ab_hex A) (ab_sha A) {} s2 s3"
  proof (cases "so_pmi out")
    case None
    with p show ?thesis by (simp add: op_return_Inr_iff extends_refl)
  next
    case (Some q)
    with p obtain l where "pmi_store A (length layers + 1) q s2 = (Inr l, s3)" by (auto simp: op_Inr_iffs)
    then show ?thesis by (rule pmi_store_extends [OF _ ok(2)])
  qed
  have e: "extends (ab_hex A) (ab_sha A) {} s2 s4"
    by (rule extends_kept [OF e3 assemble_boot_extends [OF b ok(2,3)]])
  have w4: "bt_wf (sg_blobs s4)" using extends_wf [OF e] r2 by blast
  note result = resolve_staging_result [OF z ok(1,2,3,4) h]
  have layers: "mf_layers (ri_manifest img) = selected_layers (ab_hex A) (ab_sha A) out"
    by (rule assembled_manifest(1) [OF assms(1) ok(1,2,3,4) assms(3)])
  define P where "P name \<longleftrightarrow> held (ab_hex A) (ab_sha A) s' name \<or>
      digest_from_str (ab_hex A) name = Inr (Sha256 (ab_sha A (layout_index A img)))" for name
  have meta: "P name" if "(name, extent) \<in> set (metadata_digests img)" for name extent
  proof -
    from result(5) [OF w4] that have
      "case digest_from_str (ab_hex A) name of Inl _ \<Rightarrow> False
        | Inr d \<Rightarrow> d = Sha256 (ab_sha A (layout_index A img)) \<or>
            authentic (ab_sha A) (staged_content (ab_hex A) s') d extent"
      by (auto simp: list_all_iff)
    then show ?thesis by (auto simp: P_def held_def authentic_def split: sum.splits option.splits)
  qed
  have "P (layer_digest l)" if l: "l \<in> set (mf_layers (ri_manifest img))" for l
  proof (cases "layer_is_scute l")
    case True
    with l layers selected_scutes obtain rt where "so_root out = Some rt" "l \<in> set (root_layers rt)" by metis
    with r2 have "held (ab_hex A) (ab_sha A) s4 (layer_digest l)" using extends_held [OF e] by blast
    from held_resolved [OF this ok(2,3) w4 result(3)] show ?thesis by (simp add: P_def)
  next
    case False
    with l have "(layer_digest l, layer_size l) \<in> set (metadata_digests img)" by (auto simp: metadata_digests_def Let_def)
    then show ?thesis by (rule meta)
  qed
  moreover have "P (cd_digest (mf_config (ri_manifest img)))"
    if "\<not> config_descriptor_is_empty (mf_config (ri_manifest img))"
    using that by (intro meta [of _ "cd_size (mf_config (ri_manifest img))"]) (simp add: metadata_digests_def Let_def)
  moreover have "bt_wf (sg_blobs s')" using w4 by (simp add: result(3) bt_wf_delete)
  ultimately show ?thesis using result(4) unfolding P_def [symmetric]
    by (auto simp: list_all_iff image_parsed_def)
qed

end
