(* ===== verification/Output_Assembled.thy ===== *)
theory Output_Assembled
  imports Output_Assembly_Sound
begin

text \<open>
  The properties of assembled images, and an example with a base, a produced layer and a
  JSON library that knows the few values of the example.
\<close>

section \<open>The build binding\<close>

definition provenance_entry :: "provenance \<Rightarrow> string \<Rightarrow> string option" where
  "provenance_entry p name =
     (if name = ''commit'' then map_option (\<lambda>a. a @ '':'' @ pv_commit p) (okOf (commit_algorithm (pv_kind p)))
      else if name = ''context'' then map_option (\<lambda>path. if path = [] then ''.'' else path) (pv_context p)
      else if name = ''plan'' then pv_plan p
      else if name = ''lock'' then (case pv_lock p of None \<Rightarrow> None | Some path \<Rightarrow> path)
      else if name = ''bootstrapped'' then (if pv_bootstrapped p then Some ''true'' else None)
      else if name = ''location'' then pv_location p
      else None)"

lemma map_of_filter_key:
  "map_of (filter (\<lambda>(k, _). P k) m) k = (if P k then map_of m k else None)"
  by (induction m) auto

definition lock_text :: "provenance \<Rightarrow> string option" where
  "lock_text p = (case pv_lock p of None \<Rightarrow> None | Some path \<Rightarrow> path)"

lemma insert_optional_get:
  "map_of (insert_optional key v m) k =
     (if v \<noteq> None \<and> k = build_prefix @ key then map_option SStr v else map_of m k)"
  by (cases v) (simp_all add: insert_optional_def)

lemma insert_optional_wf: "bt_wf m \<Longrightarrow> bt_wf (insert_optional key v m)"
  by (simp add: insert_optional_def split: option.splits)

lemma bind_annotations_Inr:
  assumes "bind_annotations p annotations = Inr bound"
  shows "\<exists>algorithm path plan. commit_algorithm (pv_kind p) = Inr algorithm \<and> pv_context p = Some path \<and> pv_plan p = Some plan \<and>
     bound = insert_optional ''location'' (pv_location p)
       (insert_optional ''bootstrapped'' (if pv_bootstrapped p then Some ''true'' else None)
       (insert_optional ''lock'' (lock_text p)
       (insert_optional ''plan'' (Some plan)
       (insert_optional ''context'' (Some (if path = [] then ''.'' else path))
       (insert_optional ''commit'' (Some (algorithm @ '':'' @ pv_commit p))
         (filter (\<lambda>(key, _). \<not> starts_with build_prefix key) annotations))))))"
proof -
  have ins: "bt_insert (build_prefix @ key) (SStr v) m = insert_optional key (Some v) m" for key v m
    by (simp add: insert_optional_def)
  have none: "insert_optional key None m = m" for key m by (simp add: insert_optional_def)
  from assms obtain algorithm context_path plan where
    a: "commit_algorithm (pv_kind p) = Inr algorithm" "pv_context p = Some context_path" "pv_plan p = Some plan"
    by (auto simp: bind_annotations_def bindE_Inr_iff okOr_def split: option.splits)
  show ?thesis
  proof (cases "pv_lock p")
    case None
    with assms a show ?thesis
      by (simp add: bind_annotations_def Let_def okOr_def ins none lock_text_def)
  next
    case (Some path)
    with assms a obtain lock where "path = Some lock"
      by (cases path) (simp_all add: bind_annotations_def Let_def okOr_def)
    with assms a Some show ?thesis
      by (simp add: bind_annotations_def Let_def okOr_def ins none lock_text_def)
  qed
qed

lemma bind_annotations_get:
  assumes "bind_annotations p annotations = Inr bound"
  shows "map_of bound key =
     (if starts_with build_prefix key then map_option SStr (provenance_entry p (drop (length build_prefix) key))
      else map_of annotations key)"
proof -
  note r = bind_annotations_Inr [OF assms]
  show ?thesis
  proof (cases "starts_with build_prefix key")
    case True
    then obtain name where key: "key = build_prefix @ name" by (auto simp: starts_with_iff)
    have sw: "starts_with build_prefix (build_prefix @ n)" for n by (simp add: starts_with_iff)
    have "map_of (filter (\<lambda>(key, _). \<not> starts_with build_prefix key) annotations) (build_prefix @ n) = None" for n
      by (simp add: map_of_filter_key [of "\<lambda>k. \<not> starts_with build_prefix k"] sw)
    note none = this
    from r obtain algorithm path plan where
      a: "commit_algorithm (pv_kind p) = Inr algorithm" "pv_context p = Some path" "pv_plan p = Some plan"
      and b: "bound = insert_optional ''location'' (pv_location p)
       (insert_optional ''bootstrapped'' (if pv_bootstrapped p then Some ''true'' else None)
       (insert_optional ''lock'' (lock_text p)
       (insert_optional ''plan'' (Some plan)
       (insert_optional ''context'' (Some (if path = [] then ''.'' else path))
       (insert_optional ''commit'' (Some (algorithm @ '':'' @ pv_commit p))
         (filter (\<lambda>(key, _). \<not> starts_with build_prefix key) annotations))))))" by blast
    have "map_of bound (build_prefix @ name) =
      (if name = ''location'' \<and> pv_location p \<noteq> None then map_option SStr (pv_location p)
       else if name = ''bootstrapped'' \<and> pv_bootstrapped p then Some (SStr ''true'')
       else if name = ''lock'' \<and> lock_text p \<noteq> None then map_option SStr (lock_text p)
       else if name = ''plan'' then Some (SStr plan)
       else if name = ''context'' then Some (SStr (if path = [] then ''.'' else path))
       else if name = ''commit'' then Some (SStr (algorithm @ '':'' @ pv_commit p)) else None)"
      unfolding b insert_optional_get same_append_eq none by simp
    then show ?thesis unfolding key
      by (simp add: sw provenance_entry_def lock_text_def [symmetric] a)
  next
    case False
    then have "key \<noteq> build_prefix @ n" for n by (auto simp: starts_with_iff)
    with r False show ?thesis
      by (auto simp: insert_optional_get map_of_filter_key [of "\<lambda>k. \<not> starts_with build_prefix k"])
  qed
qed

lemma bind_annotations_wf: "bind_annotations p annotations = Inr bound \<Longrightarrow> bt_wf annotations \<Longrightarrow> bt_wf bound"
  by (drule bind_annotations_Inr) (auto simp: insert_optional_wf bt_wf_filter)

lemma de_manifest_rebound:
  assumes "de_manifest (SMap fs) = Inr m" "de_manifest (SMap (bt_insert ''annotations'' v fs)) = Inr m'"
  shows "mf_layers m' = mf_layers m \<and> mf_config m' = mf_config m"
  using assms
  by (auto simp: de_manifest_def lax_fields_def bindE_Inr_iff field_required_def)

lemma bind_build_steps:
  assumes "bind_build A p img s = (Inr bound, s')"
  obtains fs annotations annotations' s1 where
    "jv_read (ab_codec A) (vm_bytes (ri_manifest_bytes img)) = Inr (SMap fs)"
    "manifest_annotations fs = Inr annotations" "bind_annotations p annotations = Inr annotations'"
    "resolve_staging A (jv_write (ab_codec A) (SMap (bt_insert ''annotations'' (SMap annotations') fs)))
       (ri_architecture img) s = (Inr bound, s1)"
    "ri_root bound = ri_root img"
    "sg_blobs s' = (if vm_digest (ri_manifest_bytes img) = Sha256 (ab_sha A (vm_bytes (ri_manifest_bytes bound)))
       then sg_blobs s1 else bt_delete (digest_hex (ab_hex A) (vm_digest (ri_manifest_bytes img))) (sg_blobs s1))"
proof -
  have as_object: "as_object message v = Inr fs \<longleftrightarrow> v = SMap fs" for message v fs
    by (cases v) (auto simp: as_object_def)
  have removed: "remove_blob name s = (Inr u, t) \<Longrightarrow> sg_blobs t = bt_delete name (sg_blobs s)" for name s t u
    by (auto simp: remove_blob_def op_bind_Inr_iff split: option.splits dest!: sys_cases)
  from assms obtain fs annotations annotations' s1 u where st:
    "jv_read (ab_codec A) (vm_bytes (ri_manifest_bytes img)) = Inr (SMap fs)"
    "manifest_annotations fs = Inr annotations" "bind_annotations p annotations = Inr annotations'"
    "resolve_staging A (jv_write (ab_codec A) (SMap (bt_insert ''annotations'' (SMap annotations') fs)))
       (ri_architecture img) s = (Inr bound, s1)"
    "ri_root img = ri_root bound"
    "(if vm_digest (ri_manifest_bytes img) \<noteq> Sha256 (ab_sha A (vm_bytes (ri_manifest_bytes bound)))
       then op_err AssemblyCache (remove_blob (digest_hex (ab_hex A) (vm_digest (ri_manifest_bytes img))))
       else op_return ()) s1 = (Inr u, s')"
    unfolding bind_build_def Let_def op_Inr_iffs as_object failIf_Inr_iff mapErr_Inr_iff' by blast
  from st(6) have "sg_blobs s' = (if vm_digest (ri_manifest_bytes img) = Sha256 (ab_sha A (vm_bytes (ri_manifest_bytes bound)))
       then sg_blobs s1 else bt_delete (digest_hex (ab_hex A) (vm_digest (ri_manifest_bytes img))) (sg_blobs s1))"
    by (auto simp: op_Inr_iffs dest: removed split: if_splits)
  with st(1-4) st(5) [symmetric] show ?thesis by (rule that)
qed

lemma bind_build_manifest:
  assumes "bind_build A p img s = (Inr bound, s')" "assembly_ok A" "image_parsed (ab_json A) (CheckedImage img)"
    and "host_current (ab_host A) = Inr (ri_architecture img)"
  shows "mf_layers (ri_manifest bound) = mf_layers (ri_manifest img) \<and> mf_config (ri_manifest bound) = mf_config (ri_manifest img) \<and>
     ri_root bound = ri_root img \<and>
     bt_get (mf_annotations (ri_manifest bound)) key =
       (if starts_with build_prefix key then provenance_entry p (drop (length build_prefix) key)
        else bt_get (mf_annotations (ri_manifest img)) key)"
proof -
  have ok: "codec_ok (ab_json A) (ab_codec A)" "hex_laws (ab_hex A)" "length (ab_sha A b) = 32"
    "content_store (ab_hex A) (ab_view A t) (staged_content (ab_hex A) t)" for b t
    using assms(2) by (simp_all add: assembly_ok_def)
  from assms(1) obtain fs annotations annotations' s1 where
    j: "jv_read (ab_codec A) (vm_bytes (ri_manifest_bytes img)) = Inr (SMap fs)"
    and n: "manifest_annotations fs = Inr annotations" and b: "bind_annotations p annotations = Inr annotations'"
    and z: "resolve_staging A (jv_write (ab_codec A) (SMap (bt_insert ''annotations'' (SMap annotations') fs)))
       (ri_architecture img) s = (Inr bound, s1)"
    and r: "ri_root bound = ri_root img"
    by (rule bind_build_steps)
  have old: "de_manifest (SMap fs) = Inr (ri_manifest img)"
    using codec_okD(3) [OF ok(1) j] assms(3) by (simp add: image_parsed_def)
  note new = resolve_staging_result(1) [OF z ok(1,2,3,4) assms(4)]
  have wf: "bt_wf annotations"
  proof (cases "map_of fs ''annotations''")
    case (Some w)
    with n bt_get_value_ordered [OF codec_okD(4) [OF ok(1) j] refl Some]
    show ?thesis by (auto simp: manifest_annotations_def split: sval.splits)
  qed (use n in \<open>simp add: manifest_annotations_def\<close>)
  have "de_btree de_string (SMap annotations') = Inr (mf_annotations (ri_manifest bound))"
    using de_manifest_Inr [OF new] by (simp add: field_default_def)
  from de_btree_get [OF this] bind_annotations_wf [OF b wf]
  have g': "bt_get (mf_annotations (ri_manifest bound)) key =
      (case map_of annotations' key of Some (SStr s) \<Rightarrow> Some s | _ \<Rightarrow> None)"
    by (simp add: bt_wf_distinct)
  have g: "bt_get (mf_annotations (ri_manifest img)) key =
      (case map_of annotations key of Some (SStr s) \<Rightarrow> Some s | _ \<Rightarrow> None)"
  proof (cases "map_of fs ''annotations''")
    case None
    with n de_manifest_Inr [OF old] show ?thesis by (simp add: manifest_annotations_def field_default_def)
  next
    case (Some w)
    with n have "w = SMap annotations" by (auto simp: manifest_annotations_def split: sval.splits)
    with Some de_manifest_Inr [OF old] have "de_btree de_string (SMap annotations) = Inr (mf_annotations (ri_manifest img))"
      by (simp add: field_default_def)
    from de_btree_get [OF this] wf show ?thesis by (simp add: bt_wf_distinct)
  qed
  show ?thesis using de_manifest_rebound [OF old new] r g' g bind_annotations_get [OF b, of key]
    by (auto split: option.splits)
qed

lemma held_deleted:
  assumes "held H sha s name" "hex_laws H" "bt_wf (sg_blobs s)"
    and "sg_blobs s' = bt_delete (digest_hex H d) (sg_blobs s)"
  shows "held H sha s' name \<or> digest_from_str H name = Inr d"
proof -
  from assms(1) obtain d' where d': "digest_from_str H name = Inr d'" by (auto simp: held_def split: sum.splits)
  with assms(1,3) show ?thesis
    by (cases "d' = d") (auto simp: held_def staged_content_def assms(4) bt_get_delete digest_hex_inj [OF assms(2)])
qed

lemma held_same: "sg_blobs s' = sg_blobs s \<Longrightarrow> held H sha s name \<Longrightarrow> held H sha s' name"
  unfolding held_def staged_content_def by (simp only:)

lemma bind_build_held:
  assumes "bind_build A p img s = (Inr bound, s')" "assembly_ok A"
    and "host_current (ab_host A) = Inr (ri_architecture img)" "bt_wf (sg_blobs s)"
    and "held (ab_hex A) (ab_sha A) s name"
  shows "held (ab_hex A) (ab_sha A) s' name \<or>
     digest_from_str (ab_hex A) name = Inr (Sha256 (ab_sha A (layout_index A bound))) \<or>
     digest_from_str (ab_hex A) name = Inr (vm_digest (ri_manifest_bytes img))"
proof -
  have ok: "codec_ok (ab_json A) (ab_codec A)" "hex_laws (ab_hex A)" "length (ab_sha A b) = 32"
    "content_store (ab_hex A) (ab_view A t) (staged_content (ab_hex A) t)" for b t
    using assms(2) by (simp_all add: assembly_ok_def)
  from assms(1) obtain fs annotations' s1 where
    z: "resolve_staging A (jv_write (ab_codec A) (SMap (bt_insert ''annotations'' (SMap annotations') fs)))
       (ri_architecture img) s = (Inr bound, s1)"
    and d: "sg_blobs s' = (if vm_digest (ri_manifest_bytes img) = Sha256 (ab_sha A (vm_bytes (ri_manifest_bytes bound)))
       then sg_blobs s1 else bt_delete (digest_hex (ab_hex A) (vm_digest (ri_manifest_bytes img))) (sg_blobs s1))"
    by (rule bind_build_steps)
  note blobs = resolve_staging_result(3) [OF z ok(1,2,3,4) assms(3)]
  have w1: "bt_wf (sg_blobs s1)" using assms(4) by (simp add: blobs bt_wf_delete)
  from held_resolved [OF assms(5) ok(2,3) assms(4) blobs]
  consider (held) "held (ab_hex A) (ab_sha A) s1 name"
    | (index) "digest_from_str (ab_hex A) name = Inr (Sha256 (ab_sha A (layout_index A bound)))" by blast
  then show ?thesis
  proof cases
    case held
    show ?thesis
    proof (cases "vm_digest (ri_manifest_bytes img) = Sha256 (ab_sha A (vm_bytes (ri_manifest_bytes bound)))")
      case True
      then show ?thesis using held_same [OF _ held, of s'] d by simp
    next
      case False
      then show ?thesis using held_deleted [OF held ok(2) w1, of s'] d by auto
    qed
  qed simp
qed

section \<open>Properties\<close>

text \<open>C18: The image that an assembly resolves names exactly the layers of the selected
components, in order, base first, and its root is the selected root.\<close>

theorem assembled_image_selected:
  assumes "assemble A names out reqs s = (Inr img, s')" "assembly_ok A"
    and "selection_wf (ab_json A) (ab_hex A) (ab_sha A) out"
  shows "mf_layers (ri_manifest img) = selected_layers (ab_hex A) (ab_sha A) out \<and>
     ri_root img = (case so_root out of None \<Rightarrow> None | Some r \<Rightarrow> root_hash r)"
  using assms(2) unfolding assembly_ok_def
  by (intro conjI assembled_manifest [OF assms(1) _ _ _ _ assms(3)]) auto

text \<open>C19: After the assembly and the build binding, every blob that the manifest names is in the
staging with the hash of its digest, up to the digests of the files that were removed: the two
temporary indexes and the manifest before the binding.\<close>

theorem bound_image_held:
  assumes "assemble A names out reqs s = (Inr img, s1)" "bind_build A p img s1 = (Inr bound, s')"
    and "assembly_ok A" "selection_wf (ab_json A) (ab_hex A) (ab_sha A) out" "bt_wf (sg_blobs s)"
    and "case so_root out of None \<Rightarrow> True | Some r \<Rightarrow> produced_wait (ab_hex A) (ab_sha A) names (rt_produced r) s"
  shows "list_all (\<lambda>name. held (ab_hex A) (ab_sha A) s' name \<or>
      digest_from_str (ab_hex A) name \<in> Inr ` {Sha256 (ab_sha A (layout_index A img)),
        Sha256 (ab_sha A (layout_index A bound)), vm_digest (ri_manifest_bytes img)})
     (map layer_digest (mf_layers (ri_manifest bound)) @
      (if config_descriptor_is_empty (mf_config (ri_manifest bound)) then [] else [cd_digest (mf_config (ri_manifest bound))]))"
proof -
  note a = assembled_scutes_held [OF assms(1,3-6)]
  then have b: "mf_layers (ri_manifest bound) = mf_layers (ri_manifest img)" "mf_config (ri_manifest bound) = mf_config (ri_manifest img)"
    using bind_build_manifest [OF assms(2,3)] by blast+
  from a have l: "list_all (\<lambda>name. held (ab_hex A) (ab_sha A) s1 name \<or>
      digest_from_str (ab_hex A) name = Inr (Sha256 (ab_sha A (layout_index A img))))
     (map layer_digest (mf_layers (ri_manifest img)) @
      (if config_descriptor_is_empty (mf_config (ri_manifest img)) then [] else [cd_digest (mf_config (ri_manifest img))]))"
    and w: "bt_wf (sg_blobs s1)" "host_current (ab_host A) = Inr (ri_architecture img)" by blast+
  show ?thesis unfolding b
    by (rule list.pred_mono_strong [OF l]) (use bind_build_held [OF assms(2,3) w(2,1)] in blast)
qed

text \<open>C20: Binding an image to a build changes nothing but the annotations under the build prefix:
these become the provenance of the build, whatever the image inherited, and the layers, the
configuration, the root and all other annotations stay.\<close>

theorem build_binding_effect:
  assumes "bind_build A p img s = (Inr bound, s')" "assembly_ok A" "image_parsed (ab_json A) (CheckedImage img)"
    and "host_current (ab_host A) = Inr (ri_architecture img)"
  shows "mf_layers (ri_manifest bound) = mf_layers (ri_manifest img) \<and> mf_config (ri_manifest bound) = mf_config (ri_manifest img) \<and>
     ri_root bound = ri_root img \<and>
     bt_get (mf_annotations (ri_manifest bound)) key =
       (if starts_with build_prefix key then provenance_entry p (drop (length build_prefix) key)
        else bt_get (mf_annotations (ri_manifest img)) key)"
  by (rule bind_build_manifest [OF assms])

section \<open>An example\<close>

text \<open>The digest of a blob under the hash of the example: the byte, given in hex, 32 times.\<close>

definition sum_text :: "string \<Rightarrow> string" where
  "sum_text byte = ''sha256:'' @ concat (replicate 32 byte)"

definition example_scute :: sealed_scute where
  "example_scute =
     \<lparr>ss_descriptor = \<lparr>sd_digest = sum_text ''14'', sd_size = 1,
        sd_annotations = \<lparr>sa_data_blocks = 1, sa_salt = concat (replicate 32 ''00'')\<rparr>\<rparr>,
      ss_root = replicate 32 9, ss_parent = zero_root\<rparr>"

definition example_firmware :: pmi_descriptor where
  "example_firmware = \<lparr>pd_digest = sum_text ''15'', pd_size = 1\<rparr>"

definition example_selection :: stage_output where
  "example_selection =
     \<lparr>so_root = Some \<lparr>rt_base = None, rt_produced = [example_scute]\<rparr>,
      so_pmi = Some (PmiFile \<lparr>fw_descriptor = example_firmware, fw_reader = [Inr [21]]\<rparr>),
      so_boot = Some \<lparr>ib_bytes = [22], ib_root = Some (replicate 32 9)\<rparr>\<rparr>"

definition example_provenance :: provenance where
  "example_provenance = \<lparr>pv_kind = CommitSha1, pv_commit = ''c0'', pv_context = Some [], pv_plan = Some ''plan.yaml'',
     pv_lock = None, pv_bootstrapped = True, pv_location = None\<rparr>"

definition example_layers :: "layer list" where
  "example_layers = [ScuteZstd (ss_descriptor example_scute), Pmi example_firmware,
     BootConfigLayer \<lparr>bd_digest = sum_text ''16'', bd_size = 1\<rparr>]"

definition assembled_value :: "object \<Rightarrow> sval" where
  "assembled_value annotations =
     (case fresh_manifest of SMap fs \<Rightarrow>
        SMap (bt_insert ''layers'' (SSeq (map (\<lambda>l. to_value (en_layer l)) example_layers))
          (bt_insert ''annotations'' (SMap annotations) fs))
      | v \<Rightarrow> v)"

definition tip_annotations :: object where
  "tip_annotations = [(key_root, SStr (sum_text ''09''))]"

definition bound_annotations :: object where
  "bound_annotations = [(''dev.pichi.build.bootstrapped'', SStr ''true''), (''dev.pichi.build.commit'', SStr ''sha1:c0''),
     (''dev.pichi.build.context'', SStr ''.''), (''dev.pichi.build.plan'', SStr ''plan.yaml'')] @ tip_annotations"

definition example_index :: "string \<Rightarrow> index" where
  "example_index byte = index_default\<lparr>ix_manifests :=
     [\<lparr>ix_media_type = mt_manifest, ix_artifact_type = Some mt_artifact,
       ix_digest = sum_text byte, ix_size = 1,
       ix_platform = Some \<lparr>pf_os = ''pichi'', pf_architecture = ''arm64'', pf_variant = None\<rparr>,
       ix_annotations = []\<rparr>]\<rparr>"

text \<open>The values that the library of the example can write and read, with their texts.\<close>

definition known_values :: "(sval \<times> byte list) list" where
  "known_values =
     [(assembled_value tip_annotations, [10]), (en_index (example_index ''0a''), [11]),
      (assembled_value bound_annotations, [12]), (en_index (example_index ''0c''), [13])]"

definition example_read :: "byte list \<Rightarrow> string + sval" where
  "example_read bytes =
     (case map_of (map (\<lambda>(v, b). (b, v)) known_values) bytes of None \<Rightarrow> Inl ''syntax'' | Some v \<Rightarrow> Inr (to_value v))"

definition example_write :: "sval \<Rightarrow> byte list" where
  "example_write v = (case map_of known_values v of None \<Rightarrow> [0] | Some b \<Rightarrow> b)"

definition example_codec :: codec where
  "example_codec = \<lparr>jv_read = example_read, jv_write = example_write\<rparr>"

definition read_manifest :: "byte list \<Rightarrow> string + manifest" where
  "read_manifest bytes = bindE (example_read bytes) de_manifest"

definition read_index :: "byte list \<Rightarrow> string + index" where
  "read_index bytes = bindE (example_read bytes) de_index"

definition example_json :: json where
  "example_json = \<lparr>js_index = read_index, js_manifest = read_manifest\<rparr>"

definition no_cache :: cache where
  "no_cache n path = Inl (OsError ''ENOENT'')"

definition example_assembly :: assembly where
  "example_assembly =
     \<lparr>ab_hex = hex_ref, ab_sha = sum_sha, ab_json = example_json, ab_codec = example_codec,
      ab_host = ''aarch64'', ab_cache = no_cache, ab_view = staged_cache\<rparr>"

definition pending_staging :: staged where
  "pending_staging = empty_staging\<lparr>sg_blobs := [(''.tmp'', [20])]\<rparr>"

definition pending_names :: "nat \<Rightarrow> string option" where
  "pending_names i = (if i = 0 then Some ''.tmp'' else None)"

lemma known_values_agree:
  "list_all (\<lambda>(v, b). de_manifest (to_value v) = de_manifest v \<and> de_index (to_value v) = de_index v \<and>
     value_ordered (to_value v)) known_values"
  by code_simp

lemma known_values_texts: "distinct (map snd known_values) \<and> [0] \<notin> snd ` set known_values"
  by (simp add: known_values_def)

lemma example_read_write:
  assumes "example_read (example_write v) = Inr w"
  shows "w = to_value v \<and> v \<in> fst ` set known_values"
proof (cases "map_of known_values v")
  case None
  have "map_of (map (\<lambda>(v, b). (b, v)) known_values) [0] = None"
    using known_values_texts by (force simp: map_of_eq_None_iff)
  with None assms show ?thesis by (simp add: example_read_def example_write_def)
next
  case (Some b)
  then have "(v, b) \<in> set known_values" by (rule map_of_SomeD)
  then have "(b, v) \<in> set (map (\<lambda>(v, b). (b, v)) known_values)" by force
  moreover have "distinct (map fst (map (\<lambda>(v, b). (b, v)) known_values))"
    using known_values_texts by (simp add: comp_def case_prod_unfold)
  ultimately have "map_of (map (\<lambda>(v, b). (b, v)) known_values) b = Some v" by simp
  with Some assms \<open>(v, b) \<in> _\<close> show ?thesis by (force simp: example_read_def example_write_def)
qed

lemma example_codec_ok: "codec_ok example_json example_codec"
proof -
  have r: "de_manifest (to_value v) = de_manifest v \<and> de_index (to_value v) = de_index v \<and> value_ordered (to_value v)"
    if "v \<in> fst ` set known_values" for v
    using known_values_agree that by (force simp: list_all_iff)
  have "value_ordered v" if read: "example_read b = Inr v" for b v
  proof -
    from read obtain w where "map_of (map (\<lambda>(v, b). (b, v)) known_values) b = Some w" "v = to_value w"
      by (auto simp: example_read_def split: option.splits)
    then show ?thesis using r by (force dest: map_of_SomeD)
  qed
  moreover have "de_manifest v = Inr m" if "read_manifest (example_write v) = Inr m" for v m
    using that r example_read_write [of v] by (auto simp: read_manifest_def bindE_Inr_iff)
  moreover have "de_index v = Inr ix" if "read_index (example_write v) = Inr ix" for v ix
    using that r example_read_write [of v] by (auto simp: read_index_def bindE_Inr_iff)
  moreover have "de_manifest v = Inr m" if "example_read b = Inr v" "read_manifest b = Inr m" for b v m
    using that by (simp add: read_manifest_def)
  ultimately show ?thesis unfolding codec_ok_def example_json_def example_codec_def
    by (simp only: json.simps codec.simps) blast
qed

lemma example_assembly_ok: "assembly_ok example_assembly"
  unfolding assembly_ok_def
  by (simp add: example_assembly_def example_codec_ok hex_ref_laws sum_sha_def staging.content_store_axioms)


text \<open>The operations written out as case distinctions, which are evaluated one after the other.\<close>

lemmas op_defs = op_bind_def op_lift_def op_return_def Let_def

lemmas op_code [code] = fun_cong [OF remove_blob_def, unfolded op_defs] fun_cong [OF store_blob_def, unfolded op_defs]
  fun_cong [OF resolve_staging_def, unfolded op_defs] fun_cong [OF assemble_config_def, unfolded op_defs]
  fun_cong [OF base_layer_def, unfolded op_defs] fun_cong [OF produced_layer_def, unfolded op_defs]
  fun_cong [OF assemble_root_def, unfolded op_defs] fun_cong [OF pmi_store_def, unfolded op_defs]
  fun_cong [OF assemble_boot_def, unfolded op_defs] fun_cong [OF assemble_def, unfolded op_defs]
  fun_cong [OF bind_build_def, unfolded op_defs]

definition example_assembled :: resolved_image where
  "example_assembled =
     \<lparr>ri_manifest_bytes = \<lparr>vm_digest = Sha256 (replicate 32 10), vm_bytes = [10]\<rparr>,
      ri_manifest = \<lparr>mf_schema_version = 2, mf_media_type = mt_manifest, mf_artifact_type = mt_artifact,
        mf_config = config_descriptor_canonical, mf_layers = example_layers,
        mf_annotations = [(key_root, sum_text ''09'')]\<rparr>,
      ri_architecture = Arm64, ri_root = Some (replicate 32 9)\<rparr>"

definition blob_name :: "string \<Rightarrow> string" where
  "blob_name byte = concat (replicate 32 byte)"

definition assembled_staging :: staged where
  "assembled_staging =
     \<lparr>sg_blobs = [(blob_name ''0a'', [10]), (blob_name ''14'', [20]), (blob_name ''15'', [21]),
        (blob_name ''16'', [22]), (blob_name ''f8'', empty_object_bytes)],
      sg_files = [(''index.json'', [11]), (''oci-layout'', [0])], sg_os = []\<rparr>"

lemma example_assembles:
  "assemble example_assembly pending_names example_selection None pending_staging = (Inr example_assembled, assembled_staging)"
  by code_simp

definition example_bound :: "(assembly_error + resolved_image) \<times> staged" where
  "example_bound = bind_build example_assembly example_provenance example_assembled assembled_staging"

lemma example_binds:
  "bind_build example_assembly example_provenance example_assembled assembled_staging =
     (Inr (projr (fst example_bound)), snd example_bound)"
proof -
  have "isOk (fst example_bound)" by code_simp
  from projr_ok [OF this] show ?thesis by (simp add: example_bound_def prod_eq_iff)
qed

lemma example_selected_layers: "selected_layers hex_ref sum_sha example_selection = example_layers"
  by code_simp

lemma example_selection_wf:
  "selection_wf (ab_json example_assembly) (ab_hex example_assembly) (ab_sha example_assembly) example_selection"
proof -
  have "output_metadata example_selection = None" by (simp add: output_metadata_def example_selection_def)
  moreover have "list_all layer_wf example_layers" by code_simp
  ultimately show ?thesis by (simp add: selection_wf_def example_assembly_def example_selected_layers)
qed

lemma assembled_image_selected_witness:
  "mf_layers (ri_manifest example_assembled) = selected_layers hex_ref sum_sha example_selection \<and>
   ri_root example_assembled = Some (replicate 32 9)"
  using assembled_image_selected [OF example_assembles example_assembly_ok example_selection_wf]
  by (simp add: example_assembly_def example_selection_def root_hash_def example_scute_def)

lemma example_waits: "produced_wait hex_ref sum_sha pending_names [example_scute] pending_staging"
  by code_simp

lemma bound_image_held_witness:
  "map layer_digest (mf_layers (ri_manifest (projr (fst example_bound)))) = [sum_text ''14'', sum_text ''15'', sum_text ''16''] \<and>
   list_all (held hex_ref sum_sha (snd example_bound)) [sum_text ''14'', sum_text ''15'', sum_text ''16'']"
proof -
  have wf: "bt_wf (sg_blobs pending_staging)" by (simp add: pending_staging_def bt_wf_def bt_keys_def)
  have p: "image_parsed (ab_json example_assembly) (CheckedImage example_assembled)" by code_simp
  have h: "host_current (ab_host example_assembly) = Inr (ri_architecture example_assembled)" by code_simp
  have l: "mf_layers (ri_manifest (projr (fst example_bound))) = example_layers"
    using bind_build_manifest [OF example_binds example_assembly_ok p h] by (simp add: example_assembled_def)
  have t: "map layer_digest example_layers = [sum_text ''14'', sum_text ''15'', sum_text ''16'']"
    by (simp add: example_layers_def example_scute_def example_firmware_def)
  have "list_all (\<lambda>name. held hex_ref sum_sha (snd example_bound) name \<or>
      digest_from_str hex_ref name \<in> Inr ` {Sha256 (sum_sha (layout_index example_assembly example_assembled)),
        Sha256 (sum_sha (layout_index example_assembly (projr (fst example_bound)))),
        vm_digest (ri_manifest_bytes example_assembled)})
     (map layer_digest example_layers)"
    using bound_image_held [OF example_assembles example_binds example_assembly_ok example_selection_wf wf] example_waits l
    by (simp add: example_assembly_def example_selection_def)
  moreover have "layout_index example_assembly (projr (fst example_bound)) = [13]" by code_simp
  moreover have "layout_index example_assembly example_assembled = [11]" by code_simp
  moreover have "list_all (\<lambda>name. digest_from_str hex_ref name \<notin> {Inr (Sha256 (replicate 32 11)), Inr (Sha256 (replicate 32 13)),
        Inr (Sha256 (replicate 32 10))}) [sum_text ''14'', sum_text ''15'', sum_text ''16'']" by code_simp
  ultimately show ?thesis unfolding l t by (simp add: list_all_iff sum_sha_def example_assembled_def)
qed

lemma build_binding_effect_witness:
  "bt_get (mf_annotations (ri_manifest (projr (fst example_bound)))) ''dev.pichi.build.commit'' = Some ''sha1:c0''"
proof -
  have p: "image_parsed (ab_json example_assembly) (CheckedImage example_assembled)" by code_simp
  have h: "host_current (ab_host example_assembly) = Inr (ri_architecture example_assembled)" by code_simp
  have k: "starts_with build_prefix ''dev.pichi.build.commit''" by code_simp
  have e: "provenance_entry example_provenance (drop (length build_prefix) ''dev.pichi.build.commit'') = Some ''sha1:c0''"
    by code_simp
  from build_binding_effect [OF example_binds example_assembly_ok p h, of "''dev.pichi.build.commit''"]
  show ?thesis by (simp only: k e if_True)
qed

end
