(* ===== verification/Copy_Source.thy ===== *)
theory Copy_Source
  imports Paths Copy_Pattern "HOL-Library.Sublist"
begin

text \<open>
  Selecting the sources of a copy in a captured context: \<open>copy/source.rs\<close>.  The
  context is its map of entries (\<open>context/mod.rs\<close>); symbolic links are resolved
  against captured entries only, at most forty of them.
\<close>

section \<open>Captured entries\<close>

type_synonym object_id = "byte list"

datatype context_entry =
    DirectoryEntry
  | ModuleEntry nat path object_id
  | FileEntry nat bool object_id
  | SymlinkEntry string

type_synonym entries = "(path, context_entry) btree"

datatype selection_error =
    UnresolvedModule path
  | NoMatch string
  | MissingSource path
  | SymlinkSource path
  | SourcePattern pattern_error

text \<open>The components of a link's target, with a dot in front when it names a directory.\<close>

definition link_parts :: "string \<Rightarrow> string list" where
  "link_parts target = path_iter target @ (if names_directory target then [''.''] else [])"

section \<open>Resolving a path\<close>

function resolve_loop ::
    "entries \<Rightarrow> path \<Rightarrow> string list \<Rightarrow> path \<Rightarrow> nat \<Rightarrow> selection_error + path" where
  "resolve_loop E path [] resolved links = Inr resolved"
| "resolve_loop E path (part # pending) resolved links =
     (if part = ''.'' then resolve_loop E path pending resolved links
      else if part = ''..'' then
        (if resolved = [] then Inl (SymlinkSource path)
         else resolve_loop E path pending (butlast resolved) links)
      else
        (case bt_get E (resolved @ [part]) of
           None \<Rightarrow> Inl (MissingSource path)
         | Some (ModuleEntry _ _ _) \<Rightarrow> Inl (UnresolvedModule (resolved @ [part]))
         | Some (SymlinkEntry target) \<Rightarrow>
             if Suc links > 40 \<or> is_absolute target then Inl (SymlinkSource path)
             else resolve_loop E path (link_parts target @ pending) resolved (Suc links)
         | Some (FileEntry _ _ _) \<Rightarrow>
             if pending \<noteq> [] then Inl (MissingSource path)
             else resolve_loop E path pending (resolved @ [part]) links
         | Some DirectoryEntry \<Rightarrow> resolve_loop E path pending (resolved @ [part]) links))"
  by pat_completeness auto

termination
  by (relation "inv_image (less_than <*lex*> less_than)
      (\<lambda>(E, path, pending, resolved, links). (41 - links, length pending))") auto

definition resolve_source :: "entries \<Rightarrow> path \<Rightarrow> selection_error + path" where
  "resolve_source E path = resolve_loop E path path [] 0"

text \<open>Every prefix of a path, itself included, is a directory.\<close>

definition dirs_to :: "entries \<Rightarrow> path \<Rightarrow> bool" where
  "dirs_to E p \<longleftrightarrow> (\<forall>q. prefix q p \<longrightarrow> q \<noteq> [] \<longrightarrow> bt_get E q = Some DirectoryEntry)"

definition name_part :: "string \<Rightarrow> bool" where
  "name_part part \<longleftrightarrow> part \<noteq> ''.'' \<and> part \<noteq> ''..''"

text \<open>A path without links: directories all the way to a directory or a file.\<close>

definition real_path :: "entries \<Rightarrow> path \<Rightarrow> bool" where
  "real_path E p \<longleftrightarrow> list_all name_part p \<and>
     (p = [] \<or> (dirs_to E (butlast p) \<and>
        (bt_get E p = Some DirectoryEntry \<or> (\<exists>s x oid. bt_get E p = Some (FileEntry s x oid)))))"

lemma dirs_to_Nil [simp]: "dirs_to E []"
  by (simp add: dirs_to_def)

lemma dirs_to_snoc: "dirs_to E (p @ [x]) \<longleftrightarrow> dirs_to E p \<and> bt_get E (p @ [x]) = Some DirectoryEntry"
  by (auto simp: dirs_to_def)

lemma dirs_to_butlast: "dirs_to E p \<Longrightarrow> dirs_to E (butlast p)"
  by (cases p rule: rev_cases) (auto simp: dirs_to_snoc)

lemma real_path_dirs: "list_all name_part p \<Longrightarrow> dirs_to E p \<Longrightarrow> real_path E p"
  by (cases p rule: rev_cases) (auto simp: real_path_def dirs_to_snoc)

lemma resolve_loop_real:
  assumes "resolve_loop E path pending resolved links = Inr r" "dirs_to E resolved" "list_all name_part resolved"
  shows "real_path E r"
  using assms
proof (induction E path pending resolved links rule: resolve_loop.induct)
  case (1 E path resolved links)
  then show ?case by (simp add: real_path_dirs)
next
  case (2 E path part pending resolved links)
  consider (dot) "part = ''.''" | (up) "part = ''..''" | (name) "part \<noteq> ''.''" "part \<noteq> ''..''" by blast
  then show ?case
  proof cases
    case dot
    with 2 show ?thesis by simp
  next
    case up
    with 2(6) have r: "resolved \<noteq> []" by (auto split: if_splits)
    have "list_all name_part (butlast resolved)" using 2(8) by (auto simp: list_all_iff dest: in_set_butlastD)
    with 2(2) [OF _ up r] 2(6) up r dirs_to_butlast [OF 2(7)] show ?thesis by simp
  next
    case name
    have p: "list_all name_part (resolved @ [part])" using 2(8) name by (auto simp: name_part_def list_all_iff)
    from 2(6) name obtain e where e: "bt_get E (resolved @ [part]) = Some e" by (auto split: option.splits)
    show ?thesis
    proof (cases e)
      case DirectoryEntry
      with 2(3) [OF name e] 2(6,7) name e p show ?thesis by (simp add: dirs_to_snoc)
    next
      case (ModuleEntry s q oid)
      with 2(6) name e show ?thesis by simp
    next
      case (SymlinkEntry target)
      with 2(6) name e have "\<not> (Suc links > 40 \<or> is_absolute target)" by (auto split: if_splits)
      with 2(5) [OF name e SymlinkEntry] 2(6-8) name e SymlinkEntry show ?thesis by simp
    next
      case (FileEntry s x oid)
      with 2(6) name e have "pending = []" "r = resolved @ [part]" by (auto split: if_splits)
      with e FileEntry 2(7) p show ?thesis by (simp add: real_path_def)
    qed
  qed
qed

lemma resolve_loop_along:
  assumes "list_all name_part parts" "dirs_to E (butlast (resolved @ parts))"
    "parts = [] \<or> (\<exists>e. bt_get E (resolved @ parts) = Some e \<and> (e = DirectoryEntry \<or> (\<exists>s x oid. e = FileEntry s x oid)))"
  shows "resolve_loop E path parts resolved links = Inr (resolved @ parts)"
  using assms
proof (induction parts arbitrary: resolved)
  case (Cons part parts)
  have n: "part \<noteq> ''.''" "part \<noteq> ''..''" using Cons.prems(1) by (auto simp: name_part_def)
  show ?case
  proof (cases "parts = []")
    case True
    with Cons.prems(3) n show ?thesis by auto
  next
    case False
    then have "prefix (resolved @ [part]) (butlast (resolved @ part # parts))"
      by (simp add: butlast_append)
    then have "bt_get E (resolved @ [part]) = Some DirectoryEntry"
      using Cons.prems(2) unfolding dirs_to_def by blast
    with n Cons.IH [of "resolved @ [part]"] Cons.prems False show ?thesis by simp
  qed
qed simp

lemma resolve_source_along: "real_path E p \<Longrightarrow> resolve_source E p = Inr p"
  unfolding resolve_source_def
  by (subst resolve_loop_along) (auto simp: real_path_def)

text \<open>
  Resolving a source follows captured symbolic links only: the result has directories at
  all of its proper prefixes and is itself a captured directory or file, never a link, a
  module or a path above the context; and resolving the result again changes nothing.
\<close>

theorem resolve_source_real:
  assumes "resolve_source E path = Inr r"
  shows "real_path E r \<and> resolve_source E r = Inr r"
  using resolve_loop_real [OF assms [unfolded resolve_source_def]] resolve_source_along by simp

section \<open>Entries below a directory\<close>

definition below :: "entries \<Rightarrow> path \<Rightarrow> path list" where
  "below E a = takeWhile (prefix a) (dropWhile (\<lambda>p. p < a) (bt_keys E))"

lemma prefix_le: "prefix a p \<Longrightarrow> a \<le> (p :: 'a::linorder list)"
proof (induction a arbitrary: p)
  case (Cons x a)
  then obtain p' where "p = x # p'" "prefix a p'" by (auto simp: prefix_def)
  with Cons.IH show ?case by simp
qed simp

lemma prefix_gap: "a \<le> p \<Longrightarrow> \<not> prefix a p \<Longrightarrow> prefix a q \<Longrightarrow> q < (p :: 'a::linorder list)"
proof (induction a arbitrary: p q)
  case (Cons x a)
  then obtain q' where q: "q = x # q'" "prefix a q'" by (auto simp: prefix_def)
  from Cons.prems obtain y p' where p: "p = y # p'" by (cases p) auto
  with Cons q show ?case by (cases "x = y") auto
qed simp

lemma sorted_prefix_run:
  "takeWhile (\<lambda>(p, e). prefix a p) (dropWhile (\<lambda>(p, e). p < a) E) = filter (\<lambda>(p, e). prefix a p) E"
  if "bt_wf E" for E :: "(('a::linorder) list, 'v) btree"
  using that
proof (induction E)
  case (Cons pe E)
  obtain p e where pe: "pe = (p, e)" by (cases pe)
  have s: "sorted_wrt (<) (p # map fst E)" using Cons.prems pe by (simp add: bt_wf_def bt_keys_def)
  have wf: "bt_wf E" using s by (simp add: bt_wf_def bt_keys_def)
  show ?case
  proof (cases "p < a")
    case True
    then have "\<not> prefix a p" using prefix_le [of a p] by auto
    with True Cons.IH [OF wf] pe show ?thesis by simp
  next
    case False
    show ?thesis
    proof (cases "prefix a p")
      case True
      have "dropWhile (\<lambda>(p, e). p < a) E = E"
        using False s by (cases E) (auto dest: order.strict_trans)
      with True False Cons.IH [OF wf] pe show ?thesis by simp
    next
      case no: False
      have "\<not> prefix a (fst q)" if "q \<in> set E" for q
        using prefix_gap [of a p "fst q"] False no that s by (auto simp: not_less)
      then have "filter (\<lambda>(p, e). prefix a p) E = []" by (auto simp: filter_empty_conv)
      with no False pe show ?thesis by simp
    qed
  qed
qed simp

lemma below_eq: "bt_wf E \<Longrightarrow> below E a = filter (prefix a) (bt_keys E)"
  using sorted_prefix_run [of E a]
  by (simp add: below_def bt_keys_def dropWhile_map takeWhile_map filter_map comp_def split_def)

section \<open>Selecting\<close>

record copy_source =
  so_selected :: path
  so_resolved :: path

text \<open>A part of a pattern that has an unescaped special character.\<close>

fun wildcard :: "string \<Rightarrow> bool" where
  "wildcard [] = False"
| "wildcard (c # cs) =
     (if c = CHR 0x5C then (case cs of [] \<Rightarrow> False | _ # r \<Rightarrow> wildcard r)
      else c = CHR ''*'' \<or> c = CHR ''?'' \<or> c = CHR ''['' \<or> wildcard cs)"

definition is_dir :: "entries \<Rightarrow> path \<Rightarrow> bool" where
  "is_dir E p \<longleftrightarrow> p = [] \<or> bt_get E p = Some DirectoryEntry"

fun is_module :: "context_entry \<Rightarrow> bool" where
  "is_module (ModuleEntry _ _ _) = True"
| "is_module _ = False"

definition children :: "entries \<Rightarrow> path \<Rightarrow> path list" where
  "children E a = filter (\<lambda>p. p \<noteq> [] \<and> butlast p = a) (below E a)"

text \<open>
  Before the first wildcard a directory link is followed; after it, links are
  leaves.
\<close>

definition walk_path ::
    "entries \<Rightarrow> bool \<Rightarrow> source_pattern \<Rightarrow> string \<Rightarrow> bool \<Rightarrow> path \<Rightarrow> selection_error + path list" where
  "walk_path E wild matcher part seen p =
     (if (case bt_get E p of Some e \<Rightarrow> is_module e | None \<Rightarrow> False) then Inl (UnresolvedModule p)
      else if seen \<and> \<not> is_dir E p then Inr []
      else
        bindE (if seen then Inr p else resolve_source E p) (\<lambda>actual.
          if \<not> is_dir E actual then Inr []
          else if wild \<or> seen
          then Inr (map (\<lambda>c. actual @ [last c])
                 (filter (\<lambda>c. pattern_matches matcher (last c)) (children E actual)))
          else Inr [actual @ [part]]))"

definition select_part ::
    "entries \<Rightarrow> path list \<times> bool \<Rightarrow> string \<Rightarrow> selection_error + (path list \<times> bool)" where
  "select_part E st part =
     (case st of (paths, seen) \<Rightarrow>
        bindE (mapErr SourcePattern (pattern_from_str part)) (\<lambda>matcher.
          bindE (traverseE (walk_path E (wildcard part) matcher part seen) paths) (\<lambda>nexts.
            Inr (sort (concat nexts), seen \<or> wildcard part))))"

definition select_path :: "entries \<Rightarrow> path \<Rightarrow> selection_error + copy_source" where
  "select_path E selected =
     bindE (resolve_source E selected) (\<lambda>resolved.
       case find (\<lambda>(p, e). prefix resolved p \<and> is_module e) E of
         Some (p, _) \<Rightarrow> Inl (UnresolvedModule p)
       | None \<Rightarrow> Inr \<lparr>so_selected = selected, so_resolved = resolved\<rparr>)"

definition select_pattern :: "entries \<Rightarrow> source_pattern \<Rightarrow> selection_error + copy_source list" where
  "select_pattern E pattern =
     bindE (foldE (select_part E) ([[]], False) (path_parts (trim_slashes (pat_source pattern))))
       (\<lambda>(paths, seen).
          let paths = (if seen then filter (\<lambda>p. p = [] \<or> bt_get E p \<noteq> None) paths else paths) in
          if paths = [] then Inl (NoMatch (pat_source pattern)) else traverseE (select_path E) paths)"

definition select_sources :: "entries \<Rightarrow> source_pattern list \<Rightarrow> selection_error + copy_source list" where
  "select_sources E patterns =
     bindE (traverseE (select_pattern E) patterns) (\<lambda>found.
       if concat found = [] then Inl (NoMatch []) else Inr (concat found))"

definition source_entry :: "entries \<Rightarrow> copy_source \<Rightarrow> context_entry option" where
  "source_entry E c = bt_get E (so_resolved c)"

definition source_is_directory :: "entries \<Rightarrow> copy_source \<Rightarrow> bool" where
  "source_is_directory E c \<longleftrightarrow> so_resolved c = [] \<or> source_entry E c = Some DirectoryEntry"

definition descendants :: "entries \<Rightarrow> copy_source \<Rightarrow> (path \<times> context_entry) list" where
  "descendants E c =
     filter (\<lambda>(p, e). p \<noteq> []) (map (\<lambda>(p, e). (drop (length (so_resolved c)) p, e))
       (takeWhile (\<lambda>(p, e). source_is_directory E c \<and> prefix (so_resolved c) p)
         (dropWhile (\<lambda>(p, e). p < so_resolved c) E)))"

section \<open>What is selected\<close>

lemma child_iff: "p \<noteq> [] \<and> butlast p = a \<and> prefix a p \<longleftrightarrow> (\<exists>n. p = a @ [n])"
  by (cases p rule: rev_cases) auto

lemma children_set:
  assumes "bt_wf E"
  shows "set (children E a) = {a @ [n] | n. a @ [n] \<in> set (bt_keys E)}"
proof -
  have "p \<in> set (children E a) \<longleftrightarrow> p \<in> set (bt_keys E) \<and> p \<noteq> [] \<and> butlast p = a \<and> prefix a p" for p
    unfolding children_def below_eq [OF assms] by auto
  then show ?thesis unfolding child_iff by auto
qed

text \<open>
  The descendants of a selected directory are exactly the captured entries below it,
  each once, in ascending order, with their paths relative to it; a file has none.
\<close>

theorem descendants_complete:
  assumes "bt_wf E"
  shows "descendants E c =
    (if source_is_directory E c
     then map (\<lambda>(p, e). (drop (length (so_resolved c)) p, e))
            (filter (\<lambda>(p, e). strict_prefix (so_resolved c) p) E)
     else [])"
proof (cases "source_is_directory E c")
  case True
  have "filter (\<lambda>(p, e). p \<noteq> []) (map (\<lambda>(p, e). (drop (length a) p, e)) (filter (\<lambda>(p, e). prefix a p) m)) =
      map (\<lambda>(p, e). (drop (length a) p, e)) (filter (\<lambda>(p, e). strict_prefix a p) m)"
    for a and m :: entries
    by (induction m) (auto simp: strict_prefix_def prefix_def)
  with True show ?thesis by (simp add: descendants_def sorted_prefix_run [OF assms])
next
  case False
  moreover have "takeWhile (\<lambda>(p, e). False) m = []" for m :: entries by (cases m) auto
  ultimately show ?thesis by (simp add: descendants_def)
qed

text \<open>A name matches a part of a pattern.\<close>

definition part_matches :: "string \<Rightarrow> string \<Rightarrow> bool" where
  "part_matches part name \<longleftrightarrow>
     (case pattern_from_str part of Inl _ \<Rightarrow> False | Inr m \<Rightarrow> pattern_matches m name)"

text \<open>The entries below a directory that match the parts of a pattern, through directories only.\<close>

definition globbed :: "entries \<Rightarrow> string list \<Rightarrow> path \<Rightarrow> path set" where
  "globbed E parts p =
     {p @ names | names. list_all2 part_matches parts names \<and>
        (\<forall>k<length names. is_dir E (p @ take k names) \<and> p @ take (Suc k) names \<in> set (bt_keys E))}"

lemma globbed_Nil [simp]: "globbed E [] p = {p}"
  by (auto simp: globbed_def)

lemma globbed_Cons:
  "globbed E (part # parts) p =
     (if is_dir E p
      then \<Union>n\<in>{n. p @ [n] \<in> set (bt_keys E) \<and> part_matches part n}. globbed E parts (p @ [n])
      else {})"
proof -
  have "x \<in> globbed E (part # parts) p \<longleftrightarrow>
      (\<exists>n names. x = p @ n # names \<and> part_matches part n \<and> list_all2 part_matches parts names \<and>
        is_dir E p \<and> p @ [n] \<in> set (bt_keys E) \<and>
        (\<forall>k<length names. is_dir E ((p @ [n]) @ take k names) \<and> (p @ [n]) @ take (Suc k) names \<in> set (bt_keys E)))"
    for x
    unfolding globbed_def list_all2_Cons1 by (fastforce simp: All_less_Suc2)
  then show ?thesis unfolding globbed_def by auto
qed

lemma matching_children:
  assumes "bt_wf E" "pattern_from_str part = Inr m" "is_dir E p"
    "ps = map (\<lambda>c. p @ [last c]) (filter (\<lambda>c. pattern_matches m (last c)) (children E p))"
  shows "set ps = globbed E [part] p \<and> distinct ps"
proof -
  let ?cs = "filter (\<lambda>c. pattern_matches m (last c)) (children E p)"
  have own: "p @ [last c] = c" if "c \<in> set (children E p)" for c
    using that by (auto simp: children_set [OF assms(1)])
  then have "ps = ?cs" unfolding assms(4) by (intro map_idI) auto
  moreover have "distinct (children E p)"
    using assms(1) unfolding children_def below_eq [OF assms(1)]
    by (simp add: bt_wf_def strict_sorted_iff)
  moreover have "set ?cs = globbed E [part] p"
    using assms(2,3) by (auto simp: globbed_Cons part_matches_def children_set [OF assms(1)])
  ultimately show ?thesis by simp
qed

lemma walk_path_seen:
  assumes "bt_wf E" "pattern_from_str part = Inr m" "walk_path E w m part True p = Inr ps"
  shows "set ps = globbed E [part] p \<and> distinct ps"
proof (cases "is_dir E p")
  case False
  with assms(3) have "ps = []" by (simp add: walk_path_def split: if_splits)
  with False show ?thesis by (simp add: globbed_Cons)
next
  case True
  with assms(3) have "ps = map (\<lambda>c. p @ [last c]) (filter (\<lambda>c. pattern_matches m (last c)) (children E p))"
    by (simp add: walk_path_def split: if_splits)
  with matching_children [OF assms(1,2) True] show ?thesis by blast
qed

lemma globbed_extends: "x \<in> globbed E parts p \<Longrightarrow> length x = length p + length parts \<and> take (length p) x = p"
  by (auto simp: globbed_def dest: list_all2_lengthD)

lemma select_part_seen:
  assumes "bt_wf E" "select_part E (P, True) part = Inr (Q, seen)"
  shows "seen \<and> set Q = (\<Union>p\<in>set P. globbed E [part] p) \<and> sorted Q \<and> (distinct P \<longrightarrow> distinct Q)"
proof -
  from assms(2) obtain m nexts where m: "pattern_from_str part = Inr m"
    and n: "traverseE (walk_path E (wildcard part) m part True) P = Inr nexts"
    and Q: "Q = sort (concat nexts)" "seen" by (auto simp: select_part_def bindE_Inr_iff)
  have one: "list_all2 (\<lambda>p ps. set ps = globbed E [part] p \<and> distinct ps) P nexts"
    using n [unfolded traverseE_Inr_iff] by (rule list_all2_mono) (rule walk_path_seen [OF assms(1) m])
  have "set (concat nexts) = (\<Union>p\<in>set P. globbed E [part] p)"
    using one by (induction rule: list_all2_induct) auto
  moreover have "distinct P \<longrightarrow> distinct (concat nexts)"
    using one
  proof (induction rule: list_all2_induct)
    case (Cons p P ps nexts)
    have "set (concat nexts) = (\<Union>p\<in>set P. globbed E [part] p)"
      using Cons.hyps(2) by (induction rule: list_all2_induct) auto
    moreover have "p = q" if "x \<in> globbed E [part] p" "x \<in> globbed E [part] q" for x q
      using globbed_extends [OF that(1)] globbed_extends [OF that(2)] by simp
    ultimately show ?case using Cons by auto
  qed simp
  ultimately show ?thesis using Q by simp
qed

lemma select_parts_seen:
  assumes "bt_wf E" "foldE (select_part E) (P, True) parts = Inr (Q, seen)" "sorted P" "distinct P"
  shows "seen \<and> set Q = (\<Union>p\<in>set P. globbed E parts p) \<and> sorted Q \<and> distinct Q"
  using assms
proof (induction parts arbitrary: P)
  case (Cons part parts)
  from Cons.prems(2) obtain R s where r: "select_part E (P, True) part = Inr (R, s)"
    "foldE (select_part E) (R, s) parts = Inr (Q, seen)" by (auto split: sum.splits)
  from select_part_seen [OF assms(1) r(1)] Cons.prems(4) have R: "s" "set R = (\<Union>p\<in>set P. globbed E [part] p)"
    "sorted R" "distinct R" by auto
  have "(\<Union>x\<in>globbed E [part] p. globbed E parts x) = globbed E (part # parts) p" for p
    unfolding globbed_Cons by simp
  then have "(\<Union>p\<in>set R. globbed E parts p) = (\<Union>p\<in>set P. globbed E (part # parts) p)"
    unfolding R(2) by simp
  with Cons.IH [OF assms(1) _ R(3,4)] r(2) R(1) show ?case by simp
qed simp

lemma select_first_wild:
  assumes "bt_wf E" "select_part E ([q], False) part = Inr (Q, seen)" "wildcard part"
    "resolve_source E q = Inr a" "is_dir E a"
  shows "seen \<and> set Q = globbed E [part] a \<and> sorted Q \<and> distinct Q"
proof -
  from assms(2,3) obtain m nexts where m: "pattern_from_str part = Inr m"
    and w: "traverseE (walk_path E True m part False) [q] = Inr nexts" and Q: "Q = sort (concat nexts)" "seen"
    by (auto simp: select_part_def bindE_Inr_iff simp del: traverseE.simps)
  from w obtain ps where ps: "walk_path E True m part False q = Inr ps" "nexts = [ps]"
    by (auto split: sum.splits)
  then have "ps = map (\<lambda>c. a @ [last c]) (filter (\<lambda>c. pattern_matches m (last c)) (children E a))"
    using assms(4,5) by (simp add: walk_path_def split: if_splits)
  from matching_children [OF assms(1) m assms(5) this] show ?thesis using Q ps(2) by simp
qed

lemma select_path_selected: "select_path E p = Inr c \<Longrightarrow> so_selected c = p"
  by (auto simp: select_path_def bindE_Inr_iff split: option.splits)

lemma traverse_selected: "traverseE (select_path E) ps = Inr cs \<Longrightarrow> map so_selected cs = ps"
  unfolding traverseE_Inr_iff by (induction rule: list_all2_induct) (auto dest: select_path_selected)

lemma globbed_captured:
  assumes "x \<in> globbed E parts a" "parts \<noteq> []"
  shows "bt_get E x \<noteq> None"
proof -
  from assms obtain names where n: "x = a @ names" "length names = length parts"
    "\<forall>k<length names. a @ take (Suc k) names \<in> set (bt_keys E)"
    by (auto simp: globbed_def dest: list_all2_lengthD)
  then have "length names - 1 < length names" using assms(2) by (cases names) auto
  with n(3) have "a @ take (Suc (length names - 1)) names \<in> set (bt_keys E)" by blast
  with \<open>length names - 1 < length names\<close> n(1) show ?thesis by (simp add: bt_keys_def map_of_eq_None_iff)
qed

text \<open>
  C34: A pattern selects what its wildcards match: after the literal parts have led to a
  directory, the selected paths are, in ascending order and each once, exactly the captured
  paths below it whose names match the remaining parts one by one and that are reached
  through captured directories, never through a link.
\<close>

theorem select_pattern_globs:
  assumes "bt_wf E" "select_pattern E pat = Inr found"
    and "path_parts (trim_slashes (pat_source pat)) = literals @ part # parts" "wildcard part"
    and "foldE (select_part E) ([[]], False) literals = Inr ([q], False)"
    and "resolve_source E q = Inr a" "is_dir E a"
  shows "map so_selected found = sorted_list_of_set (globbed E (part # parts) a) \<and>
    globbed E (part # parts) a \<noteq> {}"
proof -
  from assms(2,3,5) obtain R s Q seen where r: "select_part E ([q], False) part = Inr (R, s)"
    "foldE (select_part E) (R, s) parts = Inr (Q, seen)"
    and found: "(let paths = (if seen then filter (\<lambda>p. p = [] \<or> bt_get E p \<noteq> None) Q else Q) in
          if paths = [] then Inl (NoMatch (pat_source pat)) else traverseE (select_path E) paths) = Inr found"
    by (auto simp: select_pattern_def bindE_Inr_iff split: sum.splits)
  from select_first_wild [OF assms(1) r(1) assms(4,6,7)] have R: "s" "set R = globbed E [part] a" "sorted R"
    "distinct R" by auto
  from select_parts_seen [OF assms(1) _ R(3,4), of parts Q seen] r(2) R(1)
  have Q: "seen" "set Q = (\<Union>p\<in>set R. globbed E parts p)" "sorted Q" "distinct Q" by auto
  have all: "set Q = globbed E (part # parts) a" unfolding Q(2) R(2) globbed_Cons by simp
  then have "filter (\<lambda>p. p = [] \<or> bt_get E p \<noteq> None) Q = Q"
    using globbed_captured [of _ E "part # parts" a] by (auto simp: filter_id_conv)
  with found Q(1) have "Q \<noteq> []" "traverseE (select_path E) Q = Inr found" by (auto split: if_splits)
  with traverse_selected [of E Q found] all Q(3,4) show ?thesis
    by (metis sorted_list_of_set.idem_if_sorted_distinct set_empty)
qed

text \<open>
  Whatever is selected can be read: at least one source is found, and each resolves to a
  captured directory or file reached through directories, with no unexpanded module at or
  below it.
\<close>

theorem select_sources_readable:
  assumes "select_sources E patterns = Inr found"
  shows "found \<noteq> [] \<and>
    (\<forall>c\<in>set found. real_path E (so_resolved c) \<and>
       (\<forall>(p, e)\<in>set E. prefix (so_resolved c) p \<longrightarrow> \<not> is_module e))"
proof (intro conjI ballI)
  from assms obtain fs where fs: "traverseE (select_pattern E) patterns = Inr fs" "found = concat fs" "concat fs \<noteq> []"
    by (auto simp: select_sources_def bindE_Inr_iff split: if_splits)
  then show "found \<noteq> []" by simp
  fix c assume "c \<in> set found"
  then obtain cs where "cs \<in> set fs" "c \<in> set cs" using fs(2) by auto
  with traverseE_mem [OF fs(1)] obtain pat where "select_pattern E pat = Inr cs" by blast
  then obtain ps where "traverseE (select_path E) ps = Inr cs"
    by (auto simp: select_pattern_def bindE_Inr_iff Let_def split: if_splits)
  from traverseE_mem [OF this \<open>c \<in> set cs\<close>] obtain p where p: "select_path E p = Inr c" by blast
  then have r: "resolve_source E p = Inr (so_resolved c)"
    by (auto simp: select_path_def bindE_Inr_iff split: option.splits)
  have none: "find (\<lambda>(q, e). prefix (so_resolved c) q \<and> is_module e) E = None"
    using p r by (cases "find (\<lambda>(q, e). prefix (so_resolved c) q \<and> is_module e) E")
      (auto simp: select_path_def)
  show "real_path E (so_resolved c)" using resolve_loop_real r unfolding resolve_source_def by force
  fix qe assume "qe \<in> set E"
  with none show "case qe of (q, e) \<Rightarrow> prefix (so_resolved c) q \<longrightarrow> \<not> is_module e"
    by (auto simp: find_None_iff)
qed

section \<open>An example\<close>

definition sample_entries :: entries where
  "sample_entries =
     [([''alias''], SymlinkEntry ''./dir/''), ([''dir''], DirectoryEntry),
      ([''dir'', ''a.txt''], FileEntry 0 False []), ([''dir'', ''b''], FileEntry 0 True []),
      ([''dir'', ''c.txt''], SymlinkEntry ''a.txt''), ([''up''], SymlinkEntry ''../x'')]"

definition sample_pattern :: source_pattern where
  "sample_pattern = (case pattern_from_str ''/alias/*.txt'' of Inr p \<Rightarrow> p | Inl _ \<Rightarrow> undefined)"

definition sample_found :: "copy_source list" where
  "sample_found =
     [\<lparr>so_selected = [''dir'', ''a.txt''], so_resolved = [''dir'', ''a.txt'']\<rparr>,
      \<lparr>so_selected = [''dir'', ''c.txt''], so_resolved = [''dir'', ''a.txt'']\<rparr>]"

lemma sample_entries_wf: "bt_wf sample_entries"
  by code_simp

theorem resolve_source_real_witness:
  "resolve_source sample_entries [''alias'', ''c.txt''] = Inr [''dir'', ''a.txt''] \<and>
   real_path sample_entries [''dir'', ''a.txt'']"
proof -
  have "resolve_source sample_entries [''alias'', ''c.txt''] = Inr [''dir'', ''a.txt'']" by code_simp
  with resolve_source_real [OF this] show ?thesis by blast
qed

theorem descendants_complete_witness:
  "descendants sample_entries \<lparr>so_selected = [''dir''], so_resolved = [''dir'']\<rparr> =
     [([''a.txt''], FileEntry 0 False []), ([''b''], FileEntry 0 True []), ([''c.txt''], SymlinkEntry ''a.txt'')]"
  unfolding descendants_complete [OF sample_entries_wf] by code_simp

theorem select_pattern_globs_witness:
  "select_pattern sample_entries sample_pattern = Inr sample_found \<and>
   sorted_list_of_set (globbed sample_entries [''*.txt''] [''dir'']) = [[''dir'', ''a.txt''], [''dir'', ''c.txt'']]"
proof -
  have found: "select_pattern sample_entries sample_pattern = Inr sample_found" by code_simp
  have "path_parts (trim_slashes (pat_source sample_pattern)) = [''alias''] @ ''*.txt'' # []" by code_simp
  moreover have "wildcard ''*.txt''" by code_simp
  moreover have "foldE (select_part sample_entries) ([[]], False) [''alias''] = Inr ([[''alias'']], False)"
    by code_simp
  moreover have "resolve_source sample_entries [''alias''] = Inr [''dir'']" by code_simp
  moreover have "is_dir sample_entries [''dir'']" by code_simp
  ultimately have "map so_selected sample_found = sorted_list_of_set (globbed sample_entries [''*.txt''] [''dir''])"
    using select_pattern_globs [OF sample_entries_wf found] by blast
  with found show ?thesis by (simp add: sample_found_def)
qed

theorem select_sources_readable_witness:
  "select_sources sample_entries [sample_pattern] = Inr sample_found \<and>
   real_path sample_entries [''dir'', ''a.txt'']"
proof -
  have "select_sources sample_entries [sample_pattern] = Inr sample_found" by code_simp
  with select_sources_readable [OF this] show ?thesis by (auto simp: sample_found_def)
qed

end
