(* ===== verification/Copy_Destination.thy ===== *)
theory Copy_Destination
  imports Copy_Source
begin

text \<open>
  Where a copy lands in an image: \<open>copy/destination/mod.rs\<close>.  Links of the image
  are resolved with the root of the image as their root.  The image is seen
  through two observations, parameters of the model: what is at a path
  (\<open>O_PATH\<close> without following links; nothing when it does not exist) and the
  target of a link.
\<close>

section \<open>Observations\<close>

datatype node_kind = DirectoryNode | LinkNode | OtherNode

record image_view =
  iv_observe :: "path \<Rightarrow> string + node_kind option"
  iv_readlink :: "path \<Rightarrow> string + string"

datatype copy_error = CopyIo string | TooManyLinks | TraversesFile

text \<open>With a bootstrapped output, what is below \<open>mnt\<close> is in the output.\<close>

definition location :: "bool \<Rightarrow> path \<Rightarrow> bool \<times> path" where
  "location output p =
     (if output \<and> prefix [''mnt''] p then (True, drop 1 p) else (False, p))"

function dest_loop ::
    "image_view \<Rightarrow> bool \<Rightarrow> string list \<Rightarrow> path \<Rightarrow> nat \<Rightarrow> copy_error + path" where
  "dest_loop W follow [] resolved links = Inr resolved"
| "dest_loop W follow (part # pending) resolved links =
     (if part = ''/'' then dest_loop W follow pending [] links
      else if part = ''.'' then dest_loop W follow pending resolved links
      else if part = ''..'' then dest_loop W follow pending (butlast resolved) links
      else
        (case iv_observe W (resolved @ [part]) of
           Inl e \<Rightarrow> Inl (CopyIo e)
         | Inr None \<Rightarrow> dest_loop W follow pending (resolved @ [part]) links
         | Inr (Some kind) \<Rightarrow>
             if kind = LinkNode \<and> (follow \<or> pending \<noteq> []) then
               (if Suc links > 40 then Inl TooManyLinks
                else
                  (case iv_readlink W (resolved @ [part]) of
                     Inl e \<Rightarrow> Inl (CopyIo e)
                   | Inr target \<Rightarrow> dest_loop W follow (link_parts target @ pending) resolved (Suc links)))
             else if pending \<noteq> [] \<and> kind \<noteq> DirectoryNode then Inl TraversesFile
             else dest_loop W follow pending (resolved @ [part]) links))"
  by pat_completeness auto

termination
  by (relation "inv_image (less_than <*lex*> less_than)
      (\<lambda>(W, follow, pending, resolved, links). (41 - links, length pending))") auto

definition dest_resolve :: "image_view \<Rightarrow> string \<Rightarrow> bool \<Rightarrow> copy_error + path" where
  "dest_resolve W path follow = dest_loop W follow (path_iter path) [] 0"

section \<open>Confinement\<close>

text \<open>Nothing is there, or a directory.\<close>

definition passable :: "image_view \<Rightarrow> path \<Rightarrow> bool" where
  "passable W p \<longleftrightarrow> iv_observe W p = Inr None \<or> iv_observe W p = Inr (Some DirectoryNode)"

definition passable_to :: "image_view \<Rightarrow> path \<Rightarrow> bool" where
  "passable_to W p \<longleftrightarrow> (\<forall>q. prefix q p \<longrightarrow> q \<noteq> [] \<longrightarrow> passable W q)"

text \<open>A path below the root of the image that no link of the image diverts.\<close>

definition undiverted :: "image_view \<Rightarrow> bool \<Rightarrow> path \<Rightarrow> bool" where
  "undiverted W follow p \<longleftrightarrow> list_all plain p \<and>
     (p = [] \<or> (passable_to W (butlast p) \<and> isOk (iv_observe W p) \<and>
        (follow \<longrightarrow> iv_observe W p \<noteq> Inr (Some LinkNode))))"

lemma passable_to_Nil [simp]: "passable_to W []"
  by (simp add: passable_to_def)

lemma passable_to_snoc: "passable_to W (p @ [x]) \<longleftrightarrow> passable_to W p \<and> passable W (p @ [x])"
  by (auto simp: passable_to_def)

lemma passable_to_butlast: "passable_to W p \<Longrightarrow> passable_to W (butlast p)"
  by (cases p rule: rev_cases) (auto simp: passable_to_snoc)

lemma undiverted_passable: "list_all plain p \<Longrightarrow> passable_to W p \<Longrightarrow> undiverted W follow p"
  by (cases p rule: rev_cases) (auto simp: undiverted_def passable_to_snoc passable_def)

text \<open>The parts that the loop meets.\<close>

definition walkable :: "string \<Rightarrow> bool" where
  "walkable part \<longleftrightarrow> part = ''/'' \<or> part = ''.'' \<or> part = ''..'' \<or> plain part"

lemma walkable_iter: "list_all walkable (path_iter path)"
  using path_iter_parts by (auto simp: list_all_iff walkable_def)

lemma walkable_link: "list_all walkable (link_parts target)"
  using walkable_iter [of target] by (simp add: link_parts_def walkable_def)

lemma dest_loop_undiverted:
  assumes "dest_loop W follow pending resolved links = Inr r" "list_all walkable pending"
    "list_all plain resolved" "passable_to W resolved"
  shows "undiverted W follow r"
  using assms
proof (induction W follow pending resolved links rule: dest_loop.induct)
  case (1 W follow resolved links)
  then show ?case by (simp add: undiverted_passable)
next
  case (2 W follow part pending resolved links)
  have rest: "list_all walkable pending" using 2(8) by simp
  consider (root) "part = ''/''" | (dot) "part = ''.''" | (up) "part = ''..''"
    | (name) "part \<noteq> ''/''" "part \<noteq> ''.''" "part \<noteq> ''..''" "plain part"
    using 2(8) by (auto simp: walkable_def)
  then show ?case
  proof cases
    case root
    with 2(1) [OF root] 2(7) rest show ?thesis by simp
  next
    case dot
    with 2(2) 2(7,9,10) rest show ?thesis by simp
  next
    case up
    have "list_all plain (butlast resolved)" using 2(9) by (auto simp: list_all_iff dest: in_set_butlastD)
    with 2(3) 2(7) up rest passable_to_butlast [OF 2(10)] show ?thesis by simp
  next
    case name
    let ?p = "resolved @ [part]"
    have p: "list_all plain ?p" using 2(9) name(4) by simp
    show ?thesis
    proof (cases "iv_observe W ?p")
      case (Inl e)
      with 2(7) name show ?thesis by simp
    next
      case (Inr k)
      show ?thesis
      proof (cases k)
        case None
        with Inr 2(10) have "passable_to W ?p" by (simp add: passable_to_snoc passable_def)
        with 2(4) [OF name(1-3) Inr None] 2(7) Inr None name rest p show ?thesis by simp
      next
        case (Some kind)
        show ?thesis
        proof (cases "kind = LinkNode \<and> (follow \<or> pending \<noteq> [])")
          case True
          with 2(7) name Inr Some obtain target where t: "\<not> Suc links > 40" "iv_readlink W ?p = Inr target"
            "dest_loop W follow (link_parts target @ pending) resolved (Suc links) = Inr r"
            by (auto split: if_splits sum.splits)
          from 2(5) [OF name(1-3) Inr Some True t(1,2,3)] walkable_link rest 2(9,10) show ?thesis by simp
        next
          case False
          with 2(7) name Inr Some have ok: "\<not> (pending \<noteq> [] \<and> kind \<noteq> DirectoryNode)"
            "dest_loop W follow pending ?p links = Inr r" by (auto split: if_splits)
          show ?thesis
          proof (cases "kind = DirectoryNode")
            case True
            with Inr Some 2(10) have "passable_to W ?p" by (simp add: passable_to_snoc passable_def)
            with 2(6) [OF name(1-3) Inr Some False ok] rest p show ?thesis by simp
          next
            case leaf: False
            with ok have "pending = []" by blast
            with ok(2) have "r = ?p" by simp
            with False leaf Inr Some 2(10) p \<open>pending = []\<close> show ?thesis by (auto simp: undiverted_def)
          qed
        qed
      qed
    qed
  qed
qed

lemma dest_loop_along:
  assumes "list_all plain parts" "passable_to W (butlast (resolved @ parts))"
    "parts = [] \<or> (isOk (iv_observe W (resolved @ parts)) \<and>
       (follow \<longrightarrow> iv_observe W (resolved @ parts) \<noteq> Inr (Some LinkNode)))"
  shows "dest_loop W follow parts resolved links = Inr (resolved @ parts)"
  using assms
proof (induction parts arbitrary: resolved)
  case (Cons part parts)
  have n: "part \<noteq> ''/''" "part \<noteq> ''.''" "part \<noteq> ''..''" using Cons.prems(1) by (auto simp: plain_def)
  show ?case
  proof (cases "parts = []")
    case True
    with Cons.prems(3) n show ?thesis by (auto simp: isOk_iff split: option.splits)
  next
    case False
    then have "prefix (resolved @ [part]) (butlast (resolved @ part # parts))"
      by (simp add: butlast_append)
    then have "passable W (resolved @ [part])"
      using Cons.prems(2) unfolding passable_to_def by blast
    with n Cons.IH [of "resolved @ [part]"] Cons.prems False show ?thesis by (auto simp: passable_def)
  qed
qed simp

text \<open>
  C35: A copy's destination stays inside the image, whatever links the image holds: the
  resolved path consists of plain names below the root, each of its proper prefixes was seen
  missing or a directory, never a link, and the path itself was not seen as a link when the
  last link is followed; resolving it again gives the same path.  The loop follows at most
  forty links and always returns.
\<close>

theorem dest_resolve_confined:
  assumes "dest_resolve W path follow = Inr r"
  shows "undiverted W follow r \<and> dest_loop W follow r [] 0 = Inr r"
proof -
  have u: "undiverted W follow r"
    using assms walkable_iter unfolding dest_resolve_def by (intro dest_loop_undiverted) auto
  then have "dest_loop W follow r [] 0 = Inr ([] @ r)"
    by (intro dest_loop_along) (auto simp: undiverted_def)
  with u show ?thesis by simp
qed

definition sample_view :: image_view where
  "sample_view =
     \<lparr>iv_observe = (\<lambda>p. Inr (if p = [''alias''] then Some LinkNode else if p = [''safe''] then Some DirectoryNode
        else if p = [''loop''] then Some LinkNode else None)),
      iv_readlink = (\<lambda>p. Inr (if p = [''alias''] then ''/../safe'' else ''loop''))\<rparr>"

theorem dest_resolve_confined_witness:
  "dest_resolve sample_view ''/alias/new/file'' True = Inr [''safe'', ''new'', ''file''] \<and>
   undiverted sample_view True [''safe'', ''new'', ''file''] \<and>
   dest_resolve sample_view ''/loop/file'' True = Inl TooManyLinks"
proof -
  have "dest_resolve sample_view ''/alias/new/file'' True = Inr [''safe'', ''new'', ''file'']" by code_simp
  moreover have "dest_resolve sample_view ''/loop/file'' True = Inl TooManyLinks" by code_simp
  ultimately show ?thesis using dest_resolve_confined [of sample_view "''/alias/new/file''" True] by blast
qed

end
