(* ===== verification/Storage_Snapshot.thy ===== *)
theory Storage_Snapshot
  imports Cache_Read
begin

text \<open>
  The layer of a stage is a persistent snapshot: a store of 4 KiB chunks, of which chunk 0 is
  the header, and after it areas of one metadata chunk with 256 exceptions and the 256 data
  chunks they may name.  \<open>storage/sealed.rs\<close> finds the used extent of a store and seals it;
  \<open>storage/compact.rs\<close> leaves out the exceptions whose data is that of the origin, by
  rewriting the metadata in place, and streams the result.  The wire format is that of the
  crate \<open>devmap-snapshot\<close>, the record \<open>snapshot_lib\<close>.  A file is the list of its bytes, and
  reading past its end is an error; other failures of the disk, which end the
  operation, are left out.  The origin may fail.
\<close>

record snap_exception =
  old_chunk :: nat
  new_chunk :: nat

record snap_header =
  hd_valid :: bool
  hd_chunk_bytes :: nat

record snapshot_lib =
  sl_header :: "byte list \<Rightarrow> io_error + snap_header"
  sl_per_chunk :: "snap_header \<Rightarrow> nat"
  sl_metadata_chunk :: "snap_header \<Rightarrow> nat \<Rightarrow> io_error + nat"
  sl_decode :: "byte list \<Rightarrow> snap_exception"
  sl_encode :: "snap_exception \<Rightarrow> byte list"

text \<open>
  The documented format: two little-endian 64-bit numbers to an exception, and for
  4 KiB chunks 256 exceptions to a metadata chunk, one area behind the other.
\<close>

definition snapshot_laws :: "snapshot_lib \<Rightarrow> bool" where
  "snapshot_laws L \<longleftrightarrow>
     (\<forall>bytes. length bytes = 16 \<longrightarrow> sl_decode L bytes =
        \<lparr>old_chunk = le_value (take 8 bytes), new_chunk = le_value (drop 8 bytes)\<rparr>) \<and>
     (\<forall>e. sl_encode L e = le_bytes 8 (old_chunk e) @ le_bytes 8 (new_chunk e)) \<and>
     (\<forall>h. hd_chunk_bytes h = 4096 \<longrightarrow> sl_per_chunk L h = 256 \<and>
        (\<forall>i<2 ^ 52. sl_metadata_chunk L h i = Inr (1 + i * 257)))"

definition chunk_bytes :: nat where "chunk_bytes = 4096"

definition unexpected_eof :: io_error where
  "unexpected_eof = OsError ''UnexpectedEof''"

definition invalid_data :: "string \<Rightarrow> io_error" where
  "invalid_data message = OsError message"

text \<open>\<open>read_exact_at\<close>; \<open>write_all_at\<close> is \<open>write_at\<close>.\<close>

definition read_exact_at :: "byte list \<Rightarrow> nat \<Rightarrow> nat \<Rightarrow> io_error + byte list" where
  "read_exact_at file extent offset =
     (if offset + extent \<le> length file then Inr (take extent (drop offset file)) else Inl unexpected_eof)"

text \<open>A multiplication of 64-bit numbers wraps around in a release build.\<close>

definition chunk_offset :: "nat \<Rightarrow> nat" where
  "chunk_offset k = k * chunk_bytes mod 2 ^ 64"

definition chunk_records :: "byte list \<Rightarrow> byte list list" where
  "chunk_records chunk = map (\<lambda>i. take 16 (drop (16 * i) chunk)) [0..<256]"

section \<open>The used extent of a store\<close>

text \<open>The exceptions of one metadata chunk: the new end, and whether one was not in use.\<close>

fun extent_records :: "snapshot_lib \<Rightarrow> nat \<Rightarrow> nat \<Rightarrow> nat \<Rightarrow> byte list list \<Rightarrow> nat \<Rightarrow> io_error + bool \<times> nat" where
  "extent_records L zero_bytes chunks stride [] end_chunk = Inr (False, end_chunk)"
| "extent_records L zero_bytes chunks stride (r # rs) end_chunk =
     (let e = sl_decode L r in
      if new_chunk e = 0 then Inr (True, end_chunk)
      else if old_chunk e \<ge> zero_bytes div 4096 \<or> new_chunk e < 2 \<or> new_chunk e \<ge> chunks \<or>
              (new_chunk e - 1) mod stride = 0
      then Inl (invalid_data ''snapshot exception outside data geometry'')
      else extent_records L zero_bytes chunks stride rs (max end_chunk (new_chunk e + 1)))"

text \<open>The loop over the areas \<open>indices\<close>; the seek and the read are one access.\<close>

fun extent_areas :: "snapshot_lib \<Rightarrow> nat \<Rightarrow> snap_header \<Rightarrow> nat \<Rightarrow> byte list \<Rightarrow> nat list \<Rightarrow> nat \<Rightarrow> io_error + nat" where
  "extent_areas L zero_bytes header chunks file [] end_chunk = Inl (invalid_data ''snapshot metadata exceeds capacity'')"
| "extent_areas L zero_bytes header chunks file (index # indices) end_chunk =
     bindE (sl_metadata_chunk L header index) (\<lambda>area.
     bindE (failIf (area \<ge> chunks) (invalid_data ''snapshot lacks terminating metadata'')) (\<lambda>_.
     bindE (read_exact_at file chunk_bytes (area * 4096)) (\<lambda>metadata.
     bindE (extent_records L zero_bytes chunks (sl_per_chunk L header + 1) (chunk_records metadata)
              (max end_chunk (area + 1))) (\<lambda>(stop, end_chunk).
       if stop then Inr (end_chunk * 4096)
       else extent_areas L zero_bytes header chunks file indices end_chunk))))"

definition extent_read :: "snapshot_lib \<Rightarrow> nat \<Rightarrow> byte list \<Rightarrow> nat \<Rightarrow> io_error + nat" where
  "extent_read L zero_bytes file capacity =
     bindE (failIf (capacity < 8192 \<or> capacity mod 4096 \<noteq> 0) (invalid_data ''invalid snapshot capacity'')) (\<lambda>_.
     bindE (read_exact_at file 16 0) (\<lambda>record.
     bindE (sl_header L record) (\<lambda>header.
     bindE (failIf (\<not> hd_valid header \<or> hd_chunk_bytes header \<noteq> 4096) (invalid_data ''invalid snapshot header'')) (\<lambda>_.
     let chunks = capacity div 4096 in
       extent_areas L zero_bytes header chunks file [0..<chunks] 2))))"

section \<open>Planning the compacted store\<close>

type_synonym origin = "nat \<Rightarrow> io_error + byte list"

definition area_offset :: "nat \<Rightarrow> nat" where
  "area_offset area = (1 + area * 257) * 4096"

text \<open>The source as rewritten so far, the number of exceptions kept, and the metadata not yet written.\<close>

record planning =
  pn_source :: "byte list"
  pn_kept :: nat
  pn_output :: "byte list"

definition keep_record :: "byte list \<Rightarrow> planning \<Rightarrow> planning" where
  "keep_record r s =
     (let slot = pn_kept s mod 256 * 16;
          output = take slot (pn_output s) @ r @ drop (slot + 16) (pn_output s);
          kept = pn_kept s + 1 in
      if kept mod 256 = 0
      then \<lparr>pn_source = write_at (area_offset ((kept - 1) div 256)) output (pn_source s),
            pn_kept = kept, pn_output = replicate chunk_bytes 0\<rparr>
      else s\<lparr>pn_kept := kept, pn_output := output\<rparr>)"

fun plan_records :: "snapshot_lib \<Rightarrow> origin \<Rightarrow> byte list list \<Rightarrow> planning \<Rightarrow> io_error + bool \<times> planning" where
  "plan_records L origin [] s = Inr (False, s)"
| "plan_records L origin (r # rs) s =
     (let e = sl_decode L r in
      if new_chunk e = 0
      then Inr (True, s\<lparr>pn_source := write_at (area_offset (pn_kept s div 256)) (pn_output s) (pn_source s)\<rparr>)
      else bindE (read_exact_at (pn_source s) chunk_bytes (chunk_offset (new_chunk e))) (\<lambda>block.
           bindE (origin (chunk_offset (old_chunk e))) (\<lambda>original.
             plan_records L origin rs (if block = original then s else keep_record r s))))"

text \<open>
  The loop over the areas has no bound of its own; it ends at the end of the file at the
  latest.  The fuel is the number of chunks, and one more.
\<close>

fun plan_areas :: "nat \<Rightarrow> snapshot_lib \<Rightarrow> origin \<Rightarrow> nat \<Rightarrow> planning \<Rightarrow> (io_error + planning) option" where
  "plan_areas 0 L origin area s = None"
| "plan_areas (Suc fuel) L origin area s =
     (case read_exact_at (pn_source s) chunk_bytes (area_offset area) of
        Inl e \<Rightarrow> Some (Inl e)
      | Inr metadata \<Rightarrow>
          (case plan_records L origin (chunk_records metadata) s of
             Inl e \<Rightarrow> Some (Inl e)
           | Inr (stop, s') \<Rightarrow>
               if stop then Some (Inr s') else plan_areas fuel L origin (area + 1) s'))"

record compact =
  cp_source :: "byte list"
  cp_kept :: nat
  cp_chunks :: nat
  cp_next :: nat
  cp_sources :: "nat list"
  cp_buffer :: "byte list"
  cp_position :: nat

definition compact_new :: "snapshot_lib \<Rightarrow> origin \<Rightarrow> byte list \<Rightarrow> (io_error + compact) option" where
  "compact_new L origin source =
     map_option (map_sum id (\<lambda>s. \<lparr>cp_source = pn_source s, cp_kept = pn_kept s,
         cp_chunks = 2 + pn_kept s + pn_kept s div 256, cp_next = 0,
         cp_sources = replicate 256 0, cp_buffer = replicate chunk_bytes 0, cp_position = chunk_bytes\<rparr>))
       (plan_areas (length source div 4096 + 1) L origin 0
          \<lparr>pn_source = source, pn_kept = 0, pn_output = replicate chunk_bytes 0\<rparr>)"

definition compact_size :: "compact \<Rightarrow> nat" where
  "compact_size c = cp_chunks c * 4096"

section \<open>Streaming the compacted store\<close>

text \<open>A kept exception gets the next data chunk of its area.\<close>

definition renumber :: "snapshot_lib \<Rightarrow> nat \<Rightarrow> nat \<times> byte list \<Rightarrow> byte list" where
  "renumber L next entry =
     (case entry of (slot, r) \<Rightarrow> sl_encode L \<lparr>old_chunk = old_chunk (sl_decode L r), new_chunk = next + 1 + slot\<rparr>)"

definition compact_metadata :: "snapshot_lib \<Rightarrow> byte list \<Rightarrow> compact \<Rightarrow> compact" where
  "compact_metadata L metadata c =
     (let first = (cp_next c - 1) div 257 * 256;
          count = min (cp_kept c - first) 256;
          used = take count (chunk_records metadata) in
      c\<lparr>cp_sources := map (\<lambda>r. new_chunk (sl_decode L r)) used @ drop count (cp_sources c),
        cp_buffer := concat (map (renumber L (cp_next c)) (enumerate 0 used)) @ drop (16 * count) metadata\<rparr>)"

definition compact_next :: "snapshot_lib \<Rightarrow> compact \<Rightarrow> io_error + compact" where
  "compact_next L c =
     bindE (if cp_next c = 0
            then bindE (read_exact_at (cp_source c) chunk_bytes 0) (\<lambda>b. Inr (c\<lparr>cp_buffer := b\<rparr>))
            else if (cp_next c - 1) mod 257 = 0
            then bindE (read_exact_at (cp_source c) chunk_bytes (cp_next c * 4096)) (\<lambda>metadata.
                   Inr (compact_metadata L metadata c))
            else bindE (read_exact_at (cp_source c) chunk_bytes (chunk_offset (cp_sources c ! ((cp_next c - 2) mod 257)))) (\<lambda>b.
                   Inr (c\<lparr>cp_buffer := b\<rparr>))) (\<lambda>c.
       Inr (c\<lparr>cp_next := cp_next c + 1, cp_position := 0\<rparr>))"

text \<open>One read into a buffer of \<open>extent\<close> bytes.\<close>

definition compact_read :: "snapshot_lib \<Rightarrow> nat \<Rightarrow> compact \<Rightarrow> io_error + byte list \<times> compact" where
  "compact_read L extent c =
     (if extent = 0 then Inr ([], c)
      else if cp_position c = length (cp_buffer c) \<and> cp_next c = cp_chunks c then Inr ([], c)
      else bindE (if cp_position c = length (cp_buffer c) then compact_next L c else Inr c) (\<lambda>c.
           let count = min extent (length (cp_buffer c) - cp_position c) in
             Inr (take count (drop (cp_position c) (cp_buffer c)), c\<lparr>cp_position := cp_position c + count\<rparr>)))"

end
