(* ===== verification/Storage_Compact.thy ===== *)
theory Storage_Compact
  imports Storage_Snapshot
begin

text \<open>
  Compaction keeps what a snapshot says: the compacted stream is a store with the same
  header, and its exceptions are those of the source whose data differs from the origin,
  in the same order and with the same data, each in its canonical place.  The rewriting in
  place stays behind the scan: metadata is overwritten only after it has been read, and
  data chunks never are.
\<close>

section \<open>Chunks of a file\<close>

definition chunk :: "byte list \<Rightarrow> nat \<Rightarrow> byte list" where
  "chunk f k = take 4096 (drop (k * 4096) f)"

text \<open>A file of \<open>n\<close> chunks, with a length that fits 64 bits.\<close>

definition whole :: "byte list \<Rightarrow> nat \<Rightarrow> bool" where
  "whole f n \<longleftrightarrow> length f = n * 4096 \<and> n * 4096 < 2 ^ 64"

lemma chunk_length: "whole f n \<Longrightarrow> k < n \<Longrightarrow> length (chunk f k) = 4096"
proof -
  assume "whole f n" "k < n"
  then have "k * 4096 + 4096 \<le> length f" using mult_le_mono1 [of "Suc k" n 4096] by (simp add: whole_def)
  then show "length (chunk f k) = 4096" by (simp add: chunk_def)
qed

lemma read_chunk: "whole f n \<Longrightarrow> k < n \<Longrightarrow> read_exact_at f chunk_bytes (k * 4096) = Inr (chunk f k)"
proof -
  assume "whole f n" "k < n"
  then have "k * 4096 + 4096 \<le> length f" using mult_le_mono1 [of "Suc k" n 4096] by (simp add: whole_def)
  then show ?thesis by (simp add: read_exact_at_def chunk_def chunk_bytes_def)
qed

lemma chunk_offset_small: "whole f n \<Longrightarrow> k < n \<Longrightarrow> chunk_offset k = k * 4096"
proof -
  assume "whole f n" "k < n"
  then have "k * 4096 < 2 ^ 64" using mult_le_mono1 [of k n 4096] by (simp add: whole_def)
  then show ?thesis by (simp add: chunk_offset_def chunk_bytes_def)
qed

lemma write_chunk:
  assumes "whole f n" "k < n" "length b = 4096"
  shows "whole (write_at (k * 4096) b f) n"
    and "chunk (write_at (k * 4096) b f) j = (if j = k then b else chunk f j)"
proof -
  have len: "k * 4096 + 4096 \<le> length f" using assms mult_le_mono1 [of "Suc k" n 4096] by (simp add: whole_def)
  then show "whole (write_at (k * 4096) b f) n" using assms by (simp add: whole_def)
  have w: "write_at (k * 4096) b f = take (k * 4096) f @ b @ drop (k * 4096 + 4096) f"
    using len assms(3) by (simp add: write_at_def)
  show "chunk (write_at (k * 4096) b f) j = (if j = k then b else chunk f j)"
  proof (cases j k rule: linorder_cases)
    case less
    then have "j * 4096 + 4096 \<le> k * 4096" using mult_le_mono1 [of "Suc j" k 4096] by simp
    then have a: "length (take (k * 4096) f) = k * 4096" "j * 4096 \<le> k * 4096" "4096 \<le> k * 4096 - j * 4096"
      using len by auto
    then have "take 4096 (drop (j * 4096) (take (k * 4096) f @ r)) = take 4096 (drop (j * 4096) f)" for r
      by (simp add: drop_take)
    then show ?thesis unfolding chunk_def w by (simp only: less_imp_neq [OF less] if_False)
  next
    case equal
    with len assms(3) show ?thesis by (simp add: chunk_def w min_def)
  next
    case greater
    then have "k * 4096 + 4096 \<le> j * 4096" using mult_le_mono1 [of "Suc k" j 4096] by simp
    with greater len assms(3) show ?thesis by (simp add: chunk_def w min_def)
  qed
qed

section \<open>Records of a chunk\<close>

definition is_record :: "byte list \<Rightarrow> bool" where
  "is_record r \<longleftrightarrow> length r = 16"

lemma records_map:
  "list_all is_record rs \<Longrightarrow> map (\<lambda>i. take 16 (drop (16 * i) (concat rs @ z))) [0..<length rs] = rs"
proof (induction rs)
  case (Cons r rs)
  have "map (\<lambda>i. take 16 (drop (16 * i) (concat (r # rs) @ z))) [0..<length (r # rs)] =
    take 16 (concat (r # rs) @ z) # map (\<lambda>i. take 16 (drop (16 * Suc i) (concat (r # rs) @ z))) [0..<length rs]"
    unfolding length_Cons map_upt_Suc mult_0_right drop_0 ..
  also have "\<dots> = r # map (\<lambda>i. take 16 (drop (16 * i) (concat rs @ z))) [0..<length rs]"
    using Cons.prems by (simp add: is_record_def)
  finally show ?case using Cons by simp
qed simp

lemma concat_length: "list_all is_record rs \<Longrightarrow> length (concat rs) = 16 * length rs"
  by (induction rs) (simp_all add: is_record_def)

lemma chunk_records_concat: "list_all is_record rs \<Longrightarrow> length rs = 256 \<Longrightarrow> chunk_records (concat rs) = rs"
  using records_map [of rs "[]"] by (simp add: chunk_records_def)

lemma chunk_records_length [simp]: "length (chunk_records c) = 256"
  by (simp add: chunk_records_def)

lemma chunk_records_records: "length c = 4096 \<Longrightarrow> list_all is_record (chunk_records c)"
  by (auto simp: chunk_records_def list_all_iff is_record_def)

definition zero_record :: "byte list" where
  "zero_record = replicate 16 0"

lemma zero_records: "replicate (16 * k) (0 :: byte) = concat (replicate k zero_record)"
  by (induction k) (simp_all add: zero_record_def replicate_add)

lemma chunk_records_padded:
  assumes "list_all is_record rs" "length rs \<le> 256"
  shows "chunk_records (concat rs @ replicate (4096 - 16 * length rs) 0) = rs @ replicate (256 - length rs) zero_record"
proof -
  have "4096 - 16 * length rs = 16 * (256 - length rs)" by simp
  then have e: "concat rs @ replicate (4096 - 16 * length rs) 0 = concat (rs @ replicate (256 - length rs) zero_record)"
    by (simp only: zero_records concat_append)
  have "list_all is_record (rs @ replicate (256 - length rs) zero_record)"
    using assms(1) by (auto simp: list_all_iff is_record_def zero_record_def)
  with assms(2) show ?thesis unfolding e by (intro chunk_records_concat) simp_all
qed

section \<open>What a store says\<close>

text \<open>The exceptions in use, as their raw records: those before the first whose new chunk is 0.\<close>

definition in_use :: "snapshot_lib \<Rightarrow> byte list \<Rightarrow> bool" where
  "in_use L r \<longleftrightarrow> new_chunk (sl_decode L r) \<noteq> 0"

definition area_chunk :: "nat \<Rightarrow> nat" where
  "area_chunk a = 1 + 257 * a"

lemma area_offset_chunk: "area_offset a = area_chunk a * 4096"
  by (simp add: area_offset_def area_chunk_def)

fun used_records :: "nat \<Rightarrow> snapshot_lib \<Rightarrow> byte list \<Rightarrow> nat \<Rightarrow> byte list list option" where
  "used_records 0 L file a = None"
| "used_records (Suc fuel) L file a =
     (case read_exact_at file chunk_bytes (area_offset a) of
        Inl e \<Rightarrow> None
      | Inr metadata \<Rightarrow>
          (let used = takeWhile (in_use L) (chunk_records metadata) in
           if length used < 256 then Some used
           else map_option (\<lambda>rs. used @ rs) (used_records fuel L file (a + 1))))"

definition record_data :: "snapshot_lib \<Rightarrow> byte list \<Rightarrow> byte list \<Rightarrow> byte list" where
  "record_data L file r = chunk file (new_chunk (sl_decode L r))"

text \<open>The chunks of the origin that a store replaces, with their new data.\<close>

definition store_view :: "snapshot_lib \<Rightarrow> byte list \<Rightarrow> (nat \<times> byte list) list option" where
  "store_view L file =
     map_option (map (\<lambda>r. (old_chunk (sl_decode L r), record_data L file r)))
       (used_records (length file div 4096 + 1) L file 0)"

text \<open>Where a data chunk can be.\<close>

definition data_chunk :: "nat \<Rightarrow> nat \<Rightarrow> bool" where
  "data_chunk n k \<longleftrightarrow> 2 \<le> k \<and> k < n \<and> (k - 1) mod 257 \<noteq> 0"

definition record_ok :: "snapshot_lib \<Rightarrow> nat \<Rightarrow> byte list \<Rightarrow> bool" where
  "record_ok L n r \<longleftrightarrow> is_record r \<and> data_chunk n (new_chunk (sl_decode L r))"

lemma area_not_data: "\<not> data_chunk n (area_chunk a)"
  by (simp add: data_chunk_def area_chunk_def)

section \<open>Planning\<close>

text \<open>
  After some exceptions have been scanned, \<open>K\<close> are kept: the full areas of kept records are
  written, the rest is in the buffer, and every other chunk is as it was.
\<close>

definition planned :: "nat \<Rightarrow> byte list \<Rightarrow> byte list list \<Rightarrow> planning \<Rightarrow> bool" where
  "planned n F K s \<longleftrightarrow>
     whole (pn_source s) n \<and> list_all is_record K \<and> pn_kept s = length K \<and>
     pn_output s = concat (drop (length K div 256 * 256) K) @ replicate (4096 - 16 * (length K mod 256)) 0 \<and>
     (\<forall>a<length K div 256. chunk (pn_source s) (area_chunk a) = concat (take 256 (drop (256 * a) K))) \<and>
     (\<forall>k. (\<forall>a<length K div 256. k \<noteq> area_chunk a) \<longrightarrow> chunk (pn_source s) k = chunk F k)"

lemma area_chunk_inj [simp]: "area_chunk a = area_chunk b \<longleftrightarrow> a = b"
  by (simp add: area_chunk_def)

lemma planned_data: "planned n F K s \<Longrightarrow> data_chunk n k \<Longrightarrow> chunk (pn_source s) k = chunk F k"
proof -
  assume p: "planned n F K s" and k: "data_chunk n k"
  have "k \<noteq> area_chunk a" for a using area_not_data k by blast
  with p show ?thesis by (simp add: planned_def)
qed

lemma planned_ahead:
  "planned n F K s \<Longrightarrow> length K div 256 \<le> a \<Longrightarrow> chunk (pn_source s) (area_chunk a) = chunk F (area_chunk a)"
  by (auto simp: planned_def)

lemma planned_start:
  "whole F n \<Longrightarrow> planned n F [] \<lparr>pn_source = F, pn_kept = 0, pn_output = replicate chunk_bytes 0\<rparr>"
  by (simp add: planned_def chunk_bytes_def)

lemma planned_output_length:
  assumes "planned n F K s"
  shows "length (pn_output s) = 4096"
proof -
  have "list_all is_record (drop (length K div 256 * 256) K)"
    using assms by (auto simp: planned_def list_all_iff dest: in_set_dropD)
  from concat_length [OF this] show ?thesis
    using assms by (simp add: planned_def minus_div_mult_eq_mod)
qed

lemma planned_keep:
  assumes "planned n F K s" "is_record r" "area_chunk (length K div 256) < n"
  shows "planned n F (K @ [r]) (keep_record r s)"
proof -
  define q m where "q = length K div 256" and "m = length K mod 256"
  have K: "length K = q * 256 + m" "m < 256" by (simp_all add: q_def m_def)
  have wk: "whole (pn_source s) n" "list_all is_record K" "pn_kept s = length K"
    and out: "pn_output s = concat (drop (q * 256) K) @ replicate (4096 - 16 * m) 0"
    and areas: "\<And>a. a < q \<Longrightarrow> chunk (pn_source s) (area_chunk a) = concat (take 256 (drop (256 * a) K))"
    and others: "\<And>k. (\<And>a. a < q \<Longrightarrow> k \<noteq> area_chunk a) \<Longrightarrow> chunk (pn_source s) k = chunk F k"
    using assms(1) by (auto simp: planned_def q_def m_def)
  have part: "length (concat (drop (q * 256) K)) = 16 * m"
    using concat_length [of "drop (q * 256) K"] wk(2) K by (auto simp: list_all_iff dest: in_set_dropD)
  have r: "length r = 16" using assms(2) by (simp add: is_record_def)
  have buf: "take (m * 16) (pn_output s) @ r @ drop (m * 16 + 16) (pn_output s) =
      concat (drop (q * 256) K @ [r]) @ replicate (4096 - 16 * (m + 1)) 0"
    using part K(2) by (simp add: out mult.commute)
  define b where "b = concat (drop (q * 256) K @ [r]) @ replicate (4096 - 16 * (m + 1)) 0"
  show ?thesis
  proof (cases "m + 1 = 256")
    case False
    then have d: "length (K @ [r]) div 256 = q" "length (K @ [r]) mod 256 = m + 1" using K by auto
    have "(pn_kept s + 1) mod 256 \<noteq> 0" using d(2) wk(3) by simp
    then have s': "keep_record r s = s\<lparr>pn_kept := pn_kept s + 1, pn_output := b\<rparr>"
      using buf wk(3) by (simp add: keep_record_def Let_def m_def b_def)
    have "drop (q * 256) (K @ [r]) = drop (q * 256) K @ [r]" using K by simp
    moreover have "take 256 (drop (256 * a) (K @ [r])) = take 256 (drop (256 * a) K)" if "a < q" for a
      using K that mult_le_mono1 [of "Suc a" q 256] by simp
    ultimately show ?thesis using wk assms(2) areas others unfolding planned_def s' d
      by (simp add: b_def del: take_append drop_append)
  next
    case True
    then have d: "length (K @ [r]) div 256 = q + 1" "length (K @ [r]) mod 256 = 0" using K by auto
    have b: "b = concat (drop (q * 256) K @ [r])" using True by (simp add: b_def)
    have full: "take 256 (drop (256 * q) (K @ [r])) = drop (q * 256) K @ [r]"
      using K True by (simp add: mult.commute)
    have bl: "length b = 4096" using b part True r by simp
    have "(pn_kept s + 1) mod 256 = 0" "pn_kept s + 1 - 1 = pn_kept s" using d(2) wk(3) by simp_all
    then have s': "keep_record r s = \<lparr>pn_source = write_at (area_chunk q * 4096) b (pn_source s),
        pn_kept = pn_kept s + 1, pn_output = replicate 4096 0\<rparr>"
      using buf wk(3) by (simp add: keep_record_def Let_def m_def b_def q_def area_offset_chunk chunk_bytes_def)
    note w = write_chunk [OF wk(1) assms(3) [folded q_def] bl]
    have old: "take 256 (drop (256 * a) (K @ [r])) = take 256 (drop (256 * a) K)" if "a < q" for a
      using K that mult_le_mono1 [of "Suc a" q 256] by simp
    have "chunk (write_at (area_chunk q * 4096) b (pn_source s)) (area_chunk a) = concat (take 256 (drop (256 * a) (K @ [r])))"
      if "a < q + 1" for a
    proof (cases "a = q")
      case True
      then show ?thesis unfolding True w(2) full by (simp only: b if_True simp_thms)
    next
      case False
      then have "a < q" using that by simp
      then show ?thesis unfolding w(2) old [OF \<open>a < q\<close>] using areas by simp
    qed
    moreover have "chunk (write_at (area_chunk q * 4096) b (pn_source s)) k = chunk F k"
      if "\<And>a. a < q + 1 \<Longrightarrow> k \<noteq> area_chunk a" for k
      using that others by (simp add: w(2))
    moreover have "drop ((q + 1) * 256) (K @ [r]) = []" using K True by simp
    ultimately show ?thesis using wk assms(2) w(1) unfolding planned_def s' d by simp
  qed
qed

text \<open>The last area is written when the scan stops; it ends with records that are not in use.\<close>

definition compacted :: "nat \<Rightarrow> byte list \<Rightarrow> byte list list \<Rightarrow> planning \<Rightarrow> bool" where
  "compacted n F K s \<longleftrightarrow>
     whole (pn_source s) n \<and> pn_kept s = length K \<and> area_chunk (length K div 256) < n \<and>
     (\<forall>a\<le>length K div 256. chunk (pn_source s) (area_chunk a) =
        concat (take 256 (drop (256 * a) K)) @ replicate (4096 - 16 * length (take 256 (drop (256 * a) K))) 0) \<and>
     (\<forall>k. data_chunk n k \<or> k = 0 \<longrightarrow> chunk (pn_source s) k = chunk F k)"

definition flush :: "planning \<Rightarrow> planning" where
  "flush s = s\<lparr>pn_source := write_at (area_offset (pn_kept s div 256)) (pn_output s) (pn_source s)\<rparr>"

lemma planned_flush:
  assumes "planned n F K s" "area_chunk (length K div 256) < n"
  shows "compacted n F K (flush s)"
proof -
  define q where "q = length K div 256"
  note w = write_chunk [OF _ assms(2) planned_output_length [OF assms(1)], of "pn_source s", folded q_def]
  have whole: "whole (pn_source s) n" and kept: "pn_kept s = length K" and records: "list_all is_record K"
    using assms(1) by (simp_all add: planned_def)
  have fl: "pn_source (flush s) = write_at (area_chunk q * 4096) (pn_output s) (pn_source s)" "pn_kept (flush s) = length K"
    using kept by (simp_all add: flush_def q_def area_offset_chunk)
  have "chunk (pn_source (flush s)) (area_chunk a) =
      concat (take 256 (drop (256 * a) K)) @ replicate (4096 - 16 * length (take 256 (drop (256 * a) K))) 0"
    if "a \<le> q" for a
  proof (cases "a = q")
    case True
    have m: "length (drop (256 * q) K) = length K mod 256"
      by (simp add: q_def minus_mult_div_eq_mod)
    then have t: "take 256 (drop (256 * q) K) = drop (q * 256) K" by (simp add: mult.commute)
    have "pn_output s = concat (drop (q * 256) K) @ replicate (4096 - 16 * length (drop (q * 256) K)) 0"
      using assms(1) m by (simp add: planned_def q_def mult.commute)
    then show ?thesis unfolding True fl w(2) [OF whole] t by simp
  next
    case False
    then have a: "a < q" using that by simp
    then have "256 * a + 256 \<le> length K" unfolding q_def by auto
    then have "length (take 256 (drop (256 * a) K)) = 256" by simp
    moreover have "chunk (pn_source (flush s)) (area_chunk a) = chunk (pn_source s) (area_chunk a)"
      using False by (simp add: fl w(2) [OF whole])
    ultimately show ?thesis using a assms(1) by (simp add: planned_def q_def del: length_take length_drop)
  qed
  moreover have "chunk (pn_source (flush s)) k = chunk F k" if "data_chunk n k \<or> k = 0" for k
  proof -
    have "k \<noteq> area_chunk a" for a using that area_not_data by (auto simp: area_chunk_def)
    then show ?thesis using assms(1) unfolding fl w(2) [OF whole] planned_def by simp
  qed
  ultimately show ?thesis using w(1) [OF whole] fl assms(2) by (simp add: compacted_def q_def)
qed

text \<open>An exception is kept when its data is not that of the origin.\<close>

definition differs :: "snapshot_lib \<Rightarrow> origin \<Rightarrow> byte list \<Rightarrow> byte list \<Rightarrow> bool" where
  "differs L origin F r \<longleftrightarrow> origin (chunk_offset (old_chunk (sl_decode L r))) \<noteq> Inr (record_data L F r)"

definition origin_readable :: "snapshot_lib \<Rightarrow> origin \<Rightarrow> byte list \<Rightarrow> bool" where
  "origin_readable L origin r \<longleftrightarrow> isOk (origin (chunk_offset (old_chunk (sl_decode L r))))"

lemma plan_records_run:
  assumes "planned n F K s" "whole F n"
    and "list_all (record_ok L n) (takeWhile (in_use L) rs)" "list_all (origin_readable L origin) (takeWhile (in_use L) rs)"
    and "length K + length rs \<le> 256 * (a + 1)" "area_chunk a < n"
  defines "used \<equiv> takeWhile (in_use L) rs"
  shows "\<exists>s'. planned n F (K @ filter (differs L origin F) used) s' \<and>
    plan_records L origin rs s = Inr (if length used < length rs then (True, flush s') else (False, s'))"
  using assms(1,3-5) unfolding used_def
proof (induction rs arbitrary: K s)
  case Nil
  then show ?case by auto
next
  case (Cons r rs)
  show ?case
  proof (cases "in_use L r")
    case False
    with Cons.prems(1) show ?thesis by (auto simp: in_use_def Let_def flush_def)
  next
    case True
    define k where "k = new_chunk (sl_decode L r)"
    have ok: "record_ok L n r" and orig: "origin_readable L origin r" using Cons.prems(2,3) True by simp_all
    then obtain original where o: "origin (chunk_offset (old_chunk (sl_decode L r))) = Inr original"
      by (cases "origin (chunk_offset (old_chunk (sl_decode L r)))") (simp_all add: origin_readable_def)
    have dk: "data_chunk n k" and rec: "is_record r" using ok by (simp_all add: record_ok_def k_def)
    then have kn: "k < n" by (simp add: data_chunk_def)
    have whole: "whole (pn_source s) n" using Cons.prems(1) by (simp add: planned_def)
    have read: "read_exact_at (pn_source s) chunk_bytes (chunk_offset k) = Inr (record_data L F r)"
      using read_chunk [OF whole kn] planned_data [OF Cons.prems(1) dk]
      unfolding chunk_offset_small [OF whole kn] record_data_def k_def [symmetric] by simp
    define K' s1 where "K' = K @ (if differs L origin F r then [r] else [])"
      and "s1 = (if record_data L F r = original then s else keep_record r s)"
    have room: "length K < 256 * (a + 1)" using Cons.prems(4) by simp
    then have "length K div 256 \<le> a" by (simp add: less_mult_imp_div_less less_Suc_eq_le mult.commute)
    then have "area_chunk (length K div 256) \<le> area_chunk a" by (simp add: area_chunk_def)
    then have room: "area_chunk (length K div 256) < n" using assms(6) by simp
    have next_planned: "planned n F K' s1"
      using Cons.prems(1) planned_keep [OF Cons.prems(1) rec room] o
      by (auto simp: K'_def s1_def differs_def)
    have bound: "length K' + length rs \<le> 256 * (a + 1)" using Cons.prems(4) by (simp add: K'_def)
    have "list_all (record_ok L n) (takeWhile (in_use L) rs)" "list_all (origin_readable L origin) (takeWhile (in_use L) rs)"
      using Cons.prems(2,3) True by simp_all
    from Cons.IH [OF next_planned this bound] obtain s' where
      "planned n F (K' @ filter (differs L origin F) (takeWhile (in_use L) rs)) s'"
      "plan_records L origin rs s1 =
        Inr (if length (takeWhile (in_use L) rs) < length rs then (True, flush s') else (False, s'))" by blast
    moreover have "plan_records L origin (r # rs) s = plan_records L origin rs s1"
      using True read o by (simp add: in_use_def Let_def k_def [symmetric] s1_def)
    ultimately show ?thesis using True by (auto simp: K'_def split: if_splits)
  qed
qed

text \<open>What is still to be scanned from an area on, and that it is sound.\<close>

lemma plan_areas_run:
  assumes "used_records fuel L F a = Some E" "planned n F K s" "whole F n"
    and "list_all (record_ok L n) E" "list_all (origin_readable L origin) E" "length K \<le> 256 * a"
  shows "\<exists>s'. plan_areas fuel L origin a s = Some (Inr s') \<and>
    compacted n F (K @ filter (differs L origin F) E) s'"
  using assms
proof (induction fuel arbitrary: a E K s)
  case (Suc fuel)
  have inside: "area_chunk a < n"
  proof (rule ccontr)
    assume "\<not> area_chunk a < n"
    then have "length F \<le> area_offset a" using Suc.prems(3) by (simp add: whole_def area_offset_chunk)
    then have "\<exists>e. read_exact_at F chunk_bytes (area_offset a) = Inl e"
      by (simp add: read_exact_at_def chunk_bytes_def)
    with Suc.prems(1) show False by auto
  qed
  note read = read_chunk [OF Suc.prems(3) inside, folded area_offset_chunk]
  define rs used where "rs = chunk_records (chunk F (area_chunk a))" and "used = takeWhile (in_use L) rs"
  have ahead: "length K div 256 \<le> a" using Suc.prems(6) by (simp add: less_Suc_eq_le div_le_mono [of _ "256 * a" 256, simplified])
  have whole: "whole (pn_source s) n" using Suc.prems(2) by (simp add: planned_def)
  have read': "read_exact_at (pn_source s) chunk_bytes (area_offset a) = Inr (chunk F (area_chunk a))"
    using read_chunk [OF whole inside] planned_ahead [OF Suc.prems(2) ahead] by (simp add: area_offset_chunk)
  from Suc.prems(1) read have E: "if length used < 256 then E = used
      else \<exists>E'. used_records fuel L F (a + 1) = Some E' \<and> E = used @ E'"
    by (auto simp: Let_def rs_def used_def split: if_splits)
  then have "\<exists>E'. E = used @ E'" by (auto split: if_splits)
  then have ok: "list_all (record_ok L n) used" "list_all (origin_readable L origin) used"
    using Suc.prems(4,5) by auto
  have len: "length K + length rs \<le> 256 * (a + 1)" using Suc.prems(6) by (simp add: rs_def)
  from plan_records_run [OF Suc.prems(2,3) ok [unfolded used_def] len inside] obtain s1 where
    p1: "planned n F (K @ filter (differs L origin F) used) s1"
    and r1: "plan_records L origin rs s = Inr (if length used < length rs then (True, flush s1) else (False, s1))"
    by (auto simp: used_def)
  have rl: "length rs = 256" by (simp add: rs_def)
  show ?case
  proof (cases "length used < 256")
    case True
    have "length (K @ filter (differs L origin F) used) < 256 * (a + 1)"
      using Suc.prems(6) le_less_trans [OF length_filter_le True, of "differs L origin F"] by simp
    then have "length (K @ filter (differs L origin F) used) div 256 \<le> a"
      by (metis less_Suc_eq_le less_mult_imp_div_less mult.commute Suc_eq_plus1)
    then have "area_chunk (length (K @ filter (differs L origin F) used) div 256) < n"
      using inside by (simp add: area_chunk_def)
    from planned_flush [OF p1 this] r1 read' True E rl show ?thesis by (simp add: rs_def)
  next
    case False
    with E obtain E' where e: "used_records fuel L F (a + 1) = Some E'" "E = used @ E'" by auto
    have "length (K @ filter (differs L origin F) used) \<le> 256 * (a + 1)"
    proof -
      have "length used \<le> 256" unfolding used_def rs_def by (metis chunk_records_length length_takeWhile_le)
      then have "length (filter (differs L origin F) used) \<le> 256" by (rule order_trans [OF length_filter_le])
      then show ?thesis using Suc.prems(6) by simp
    qed
    from Suc.IH [OF e(1) p1 Suc.prems(3) _ _ this] Suc.prems(4,5) e(2) obtain s' where
      "plan_areas fuel L origin (a + 1) s1 = Some (Inr s')"
      "compacted n F ((K @ filter (differs L origin F) used) @ filter (differs L origin F) E') s'" by auto
    with r1 read' False rl e(2) show ?thesis by (simp add: rs_def)
  qed
qed simp

section \<open>Streaming\<close>

definition kept_area :: "byte list list \<Rightarrow> nat \<Rightarrow> byte list list" where
  "kept_area K a = take 256 (drop (256 * a) K)"

definition renumbered :: "snapshot_lib \<Rightarrow> byte list list \<Rightarrow> nat \<Rightarrow> byte list list" where
  "renumbered L K a = map (renumber L (area_chunk a)) (enumerate 0 (kept_area K a))"

definition total_chunks :: "byte list list \<Rightarrow> nat" where
  "total_chunks K = 2 + length K + length K div 256"

text \<open>The chunks of the stream.\<close>

definition out_chunk :: "snapshot_lib \<Rightarrow> byte list \<Rightarrow> byte list list \<Rightarrow> nat \<Rightarrow> byte list" where
  "out_chunk L F K j =
     (if j = 0 then chunk F 0
      else let a = (j - 1) div 257; s = (j - 1) mod 257 in
        if s = 0 then concat (renumbered L K a) @ replicate (4096 - 16 * length (kept_area K a)) 0
        else record_data L F (K ! (256 * a + (s - 1))))"

definition streaming :: "snapshot_lib \<Rightarrow> nat \<Rightarrow> byte list \<Rightarrow> byte list list \<Rightarrow> compact \<Rightarrow> bool" where
  "streaming L n F K c \<longleftrightarrow>
     compacted n F K \<lparr>pn_source = cp_source c, pn_kept = cp_kept c, pn_output = []\<rparr> \<and>
     cp_chunks c = total_chunks K \<and> length (cp_sources c) = 256 \<and>
     length (cp_buffer c) = 4096 \<and> cp_position c \<le> 4096 \<and>
     (2 \<le> cp_next c \<longrightarrow> (\<forall>s<256. 256 * ((cp_next c - 2) div 257) + s < length K \<longrightarrow>
        cp_sources c ! s = new_chunk (sl_decode L (K ! (256 * ((cp_next c - 2) div 257) + s)))))"

lemma area_of_next:
  assumes "j < total_chunks K" "0 < j"
  shows "(j - 1) div 257 \<le> length K div 256"
    and "(j - 1) mod 257 \<noteq> 0 \<Longrightarrow> 256 * ((j - 1) div 257) + ((j - 1) mod 257 - 1) < length K"
proof -
  define a s q r where "a = (j - 1) div 257" and "s = (j - 1) mod 257" and "q = length K div 256" and "r = length K mod 256"
  have j: "j = 1 + 257 * a + s" "s < 257" using assms(2) by (simp_all add: a_def s_def)
  have K: "length K = 256 * q + r" "r < 256" by (simp_all add: q_def r_def)
  have lt: "257 * a + s < 257 * q + r + 1" using assms(1) j K by (simp add: total_chunks_def q_def [symmetric])
  show "a \<le> q"
  proof (rule ccontr)
    assume "\<not> a \<le> q"
    then have "257 * (q + 1) \<le> 257 * a" by (intro mult_le_mono2) simp
    with lt K(2) show False by simp
  qed
  assume "s \<noteq> 0"
  show "256 * a + (s - 1) < length K"
  proof (cases "a = q")
    case True
    with lt K \<open>s \<noteq> 0\<close> show ?thesis by simp
  next
    case False
    with \<open>a \<le> q\<close> have "256 * (a + 1) \<le> 256 * q" by (intro mult_le_mono2) simp
    with j(2) K show ?thesis by simp
  qed
qed

lemma kept_area_records: "list_all (record_ok L n) K \<Longrightarrow> list_all is_record (kept_area K a) \<and> length (kept_area K a) \<le> 256"
  by (auto simp: kept_area_def list_all_iff record_ok_def dest!: in_set_takeD in_set_dropD)

lemma encode_record: "snapshot_laws L \<Longrightarrow> is_record (sl_encode L e)"
  by (simp add: snapshot_laws_def is_record_def)

lemma renumbered_records: "snapshot_laws L \<Longrightarrow> list_all is_record (renumbered L K a) \<and> length (renumbered L K a) = length (kept_area K a)"
  by (simp add: renumbered_def list_all_iff renumber_def encode_record split: prod.splits)

lemma out_chunk_length:
  assumes "snapshot_laws L" "whole F n" "list_all (record_ok L n) K" "0 < n" "j < total_chunks K"
  shows "length (out_chunk L F K j) = 4096"
proof (cases "j = 0 \<or> (j - 1) mod 257 = 0")
  case True
  have "length (concat (renumbered L K a)) = 16 * length (kept_area K a)" "length (kept_area K a) \<le> 256" for a
    using renumbered_records [OF assms(1), of K a] concat_length [of "renumbered L K a"] kept_area_records [OF assms(3), of a]
    by auto
  with True chunk_length [OF assms(2,4)] show ?thesis by (auto simp: out_chunk_def Let_def)
next
  case False
  then have "256 * ((j - 1) div 257) + ((j - 1) mod 257 - 1) < length K" using area_of_next [OF assms(5)] by simp
  then have "record_ok L n (K ! (256 * ((j - 1) div 257) + ((j - 1) mod 257 - 1)))"
    using assms(3) by (simp add: list_all_length)
  with False show ?thesis
    by (auto simp: out_chunk_def Let_def record_data_def record_ok_def data_chunk_def intro!: chunk_length [OF assms(2)])
qed

lemma compact_next_run:
  assumes "snapshot_laws L" "whole F n" "list_all (record_ok L n) K" "streaming L n F K c" "cp_next c < total_chunks K"
  shows "\<exists>c'. compact_next L c = Inr c' \<and> streaming L n F K c' \<and> cp_next c' = cp_next c + 1 \<and>
    cp_position c' = 0 \<and> cp_buffer c' = out_chunk L F K (cp_next c)"
proof -
  define j where "j = cp_next c"
  have cm: "compacted n F K \<lparr>pn_source = cp_source c, pn_kept = cp_kept c, pn_output = []\<rparr>"
    and srcs: "length (cp_sources c) = 256"
    and old: "2 \<le> j \<Longrightarrow> s < 256 \<Longrightarrow> 256 * ((j - 2) div 257) + s < length K \<Longrightarrow>
        cp_sources c ! s = new_chunk (sl_decode L (K ! (256 * ((j - 2) div 257) + s)))" for s
    using assms(4) by (simp_all add: streaming_def j_def)
  have whole: "whole (cp_source c) n" and kept: "cp_kept c = length K" and q: "area_chunk (length K div 256) < n"
    and areas: "\<And>a. a \<le> length K div 256 \<Longrightarrow> chunk (cp_source c) (area_chunk a) =
        concat (kept_area K a) @ replicate (4096 - 16 * length (kept_area K a)) 0"
    and data: "\<And>k. data_chunk n k \<or> k = 0 \<Longrightarrow> chunk (cp_source c) k = chunk F k"
    using cm by (auto simp: compacted_def kept_area_def)
  have n: "0 < n" using q by simp
  note out = out_chunk_length [OF assms(1-3) n, of j]
  consider (start) "j = 0" | (metadata) "j \<noteq> 0" "(j - 1) mod 257 = 0" | (data) "j \<noteq> 0" "(j - 1) mod 257 \<noteq> 0" by blast
  then show ?thesis
  proof cases
    case start
    then have "compact_next L c = Inr (c\<lparr>cp_buffer := chunk F 0, cp_next := 1, cp_position := 0\<rparr>)"
      using read_chunk [OF whole n] data [of 0] by (simp add: compact_next_def j_def)
    moreover have "out_chunk L F K 0 = chunk F 0" by (simp add: out_chunk_def)
    ultimately show ?thesis using start assms(4) chunk_length [OF assms(2) n]
      by (simp add: streaming_def j_def)
  next
    case metadata
    define a where "a = (j - 1) div 257"
    have ja: "j = area_chunk a"
      using metadata mult_div_mod_eq [of 257 "j - 1"] unfolding a_def area_chunk_def by linarith
    have aq: "a \<le> length K div 256" using area_of_next(1) [of j K] assms(5) metadata by (simp add: a_def j_def)
    then have "j < n" using q by (simp add: ja area_chunk_def)
    define T where "T = kept_area K a"
    have T: "list_all is_record T" "length T \<le> 256" using kept_area_records [OF assms(3)] by (simp_all add: T_def)
    have m: "read_exact_at (cp_source c) chunk_bytes (j * 4096) = Inr (concat T @ replicate (4096 - 16 * length T) 0)"
      using read_chunk [OF whole \<open>j < n\<close>] areas [OF aq] by (simp add: ja T_def)
    have count: "min (length K - 256 * a) 256 = length T" by (simp add: T_def kept_area_def min.commute)
    have used: "take (length T) (chunk_records (concat T @ replicate (4096 - 16 * length T) 0)) = T"
      by (simp add: chunk_records_padded T)
    have rest: "drop (16 * length T) (concat T @ replicate (4096 - 16 * length T) (0 :: byte)) = replicate (4096 - 16 * length T) 0"
      using concat_length [OF T(1)] by simp
    define c' where "c' = c\<lparr>cp_sources := map (\<lambda>r. new_chunk (sl_decode L r)) T @ drop (length T) (cp_sources c),
        cp_buffer := concat (renumbered L K a) @ replicate (4096 - 16 * length T) 0\<rparr>"
    have cm': "compact_metadata L (concat T @ replicate (4096 - 16 * length T) 0) c = c'"
      unfolding compact_metadata_def Let_def kept j_def [symmetric] a_def [symmetric] mult.commute [of a 256] count used rest
      by (simp add: c'_def renumbered_def T_def [symmetric] ja [symmetric])
    have oc: "out_chunk L F K j = concat (renumbered L K a) @ replicate (4096 - 16 * length T) 0"
      using metadata by (simp add: out_chunk_def Let_def a_def T_def)
    have nx: "compact_next L c = Inr (c'\<lparr>cp_next := j + 1, cp_position := 0\<rparr>)"
      using metadata m cm' by (simp add: compact_next_def j_def c'_def)
    have "(j + 1 - 2) div 257 = a" using metadata by (simp add: a_def)
    moreover have "(map (\<lambda>r. new_chunk (sl_decode L r)) T @ drop (length T) (cp_sources c)) ! s =
        new_chunk (sl_decode L (K ! (256 * a + s)))" if "s < 256" "256 * a + s < length K" for s
    proof -
      have "s < length T" using that by (simp add: T_def kept_area_def)
      then show ?thesis using that by (simp add: nth_append T_def kept_area_def)
    qed
    ultimately have "streaming L n F K (c'\<lparr>cp_next := j + 1, cp_position := 0\<rparr>)"
      using assms(4) out assms(5) srcs T(2) unfolding streaming_def oc
      by (simp add: c'_def j_def)
    with nx oc show ?thesis by (simp add: j_def c'_def)
  next
    case data
    define a s where "a = (j - 1) div 257" and "s = (j - 1) mod 257 - 1"
    have j: "2 \<le> j" using data by (cases "j = 1") auto
    have js: "j - 2 = 257 * a + s" "s < 256"
    proof -
      have "j - 1 = 257 * a + (j - 1) mod 257" by (simp add: a_def)
      with data j show "j - 2 = 257 * a + s" by (simp add: s_def)
      have "(j - 1) mod 257 < 257" by simp
      with data show "s < 256" by (simp add: s_def)
    qed
    then have ds: "(j - 2) div 257 = a" "(j - 2) mod 257 = s" by simp_all
    have idx: "256 * a + s < length K" using area_of_next(2) [of j K] assms(5) data by (simp add: a_def s_def j_def)
    define k where "k = new_chunk (sl_decode L (K ! (256 * a + s)))"
    have "record_ok L n (K ! (256 * a + s))" using assms(3) idx by (simp add: list_all_length)
    then have dk: "data_chunk n k" by (simp add: record_ok_def k_def)
    then have kn: "k < n" by (simp add: data_chunk_def)
    have "cp_sources c ! s = k" using old [OF j js(2)] idx by (simp add: ds k_def)
    then have "read_exact_at (cp_source c) chunk_bytes (chunk_offset (cp_sources c ! s)) = Inr (chunk F k)"
      using read_chunk [OF whole kn] \<open>\<And>k. data_chunk n k \<or> k = 0 \<Longrightarrow> _ k\<close> [of k] dk chunk_offset_small [OF whole kn] by simp
    then have nx: "compact_next L c = Inr (c\<lparr>cp_buffer := chunk F k, cp_next := j + 1, cp_position := 0\<rparr>)"
      using data ds by (simp add: compact_next_def j_def)
    have oc: "out_chunk L F K j = chunk F k"
      using data by (simp add: out_chunk_def Let_def record_data_def k_def a_def s_def)
    have "(j + 1 - 2) div 257 = a" using j by (simp add: a_def)
    then have "streaming L n F K (c\<lparr>cp_buffer := chunk F k, cp_next := j + 1, cp_position := 0\<rparr>)"
      using assms(4) chunk_length [OF assms(2) kn] j ds unfolding streaming_def by (simp add: j_def)
    with nx oc show ?thesis by (simp add: j_def)
  qed
qed

text \<open>The rest of the stream: what is left of the buffer, and the chunks still to come.\<close>

fun compact_rest :: "nat \<Rightarrow> snapshot_lib \<Rightarrow> compact \<Rightarrow> io_error + byte list" where
  "compact_rest 0 L c = Inr []"
| "compact_rest (Suc k) L c =
     bindE (compact_next L c) (\<lambda>c'. bindE (compact_rest k L c') (\<lambda>bs. Inr (cp_buffer c' @ bs)))"

definition compact_stream :: "snapshot_lib \<Rightarrow> compact \<Rightarrow> io_error + byte list" where
  "compact_stream L c =
     bindE (compact_rest (cp_chunks c - cp_next c) L c) (\<lambda>bs. Inr (drop (cp_position c) (cp_buffer c) @ bs))"

lemma compact_rest_run:
  assumes "snapshot_laws L" "whole F n" "list_all (record_ok L n) K"
    and "streaming L n F K c" "cp_next c + k = total_chunks K"
  shows "compact_rest k L c = Inr (concat (map (out_chunk L F K) [cp_next c..<total_chunks K]))"
  using assms(4,5)
proof (induction k arbitrary: c)
  case (Suc k)
  have lt: "cp_next c < total_chunks K" using Suc.prems(2) by simp
  from compact_next_run [OF assms(1-3) Suc.prems(1) lt] obtain c' where
    c': "compact_next L c = Inr c'" "streaming L n F K c'" "cp_next c' = cp_next c + 1" "cp_buffer c' = out_chunk L F K (cp_next c)"
    by blast
  from Suc.IH [OF c'(2)] c'(3) Suc.prems(2) have
    "compact_rest k L c' = Inr (concat (map (out_chunk L F K) [cp_next c + 1..<total_chunks K]))" by simp
  with c' lt show ?case by (simp add: upt_conv_Cons)
qed simp

definition out_stream :: "snapshot_lib \<Rightarrow> byte list \<Rightarrow> byte list list \<Rightarrow> byte list" where
  "out_stream L F K = concat (map (out_chunk L F K) [0..<total_chunks K])"

lemma concat_chunks:
  assumes "\<And>x. x \<in> set xs \<Longrightarrow> length (f x) = 4096"
  shows "length (concat (map f xs)) = length xs * 4096"
    and "k < length xs \<Longrightarrow> chunk (concat (map f xs)) k = f (xs ! k)"
proof -
  show l: "length (concat (map f xs)) = length xs * 4096" using assms by (induction xs) simp_all
  show "k < length xs \<Longrightarrow> chunk (concat (map f xs)) k = f (xs ! k)" using assms
  proof (induction xs arbitrary: k)
    case (Cons x xs)
    then show ?case by (cases k) (simp_all add: chunk_def)
  qed simp
qed

lemma out_stream_chunks:
  assumes "snapshot_laws L" "whole F n" "list_all (record_ok L n) K" "0 < n"
  shows "length (out_stream L F K) = total_chunks K * 4096"
    and "k < total_chunks K \<Longrightarrow> chunk (out_stream L F K) k = out_chunk L F K k"
proof -
  have l: "\<And>j. j \<in> set [0..<total_chunks K] \<Longrightarrow> length (out_chunk L F K j) = 4096"
    using out_chunk_length [OF assms] by simp
  show "length (out_stream L F K) = total_chunks K * 4096"
    using concat_chunks(1) [of "[0..<total_chunks K]" "out_chunk L F K", OF l] by (simp add: out_stream_def)
  show "k < total_chunks K \<Longrightarrow> chunk (out_stream L F K) k = out_chunk L F K k"
    using concat_chunks(2) [of "[0..<total_chunks K]" "out_chunk L F K" k, OF l] by (simp add: out_stream_def)
qed

section \<open>The compacted stream as a store\<close>

lemma snap_decode_encode:
  assumes "snapshot_laws L" "old_chunk e < 2 ^ 64" "new_chunk e < 2 ^ 64"
  shows "sl_decode L (sl_encode L e) = e"
proof -
  have "length (sl_encode L e) = 16" "sl_encode L e = le_bytes 8 (old_chunk e) @ le_bytes 8 (new_chunk e)"
    using assms(1) by (simp_all add: snapshot_laws_def)
  then have "sl_decode L (sl_encode L e) =
      \<lparr>old_chunk = le_value (le_bytes 8 (old_chunk e)), new_chunk = le_value (le_bytes 8 (new_chunk e))\<rparr>"
    using assms(1) by (simp add: snapshot_laws_def)
  then show ?thesis using assms(2,3) by (simp add: le_value_bytes)
qed

lemma decode_bounds:
  assumes "snapshot_laws L" "is_record r"
  shows "old_chunk (sl_decode L r) < 2 ^ 64"
proof -
  have "old_chunk (sl_decode L r) = le_value (take 8 r)" using assms by (simp add: snapshot_laws_def is_record_def)
  moreover have "le_value (take 8 r) < 256 ^ length (take 8 r)" by (rule le_value_bound)
  ultimately show ?thesis using assms(2) by (simp add: is_record_def)
qed

lemma snap_zero_unused: "snapshot_laws L \<Longrightarrow> \<not> in_use L zero_record"
proof -
  assume "snapshot_laws L"
  then have "sl_decode L zero_record = \<lparr>old_chunk = le_value (take 8 zero_record), new_chunk = le_value (drop 8 zero_record)\<rparr>"
    by (simp add: snapshot_laws_def zero_record_def)
  moreover have "le_value (replicate k 0) = 0" for k by (induction k) simp_all
  ultimately show ?thesis by (simp add: in_use_def zero_record_def)
qed

text \<open>The stream fits the file that it was made from, so its numbers fit 64 bits.\<close>

lemma renumbered_decode:
  assumes "snapshot_laws L" "list_all is_record K" "s < length (kept_area K a)" "area_chunk a + 257 < 2 ^ 64"
  shows "sl_decode L (renumbered L K a ! s) =
    \<lparr>old_chunk = old_chunk (sl_decode L (K ! (256 * a + s))), new_chunk = area_chunk a + 1 + s\<rparr>"
proof -
  have "s < 256" "s < length K - 256 * a" using assms(3) by (simp_all add: kept_area_def)
  then have s: "s < 256" "256 * a + s < length K" by simp_all
  then have r: "kept_area K a ! s = K ! (256 * a + s)" by (simp add: kept_area_def)
  have "is_record (K ! (256 * a + s))" using assms(2) s(2) by (simp add: list_all_length)
  from decode_bounds [OF assms(1) this] show ?thesis
    using assms(3,4) s(1) r
    by (simp add: renumbered_def nth_enumerate_eq renumber_def snap_decode_encode [OF assms(1)])
qed

lemma used_area:
  assumes "snapshot_laws L" "list_all is_record K" "length (renumbered L K a) \<le> 256" "area_chunk a + 257 < 2 ^ 64"
  shows "takeWhile (in_use L) (chunk_records (concat (renumbered L K a) @ replicate (4096 - 16 * length (kept_area K a)) 0)) = renumbered L K a"
proof -
  have rr: "list_all is_record (renumbered L K a)" "length (renumbered L K a) = length (kept_area K a)"
    using renumbered_records [OF assms(1)] by blast+
  have "in_use L r" if "r \<in> set (renumbered L K a)" for r
  proof -
    from that obtain s where "s < length (kept_area K a)" "r = renumbered L K a ! s" by (auto simp: in_set_conv_nth rr(2))
    with renumbered_decode [OF assms(1,2) this(1) assms(4)] show ?thesis by (simp add: in_use_def)
  qed
  then have "takeWhile (in_use L) (renumbered L K a @ zs) = renumbered L K a @ takeWhile (in_use L) zs" for zs
    by (rule takeWhile_append2)
  moreover have "takeWhile (in_use L) (replicate k zero_record) = []" for k
    using snap_zero_unused [OF assms(1)] by (cases k) simp_all
  ultimately show ?thesis using chunk_records_padded [OF rr(1) assms(3)] by (simp add: rr(2))
qed

lemma out_stream_whole:
  assumes "snapshot_laws L" "whole F n" "list_all (record_ok L n) K" "0 < n" "total_chunks K * 4096 < 2 ^ 64"
  shows "whole (out_stream L F K) (total_chunks K)"
  using out_stream_chunks(1) [OF assms(1-4)] assms(5) by (simp add: whole_def)

lemma area_in_stream: "a \<le> length K div 256 \<Longrightarrow> area_chunk a < total_chunks K"
proof -
  assume "a \<le> length K div 256"
  then have "256 * a \<le> length K div 256 * 256" by simp
  also have "\<dots> \<le> length K" by (rule div_times_less_eq_dividend)
  finally show ?thesis using \<open>a \<le> _\<close> by (simp add: area_chunk_def total_chunks_def)
qed

lemma read_out_area:
  assumes "snapshot_laws L" "whole F n" "list_all (record_ok L n) K" "0 < n" "total_chunks K * 4096 < 2 ^ 64"
    and "a \<le> length K div 256"
  shows "read_exact_at (out_stream L F K) chunk_bytes (area_offset a) =
    Inr (concat (renumbered L K a) @ replicate (4096 - 16 * length (kept_area K a)) 0)"
proof -
  note lt = area_in_stream [OF assms(6)]
  have "out_chunk L F K (area_chunk a) = concat (renumbered L K a) @ replicate (4096 - 16 * length (kept_area K a)) 0"
    by (simp add: out_chunk_def area_chunk_def)
  with read_chunk [OF out_stream_whole [OF assms(1-5)] lt] out_stream_chunks(2) [OF assms(1-4) lt]
  show ?thesis by (simp add: area_offset_chunk)
qed

lemma used_out_stream:
  assumes "snapshot_laws L" "whole F n" "list_all (record_ok L n) K" "0 < n" "total_chunks K * 4096 < 2 ^ 64"
    and "a + k = length K div 256" "k < fuel"
  shows "used_records fuel L (out_stream L F K) a = Some (concat (map (renumbered L K) [a..<length K div 256 + 1]))"
  using assms(6,7)
proof (induction k arbitrary: a fuel)
  have recs: "list_all is_record K" using assms(3) by (auto simp: list_all_iff record_ok_def)
  have one: "used_records (Suc f) L (out_stream L F K) a =
      (if length (kept_area K a) < 256 then Some (renumbered L K a)
       else map_option (\<lambda>rs. renumbered L K a @ rs) (used_records f L (out_stream L F K) (a + 1)))"
    if a: "a \<le> length K div 256" for a f
  proof -
    have len: "length (renumbered L K a) = length (kept_area K a)" "length (kept_area K a) \<le> 256"
      using renumbered_records [OF assms(1)] by (auto simp: kept_area_def)
    have "area_chunk a * 4096 < 2 ^ 64" using area_in_stream [OF a] assms(5) by (simp add: total_chunks_def)
    then have "area_chunk a + 257 < 2 ^ 64" by simp
    from used_area [OF assms(1) recs _ this] len have
      "takeWhile (in_use L) (chunk_records (concat (renumbered L K a) @ replicate (4096 - 16 * length (kept_area K a)) 0)) = renumbered L K a"
      by simp
    then show ?thesis using read_out_area [OF assms(1-5) a] len by (simp add: Let_def)
  qed
  {
    case 0
    then obtain f where f: "fuel = Suc f" by (cases fuel) auto
    have "length (kept_area K a) < 256" using 0 by (simp add: kept_area_def minus_mult_div_eq_mod)
    moreover have "a \<le> length K div 256" using 0 by simp
    ultimately show ?case unfolding f one [OF \<open>a \<le> _\<close>] using 0 by simp
  next
    case (Suc k)
    then obtain f where f: "fuel = Suc f" by (cases fuel) auto
    have lt: "a < length K div 256" using Suc.prems(1) by simp
    then have "256 * a + 256 \<le> length K" by auto
    then have "\<not> length (kept_area K a) < 256" by (simp add: kept_area_def)
    moreover have "used_records f L (out_stream L F K) (a + 1) = Some (concat (map (renumbered L K) [a + 1..<length K div 256 + 1]))"
      using Suc.IH [of "a + 1" f] Suc.prems f by simp
    moreover have "[a..<length K div 256 + 1] = a # [a + 1..<length K div 256 + 1]"
      using lt by (simp add: upt_conv_Cons)
    moreover have "a \<le> length K div 256" using lt by simp
    ultimately show ?case unfolding f one [OF \<open>a \<le> _\<close>] by simp
  }
qed

text \<open>The data of a record of the stream is that of the record it was made from.\<close>

lemma renumbered_view:
  assumes "snapshot_laws L" "whole F n" "list_all (record_ok L n) K" "0 < n" "total_chunks K * 4096 < 2 ^ 64"
    and "a \<le> length K div 256"
  shows "map (\<lambda>r. (old_chunk (sl_decode L r), record_data L (out_stream L F K) r)) (renumbered L K a) =
    map (\<lambda>r. (old_chunk (sl_decode L r), record_data L F r)) (kept_area K a)"
proof (rule nth_equalityI)
  have len: "length (renumbered L K a) = length (kept_area K a)" using renumbered_records [OF assms(1)] by blast
  then show "length (map (\<lambda>r. (old_chunk (sl_decode L r), record_data L (out_stream L F K) r)) (renumbered L K a)) =
    length (map (\<lambda>r. (old_chunk (sl_decode L r), record_data L F r)) (kept_area K a))" by simp
  fix s assume "s < length (map (\<lambda>r. (old_chunk (sl_decode L r), record_data L (out_stream L F K) r)) (renumbered L K a))"
  then have s: "s < length (kept_area K a)" by (simp add: len)
  then have b: "s < 256" "256 * a + s < length K" by (auto simp: kept_area_def)
  have recs: "list_all is_record K" using assms(3) by (auto simp: list_all_iff record_ok_def)
  have "area_chunk a * 4096 < 2 ^ 64" using area_in_stream [OF assms(6)] assms(5) by (simp add: total_chunks_def)
  then have "area_chunk a + 257 < 2 ^ 64" by simp
  note d = renumbered_decode [OF assms(1) recs s this]
  define j where "j = area_chunk a + 1 + s"
  have j: "j \<noteq> 0" "(j - 1) div 257 = a" "(j - 1) mod 257 = s + 1" using b(1) by (simp_all add: j_def area_chunk_def)
  have "j < total_chunks K"
  proof -
    have "256 * a + s + 1 \<le> length K" using b(2) by simp
    then show ?thesis using assms(6) by (simp add: j_def area_chunk_def total_chunks_def)
  qed
  from out_stream_chunks(2) [OF assms(1-4) this] j
  have "chunk (out_stream L F K) j = record_data L F (K ! (256 * a + s))" by (simp add: out_chunk_def Let_def)
  then have "record_data L (out_stream L F K) (renumbered L K a ! s) = record_data L F (K ! (256 * a + s))"
    unfolding record_data_def [of L "out_stream L F K"] d j_def [symmetric] by (simp add: j_def)
  moreover have "kept_area K a ! s = K ! (256 * a + s)" using b by (simp add: kept_area_def)
  ultimately show "map (\<lambda>r. (old_chunk (sl_decode L r), record_data L (out_stream L F K) r)) (renumbered L K a) ! s =
    map (\<lambda>r. (old_chunk (sl_decode L r), record_data L F r)) (kept_area K a) ! s"
    using s d by (simp add: len)
qed

lemma kept_areas: "a + k = length K div 256 \<Longrightarrow> concat (map (kept_area K) [a..<length K div 256 + 1]) = drop (256 * a) K"
proof (induction k arbitrary: a)
  case 0
  have "length (drop (256 * a) K) < 256" using 0 by (simp add: minus_mult_div_eq_mod)
  then show ?case using 0 by (simp add: kept_area_def)
next
  case (Suc k)
  have "[a..<length K div 256 + 1] = a # [a + 1..<length K div 256 + 1]" using Suc.prems by (simp add: upt_conv_Cons)
  then have "concat (map (kept_area K) [a..<length K div 256 + 1]) = kept_area K a @ drop (256 * (a + 1)) K"
    using Suc.IH [of "a + 1"] Suc.prems by simp
  also have "\<dots> = take 256 (drop (256 * a) K) @ drop 256 (drop (256 * a) K)" by (simp add: kept_area_def add.commute)
  finally show ?case by (simp only: append_take_drop_id)
qed

lemma out_stream_view:
  assumes "snapshot_laws L" "whole F n" "list_all (record_ok L n) K" "0 < n" "total_chunks K * 4096 < 2 ^ 64"
  shows "store_view L (out_stream L F K) = Some (map (\<lambda>r. (old_chunk (sl_decode L r), record_data L F r)) K)"
proof -
  have "length K div 256 < length (out_stream L F K) div 4096 + 1"
    using out_stream_chunks(1) [OF assms(1-4)] by (simp add: total_chunks_def)
  from used_out_stream [OF assms, of 0 "length K div 256", OF _ this]
  have "store_view L (out_stream L F K) =
      Some (concat (map (\<lambda>a. map (\<lambda>r. (old_chunk (sl_decode L r), record_data L (out_stream L F K) r)) (renumbered L K a)) [0..<length K div 256 + 1]))"
    by (simp add: store_view_def map_concat comp_def)
  also have "map (\<lambda>a. map (\<lambda>r. (old_chunk (sl_decode L r), record_data L (out_stream L F K) r)) (renumbered L K a)) [0..<length K div 256 + 1] =
      map (\<lambda>a. map (\<lambda>r. (old_chunk (sl_decode L r), record_data L F r)) (kept_area K a)) [0..<length K div 256 + 1]"
    by (rule map_cong [OF refl]) (rule renumbered_view [OF assms], auto)
  also have "concat \<dots> = map (\<lambda>r. (old_chunk (sl_decode L r), record_data L F r)) (concat (map (kept_area K) [0..<length K div 256 + 1]))"
    by (simp only: map_concat map_map comp_def)
  also have "concat (map (kept_area K) [0..<length K div 256 + 1]) = K"
    using kept_areas [of 0 "length K div 256" K] by simp
  finally show ?thesis .
qed

section \<open>Stores with a valid extent\<close>

lemma extent_records_run:
  "extent_records L z chunks stride rs e0 = Inr (stop, e1) \<Longrightarrow>
     stop = (length (takeWhile (in_use L) rs) < length rs) \<and> e0 \<le> e1 \<and> (e0 \<le> chunks \<longrightarrow> e1 \<le> chunks) \<and>
     (\<forall>r\<in>set (takeWhile (in_use L) rs). old_chunk (sl_decode L r) < z div 4096 \<and> 2 \<le> new_chunk (sl_decode L r) \<and>
        new_chunk (sl_decode L r) < e1 \<and> (new_chunk (sl_decode L r) - 1) mod stride \<noteq> 0)"
proof (induction rs arbitrary: e0)
  case (Cons r rs)
  show ?case
  proof (cases "in_use L r")
    case False
    with Cons.prems show ?thesis by (simp add: in_use_def Let_def)
  next
    case True
    with Cons.prems have ok: "old_chunk (sl_decode L r) < z div 4096" "2 \<le> new_chunk (sl_decode L r)" "new_chunk (sl_decode L r) < chunks"
      "(new_chunk (sl_decode L r) - 1) mod stride \<noteq> 0"
      "extent_records L z chunks stride rs (max e0 (new_chunk (sl_decode L r) + 1)) = Inr (stop, e1)"
      by (auto simp: in_use_def Let_def split: if_splits)
    from Cons.IH [OF ok(5)] ok(1-4) True show ?thesis by auto
  qed
qed simp

lemma extent_areas_run:
  assumes "snapshot_laws L" "hd_chunk_bytes header = 4096" "chunks \<le> 2 ^ 52"
    and "extent_areas L z header chunks F [a..<chunks] e0 = Inr bytes" "e0 \<le> chunks"
  shows "\<exists>N E. bytes = N * 4096 \<and> e0 \<le> N \<and> N \<le> chunks \<and> list_all (record_ok L N) E \<and>
    list_all (\<lambda>r. old_chunk (sl_decode L r) < z div 4096) E \<and>
    (\<forall>G fuel. (\<forall>k<N. read_exact_at G chunk_bytes (k * 4096) = Inr (chunk F k)) \<longrightarrow> N - a \<le> fuel \<longrightarrow>
       used_records fuel L G a = Some E)"
  using assms(4,5)
proof (induction "chunks - a" arbitrary: a e0)
  case (Suc d)
  have a: "a < chunks" using Suc.hyps(2) by simp
  then have up: "[a..<chunks] = a # [a + 1..<chunks]" by (simp add: upt_conv_Cons)
  have law: "sl_metadata_chunk L header a = Inr (area_chunk a)" "sl_per_chunk L header = 256"
    using assms(1-3) a by (auto simp: snapshot_laws_def area_chunk_def mult.commute)
  define rs used where "rs = chunk_records (chunk F (area_chunk a))" and "used = takeWhile (in_use L) rs"
  from Suc.prems(1) law obtain stop e1 where
    inside: "area_chunk a < chunks" and rd: "read_exact_at F chunk_bytes (area_chunk a * 4096) = Inr (chunk F (area_chunk a))"
    and er: "extent_records L z chunks 257 rs (max e0 (area_chunk a + 1)) = Inr (stop, e1)"
    and go: "(if stop then Inr (e1 * 4096) else extent_areas L z header chunks F [a + 1..<chunks] e1) = Inr bytes"
    unfolding up by (auto simp: bindE_Inr_iff failIf_def read_exact_at_def chunk_def chunk_bytes_def rs_def split: if_splits)
  have chunk_len: "length (chunk F (area_chunk a)) = 4096"
    using rd by (auto simp: read_exact_at_def chunk_bytes_def chunk_def split: if_splits)
  have u: "stop = (length used < 256)" "max e0 (area_chunk a + 1) \<le> e1" "e1 \<le> chunks"
    "\<forall>r\<in>set used. old_chunk (sl_decode L r) < z div 4096 \<and> 2 \<le> new_chunk (sl_decode L r) \<and>
        new_chunk (sl_decode L r) < e1 \<and> (new_chunk (sl_decode L r) - 1) mod 257 \<noteq> 0"
    using extent_records_run [OF er] inside Suc.prems(2) by (simp_all add: used_def rs_def)
  have rec: "is_record r" if "r \<in> set used" for r
    using chunk_records_records [OF chunk_len] that set_takeWhileD [of r "in_use L" rs]
    by (auto simp: used_def rs_def list_all_iff)
  have used_ok: "list_all (record_ok L N) used" if "e1 \<le> N" for N
    using u(4) rec that by (force simp: list_all_iff record_ok_def data_chunk_def)
  have old_ok: "list_all (\<lambda>r. old_chunk (sl_decode L r) < z div 4096) used"
    using u(4) by (simp add: list_all_iff)
  have read: "used_records (Suc f) L G a =
      (if stop then Some used else map_option (\<lambda>rs. used @ rs) (used_records f L G (a + 1)))"
    if "\<forall>k<N. read_exact_at G chunk_bytes (k * 4096) = Inr (chunk F k)" "e1 \<le> N" for G N f
  proof -
    have "area_chunk a < N" using u(2) that(2) by simp
    with that(1) show ?thesis by (simp add: area_offset_chunk Let_def u(1) used_def rs_def)
  qed
  show ?case
  proof (cases stop)
    case True
    have "used_records fuel L G a = Some used"
      if whole_read: "\<forall>k<e1. read_exact_at G chunk_bytes (k * 4096) = Inr (chunk F k)" and fuel: "e1 - a \<le> fuel" for G fuel
    proof -
      have "a < e1" using u(2) by (simp add: area_chunk_def)
      then obtain f where "fuel = Suc f" using fuel by (cases fuel) auto
      then show ?thesis using read [OF whole_read order_refl] True by simp
    qed
    with True go u used_ok old_ok show ?thesis
      by (intro exI [of _ e1] exI [of _ used]) auto
  next
    case False
    with go have rest: "extent_areas L z header chunks F [a + 1..<chunks] e1 = Inr bytes" by simp
    have "d = chunks - (a + 1)" using Suc.hyps(2) by simp
    from Suc.hyps(1) [OF this rest u(3)] obtain N E where
      n: "bytes = N * 4096" "e1 \<le> N" "N \<le> chunks" "list_all (record_ok L N) E"
      "list_all (\<lambda>r. old_chunk (sl_decode L r) < z div 4096) E"
      and g: "\<And>G fuel. (\<forall>k<N. read_exact_at G chunk_bytes (k * 4096) = Inr (chunk F k)) \<Longrightarrow> N - (a + 1) \<le> fuel \<Longrightarrow>
        used_records fuel L G (a + 1) = Some E"
      by blast
    have "used_records fuel L G a = Some (used @ E)"
      if whole_read: "\<forall>k<N. read_exact_at G chunk_bytes (k * 4096) = Inr (chunk F k)" and fuel: "N - a \<le> fuel" for G fuel
    proof -
      have "a < N" using u(2) n(2) by (simp add: area_chunk_def)
      then obtain f where "fuel = Suc f" "N - (a + 1) \<le> f" using fuel by (cases fuel) auto
      then show ?thesis using read [OF whole_read n(2)] False g [OF whole_read] by simp
    qed
    with n u(2) used_ok [OF n(2)] old_ok show ?thesis
      by (intro exI [of _ N] exI [of _ "used @ E"]) auto
  qed
qed simp

lemma extent_read_run:
  assumes "snapshot_laws L" "length F < 2 ^ 63" "extent_read L z F (length F) = Inr bytes"
  shows "\<exists>N E. bytes = N * 4096 \<and> 2 \<le> N \<and> bytes \<le> length F \<and> whole (take bytes F) N \<and>
    list_all (record_ok L N) E \<and> list_all (\<lambda>r. old_chunk (sl_decode L r) < z div 4096) E \<and>
    (\<forall>k<N. chunk (take bytes F) k = chunk F k) \<and>
    (\<forall>fuel\<ge>N. used_records fuel L (take bytes F) 0 = Some E \<and> used_records fuel L F 0 = Some E)"
proof -
  define chunks where "chunks = length F div 4096"
  from assms(3) obtain header where h: "hd_chunk_bytes header = 4096" "8192 \<le> length F" "length F mod 4096 = 0"
    "extent_areas L z header chunks F [0..<chunks] 2 = Inr bytes"
    by (auto simp: extent_read_def bindE_Inr_iff failIf_def Let_def chunks_def split: if_splits)
  have F: "length F = chunks * 4096" using h(3) by (auto simp: chunks_def)
  then have c: "chunks \<le> 2 ^ 52" "2 \<le> chunks" using assms(2) h(2) by simp_all
  from extent_areas_run [OF assms(1) h(1) c(1) h(4) c(2)] obtain N E where
    n: "bytes = N * 4096" "2 \<le> N" "N \<le> chunks" "list_all (record_ok L N) E"
      "list_all (\<lambda>r. old_chunk (sl_decode L r) < z div 4096) E"
    and g: "\<And>G fuel. (\<forall>k<N. read_exact_at G chunk_bytes (k * 4096) = Inr (chunk F k)) \<Longrightarrow> N \<le> fuel \<Longrightarrow>
        used_records fuel L G 0 = Some E" by auto
  have wF: "whole F chunks" using F assms(2) by (simp add: whole_def)
  have le: "bytes \<le> length F" using n(1,3) F by simp
  have wG: "whole (take bytes F) N" using le n(1) assms(2) by (simp add: whole_def)
  have same: "chunk (take bytes F) k = chunk F k" if "k < N" for k
  proof -
    have "k * 4096 + 4096 \<le> bytes" using that n(1) mult_le_mono1 [of "Suc k" N 4096] by simp
    then show ?thesis by (simp add: chunk_def drop_take)
  qed
  have "\<forall>k<N. read_exact_at (take bytes F) chunk_bytes (k * 4096) = Inr (chunk F k)"
    using read_chunk [OF wG] same by simp
  moreover have "\<forall>k<N. read_exact_at F chunk_bytes (k * 4096) = Inr (chunk F k)"
    using read_chunk [OF wF] n(3) by simp
  ultimately show ?thesis using n le wG same g
    by (intro exI [of _ N] exI [of _ E]) simp
qed

lemma compaction_run:
  assumes "snapshot_laws L" "length F < 2 ^ 63" "extent_read L z F (length F) = Inr bytes"
    and "\<And>offset. offset < z \<Longrightarrow> isOk (origin offset)"
  shows "\<exists>c out view. compact_new L origin (take bytes F) = Some (Inr c) \<and> compact_stream L c = Inr out \<and>
    length out = compact_size c \<and> 8192 \<le> length out \<and> length out < 2 ^ 64 \<and> take 4096 out = take 4096 F \<and> store_view L F = Some view \<and>
    store_view L out = Some (filter (\<lambda>(old, data). origin (chunk_offset old) \<noteq> Inr data) view)"
proof -
  from extent_read_run [OF assms(1-3)] obtain N E where
    n: "bytes = N * 4096" "2 \<le> N" "bytes \<le> length F" and wG: "whole (take bytes F) N"
    and ok: "list_all (record_ok L N) E" and old: "list_all (\<lambda>r. old_chunk (sl_decode L r) < z div 4096) E"
    and same: "\<forall>k<N. chunk (take bytes F) k = chunk F k"
    and used: "\<forall>fuel\<ge>N. used_records fuel L (take bytes F) 0 = Some E \<and> used_records fuel L F 0 = Some E" by blast
  define G where "G = take bytes F"
  have "list_all (origin_readable L origin) E"
    unfolding list_all_iff
  proof
    fix r assume "r \<in> set E"
    then have "old_chunk (sl_decode L r) < z div 4096" using old by (simp add: list_all_iff)
    then have "Suc (old_chunk (sl_decode L r)) * 4096 \<le> z div 4096 * 4096" by (intro mult_le_mono1) simp
    also have "\<dots> \<le> z" by (rule div_times_less_eq_dividend)
    finally have "old_chunk (sl_decode L r) * 4096 < z" by simp
    moreover have "chunk_offset (old_chunk (sl_decode L r)) \<le> old_chunk (sl_decode L r) * 4096"
      by (simp add: chunk_offset_def chunk_bytes_def)
    ultimately show "origin_readable L origin r" using assms(4) by (simp add: origin_readable_def)
  qed
  moreover have "N \<le> length G div 4096 + 1" using wG by (simp add: G_def whole_def)
  then have "used_records (length G div 4096 + 1) L G 0 = Some E" using used unfolding G_def by blast
  ultimately obtain s where
    pl: "plan_areas (length G div 4096 + 1) L origin 0 \<lparr>pn_source = G, pn_kept = 0, pn_output = replicate chunk_bytes 0\<rparr> = Some (Inr s)"
    and co: "compacted N G (filter (differs L origin G) E) s"
    using plan_areas_run [OF _ planned_start [OF wG [folded G_def]] wG [folded G_def] ok] by fastforce
  define K where "K = filter (differs L origin G) E"
  define c where "c = \<lparr>cp_source = pn_source s, cp_kept = pn_kept s, cp_chunks = 2 + pn_kept s + pn_kept s div 256,
    cp_next = 0, cp_sources = replicate 256 0, cp_buffer = replicate chunk_bytes 0, cp_position = chunk_bytes\<rparr>"
  have kept: "pn_kept s = length K" using co by (simp add: compacted_def K_def)
  have okK: "list_all (record_ok L N) K" using ok by (auto simp: K_def list_all_iff)
  have str: "streaming L N G K c"
    using co kept by (simp add: streaming_def c_def compacted_def K_def [symmetric] total_chunks_def chunk_bytes_def)
  have "length K div 256 < N" using co by (simp add: compacted_def K_def area_chunk_def)
  then have q: "257 * (length K div 256) + 1 < N + 1" using co by (simp add: compacted_def K_def area_chunk_def)
  have "length K = 256 * (length K div 256) + length K mod 256" by simp
  then have "total_chunks K \<le> 257 * (length K div 256) + 257" by (simp add: total_chunks_def)
  with q have "total_chunks K \<le> N + 256" by simp
  then have total: "total_chunks K * 4096 < 2 ^ 64" using n(1,3) assms(2) by simp
  have N0: "0 < N" using n(2) by simp
  have new: "compact_new L origin G = Some (Inr c)" using pl by (simp add: compact_new_def c_def)
  have "compact_rest (total_chunks K) L c = Inr (out_stream L G K)"
    using compact_rest_run [OF assms(1) wG [folded G_def] okK str, of "total_chunks K"] by (simp add: c_def out_stream_def)
  then have stream: "compact_stream L c = Inr (out_stream L G K)"
    using kept by (simp add: compact_stream_def c_def total_chunks_def)
  note chunks = out_stream_chunks [OF assms(1) wG [folded G_def] okK N0]
  have size: "length (out_stream L G K) = compact_size c" using chunks(1) kept by (simp add: compact_size_def c_def total_chunks_def)
  have "chunk (out_stream L G K) 0 = chunk G 0" using chunks(2) [of 0] by (simp add: total_chunks_def out_chunk_def)
  moreover have "chunk G 0 = chunk F 0" using same N0 unfolding G_def by blast
  ultimately have head: "take 4096 (out_stream L G K) = take 4096 F" by (simp add: chunk_def)
  have d: "record_data L G r = record_data L F r" if "r \<in> set E" for r
    using ok same that by (simp add: record_data_def list_all_iff record_ok_def data_chunk_def G_def)
  have "N \<le> length F div 4096 + 1" using n(1,3) by auto
  then have "used_records (length F div 4096 + 1) L F 0 = Some E" using used by blast
  then have "store_view L F = Some (map (\<lambda>r. (old_chunk (sl_decode L r), record_data L F r)) E)"
    unfolding store_view_def by (simp only: option.map)
  also have "map (\<lambda>r. (old_chunk (sl_decode L r), record_data L F r)) E = map (\<lambda>r. (old_chunk (sl_decode L r), record_data L G r)) E"
    using d by simp
  finally have view: "store_view L F = Some (map (\<lambda>r. (old_chunk (sl_decode L r), record_data L G r)) E)" .
  have "store_view L (out_stream L G K) = Some (map (\<lambda>r. (old_chunk (sl_decode L r), record_data L G r)) K)"
    by (rule out_stream_view [OF assms(1) wG [folded G_def] okK N0 total])
  also have "map (\<lambda>r. (old_chunk (sl_decode L r), record_data L G r)) K =
      filter (\<lambda>(old, data). origin (chunk_offset old) \<noteq> Inr data) (map (\<lambda>r. (old_chunk (sl_decode L r), record_data L G r)) E)"
    by (simp add: K_def filter_map comp_def differs_def [abs_def])
  moreover have "8192 \<le> length (out_stream L G K)" "length (out_stream L G K) < 2 ^ 64"
    using chunks(1) total by (simp_all add: total_chunks_def)
  ultimately show ?thesis using new stream size head view unfolding G_def by auto
qed

section \<open>Properties\<close>

text \<open>C36: The used extent of a store lies inside its capacity, and cutting the store there changes
nothing that it says.\<close>

theorem extent_keeps_view:
  assumes "snapshot_laws L" "length F < 2 ^ 63" "extent_read L z F (length F) = Inr bytes"
  shows "bytes \<le> length F \<and> bytes mod 4096 = 0 \<and> store_view L F \<noteq> None \<and>
    store_view L (take bytes F) = store_view L F"
proof -
  from extent_read_run [OF assms] obtain N E where
    n: "bytes = N * 4096" "bytes \<le> length F" "list_all (record_ok L N) E"
    and same: "\<forall>k<N. chunk (take bytes F) k = chunk F k"
    and used: "\<forall>fuel\<ge>N. used_records fuel L (take bytes F) 0 = Some E \<and> used_records fuel L F 0 = Some E" by blast
  have "N \<le> length F div 4096 + 1" "N \<le> length (take bytes F) div 4096 + 1" using n(1,2) by auto
  with used have u: "used_records (length (take bytes F) div 4096 + 1) L (take bytes F) 0 = Some E"
    "used_records (length F div 4096 + 1) L F 0 = Some E" by blast+
  have d: "record_data L (take bytes F) r = record_data L F r" if "r \<in> set E" for r
    using n(3) same that by (simp add: record_data_def list_all_iff record_ok_def data_chunk_def)
  have "map (\<lambda>r. (old_chunk (sl_decode L r), record_data L (take bytes F) r)) E =
      map (\<lambda>r. (old_chunk (sl_decode L r), record_data L F r)) E"
    using d by simp
  then show ?thesis unfolding store_view_def u using n(1,2) by simp
qed

text \<open>C15: Planning and streaming a store with a valid extent always succeed when the origin can be
read, and the stream is a store with the same header that says exactly what the source says
where it differs from the origin: the same chunks, in the same order, with the same data.\<close>

theorem compaction_preserves_view:
  assumes "snapshot_laws L" "length F < 2 ^ 63" "extent_read L z F (length F) = Inr bytes"
    and "\<And>offset. offset < z \<Longrightarrow> isOk (origin offset)"
  shows "\<exists>c out view. compact_new L origin (take bytes F) = Some (Inr c) \<and> compact_stream L c = Inr out \<and>
    length out = compact_size c \<and> take 4096 out = take 4096 F \<and> store_view L F = Some view \<and>
    store_view L out = Some (filter (\<lambda>(old, data). origin (chunk_offset old) \<noteq> Inr data) view)"
  using compaction_run [where origin = origin, OF assms(1-3)] assms(4) by blast

lemma compact_next_buffer:
  assumes "snapshot_laws L" "compact_next L c = Inr c'"
  shows "length (cp_buffer c') = 4096 \<and> cp_position c' = 0 \<and> cp_next c' = cp_next c + 1 \<and> cp_chunks c' = cp_chunks c"
proof -
  have rd: "length b = 4096" if "read_exact_at f chunk_bytes offset = Inr b" for f offset b
    using that by (auto simp: read_exact_at_def chunk_bytes_def split: if_splits)
  have m: "length (cp_buffer (compact_metadata L b c)) = 4096 \<and> cp_next (compact_metadata L b c) = cp_next c \<and>
      cp_chunks (compact_metadata L b c) = cp_chunks c" if "length b = 4096" for b
  proof -
    define count where "count = min (cp_kept c - (cp_next c - 1) div 257 * 256) 256"
    have "list_all is_record (map (renumber L (cp_next c)) (enumerate 0 (take count (chunk_records b))))"
      by (simp add: list_all_iff renumber_def encode_record [OF assms(1)] split: prod.splits)
    from concat_length [OF this] that show ?thesis
      by (simp add: compact_metadata_def Let_def count_def [symmetric]) (simp add: count_def)
  qed
  from assms(2) show ?thesis
    unfolding compact_next_def by (auto simp: bindE_Inr_iff rd m split: if_splits)
qed

text \<open>Whatever the sizes of its buffers, a reader gets the stream in order: a read into a
buffer that is not empty delivers the next bytes of the stream, none only at its end, and the
rest of the stream is what remains.\<close>

theorem compact_read_delivers:
  assumes "snapshot_laws L" "compact_stream L c = Inr bs" "cp_position c \<le> length (cp_buffer c)"
    and "cp_next c \<le> cp_chunks c" "0 < extent"
  shows "\<exists>bytes c'. compact_read L extent c = Inr (bytes, c') \<and> compact_stream L c' = Inr (drop (length bytes) bs) \<and>
    bytes = take (length bytes) bs \<and> length bytes \<le> extent \<and> (bytes = [] \<longleftrightarrow> bs = []) \<and>
    cp_position c' \<le> length (cp_buffer c') \<and> cp_next c' \<le> cp_chunks c'"
proof -
  have part: "\<exists>bytes c'. (let count = min extent (length (cp_buffer d) - cp_position d) in
        Inr (take count (drop (cp_position d) (cp_buffer d)), d\<lparr>cp_position := cp_position d + count\<rparr>) :: io_error + _) = Inr (bytes, c') \<and>
      compact_stream L c' = Inr (drop (length bytes) ds) \<and> bytes = take (length bytes) ds \<and> length bytes \<le> extent \<and>
      bytes \<noteq> [] \<and> cp_position c' \<le> length (cp_buffer c') \<and> cp_next c' \<le> cp_chunks c'"
    if d: "compact_stream L d = Inr ds" "cp_position d < length (cp_buffer d)" "cp_next d \<le> cp_chunks d" for d ds
  proof -
    define count where "count = min extent (length (cp_buffer d) - cp_position d)"
    from d(1) obtain r where r: "compact_rest (cp_chunks d - cp_next d) L d = Inr r" "ds = drop (cp_position d) (cp_buffer d) @ r"
      by (auto simp: compact_stream_def bindE_Inr_iff)
    have "compact_next L (d\<lparr>cp_position := p\<rparr>) = compact_next L d" for p
      by (cases "read_exact_at (cp_source d) chunk_bytes 0"; cases "read_exact_at (cp_source d) chunk_bytes (cp_next d * 4096)";
          cases "read_exact_at (cp_source d) chunk_bytes (chunk_offset (cp_sources d ! ((cp_next d - 2) mod 257)))")
         (simp_all add: compact_next_def compact_metadata_def Let_def)
    then have same: "compact_rest k L (d\<lparr>cp_position := p\<rparr>) = compact_rest k L d" for k p
      by (cases k) simp_all
    have "0 < count" "cp_position d + count \<le> length (cp_buffer d)" using d(2) assms(5) by (auto simp: count_def)
    then show ?thesis using r d(3)
      by (intro exI [of _ "take count (drop (cp_position d) (cp_buffer d))"] exI [of _ "d\<lparr>cp_position := cp_position d + count\<rparr>"])
         (auto simp: Let_def count_def [symmetric] compact_stream_def same add.commute, simp add: count_def)
  qed
  show ?thesis
  proof (cases "cp_position c = length (cp_buffer c)")
    case False
    with part [OF assms(2) _ assms(4)] assms(3,5) obtain bytes c' where
      "compact_read L extent c = Inr (bytes, c')" "compact_stream L c' = Inr (drop (length bytes) bs)"
      "bytes = take (length bytes) bs" "length bytes \<le> extent" "bytes \<noteq> []"
      "cp_position c' \<le> length (cp_buffer c')" "cp_next c' \<le> cp_chunks c'"
      by (auto simp: compact_read_def)
    then show ?thesis by (intro exI [of _ bytes] exI [of _ c']) auto
  next
    case True
    show ?thesis
    proof (cases "cp_next c = cp_chunks c")
      case at_end: True
      have "compact_read L extent c = Inr ([], c)" using True at_end assms(5) by (simp add: compact_read_def)
      moreover have "bs = []" using assms(2) True at_end by (simp add: compact_stream_def)
      ultimately show ?thesis using assms(2-4) by simp
    next
      case False
      then obtain k where k: "cp_chunks c - cp_next c = Suc k" using assms(4) by (cases "cp_chunks c - cp_next c") auto
      with assms(2) True obtain d r where d: "compact_next L c = Inr d" "compact_rest k L d = Inr r" "bs = cp_buffer d @ r"
        by (auto simp: compact_stream_def bindE_Inr_iff)
      note b = compact_next_buffer [OF assms(1) d(1)]
      have "cp_chunks d - cp_next d = k" using b k by simp
      then have st: "compact_stream L d = Inr bs" using b d by (simp add: compact_stream_def)
      have lt: "cp_position d < length (cp_buffer d)" "cp_next d \<le> cp_chunks d" using b k by simp_all
      have rd: "compact_read L extent c = (let count = min extent (length (cp_buffer d) - cp_position d) in
          Inr (take count (drop (cp_position d) (cp_buffer d)), d\<lparr>cp_position := cp_position d + count\<rparr>))"
        using True False assms(5) d(1) by (simp add: compact_read_def)
      from part [OF st lt] obtain bytes c' where
        "compact_read L extent c = Inr (bytes, c')" "compact_stream L c' = Inr (drop (length bytes) bs)"
        "bytes = take (length bytes) bs" "length bytes \<le> extent" "bytes \<noteq> []"
        "cp_position c' \<le> length (cp_buffer c')" "cp_next c' \<le> cp_chunks c'"
        unfolding rd by blast
      then show ?thesis by (intro exI [of _ bytes] exI [of _ c']) auto
    qed
  qed
qed

section \<open>An example\<close>

definition reference_snapshot :: snapshot_lib where
  "reference_snapshot =
     \<lparr>sl_header = (\<lambda>bytes. Inr \<lparr>hd_valid = True, hd_chunk_bytes = 4096\<rparr>),
      sl_per_chunk = (\<lambda>h. 256), sl_metadata_chunk = (\<lambda>h i. Inr (1 + i * 257)),
      sl_decode = (\<lambda>bytes. \<lparr>old_chunk = le_value (take 8 bytes), new_chunk = le_value (drop 8 bytes)\<rparr>),
      sl_encode = (\<lambda>e. le_bytes 8 (old_chunk e) @ le_bytes 8 (new_chunk e))\<rparr>"

lemma reference_snapshot_laws: "snapshot_laws reference_snapshot"
  by (simp add: snapshot_laws_def reference_snapshot_def)

text \<open>A store whose chunk 2 replaces chunk 5 of the origin.\<close>

definition example_record :: "byte list" where
  "example_record = sl_encode reference_snapshot \<lparr>old_chunk = 5, new_chunk = 2\<rparr>"

definition example_metadata :: "byte list" where
  "example_metadata = concat [example_record] @ replicate (4096 - 16 * length [example_record]) 0"

definition example_store :: "byte list" where
  "example_store = replicate 4096 0 @ example_metadata @ replicate 4096 7"

lemma example_record_length: "length example_record = 16"
  by (simp add: example_record_def reference_snapshot_def)

lemma example_decode: "sl_decode reference_snapshot example_record = \<lparr>old_chunk = 5, new_chunk = 2\<rparr>"
  unfolding example_record_def by (rule snap_decode_encode [OF reference_snapshot_laws]) simp_all

lemma example_records: "chunk_records example_metadata = example_record # zero_record # replicate 254 zero_record"
proof -
  have "chunk_records example_metadata = [example_record] @ replicate (256 - length [example_record]) zero_record"
    unfolding example_metadata_def by (rule chunk_records_padded) (simp_all add: is_record_def example_record_length)
  also have "256 - length [example_record] = Suc 254" by simp
  finally show ?thesis by (simp only: append_Cons append_Nil replicate_Suc)
qed

lemma example_store_length: "length example_store = 12288"
  by (simp add: example_store_def example_metadata_def example_record_length)

lemma example_metadata_length: "length example_metadata = 4096"
  by (simp add: example_metadata_def example_record_length)

lemma example_reads:
  "read_exact_at example_store chunk_bytes 4096 = Inr example_metadata" "chunk example_store 2 = replicate 4096 7"
  by (simp_all add: read_exact_at_def example_store_length chunk_bytes_def chunk_def)
     (simp_all add: example_store_def example_metadata_length)

lemma zero_record_new: "new_chunk (sl_decode reference_snapshot zero_record) = 0"
  using snap_zero_unused [OF reference_snapshot_laws] by (simp add: in_use_def)

lemma example_extent: "extent_read reference_snapshot (2 ^ 20) example_store (length example_store) = Inr 12288"
proof -
  have up: "[0..<3] = [0, 1, 2 :: nat]" by (simp add: upt_rec)
  have head: "\<exists>b. read_exact_at example_store 16 0 = Inr b" by (simp add: read_exact_at_def example_store_length)
  have lib: "sl_header reference_snapshot b = Inr \<lparr>hd_valid = True, hd_chunk_bytes = 4096\<rparr>"
    "sl_metadata_chunk reference_snapshot h i = Inr (1 + i * 257)" "sl_per_chunk reference_snapshot h = 256" for b h i
    by (simp_all add: reference_snapshot_def)
  from head show ?thesis
    by (auto simp: extent_read_def failIf_def Let_def example_store_length up lib example_reads example_records
        example_decode zero_record_new)
qed

lemma example_view: "store_view reference_snapshot example_store = Some [(5, replicate 4096 7)]"
proof -
  have "used_records (Suc 3) reference_snapshot example_store 0 = Some [example_record]"
    unfolding used_records.simps
    using example_reads(1) by (simp add: area_offset_def Let_def example_records in_use_def example_decode zero_record_new)
  moreover have "length example_store div 4096 + 1 = Suc 3" by (simp add: example_store_length)
  ultimately have "store_view reference_snapshot example_store =
      Some (map (\<lambda>r. (old_chunk (sl_decode reference_snapshot r), record_data reference_snapshot example_store r)) [example_record])"
    unfolding store_view_def by (simp only: option.map)
  then show ?thesis by (simp add: record_data_def example_decode example_reads(2))
qed

lemma extent_keeps_view_witness:
  "store_view reference_snapshot (take 12288 example_store) = Some [(5, replicate 4096 7)]"
  using extent_keeps_view [OF reference_snapshot_laws _ example_extent] example_view
  by (simp add: example_store_length)

definition zero_origin :: origin where
  "zero_origin offset = Inr (replicate 4096 0)"

lemma compaction_preserves_view_witness:
  "\<exists>c out. compact_new reference_snapshot zero_origin (take 12288 example_store) = Some (Inr c) \<and>
     compact_stream reference_snapshot c = Inr out \<and> store_view reference_snapshot out = Some [(5, replicate 4096 7)]"
proof -
  have "\<exists>c out view. compact_new reference_snapshot zero_origin (take 12288 example_store) = Some (Inr c) \<and>
      compact_stream reference_snapshot c = Inr out \<and> length out = compact_size c \<and> take 4096 out = take 4096 example_store \<and>
      store_view reference_snapshot example_store = Some view \<and>
      store_view reference_snapshot out = Some (filter (\<lambda>(old, data). zero_origin (chunk_offset old) \<noteq> Inr data) view)"
    by (rule compaction_preserves_view [OF reference_snapshot_laws _ example_extent])
       (simp_all add: example_store_length zero_origin_def)
  moreover have "filter (\<lambda>(old, data). zero_origin (chunk_offset old) \<noteq> Inr data) [(5, replicate 4096 7)] = [(5, replicate 4096 7)]"
    by (simp add: zero_origin_def replicate_eq_replicate)
  ultimately show ?thesis using example_view by auto
qed

definition half_read :: compact where
  "half_read = \<lparr>cp_source = [], cp_kept = 0, cp_chunks = 2, cp_next = 2, cp_sources = [], cp_buffer = [1, 2, 3], cp_position = 1\<rparr>"

lemma compact_read_delivers_witness:
  "\<exists>c'. compact_read reference_snapshot 1 half_read = Inr ([2], c') \<and> compact_stream reference_snapshot c' = Inr [3]"
proof -
  have "compact_stream reference_snapshot half_read = Inr [2, 3]" by (simp add: half_read_def compact_stream_def)
  from compact_read_delivers [OF reference_snapshot_laws this, of 1] obtain bytes c' where r:
    "compact_read reference_snapshot 1 half_read = Inr (bytes, c')" "compact_stream reference_snapshot c' = Inr (drop (length bytes) [2, 3])"
    "bytes = take (length bytes) [2, 3]" "length bytes \<le> 1" "bytes \<noteq> []"
    by (auto simp: half_read_def)
  then have "length bytes = 1" by (cases "length bytes") auto
  with r show ?thesis by simp
qed

end
