(* ===== verification/Storage_Seal.thy ===== *)
theory Storage_Seal
  imports Storage_Compact Output_Assembly_Sound
begin

text \<open>
  Sealing a snapshot as a layer: the rest of \<open>storage/sealed.rs\<close>.  The compacted stream
  goes at once into the verity formatter, the data file and the encoder.  The formatter reads
  its whole input; it and the encoder are crates and parameters, with the random bytes of
  the salt.
\<close>

section \<open>Reading a layer\<close>

record scute_reader =
  rd_file :: "byte list"
  rd_position :: nat
  rd_length :: nat

definition scute_reader_new :: "byte list \<Rightarrow> nat \<Rightarrow> scute_reader" where
  "scute_reader_new file extent = \<lparr>rd_file = file, rd_position = 0, rd_length = extent\<rparr>"

text \<open>\<open>read_at\<close> of a file that holds fewer bytes delivers what there is.\<close>

definition scute_read :: "nat \<Rightarrow> scute_reader \<Rightarrow> byte list \<times> scute_reader" where
  "scute_read capacity r =
     (let count = min (rd_length r - rd_position r) capacity;
          bytes = take count (drop (rd_position r) (rd_file r)) in
      if count = 0 then ([], r) else (bytes, r\<lparr>rd_position := rd_position r + length bytes\<rparr>))"

datatype seek_from = SeekStart nat | SeekCurrent int | SeekEnd int

definition checked_add_signed :: "nat \<Rightarrow> int \<Rightarrow> nat option" where
  "checked_add_signed n d =
     (if 0 \<le> int n + d \<and> int n + d \<le> int u64_max then Some (nat (int n + d)) else None)"

definition scute_seek :: "seek_from \<Rightarrow> scute_reader \<Rightarrow> io_error + nat \<times> scute_reader" where
  "scute_seek offset r =
     bindE (okOr (OsError ''invalid scute seek'')
       (case offset of
          SeekStart position \<Rightarrow> Some position
        | SeekCurrent d \<Rightarrow> checked_add_signed (rd_position r) d
        | SeekEnd d \<Rightarrow> checked_add_signed (rd_length r) d)) (\<lambda>position.
       Inr (position, r\<lparr>rd_position := position\<rparr>))"

section \<open>Measuring what is written\<close>

text \<open>A writer that may accept fewer bytes than it is given; what it accepted is hashed and counted.\<close>

record 'd measured =
  ms_output :: 'd
  ms_hashed :: "byte list"
  ms_size :: nat

type_synonym 'd partial_writer = "'d \<Rightarrow> byte list \<Rightarrow> (io_error + nat) \<times> 'd"

definition measured_new :: "'d \<Rightarrow> 'd measured" where
  "measured_new output = \<lparr>ms_output = output, ms_hashed = [], ms_size = 0\<rparr>"

definition measured_write :: "'d partial_writer \<Rightarrow> 'd measured partial_writer" where
  "measured_write put w bytes =
     (case put (ms_output w) bytes of
        (Inl e, out) \<Rightarrow> (Inl e, w\<lparr>ms_output := out\<rparr>)
      | (Inr written, out) \<Rightarrow>
          (case checked_add u64_max (ms_size w) written of
             None \<Rightarrow> (Inl (OsError ''encoded scute size overflow''), w\<lparr>ms_output := out\<rparr>)
           | Some n \<Rightarrow> (Inr written,
               \<lparr>ms_output = out, ms_hashed = ms_hashed w @ take written bytes, ms_size = n\<rparr>)))"

text \<open>\<open>MeasuredRead\<close>: what a read delivers also goes to the data file and the encoder.\<close>

record 'r tee =
  te_input :: 'r
  te_data :: "byte list"
  te_encoded :: "byte list"

definition tee_read :: "('r \<Rightarrow> io_error + byte list \<times> 'r) \<Rightarrow> 'r tee \<Rightarrow> io_error + byte list \<times> 'r tee" where
  "tee_read get t =
     bindE (get (te_input t)) (\<lambda>(bytes, input).
       Inr (bytes, \<lparr>te_input = input, te_data = te_data t @ bytes, te_encoded = te_encoded t @ bytes\<rparr>))"

section \<open>Sealing\<close>

text \<open>
  \<open>sm_format\<close> is the verity formatter: from the salt, the number of blocks and the data to
  the root hash and the hash tree.
\<close>

record seal_means =
  sm_snapshot :: snapshot_lib
  sm_zero_bytes :: nat
  sm_format :: "byte list \<Rightarrow> nat \<Rightarrow> byte list \<Rightarrow> io_error + byte list \<times> byte list"
  sm_encode :: "byte list \<Rightarrow> byte list"
  sm_random :: "io_error + byte list"

record sealing =
  sl_scute :: sealed_scute
  sl_data :: "byte list"
  sl_tree :: "byte list"
  sl_blob :: "byte list"

definition seal_salt :: "byte list \<Rightarrow> byte list \<Rightarrow> byte list" where
  "seal_salt parent random = parent @ random"

definition seal_descriptor :: "hexlib \<Rightarrow> sha256 \<Rightarrow> byte list \<Rightarrow> nat \<Rightarrow> byte list \<Rightarrow> scute_descriptor" where
  "seal_descriptor H sha blob data_blocks salt =
     \<lparr>sd_digest = ''sha256:'' @ hex_encode H (sha blob), sd_size = length blob,
      sd_annotations = \<lparr>sa_data_blocks = data_blocks, sa_salt = hex_encode H salt\<rparr>\<rparr>"

definition seal_compacted ::
    "hexlib \<Rightarrow> sha256 \<Rightarrow> seal_means \<Rightarrow> byte list \<Rightarrow> compact \<Rightarrow> io_error + sealing" where
  "seal_compacted H sha M parent c =
     (let data_blocks = compact_size c div 4096 in
      bindE (sm_random M) (\<lambda>random.
      let salt = seal_salt parent random in
      bindE (compact_stream (sm_snapshot M) c) (\<lambda>data.
      bindE (sm_format M salt data_blocks data) (\<lambda>(root, tree).
      let blob = sm_encode M data in
        Inr \<lparr>sl_scute = \<lparr>ss_descriptor = seal_descriptor H sha blob data_blocks salt, ss_root = root, ss_parent = parent\<rparr>,
             sl_data = data, sl_tree = tree, sl_blob = blob\<rparr>))))"

definition seal_with_reader ::
    "hexlib \<Rightarrow> sha256 \<Rightarrow> seal_means \<Rightarrow> byte list \<Rightarrow> origin \<Rightarrow> byte list \<Rightarrow> (io_error + sealing) option" where
  "seal_with_reader H sha M parent origin file =
     (case extent_read (sm_snapshot M) (sm_zero_bytes M) file (length file) of
        Inl e \<Rightarrow> Some (Inl e)
      | Inr extent \<Rightarrow>
          (case compact_new (sm_snapshot M) origin (take extent file) of
             None \<Rightarrow> None
           | Some (Inl e) \<Rightarrow> Some (Inl e)
           | Some (Inr c) \<Rightarrow> Some (seal_compacted H sha M parent c)))"

section \<open>Facts\<close>

lemma measured_write_holds:
  assumes "measured_write put w bytes = (Inr written, w')" "ms_size w = length (ms_hashed w)" "written \<le> length bytes"
  shows "ms_size w' = length (ms_hashed w') \<and> ms_hashed w' = ms_hashed w @ take written bytes"
  using assms by (auto simp: measured_write_def checked_add_def split: prod.splits sum.splits option.splits if_splits)

lemma scute_read_bounds:
  assumes "scute_read capacity r = (bytes, r')" "rd_position r \<le> rd_length r"
  shows "rd_position r' \<le> rd_length r' \<and> length bytes \<le> capacity \<and>
    bytes = take (length bytes) (drop (rd_position r) (take (rd_length r) (rd_file r)))"
  using assms by (auto simp: scute_read_def Let_def drop_take min_def split: if_splits)


lemma sealed_digest:
  "hex_laws H \<Longrightarrow> length b = 32 \<Longrightarrow> digest_from_str H (''sha256:'' @ hex_encode H b) = Inr (Sha256 b)"
  by (simp add: hex_laws_def digest_from_str_def strip_prefix_append del: append.simps)

lemma seal_descriptor_scute:
  assumes "hex_laws H" "length parent = 32" "length random = 32" "length (sha blob) = 32" "blocks * 4096 \<le> u64_max"
  shows "scute_ok H 4096 (False, seal_descriptor H sha blob blocks (seal_salt parent random)) parent"
    and "digest_from_str H (sd_digest (seal_descriptor H sha blob blocks salt)) = Inr (Sha256 (sha blob))"
  using assms(1-3,5) sealed_digest [of H "sha blob", OF assms(1,4)]
  by (auto simp: scute_ok_def seal_descriptor_def seal_salt_def hex_laws_def)

text \<open>The blob waits under its temporary name for its installation in a layout.\<close>

lemma sealed_waits:
  assumes "hex_laws H" "length (sha blob) = 32" "length pending \<noteq> 64" "bt_get (sg_blobs s) pending = Some blob"
  shows "waits H sha s \<lparr>ss_descriptor = seal_descriptor H sha blob blocks salt, ss_root = root, ss_parent = parent\<rparr> (Some pending)"
  using assms(3,4) sealed_digest [of H "sha blob", OF assms(1,2)] by (simp add: waits_def seal_descriptor_def)

section \<open>Property\<close>

text \<open>C16: When the formatter succeeds, sealing a snapshot with a valid extent gives a layer that
an artifact accepts: its descriptor is a scute whose salt starts with its parent, its digest and
size are those of the encoded data, the data fills its blocks and says exactly what the snapshot
says where it differs from the origin, and a staging that holds the blob can install it.\<close>

theorem sealed_scute_valid:
  assumes "hex_laws H" "\<And>b. length (sha b) = 32" "snapshot_laws (sm_snapshot M)" "length input < 2 ^ 63"
    and "extent_read (sm_snapshot M) (sm_zero_bytes M) input (length input) = Inr bytes"
    and "\<And>offset. offset < sm_zero_bytes M \<Longrightarrow> isOk (origin offset)"
    and "sm_random M = Inr random" "length random = 32" "length parent = 32"
    and "\<And>salt blocks data. isOk (sm_format M salt blocks data)"
  shows "\<exists>r view. seal_with_reader H sha M parent origin input = Some (Inr r) \<and>
    ss_parent (sl_scute r) = parent \<and>
    scute_ok H 4096 (False, ss_descriptor (sl_scute r)) parent \<and>
    sl_blob r = sm_encode M (sl_data r) \<and> sd_size (ss_descriptor (sl_scute r)) = length (sl_blob r) \<and>
    length (sl_data r) = sa_data_blocks (sd_annotations (ss_descriptor (sl_scute r))) * 4096 \<and>
    store_view (sm_snapshot M) input = Some view \<and>
    store_view (sm_snapshot M) (sl_data r) = Some (filter (\<lambda>(old, data). origin (chunk_offset old) \<noteq> Inr data) view) \<and>
    (\<forall>s pending. length pending \<noteq> 64 \<and> bt_get (sg_blobs s) pending = Some (sl_blob r) \<longrightarrow>
       waits H sha s (sl_scute r) (Some pending))"
proof -
  from compaction_run [where origin = origin, OF assms(3-5)] assms(6) obtain c out view where
    c: "compact_new (sm_snapshot M) origin (take bytes input) = Some (Inr c)" "compact_stream (sm_snapshot M) c = Inr out"
      "length out = compact_size c" "length out < 2 ^ 64"
    and v: "store_view (sm_snapshot M) input = Some view"
      "store_view (sm_snapshot M) out = Some (filter (\<lambda>(old, data). origin (chunk_offset old) \<noteq> Inr data) view)" by blast
  have blocks: "compact_size c div 4096 * 4096 = length out" using c(3) by (simp add: compact_size_def)
  with c(4) have small: "compact_size c div 4096 * 4096 \<le> u64_max" by (simp add: u64_max_def)
  define salt where "salt = seal_salt parent random"
  obtain root tree where f: "sm_format M salt (compact_size c div 4096) out = Inr (root, tree)"
    using assms(10) [of salt "compact_size c div 4096" out] by (cases "sm_format M salt (compact_size c div 4096) out") auto
  define r where "r = \<lparr>sl_scute = \<lparr>ss_descriptor = seal_descriptor H sha (sm_encode M out) (compact_size c div 4096) salt,
      ss_root = root, ss_parent = parent\<rparr>, sl_data = out, sl_tree = tree, sl_blob = sm_encode M out\<rparr>"
  have "seal_with_reader H sha M parent origin input = Some (Inr r)"
    using assms(5,7) c(1,2) f by (simp add: seal_with_reader_def seal_compacted_def Let_def r_def salt_def [symmetric])
  moreover have "scute_ok H 4096 (False, ss_descriptor (sl_scute r)) parent"
    using seal_descriptor_scute(1) [where sha = sha and blob = "sm_encode M out", OF assms(1,9,8) assms(2) small] by (simp add: r_def salt_def)
  moreover have "length (sl_data r) = sa_data_blocks (sd_annotations (ss_descriptor (sl_scute r))) * 4096"
    using blocks by (simp add: r_def seal_descriptor_def)
  moreover have "waits H sha s (sl_scute r) (Some pending)"
    if "length pending \<noteq> 64" "bt_get (sg_blobs s) pending = Some (sl_blob r)" for s pending
    using sealed_waits [where sha = sha and blob = "sl_blob r", OF assms(1,2) that(1)] that(2) by (simp add: r_def)
  ultimately show ?thesis using v by (intro exI [of _ r] exI [of _ view]) (auto simp: r_def seal_descriptor_def)
qed

definition example_seal_means :: seal_means where
  "example_seal_means =
     \<lparr>sm_snapshot = reference_snapshot, sm_zero_bytes = 2 ^ 20,
      sm_format = (\<lambda>salt blocks data. Inr (take 32 salt, [])), sm_encode = take 16, sm_random = Inr (replicate 32 9)\<rparr>"

definition example_sha :: sha256 where
  "example_sha bytes = replicate 32 (fold (+) bytes 0)"

lemma sealed_scute_valid_witness:
  "\<exists>r. seal_with_reader hex_ref example_sha example_seal_means (replicate 32 1) zero_origin example_store = Some (Inr r) \<and>
     scute_ok hex_ref 4096 (False, ss_descriptor (sl_scute r)) (replicate 32 1) \<and>
     store_view reference_snapshot (sl_data r) = Some [(5, replicate 4096 7)]"
proof -
  have keep: "filter (\<lambda>(old, data). zero_origin (chunk_offset old) \<noteq> Inr data) [(5, replicate 4096 7)] = [(5, replicate 4096 7)]"
    by (simp add: zero_origin_def replicate_eq_replicate)
  have lib: "sm_snapshot example_seal_means = reference_snapshot" "sm_zero_bytes example_seal_means = 2 ^ 20"
    by (simp_all add: example_seal_means_def)
  from sealed_scute_valid [where H = hex_ref and sha = example_sha and M = example_seal_means and input = example_store and
      origin = zero_origin and random = "replicate 32 9" and parent = "replicate 32 1" and bytes = 12288, unfolded lib,
      OF hex_ref_laws _ reference_snapshot_laws _ example_extent]
  show ?thesis using example_view keep
    by (auto simp: example_sha_def example_store_length zero_origin_def example_seal_means_def)
qed

end
