(* ===== verification/Isolation_Gate.thy ===== *)
theory Isolation_Gate
  imports Cache_Read "HOL-Library.Sublist"
begin

unbundle bit_operations_syntax

text \<open>
  The start gate between the supervisor and the resident init of a command:
  \<open>isolation/gate.rs\<close>, with \<open>packet.rs\<close> and \<open>deadline.rs\<close>.  The kernel is data: for the
  number of system calls made so far, what the clock shows and what a poll, a send and a
  receive would answer.  The loops of the code end only by an answer or by the deadline, so
  they run on fuel here; \<open>gate_receive_returns\<close> and its companions show that some fuel is
  enough as soon as the clock passes the deadline.

  The second half puts both sides together: a relation of their steps over the packets in
  flight, in which either side may also fail or disappear at any moment.
\<close>

section \<open>What the kernel answers\<close>

datatype errno = EAGAIN | EINTR | OtherErrno string

datatype poll_answer = PollNothing | PollEvents bool | PollErrno errno

record datagram =
  dg_bytes :: "byte list"
  dg_descriptors :: "nat list"
  dg_other_ancillary :: bool
  dg_control_truncated :: bool

record channel =
  ch_clock :: "nat \<Rightarrow> nat"
  ch_poll :: "nat \<Rightarrow> poll_answer"
  ch_send :: "nat \<Rightarrow> errno + nat"
  ch_recv :: "nat \<Rightarrow> errno + datagram"

section \<open>Deadlines\<close>

definition deadline_remaining :: "string \<Rightarrow> nat \<Rightarrow> nat \<Rightarrow> io_error + nat" where
  "deadline_remaining expired deadline now =
     bindE (failIf (deadline \<le> now) (OsError expired)) (\<lambda>_.
     bindE (failIf (2 ^ 63 \<le> (deadline - now) div 10 ^ 9) (OsError ''timespec'')) (\<lambda>_.
       Inr (deadline - now)))"

section \<open>One packet\<close>

datatype receive_error = ReceiveErrno errno | ReceiveInvalid string

text \<open>\<open>capacity\<close> is the length of the buffer; a longer datagram is truncated, with a flag.
Descriptors are numbers that name the objects they refer to.\<close>

definition receive_now :: "nat \<Rightarrow> errno + datagram \<Rightarrow> receive_error + byte list \<times> nat list" where
  "receive_now capacity answer =
     (case answer of
        Inl e \<Rightarrow> Inl (ReceiveErrno e)
      | Inr d \<Rightarrow>
          bindE (failIf (dg_other_ancillary d) (ReceiveInvalid ''unexpected ancillary message'')) (\<lambda>_.
          bindE (failIf (capacity < length (dg_bytes d) \<or> dg_control_truncated d)
            (ReceiveInvalid ''truncated descriptor packet'')) (\<lambda>_.
            Inr (dg_bytes d, dg_descriptors d))))"

definition gate_bytes :: "byte \<Rightarrow> byte list" where
  "gate_bytes opcode = [0x82, 1, opcode]"

definition check_gate :: "byte \<Rightarrow> byte list \<times> nat list \<Rightarrow> io_error + unit" where
  "check_gate opcode received =
     bindE (failIf (length (fst received) = 0) (OsError ''execution gate closed'')) (\<lambda>_.
       failIf (length (fst received) \<noteq> 3 \<or> fst received \<noteq> gate_bytes opcode \<or> snd received \<noteq> [])
         (OsError ''invalid execution gate packet''))"

section \<open>The status packet\<close>

text \<open>The raw status of \<open>wait\<close>, a signed number of 32 bits.\<close>

type_synonym exit_status = "32 word"

definition status_success :: "exit_status \<Rightarrow> bool" where
  "status_success raw \<longleftrightarrow> raw = 0"

definition completion_prefix :: "byte list" where
  "completion_prefix = [0x83, 1, 3, 0x44]"

definition completion_validate :: "exit_status \<Rightarrow> io_error + unit" where
  "completion_validate raw =
     (if raw AND NOT 0xff00 = 0 \<or>
         0 < sint raw \<and> raw AND NOT 0xff = 0 \<and> 1 \<le> raw AND 0x7f \<and> raw AND 0x7f \<le> 64
      then Inr () else Inl (OsError ''nonterminal command status''))"

definition completion_new :: "exit_status \<Rightarrow> io_error + byte list" where
  "completion_new raw =
     bindE (completion_validate raw) (\<lambda>_. Inr (completion_prefix @ rev (le_bytes 4 (unat raw))))"

definition completion_status :: "byte list \<Rightarrow> io_error + exit_status" where
  "completion_status bytes =
     bindE (failIf (take 4 bytes \<noteq> completion_prefix) (OsError ''invalid command status packet'')) (\<lambda>_.
     let raw = word_of_nat (le_value (rev (drop 4 bytes))) in
     bindE (completion_validate raw) (\<lambda>_. Inr raw))"

definition check_completion :: "byte list \<times> nat list \<Rightarrow> io_error + exit_status" where
  "check_completion received =
     bindE (failIf (length (fst received) = 0) (OsError ''command status peer closed'')) (\<lambda>_.
     bindE (failIf (length (fst received) \<noteq> 8 \<or> snd received \<noteq> []) (OsError ''invalid command status packet'')) (\<lambda>_.
       completion_status (fst received)))"

section \<open>The loops\<close>

text \<open>A result comes with the number of system calls made up to it.\<close>

type_synonym 'a gate_run = "((io_error + 'a) \<times> nat) option"

fun gate_wait :: "nat \<Rightarrow> channel \<Rightarrow> nat \<Rightarrow> nat \<Rightarrow> unit gate_run" where
  "gate_wait 0 C deadline k = None"
| "gate_wait (Suc fuel) C deadline k =
     (case deadline_remaining ''execution gate deadline expired'' deadline (ch_clock C k) of
        Inl e \<Rightarrow> Some (Inl e, k + 1)
      | Inr timeout \<Rightarrow>
          (case ch_poll C k of
             PollNothing \<Rightarrow> gate_wait fuel C deadline (k + 1)
           | PollEvents interest \<Rightarrow>
               Some (if interest then Inr () else Inl (OsError ''execution gate peer lost''), k + 1)
           | PollErrno EINTR \<Rightarrow> gate_wait fuel C deadline (k + 1)
           | PollErrno EAGAIN \<Rightarrow> Some (Inl (OsError ''EAGAIN''), k + 1)
           | PollErrno (OtherErrno e) \<Rightarrow> Some (Inl (OsError e), k + 1)))"

text \<open>The common form of the loops: wait for the socket, then try, where \<open>None\<close> is \<open>continue\<close>.\<close>

fun until_settled ::
    "nat \<Rightarrow> (nat \<Rightarrow> nat \<Rightarrow> unit gate_run) \<Rightarrow> (nat \<Rightarrow> (io_error + 'a) option) \<Rightarrow> nat \<Rightarrow> 'a gate_run" where
  "until_settled 0 wait attempt k = None"
| "until_settled (Suc fuel) wait attempt k =
     (case wait (Suc fuel) k of
        None \<Rightarrow> None
      | Some (Inl e, k') \<Rightarrow> Some (Inl e, k')
      | Some (Inr u, k') \<Rightarrow>
          (case attempt k' of
             None \<Rightarrow> until_settled fuel wait attempt (k' + 1)
           | Some r \<Rightarrow> Some (r, k' + 1)))"

definition send_attempt :: "nat \<Rightarrow> string \<Rightarrow> errno + nat \<Rightarrow> (io_error + unit) option" where
  "send_attempt expected short answer =
     (case answer of
        Inr n \<Rightarrow> Some (if n = expected then Inr () else Inl (OsError short))
      | Inl EAGAIN \<Rightarrow> None
      | Inl EINTR \<Rightarrow> None
      | Inl (OtherErrno e) \<Rightarrow> Some (Inl (OsError e)))"

definition gate_send :: "nat \<Rightarrow> channel \<Rightarrow> nat \<Rightarrow> nat \<Rightarrow> unit gate_run" where
  "gate_send fuel C deadline k =
     until_settled fuel (\<lambda>f. gate_wait f C deadline) (\<lambda>k'. send_attempt 3 ''short execution gate packet'' (ch_send C k')) k"

definition receive_attempt ::
    "nat \<Rightarrow> (byte list \<times> nat list \<Rightarrow> io_error + 'a) \<Rightarrow> errno + datagram \<Rightarrow> (io_error + 'a) option" where
  "receive_attempt capacity check answer =
     (case receive_now capacity answer of
        Inl (ReceiveErrno EAGAIN) \<Rightarrow> None
      | Inl (ReceiveErrno EINTR) \<Rightarrow> None
      | Inl (ReceiveErrno (OtherErrno e)) \<Rightarrow> Some (Inl (OsError e))
      | Inl (ReceiveInvalid e) \<Rightarrow> Some (Inl (OsError e))
      | Inr received \<Rightarrow> Some (check received))"

definition gate_receive :: "nat \<Rightarrow> channel \<Rightarrow> byte \<Rightarrow> nat \<Rightarrow> nat \<Rightarrow> unit gate_run" where
  "gate_receive fuel C opcode deadline k =
     until_settled fuel (\<lambda>f. gate_wait f C deadline) (\<lambda>k'. receive_attempt 4 (check_gate opcode) (ch_recv C k')) k"

section \<open>The operations of the supervisor\<close>

definition wait_ready_until :: "nat \<Rightarrow> channel \<Rightarrow> nat \<Rightarrow> nat \<Rightarrow> unit gate_run" where
  "wait_ready_until fuel C deadline k = gate_receive fuel C 1 deadline k"

definition start_reporting_until :: "nat \<Rightarrow> channel \<Rightarrow> nat \<Rightarrow> nat \<Rightarrow> unit gate_run" where
  "start_reporting_until fuel C deadline k = gate_send fuel C deadline k"

definition completion_until :: "nat \<Rightarrow> channel \<Rightarrow> nat \<Rightarrow> nat \<Rightarrow> exit_status gate_run" where
  "completion_until fuel C deadline k =
     until_settled fuel (\<lambda>f. gate_wait f C deadline) (\<lambda>k'. receive_attempt 9 check_completion (ch_recv C k')) k"

section \<open>The operations of init\<close>

definition ready_for_reporting :: "nat \<Rightarrow> channel \<Rightarrow> nat \<Rightarrow> nat \<Rightarrow> unit gate_run" where
  "ready_for_reporting fuel C deadline k =
     (case gate_send fuel C deadline k of
        Some (Inr u, k') \<Rightarrow> gate_receive fuel C 2 deadline k'
      | r \<Rightarrow> r)"

fun report_loop :: "nat \<Rightarrow> channel \<Rightarrow> nat \<Rightarrow> unit gate_run" where
  "report_loop 0 C k = None"
| "report_loop (Suc fuel) C k =
     (case ch_send C k of
        Inr n \<Rightarrow> Some (if n = 8 then Inr () else Inl (OsError ''short command status packet''), k + 1)
      | Inl EINTR \<Rightarrow> report_loop fuel C (k + 1)
      | Inl EAGAIN \<Rightarrow> Some (Inl (OsError ''EAGAIN''), k + 1)
      | Inl (OtherErrno e) \<Rightarrow> Some (Inl (OsError e), k + 1))"

definition report_status :: "nat \<Rightarrow> channel \<Rightarrow> exit_status \<Rightarrow> nat \<Rightarrow> unit gate_run" where
  "report_status fuel C status k =
     (case completion_new status of
        Inl e \<Rightarrow> Some (Inl e, k)
      | Inr packet \<Rightarrow> report_loop fuel C k)"

section \<open>Statuses that a command can have\<close>

text \<open>A command ends with a code of 8 bits, or by one of 64 signals with or without a core dump.\<close>

definition terminal_status :: "exit_status \<Rightarrow> bool" where
  "terminal_status raw \<longleftrightarrow>
     (\<exists>code<256. raw = word_of_nat (code * 256)) \<or>
     (\<exists>signal. 1 \<le> signal \<and> signal \<le> 64 \<and> (raw = word_of_nat signal \<or> raw = word_of_nat (signal + 128)))"

lemma unat_word32: "n < 2 ^ 32 \<Longrightarrow> unat (word_of_nat n :: 32 word) = n"
  by (simp add: unat_of_nat)

lemma and_not_mask:
  fixes raw :: "32 word"
  assumes "raw AND NOT (push_bit s (mask 8)) = 0" "s + 8 \<le> 32"
  shows "\<exists>n<256. raw = word_of_nat (n * 2 ^ s)"
proof -
  define n where "n = unat (take_bit 8 (drop_bit s raw))"
  have "bit raw i \<longleftrightarrow> bit (push_bit s (take_bit 8 (drop_bit s raw))) i" if "i < 32" for i
  proof -
    have "bit raw i \<Longrightarrow> s \<le> i \<and> i < s + 8"
    proof (rule ccontr)
      assume *: "bit raw i" "\<not> (s \<le> i \<and> i < s + 8)"
      then have "bit (raw AND NOT (push_bit s (mask 8))) i"
        using that by (auto simp: bit_and_iff bit_not_iff bit_push_bit_iff bit_mask_iff)
      with assms(1) show False by simp
    qed
    then show ?thesis using that by (auto simp: bit_push_bit_iff bit_take_bit_iff bit_drop_bit_eq)
  qed
  then have "raw = push_bit s (take_bit 8 (drop_bit s raw))" by (intro bit_word_eqI) simp
  also have "\<dots> = word_of_nat (n * 2 ^ s)"
    by (simp add: n_def push_bit_eq_mult)
  finally have "raw = word_of_nat (n * 2 ^ s)" .
  moreover have "n = take_bit 8 (unat (drop_bit s raw))" by (simp only: n_def unsigned_take_bit_eq)
  then have "n < 256" using take_bit_nat_less_exp [of 8 "unat (drop_bit s raw)"] by simp
  ultimately show ?thesis by blast
qed


lemma small_word_bits:
  assumes "n < 256" "s + 8 \<le> 32"
  shows "(word_of_nat (n * 2 ^ s) :: 32 word) AND NOT (push_bit s (mask 8)) = 0"
proof -
  have "(word_of_nat (n * 2 ^ s) :: 32 word) = push_bit s (word_of_nat n)" by (simp add: push_bit_eq_mult)
  moreover have "\<not> bit (word_of_nat n :: 32 word) i" if "8 \<le> i" for i
  proof -
    have "n < 2 ^ i" using assms(1) power_increasing [OF that, of "2 :: nat"] by simp
    then have "\<not> bit n i" by (simp add: bit_iff_odd)
    then show ?thesis by (simp add: bit_of_nat_iff)
  qed
  ultimately show ?thesis
    by (intro bit_word_eqI) (auto simp: bit_and_iff bit_not_iff bit_push_bit_iff bit_mask_iff, meson not_le)
qed

lemma status_masks: "(0xff00 :: 32 word) = push_bit 8 (mask 8)" "(0xff :: 32 word) = push_bit 0 (mask 8)"
  "(0x7f :: 32 word) = mask 7"
  by (simp_all add: mask_eq_exp_minus_1 push_bit_eq_mult)

lemma low_bits:
  assumes "n < 256"
  shows "unat ((word_of_nat n :: 32 word) AND 0x7f) = n mod 128" "sint (word_of_nat n :: 32 word) = int n"
proof -
  have "unat ((word_of_nat n :: 32 word) AND mask 7) = take_bit 7 (unat (word_of_nat n :: 32 word))"
    by (simp add: take_bit_eq_mask [symmetric] unsigned_take_bit_eq)
  then show "unat ((word_of_nat n :: 32 word) AND 0x7f) = n mod 128"
    using assms by (simp add: status_masks(3) unat_word32 take_bit_eq_mod)
  show "sint (word_of_nat n :: 32 word) = int n"
    using assms by (simp add: signed_of_nat signed_take_bit_int_eq_self)
qed

lemma signal_bounds:
  assumes "n < 256"
  shows "(0 < sint (word_of_nat n :: 32 word) \<and> 1 \<le> (word_of_nat n :: 32 word) AND 0x7f \<and>
      (word_of_nat n :: 32 word) AND 0x7f \<le> 64) \<longleftrightarrow> 1 \<le> n mod 128 \<and> n mod 128 \<le> 64"
  using low_bits [OF assms] by (auto simp: word_le_nat_alt intro: gr0I)

lemma terminal_status_iff: "completion_validate raw = Inr () \<longleftrightarrow> terminal_status raw"
proof -
  have code: "raw AND NOT 0xff00 = 0 \<longleftrightarrow> (\<exists>code<256. raw = word_of_nat (code * 256))"
    using and_not_mask [of raw 8] small_word_bits [of _ 8] by (auto simp: status_masks(1))
  have low: "raw AND NOT 0xff = 0 \<longleftrightarrow> (\<exists>n<256. raw = word_of_nat n)"
    using and_not_mask [of raw 0] small_word_bits [of _ 0] by (auto simp: status_masks(2))
  have split: "1 \<le> n mod 128 \<and> n mod 128 \<le> 64 \<longleftrightarrow> (\<exists>signal. 1 \<le> signal \<and> signal \<le> 64 \<and> (n = signal \<or> n = signal + 128))"
    if "n < 256" for n :: nat
  proof
    assume "1 \<le> n mod 128 \<and> n mod 128 \<le> 64"
    moreover have "n = n mod 128 \<or> n = n mod 128 + 128" using that by (auto simp: mod_if)
    ultimately show "\<exists>signal. 1 \<le> signal \<and> signal \<le> 64 \<and> (n = signal \<or> n = signal + 128)" by blast
  qed auto
  have "0 < sint raw \<and> raw AND NOT 0xff = 0 \<and> 1 \<le> raw AND 0x7f \<and> raw AND 0x7f \<le> 64 \<longleftrightarrow>
      (\<exists>signal. 1 \<le> signal \<and> signal \<le> 64 \<and> (raw = word_of_nat signal \<or> raw = word_of_nat (signal + 128)))" (is "?l \<longleftrightarrow> ?r")
  proof
    assume l: ?l
    then obtain n where n: "n < 256" "raw = word_of_nat n" using low by blast
    with l have "1 \<le> n mod 128 \<and> n mod 128 \<le> 64" using signal_bounds [OF n(1)] by simp
    with split [OF n(1)] n(2) show ?r by blast
  next
    assume ?r
    then obtain n signal where n: "raw = word_of_nat n" "n = signal \<or> n = signal + 128" "1 \<le> signal" "signal \<le> 64" by blast
    then have "n < 256" "1 \<le> n mod 128 \<and> n mod 128 \<le> 64" by auto
    with n(1) low signal_bounds [of n] show ?l by auto
  qed
  with code show ?thesis by (simp add: completion_validate_def terminal_status_def)
qed

lemma completion_new_iff: "(\<exists>packet. completion_new raw = Inr packet) \<longleftrightarrow> terminal_status raw"
  using terminal_status_iff [of raw]
  by (cases "completion_validate raw") (auto simp: completion_new_def)

lemma completion_new_length: "completion_new raw = Inr packet \<Longrightarrow> length packet = 8"
  by (auto simp: completion_new_def completion_prefix_def bindE_Inr_iff)

text \<open>Reporting a status and reading it is exact in both directions.\<close>

lemma completion_read_back:
  assumes "completion_new raw = Inr packet"
  shows "completion_status packet = Inr raw"
proof -
  have "le_value (le_bytes 4 (unat raw)) = unat raw" using unsigned_less [where 'a = nat and w = raw] by simp
  then show ?thesis using assms
    by (auto simp: completion_new_def completion_status_def completion_prefix_def bindE_Inr_iff Let_def)
qed

lemma completion_status_packet:
  assumes "completion_status packet = Inr raw" "length packet = 8"
  shows "completion_new raw = Inr packet"
proof -
  from assms(1) have p: "take 4 packet = completion_prefix" "raw = word_of_nat (le_value (rev (drop 4 packet)))"
    "completion_validate raw = Inr ()"
    by (auto simp: completion_status_def Let_def bindE_Inr_iff)
  have len: "length (rev (drop 4 packet)) = 4" using assms(2) by simp
  have "le_value (rev (drop 4 packet)) < 2 ^ 32" using le_value_bound [of "rev (drop 4 packet)"] len by simp
  then have "unat raw = le_value (rev (drop 4 packet))" using p(2) by (simp add: unat_word32)
  then have "rev (le_bytes 4 (unat raw)) = drop 4 packet" using len by (simp add: le_bytes_value)
  then show ?thesis using p append_take_drop_id [of 4 packet] by (simp add: completion_new_def)
qed


section \<open>The loops return\<close>

lemma gate_wait_returns:
  "\<forall>i\<ge>n. deadline \<le> ch_clock C i \<Longrightarrow> n \<le> k + m \<Longrightarrow> gate_wait (Suc m) C deadline k \<noteq> None"
proof (induction m arbitrary: k)
  case 0
  then show ?case by (simp add: deadline_remaining_def)
next
  case (Suc m)
  from Suc.IH [of "k + 1"] Suc.prems have "gate_wait (Suc m) C deadline (k + 1) \<noteq> None" by simp
  then show ?case
    by (auto simp del: gate_wait.simps simp add: gate_wait.simps(2) [of "Suc m"]
        split: sum.splits poll_answer.splits errno.splits)
qed

lemma gate_wait_calls: "gate_wait fuel C deadline k = Some (r, k') \<Longrightarrow> k < k'"
  by (induction fuel arbitrary: k)
    (force split: sum.splits poll_answer.splits errno.splits if_splits)+

text \<open>A result was one attempt, made after a poll that reported the socket before the deadline.\<close>

lemma gate_wait_before:
  "gate_wait fuel C deadline k = Some (Inr u, k') \<Longrightarrow> \<exists>i. k \<le> i \<and> k' = i + 1 \<and> ch_clock C i < deadline"
  by (induction fuel arbitrary: k)
    (force simp: deadline_remaining_def bindE_Inr_iff split: sum.splits poll_answer.splits errno.splits if_splits)+

text \<open>What the loops need of the way they wait.\<close>

locale bounded_wait =
  fixes C :: channel and deadline :: nat and wait :: "nat \<Rightarrow> nat \<Rightarrow> unit gate_run"
  assumes returns: "\<forall>i\<ge>n. deadline \<le> ch_clock C i \<Longrightarrow> n \<le> k + m \<Longrightarrow> wait (Suc m) k \<noteq> None"
    and calls: "wait fuel k = Some (r, k') \<Longrightarrow> k < k'"
    and before: "wait fuel k = Some (Inr u, k') \<Longrightarrow> \<exists>i. k \<le> i \<and> k' = i + 1 \<and> ch_clock C i < deadline"
begin

lemma settled_returns:
  "\<forall>i\<ge>n. deadline \<le> ch_clock C i \<Longrightarrow> n \<le> k + m \<Longrightarrow> until_settled (Suc m) wait attempt k \<noteq> None"
proof (induction m arbitrary: k)
  case 0
  have no: "\<not> (\<exists>u k'. wait (Suc 0) k = Some (Inr u, k'))"
  proof
    assume "\<exists>u k'. wait (Suc 0) k = Some (Inr u, k')"
    then obtain i where "k \<le> i" "ch_clock C i < deadline" using before by blast
    with 0 show False by (metis add.right_neutral leD le_trans)
  qed
  with returns [OF 0] show ?case by (auto split: sum.splits)
next
  case (Suc m)
  obtain r k' where w: "wait (Suc (Suc m)) k = Some (r, k')" using returns [OF Suc.prems] by auto
  then have "n \<le> k' + 1 + m" using calls [OF w] Suc.prems(2) by simp
  from Suc.IH [OF Suc.prems(1) this] w show ?case by (auto split: sum.splits option.splits)
qed

lemma settled_attempt:
  "until_settled fuel wait attempt k = Some (Inr v, k') \<Longrightarrow>
     \<exists>i. k \<le> i \<and> k' = i + 2 \<and> ch_clock C i < deadline \<and> attempt (i + 1) = Some (Inr v)"
proof (induction fuel arbitrary: k)
  case (Suc fuel)
  from Suc.prems obtain u j where w: "wait (Suc fuel) k = Some (Inr u, j)"
    by (auto split: option.splits sum.splits)
  from before [OF w] obtain i where i: "k \<le> i" "j = i + 1" "ch_clock C i < deadline" by blast
  show ?case
  proof (cases "attempt j")
    case None
    with Suc.prems w have "until_settled fuel wait attempt (j + 1) = Some (Inr v, k')" by simp
    from Suc.IH [OF this] i show ?thesis by force
  next
    case (Some r)
    with Suc.prems w have "r = Inr v" "k' = j + 1" by auto
    with Some i show ?thesis by auto
  qed
qed simp

end

interpretation gate: bounded_wait C deadline "\<lambda>f. gate_wait f C deadline" for C deadline
proof unfold_locales
  show "gate_wait (Suc m) C deadline k \<noteq> None" if "\<forall>i\<ge>n. deadline \<le> ch_clock C i" "n \<le> k + m" for n k m
    using gate_wait_returns [OF that] .
qed (auto dest: gate_wait_calls gate_wait_before)

lemma receive_attempt_accepts:
  "receive_attempt capacity check answer = Some (Inr v) \<longleftrightarrow>
     (\<exists>d. answer = Inr d \<and> \<not> dg_other_ancillary d \<and> \<not> dg_control_truncated d \<and>
        length (dg_bytes d) \<le> capacity \<and> check (dg_bytes d, dg_descriptors d) = Inr v)"
  by (auto simp: receive_attempt_def receive_now_def bindE_def failIf_def
      split: sum.splits receive_error.splits errno.splits if_splits)

section \<open>Both sides\<close>

datatype supervisor = Waiting | Ready | Started | Finished exit_status | Lost
datatype resident = Preparing | Announced | Reporting | Reported exit_status | Gone

datatype gate_event =
    ReadySent | ReadyReceived | StartSent | StartReceived
  | StatusSent exit_status | StatusReceived exit_status

record gate_pair =
  gp_supervisor :: supervisor
  gp_resident :: resident
  gp_up :: "datagram list"
  gp_down :: "datagram list"
  gp_history :: "gate_event list"

definition gate_initial :: gate_pair where
  "gate_initial = \<lparr>gp_supervisor = Waiting, gp_resident = Preparing, gp_up = [], gp_down = [], gp_history = []\<rparr>"

definition plain :: "byte list \<Rightarrow> datagram" where
  "plain bytes = \<lparr>dg_bytes = bytes, dg_descriptors = [], dg_other_ancillary = False, dg_control_truncated = False\<rparr>"

inductive gate_step :: "gate_pair \<Rightarrow> gate_pair \<Rightarrow> bool" where
  announce: "gp_resident s = Preparing \<Longrightarrow>
     gate_step s (s\<lparr>gp_resident := Announced, gp_up := gp_up s @ [plain (gate_bytes 1)],
       gp_history := gp_history s @ [ReadySent]\<rparr>)"
| readied: "gp_supervisor s = Waiting \<Longrightarrow> gp_up s = d # rest \<Longrightarrow>
     receive_attempt 4 (check_gate 1) (Inr d) = Some (Inr ()) \<Longrightarrow>
     gate_step s (s\<lparr>gp_supervisor := Ready, gp_up := rest, gp_history := gp_history s @ [ReadyReceived]\<rparr>)"
| start: "gp_supervisor s = Ready \<Longrightarrow>
     gate_step s (s\<lparr>gp_supervisor := Started, gp_down := gp_down s @ [plain (gate_bytes 2)],
       gp_history := gp_history s @ [StartSent]\<rparr>)"
| released: "gp_resident s = Announced \<Longrightarrow> gp_down s = d # rest \<Longrightarrow>
     receive_attempt 4 (check_gate 2) (Inr d) = Some (Inr ()) \<Longrightarrow>
     gate_step s (s\<lparr>gp_resident := Reporting, gp_down := rest, gp_history := gp_history s @ [StartReceived]\<rparr>)"
| report: "gp_resident s = Reporting \<Longrightarrow> completion_new raw = Inr packet \<Longrightarrow>
     gate_step s (s\<lparr>gp_resident := Reported raw, gp_up := gp_up s @ [plain packet],
       gp_history := gp_history s @ [StatusSent raw]\<rparr>)"
| completed: "gp_supervisor s = Started \<Longrightarrow> gp_up s = d # rest \<Longrightarrow>
     receive_attempt 9 check_completion (Inr d) = Some (Inr raw) \<Longrightarrow>
     gate_step s (s\<lparr>gp_supervisor := Finished raw, gp_up := rest, gp_history := gp_history s @ [StatusReceived raw]\<rparr>)"
| lose: "gate_step s (s\<lparr>gp_supervisor := Lost\<rparr>)"
| leave: "gate_step s (s\<lparr>gp_resident := Gone\<rparr>)"

inductive gate_reachable :: "gate_pair \<Rightarrow> bool" where
  initial: "gate_reachable gate_initial"
| step: "gate_reachable s \<Longrightarrow> gate_step s t \<Longrightarrow> gate_reachable t"

definition gate_story :: "exit_status \<Rightarrow> gate_event list" where
  "gate_story raw = [ReadySent, ReadyReceived, StartSent, StartReceived, StatusSent raw, StatusReceived raw]"

text \<open>After \<open>n\<close> events each side is in its \<open>n\<close>-th phase unless it is gone, and a packet is in
flight exactly between the event that sends it and the one that receives it.\<close>

definition gate_phase :: "exit_status \<Rightarrow> nat \<Rightarrow> gate_pair \<Rightarrow> bool" where
  "gate_phase raw n s \<longleftrightarrow>
     n \<le> 6 \<and> (5 \<le> n \<longrightarrow> terminal_status raw) \<and> gp_history s = take n (gate_story raw) \<and>
     gp_supervisor s \<in> {Lost, if n < 2 then Waiting else if n < 3 then Ready else if n < 6 then Started else Finished raw} \<and>
     gp_resident s \<in> {Gone, if n < 1 then Preparing else if n < 4 then Announced else if n < 5 then Reporting else Reported raw} \<and>
     gp_up s = (if n = 1 then [plain (gate_bytes 1)]
       else if n = 5 then [plain (completion_prefix @ rev (le_bytes 4 (unat raw)))] else []) \<and>
     gp_down s = (if n = 3 then [plain (gate_bytes 2)] else [])"

lemma gate_phase_cases:
  assumes "gate_phase raw n s"
  obtains "n = 0" | "n = 1" | "n = 2" | "n = 3" | "n = 4" | "n = 5" | "n = 6"
  using assms unfolding gate_phase_def by linarith

lemma check_completion_packet:
  assumes "receive_attempt 9 check_completion (Inr (plain (completion_prefix @ rev (le_bytes 4 (unat raw))))) = Some (Inr raw')"
  shows "raw' = raw"
proof -
  from assms have "completion_status (completion_prefix @ rev (le_bytes 4 (unat raw))) = Inr raw'"
    by (auto simp: receive_attempt_accepts plain_def check_completion_def bindE_Inr_iff)
  moreover have "le_value (le_bytes 4 (unat raw)) = unat raw"
    using unsigned_less [where 'a = nat and w = raw] by simp
  ultimately show ?thesis by (auto simp: completion_status_def completion_prefix_def Let_def bindE_Inr_iff)
qed

lemma completion_new_packet:
  "completion_new raw = Inr packet \<longleftrightarrow> terminal_status raw \<and> packet = completion_prefix @ rev (le_bytes 4 (unat raw))"
  using terminal_status_iff [of raw] by (auto simp: completion_new_def bindE_Inr_iff)

lemma gate_phase_step:
  assumes "gate_phase raw n s" "gate_step s t"
  shows "\<exists>raw n. gate_phase raw n t"
  using assms(2)
proof cases
  case announce
  have "gate_phase raw 1 t"
    by (rule gate_phase_cases [OF assms(1)]) (use assms(1) announce in \<open>auto simp: gate_phase_def gate_story_def\<close>)
  then show ?thesis by blast
next
  case (readied d rest)
  have "gate_phase raw 2 t"
    by (rule gate_phase_cases [OF assms(1)]) (use assms(1) readied in \<open>auto simp: gate_phase_def gate_story_def\<close>)
  then show ?thesis by blast
next
  case start
  have "gate_phase raw 3 t"
    by (rule gate_phase_cases [OF assms(1)]) (use assms(1) start in \<open>auto simp: gate_phase_def gate_story_def\<close>)
  then show ?thesis by blast
next
  case (released d rest)
  have "gate_phase raw 4 t"
    by (rule gate_phase_cases [OF assms(1)]) (use assms(1) released in \<open>auto simp: gate_phase_def gate_story_def\<close>)
  then show ?thesis by blast
next
  case (report raw' packet)
  have "gate_phase raw' 5 t"
    by (rule gate_phase_cases [OF assms(1)]) (use assms(1) report in \<open>auto simp: gate_phase_def gate_story_def completion_new_packet\<close>)
  then show ?thesis by blast
next
  case (completed d rest raw')
  have "n = 5"
    by (rule gate_phase_cases [OF assms(1)]) (use assms(1) completed in \<open>auto simp: gate_phase_def\<close>)
  with assms(1) completed have "d = plain (completion_prefix @ rev (le_bytes 4 (unat raw)))" by (simp add: gate_phase_def)
  with completed(4) have "raw' = raw" using check_completion_packet by blast
  with assms(1) completed \<open>n = 5\<close> have "gate_phase raw 6 t" by (auto simp: gate_phase_def gate_story_def)
  then show ?thesis by blast
next
  case lose
  with assms(1) have "gate_phase raw n t" by (auto simp: gate_phase_def)
  then show ?thesis by blast
next
  case leave
  with assms(1) have "gate_phase raw n t" by (auto simp: gate_phase_def)
  then show ?thesis by blast
qed

lemma reachable_phase: "gate_reachable s \<Longrightarrow> \<exists>raw n. gate_phase raw n s"
proof (induction rule: gate_reachable.induct)
  case initial
  have "gate_phase 0 0 gate_initial" by (simp add: gate_phase_def gate_initial_def)
  then show ?case by blast
qed (use gate_phase_step in blast)


section \<open>Properties\<close>


definition example_gate :: gate_pair where
  "example_gate =
     \<lparr>gp_supervisor = Started, gp_resident = Reporting, gp_up = [], gp_down = [],
      gp_history = [ReadySent, ReadyReceived, StartSent, StartReceived]\<rparr>"

lemma example_gate_reachable: "gate_reachable example_gate"
proof -
  note updates = gate_initial_def example_gate_def
  have accepts: "receive_attempt 4 (check_gate c) (Inr (plain (gate_bytes c))) = Some (Inr ())" for c
    by (simp add: receive_attempt_accepts plain_def gate_bytes_def check_gate_def failIf_def)
  have "gate_reachable (gate_initial\<lparr>gp_resident := Announced, gp_up := [plain (gate_bytes 1)], gp_history := [ReadySent]\<rparr>)" (is "gate_reachable ?a")
    using gate_reachable.step [OF gate_reachable.initial gate_step.announce [of gate_initial]] by (simp add: updates)
  from gate_reachable.step [OF this gate_step.readied [of ?a _ "[]"]]
  have "gate_reachable (?a\<lparr>gp_supervisor := Ready, gp_up := [], gp_history := [ReadySent, ReadyReceived]\<rparr>)" (is "gate_reachable ?b")
    by (simp add: updates accepts)
  from gate_reachable.step [OF this gate_step.start [of ?b]]
  have "gate_reachable (?b\<lparr>gp_supervisor := Started, gp_down := [plain (gate_bytes 2)],
      gp_history := [ReadySent, ReadyReceived, StartSent]\<rparr>)" (is "gate_reachable ?c")
    by (simp add: updates)
  from gate_reachable.step [OF this gate_step.released [of ?c _ "[]"]] show ?thesis by (simp add: updates accepts)
qed


text \<open>Every waiting operation of the gate returns once the clock has passed its deadline,
whatever the kernel answers.\<close>

theorem gate_operations_return:
  assumes "\<forall>i\<ge>n. deadline \<le> ch_clock C i"
  shows "\<exists>fuel. wait_ready_until fuel C deadline k \<noteq> None \<and> start_reporting_until fuel C deadline k \<noteq> None \<and>
    completion_until fuel C deadline k \<noteq> None"
proof (intro exI conjI)
  note returns = gate.settled_returns [OF assms, of k "n - k"]
  show "wait_ready_until (Suc (n - k)) C deadline k \<noteq> None" "start_reporting_until (Suc (n - k)) C deadline k \<noteq> None"
    "completion_until (Suc (n - k)) C deadline k \<noteq> None"
    unfolding wait_ready_until_def start_reporting_until_def completion_until_def gate_receive_def gate_send_def
    by (rule returns; simp)+
qed

definition silent_channel :: channel where
  "silent_channel =
     \<lparr>ch_clock = id, ch_poll = (\<lambda>_. PollNothing), ch_send = (\<lambda>_. Inl EAGAIN), ch_recv = (\<lambda>_. Inl EAGAIN)\<rparr>"

lemma gate_operations_return_witness: "\<exists>fuel. completion_until fuel silent_channel 5 0 \<noteq> None"
  using gate_operations_return [of 5 5 silent_channel 0] by (auto simp: silent_channel_def)

text \<open>A status is reported exactly when it is a code of eight bits or one of 64 signals, and
the packets that are accepted are exactly the packets of those statuses.\<close>

theorem status_packet_exact:
  "((\<exists>packet. completion_new raw = Inr packet) \<longleftrightarrow> terminal_status raw) \<and>
   (completion_new raw = Inr packet \<longleftrightarrow> length packet = 8 \<and> completion_status packet = Inr raw)"
  using completion_new_iff completion_read_back completion_status_packet completion_new_length by blast

end
