(* ===== verification/Step_Execution.thy ===== *)
theory Step_Execution
  imports Isolation_Gate
begin

text \<open>
  The protected lifetime of one command: \<open>step/setup.rs\<close>, \<open>step/execution.rs\<close>,
  \<open>step/outcome.rs\<close>, \<open>step/teardown.rs\<close>, \<open>step/finalize.rs\<close> and \<open>step/storage.rs\<close>, with
  the last phase of the helper (\<open>domain/helper.rs\<close>), the unmounting of volumes
  (\<open>storage/volume/mod.rs\<close>) and of the two volumes of a bootstrap (\<open>storage/bootstrap.rs\<close>).

  An operation runs on a \<open>host\<close>: the number of calls made so far and the list of the effects
  that were requested, each with whether it succeeded.  What a call answers is a function of
  that number and of the effect, and the clock and the gate's socket are those of the gate's
  channel.  \<open>None\<close> means that the fuel of a waiting loop ran out.  Values that the code
  forgets on purpose are released by nothing, so forgetting is no effect.
\<close>

section \<open>Effects and operations\<close>

datatype volume_name = StageVolume | ToolVolume | OutputVolume

datatype effect =
    VerifyScope | OpenView volume_name | PrepareMountpoint | SendVolume
  | PairGate | SendGate | WaitReady | SendStart | ReceiveStatus
  | AcknowledgeCleanup exit_status | CloseChannel | CancelDomain | ReapHelper | DrainChildren
  | ReleaseNamespace | CloseNetwork
  | CloseStageMounts volume_name | SyncVolume volume_name | Unmount volume_name | RemovePoint volume_name
  | ValidateSnapshot volume_name

record world =
  wd_channel :: channel
  wd_answer :: "nat \<Rightarrow> effect \<Rightarrow> io_error + unit"
  wd_helper_status :: "nat \<Rightarrow> exit_status"

record host =
  ho_calls :: nat
  ho_trace :: "(effect \<times> bool) list"

type_synonym 'a step_op = "host \<Rightarrow> ((io_error + 'a) \<times> host) option"

definition step_return :: "'a \<Rightarrow> 'a step_op" where
  "step_return a s = Some (Inr a, s)"

definition step_fail :: "io_error \<Rightarrow> 'a step_op" where
  "step_fail e s = Some (Inl e, s)"

definition then_result :: "'a step_op \<Rightarrow> (io_error + 'a \<Rightarrow> host \<Rightarrow> 'b option) \<Rightarrow> host \<Rightarrow> 'b option" where
  "then_result m f s = (case m s of None \<Rightarrow> None | Some (r, s') \<Rightarrow> f r s')"

definition step_bind :: "'a step_op \<Rightarrow> ('a \<Rightarrow> 'b step_op) \<Rightarrow> 'b step_op" where
  "step_bind m f = then_result m (\<lambda>r. case r of Inl e \<Rightarrow> step_fail e | Inr a \<Rightarrow> f a)"

definition perform :: "world \<Rightarrow> effect \<Rightarrow> unit step_op" where
  "perform W e s =
     (let r = wd_answer W (ho_calls s) e in
      Some (r, s\<lparr>ho_calls := ho_calls s + 1, ho_trace := ho_trace s @ [(e, isOk r)]\<rparr>))"

text \<open>An effect that cannot fail.\<close>

definition release :: "effect \<Rightarrow> unit step_op" where
  "release e s = Some (Inr (), s\<lparr>ho_trace := ho_trace s @ [(e, True)]\<rparr>)"

definition clock_now :: "world \<Rightarrow> host \<Rightarrow> nat \<times> host" where
  "clock_now W s = (ch_clock (wd_channel W) (ho_calls s), s\<lparr>ho_calls := ho_calls s + 1\<rparr>)"

definition instant_now :: "world \<Rightarrow> nat step_op" where
  "instant_now W s = (let (now, s') = clock_now W s in Some (Inr now, s'))"

definition gate_op :: "effect \<Rightarrow> (nat \<Rightarrow> 'a gate_run) \<Rightarrow> 'a step_op" where
  "gate_op e run s =
     map_option (\<lambda>(r, k). (r, s\<lparr>ho_calls := k, ho_trace := ho_trace s @ [(e, isOk r)]\<rparr>)) (run (ho_calls s))"

definition check_deadline :: "world \<Rightarrow> string \<Rightarrow> nat \<Rightarrow> unit step_op" where
  "check_deadline W expired deadline =
     step_bind (instant_now W) (\<lambda>now. if deadline \<le> now then step_fail (OsError expired) else step_return ())"

definition seconds :: "nat \<Rightarrow> nat" where
  "seconds n = n * 10 ^ 9"

text \<open>\<open>checked_add\<close> of an instant, whose seconds have 63 bits.\<close>

definition instant_checked_add :: "nat \<Rightarrow> nat \<Rightarrow> nat option" where
  "instant_checked_add now d = (if (now + d) div 10 ^ 9 < 2 ^ 63 then Some (now + d) else None)"

section \<open>Storage of a command\<close>

record command_storage =
  cs_send :: "unit step_op"
  cs_unmount_until :: "nat \<Rightarrow> unit step_op"
  cs_validate :: "unit step_op"

definition volume_view :: "world \<Rightarrow> volume_name \<Rightarrow> unit step_op" where
  "volume_view W v = step_bind (perform W VerifyScope) (\<lambda>_. perform W (OpenView v))"

definition mount_lease_close :: "world \<Rightarrow> volume_name \<Rightarrow> unit step_op" where
  "mount_lease_close W v =
     step_bind (perform W VerifyScope) (\<lambda>_.
     step_bind (perform W (SyncVolume v)) (\<lambda>_.
     step_bind (perform W VerifyScope) (\<lambda>_.
     step_bind (perform W (Unmount v)) (\<lambda>_.
       perform W (RemovePoint v)))))"

definition volume_unmount :: "world \<Rightarrow> volume_name \<Rightarrow> unit step_op" where
  "volume_unmount W v = step_bind (perform W (CloseStageMounts v)) (\<lambda>_. mount_lease_close W v)"

definition volume_unmount_until :: "world \<Rightarrow> volume_name \<Rightarrow> nat \<Rightarrow> unit step_op" where
  "volume_unmount_until W v deadline =
     step_bind (check_deadline W ''fixed step teardown deadline expired'' deadline) (\<lambda>_.
     step_bind (volume_unmount W v) (\<lambda>_.
       check_deadline W ''fixed step teardown deadline expired'' deadline))"

definition bootstrap_unmount_until :: "world \<Rightarrow> nat \<Rightarrow> unit step_op" where
  "bootstrap_unmount_until W deadline =
     step_bind (check_deadline W ''bootstrap unmount deadline expired'' deadline) (\<lambda>_.
     step_bind (volume_unmount W OutputVolume) (\<lambda>_.
     step_bind (check_deadline W ''bootstrap unmount deadline expired'' deadline) (\<lambda>_.
     step_bind (volume_unmount W ToolVolume) (\<lambda>_.
       check_deadline W ''bootstrap unmount deadline expired'' deadline))))"

definition volume_send :: "world \<Rightarrow> bool \<Rightarrow> unit step_op" where
  "volume_send W network =
     step_bind (volume_view W StageVolume) (\<lambda>_.
       if network then step_bind (volume_view W StageVolume) (\<lambda>_. perform W SendVolume)
       else perform W SendVolume)"

definition prepare_output_mountpoint :: "world \<Rightarrow> unit step_op" where
  "prepare_output_mountpoint W = step_bind (perform W VerifyScope) (\<lambda>_. perform W PrepareMountpoint)"

definition bootstrap_send :: "world \<Rightarrow> bool \<Rightarrow> unit step_op" where
  "bootstrap_send W network =
     step_bind (prepare_output_mountpoint W) (\<lambda>_.
     step_bind (volume_view W ToolVolume) (\<lambda>_.
     step_bind (volume_view W OutputVolume) (\<lambda>_.
       if network then step_bind (volume_view W ToolVolume) (\<lambda>_. perform W SendVolume)
       else perform W SendVolume)))"

definition volume_storage :: "world \<Rightarrow> bool \<Rightarrow> command_storage" where
  "volume_storage W network =
     \<lparr>cs_send = volume_send W network, cs_unmount_until = volume_unmount_until W StageVolume,
      cs_validate = perform W (ValidateSnapshot StageVolume)\<rparr>"

definition bootstrap_storage :: "world \<Rightarrow> bool \<Rightarrow> command_storage" where
  "bootstrap_storage W network =
     \<lparr>cs_send = bootstrap_send W network, cs_unmount_until = bootstrap_unmount_until W,
      cs_validate = step_bind (perform W (ValidateSnapshot ToolVolume)) (\<lambda>_. perform W (ValidateSnapshot OutputVolume))\<rparr>"

section \<open>Setup and start\<close>

definition setup_check :: "world \<Rightarrow> nat \<Rightarrow> unit step_op" where
  "setup_check W budget = check_deadline W ''fixed step setup deadline expired'' budget"

definition setup_begin :: "world \<Rightarrow> nat step_op" where
  "setup_begin W = step_bind (instant_now W) (\<lambda>now. step_return (now + seconds 30))"

definition await_prepared :: "world \<Rightarrow> nat \<Rightarrow> nat \<Rightarrow> unit step_op" where
  "await_prepared W fuel budget =
     step_bind (setup_check W budget) (\<lambda>_.
     step_bind (perform W PairGate) (\<lambda>_.
     step_bind (perform W SendGate) (\<lambda>_.
     step_bind (gate_op WaitReady (wait_ready_until fuel (wd_channel W) budget)) (\<lambda>_.
       setup_check W budget))))"

text \<open>The deadline of the command, or why it was not started in time.\<close>

definition prepared_start :: "world \<Rightarrow> nat \<Rightarrow> nat \<Rightarrow> nat \<Rightarrow> nat step_op" where
  "prepared_start W fuel budget timeout =
     step_bind (setup_check W budget) (\<lambda>_.
     step_bind (instant_now W) (\<lambda>now.
       case instant_checked_add now timeout of
         None \<Rightarrow> step_fail (OsError ''command deadline overflows'')
       | Some deadline \<Rightarrow>
           step_bind (gate_op SendStart (start_reporting_until fuel (wd_channel W) (min budget deadline))) (\<lambda>_.
           step_bind (instant_now W) (\<lambda>now.
             if min budget deadline \<le> now then step_fail (OsError ''command start deadline expired'')
             else step_return deadline))))"

section \<open>Observation\<close>

datatype command_outcome = Exited exit_status | ObservationFailed io_error

definition command_success :: "command_outcome \<Rightarrow> bool" where
  "command_success outcome = (case outcome of Exited status \<Rightarrow> status_success status | ObservationFailed e \<Rightarrow> False)"

definition observe :: "world \<Rightarrow> nat \<Rightarrow> nat \<Rightarrow> host \<Rightarrow> ((command_outcome \<times> nat) \<times> host) option" where
  "observe W fuel deadline s =
     (case gate_op ReceiveStatus (completion_until fuel (wd_channel W) deadline) s of
        None \<Rightarrow> None
      | Some (r, s1) \<Rightarrow>
          let (outcome, s2) =
                (case r of
                   Inr status \<Rightarrow>
                     let (now, s2) = clock_now W s1 in
                     (if deadline \<le> now
                      then ObservationFailed (OsError ''command completion observed after execution deadline'')
                      else Exited status, s2)
                 | Inl e \<Rightarrow> (ObservationFailed e, s1));
              (now, s3) = clock_now W s2
          in Some ((outcome, now + seconds 30), s3))"

section \<open>Teardown\<close>

definition helper_finish :: "world \<Rightarrow> exit_status step_op" where
  "helper_finish W =
     step_bind (release CloseChannel) (\<lambda>_.
     step_bind (perform W CancelDomain) (\<lambda>_.
     step_bind (perform W ReapHelper) (\<lambda>_.
     step_bind (\<lambda>s. Some (Inr (wd_helper_status W (ho_calls s)), s)) (\<lambda>status.
     step_bind (perform W DrainChildren) (\<lambda>_.
       step_return status)))))"

definition teardown_until :: "world \<Rightarrow> bool \<Rightarrow> nat \<Rightarrow> exit_status step_op" where
  "teardown_until W network deadline =
     step_bind (helper_finish W) (\<lambda>status.
     step_bind (check_deadline W ''fixed step teardown deadline expired'' deadline) (\<lambda>_.
     step_bind (release ReleaseNamespace) (\<lambda>_.
     step_bind (if network then perform W CloseNetwork else step_return ()) (\<lambda>_.
       step_return status))))"

text \<open>A teardown, with the deadline that the finalization shares.\<close>

definition teardown :: "world \<Rightarrow> bool \<Rightarrow> (exit_status \<times> nat) step_op" where
  "teardown W network =
     step_bind (instant_now W) (\<lambda>now.
     step_bind (teardown_until W network (now + seconds 30)) (\<lambda>status.
       step_return (status, now + seconds 30)))"

definition teardown_after_command :: "world \<Rightarrow> bool \<Rightarrow> nat \<Rightarrow> exit_status \<Rightarrow> exit_status step_op" where
  "teardown_after_command W network deadline status =
     then_result (perform W (AcknowledgeCleanup status)) (\<lambda>acknowledged.
     then_result (teardown_until W network deadline) (\<lambda>cleaned.
       case acknowledged of
         Inr u \<Rightarrow> (\<lambda>s. Some (cleaned, s))
       | Inl e \<Rightarrow> step_fail e))"

definition observed_teardown :: "world \<Rightarrow> bool \<Rightarrow> command_outcome \<times> nat \<Rightarrow> (exit_status \<times> nat) step_op" where
  "observed_teardown W network observed =
     step_bind
       (case fst observed of
          Exited status \<Rightarrow> teardown_after_command W network (snd observed) status
        | ObservationFailed e \<Rightarrow> teardown_until W network (snd observed)) (\<lambda>status.
       step_return (status, snd observed))"

definition finalize_unmount :: "world \<Rightarrow> command_storage \<Rightarrow> exit_status \<times> nat \<Rightarrow> exit_status step_op" where
  "finalize_unmount W R completion =
     step_bind (check_deadline W ''fixed step teardown deadline expired'' (snd completion)) (\<lambda>_.
     step_bind (cs_unmount_until R (snd completion)) (\<lambda>_.
     step_bind (cs_validate R) (\<lambda>_.
     step_bind (check_deadline W ''fixed step teardown deadline expired'' (snd completion)) (\<lambda>_.
       step_return (fst completion)))))"

section \<open>Execution\<close>

datatype execution_outcome = SetupFailed io_error | Commanded command_outcome

definition execution_success :: "execution_outcome \<Rightarrow> bool" where
  "execution_success outcome = (case outcome of SetupFailed e \<Rightarrow> False | Commanded c \<Rightarrow> command_success c)"

datatype rejection = CleanupComplete execution_outcome | CleanupFailed io_error execution_outcome

definition after_teardown ::
    "world \<Rightarrow> command_storage \<Rightarrow> execution_outcome \<Rightarrow> io_error + exit_status \<times> nat \<Rightarrow> host \<Rightarrow> ((rejection + unit) \<times> host) option" where
  "after_teardown W R outcome cleanup =
     then_result (case cleanup of Inl e \<Rightarrow> step_fail e | Inr completion \<Rightarrow> finalize_unmount W R completion) (\<lambda>finalized s.
       Some (case finalized of
           Inl e \<Rightarrow> Inl (CleanupFailed e outcome)
         | Inr status \<Rightarrow> if execution_success outcome then Inr () else Inl (CleanupComplete outcome), s))"

definition reject_setup ::
    "world \<Rightarrow> command_storage \<Rightarrow> bool \<Rightarrow> io_error \<Rightarrow> host \<Rightarrow> ((rejection + unit) \<times> host) option" where
  "reject_setup W R network e = then_result (teardown W network) (after_teardown W R (SetupFailed e))"

definition step_execute ::
    "world \<Rightarrow> command_storage \<Rightarrow> nat \<Rightarrow> bool \<Rightarrow> nat \<Rightarrow> nat \<Rightarrow> host \<Rightarrow> ((rejection + unit) \<times> host) option" where
  "step_execute W R fuel network budget timeout =
     then_result (step_bind (setup_check W budget) (\<lambda>_. cs_send R)) (\<lambda>sent.
     case sent of Inl e \<Rightarrow> reject_setup W R network e | Inr _ \<Rightarrow>
     then_result (await_prepared W fuel budget) (\<lambda>prepared.
     case prepared of Inl e \<Rightarrow> reject_setup W R network e | Inr _ \<Rightarrow>
     then_result (prepared_start W fuel budget timeout) (\<lambda>started.
     case started of Inl e \<Rightarrow> reject_setup W R network e | Inr deadline \<Rightarrow>
     (\<lambda>s. case observe W fuel deadline s of None \<Rightarrow> None | Some (observed, s') \<Rightarrow>
       then_result (observed_teardown W network observed) (after_teardown W R (Commanded (fst observed))) s'))))"


section \<open>What was attempted\<close>

text \<open>A list of requested effects is an attempt at a story when all of them succeeded, in the order
of the story, except that the last one may have failed.\<close>

definition succeeded :: "effect list \<Rightarrow> (effect \<times> bool) list" where
  "succeeded es = map (\<lambda>e. (e, True)) es"

fun attempted :: "effect list \<Rightarrow> (effect \<times> bool) list \<Rightarrow> bool" where
  "attempted story [] \<longleftrightarrow> True"
| "attempted [] (x # t) \<longleftrightarrow> False"
| "attempted (e # story) ((f, ok) # t) \<longleftrightarrow> f = e \<and> (if ok then attempted story t else t = [])"

lemma succeeded_simps [simp]:
  "succeeded [] = []" "succeeded (e # es) = (e, True) # succeeded es" "succeeded (es @ fs) = succeeded es @ succeeded fs"
  "length (succeeded es) = length es" "(e, False) \<notin> set (succeeded es)" "(e, True) \<in> set (succeeded es) \<longleftrightarrow> e \<in> set es"
  by (auto simp: succeeded_def)

lemma attempted_Nil [simp]: "attempted [] t \<longleftrightarrow> t = []"
  by (cases t) auto

lemma attempted_all: "attempted story (succeeded story)"
  by (induction story) auto

lemma attempted_Cons:
  "attempted (e # story) t \<longleftrightarrow> t = [] \<or> t = [(e, False)] \<or> (\<exists>t'. t = (e, True) # t' \<and> attempted story t')"
  by (cases "(e # story, t)" rule: attempted.cases) (auto split: if_splits)

lemma attempted_more: "attempted a t \<Longrightarrow> attempted (a @ b) t"
  by (induction a arbitrary: t) (auto simp: attempted_Cons)

lemma attempted_append: "attempted b t \<Longrightarrow> attempted (a @ b) (succeeded a @ t)"
  by (induction a) (auto simp: attempted_Cons)

text \<open>In an attempt, an effect that was requested comes after everything before it in the story.\<close>

lemma attempted_before:
  "attempted (a @ e # b) t \<Longrightarrow> e \<notin> set a \<Longrightarrow> (e, ok) \<in> set t \<Longrightarrow> prefix (succeeded a) t"
proof (induction a arbitrary: t)
  case (Cons x a)
  then show ?case by (auto simp: attempted_Cons)
qed simp

section \<open>Operations that tell a story\<close>

definition tells :: "'a step_op \<Rightarrow> effect list \<Rightarrow> bool" where
  "tells m story \<longleftrightarrow>
     (\<forall>s r s'. m s = Some (r, s') \<longrightarrow>
        (\<exists>t. ho_trace s' = ho_trace s @ t \<and> attempted story t \<and> (isOk r \<longrightarrow> t = succeeded story)))"

named_theorems telling \<open>the stories of operations\<close>

lemma tells_return [telling]: "tells (step_return a) []"
  by (simp add: tells_def step_return_def)

lemma tells_fail [telling]: "tells (step_fail e) []"
  by (simp add: tells_def step_fail_def)

lemma tells_fail_any: "tells (step_fail e) story"
  by (simp add: tells_def step_fail_def)

lemma tells_perform [telling]: "tells (perform W e) [e]"
  by (auto simp: tells_def perform_def Let_def attempted_Cons)

lemma tells_release [telling]: "tells (release e) [e]"
  by (auto simp: tells_def release_def attempted_Cons)

lemma tells_now [telling]: "tells (instant_now W) []"
  by (simp add: tells_def instant_now_def clock_now_def)

lemma tells_gate [telling]: "tells (gate_op e run) [e]"
  by (auto simp: tells_def gate_op_def attempted_Cons)

lemma tells_silent [telling]: "tells (\<lambda>s. Some (Inr (f s), s)) []"
  by (simp add: tells_def)

lemma tells_bind:
  assumes "tells m a" "\<And>x. tells (f x) b"
  shows "tells (step_bind m f) (a @ b)"
  unfolding tells_def
proof (intro allI impI)
  fix s r s' assume run: "step_bind m f s = Some (r, s')"
  then obtain q s1 where q: "m s = Some (q, s1)" by (auto simp: step_bind_def then_result_def split: option.splits)
  with assms(1) obtain t where t: "ho_trace s1 = ho_trace s @ t" "attempted a t" "isOk q \<longrightarrow> t = succeeded a"
    unfolding tells_def by blast
  show "\<exists>t. ho_trace s' = ho_trace s @ t \<and> attempted (a @ b) t \<and> (isOk r \<longrightarrow> t = succeeded (a @ b))"
  proof (cases q)
    case (Inl e)
    with run q t show ?thesis by (auto simp: step_bind_def then_result_def step_fail_def intro: attempted_more)
  next
    case (Inr x)
    with run q have "f x s1 = Some (r, s')" by (simp add: step_bind_def then_result_def)
    with assms(2) obtain t' where "ho_trace s' = ho_trace s1 @ t'" "attempted b t'" "isOk r \<longrightarrow> t' = succeeded b"
      unfolding tells_def by blast
    with t Inr show ?thesis by (auto intro: attempted_append)
  qed
qed

lemma tells_after: "tells m [] \<Longrightarrow> (\<And>x. tells (f x) b) \<Longrightarrow> tells (step_bind m f) b"
  using tells_bind [of m "[]" f b] by simp

lemma tells_one: "tells m [e] \<Longrightarrow> (\<And>x. tells (f x) b) \<Longrightarrow> tells (step_bind m f) (e # b)"
  using tells_bind [of m "[e]" f b] by simp

lemma tells_last: "tells m a \<Longrightarrow> (\<And>x. tells (f x) []) \<Longrightarrow> tells (step_bind m f) a"
  using tells_bind [of m a f "[]"] by simp

lemma tells_check [telling]: "tells (check_deadline W expired deadline) []"
  unfolding check_deadline_def by (rule tells_after) (auto intro: telling)


section \<open>The stories of the parts\<close>

definition unmount_story :: "volume_name \<Rightarrow> effect list" where
  "unmount_story v = [CloseStageMounts v, VerifyScope, SyncVolume v, VerifyScope, Unmount v, RemovePoint v]"

definition start_story :: "effect list" where
  "start_story = [PairGate, SendGate, WaitReady, SendStart, ReceiveStatus]"

definition quiet_story :: "bool \<Rightarrow> effect list" where
  "quiet_story network =
     [CloseChannel, CancelDomain, ReapHelper, DrainChildren, ReleaseNamespace] @ (if network then [CloseNetwork] else [])"

lemma tells_unmount [telling]: "tells (volume_unmount W v) (unmount_story v)"
  unfolding volume_unmount_def mount_lease_close_def unmount_story_def
  by (intro tells_one telling)

lemma tells_volume_unmount_until [telling]: "tells (volume_unmount_until W v d) (unmount_story v)"
  unfolding volume_unmount_until_def by (intro tells_after [OF tells_check] tells_last telling)

lemma tells_bootstrap_unmount_until [telling]:
  "tells (bootstrap_unmount_until W d) (unmount_story OutputVolume @ unmount_story ToolVolume)"
  unfolding bootstrap_unmount_until_def
  by (intro tells_after [OF tells_check] tells_bind [OF tells_unmount] tells_last telling)

lemma tells_view: "tells (volume_view W v) [VerifyScope, OpenView v]"
  unfolding volume_view_def by (intro tells_one telling)

lemma tells_await: "tells (await_prepared W fuel budget) [PairGate, SendGate, WaitReady]"
  unfolding await_prepared_def setup_check_def by (intro tells_after [OF tells_check] tells_one telling)

lemma tells_start: "tells (prepared_start W fuel budget timeout) [SendStart]"
proof -
  have late: "tells (if b then step_fail e else step_return d) []" for b e and d :: nat
    by (cases b) (auto intro: telling)
  have run: "tells (case d of None \<Rightarrow> step_fail e
      | Some deadline \<Rightarrow> step_bind (gate_op SendStart (run deadline)) (\<lambda>_. step_bind (instant_now W) (f deadline))) [SendStart]"
    if "\<And>deadline now. tells (f deadline now) []" for d e and run :: "nat \<Rightarrow> nat \<Rightarrow> unit gate_run" and f :: "nat \<Rightarrow> nat \<Rightarrow> nat step_op"
    by (cases d) (auto intro!: tells_fail_any tells_one tells_gate tells_after [OF tells_now] that)
  show ?thesis unfolding prepared_start_def setup_check_def
    by (intro tells_after [OF tells_check] tells_after [OF tells_now] run late)
qed

lemma tells_teardown_until: "tells (teardown_until W network d) (quiet_story network)"
proof -
  have helper: "tells (helper_finish W) [CloseChannel, CancelDomain, ReapHelper, DrainChildren]"
    unfolding helper_finish_def by (intro tells_one tells_after [OF tells_silent] telling)
  have net: "tells (if network then perform W CloseNetwork else step_return ()) (if network then [CloseNetwork] else [])"
    by (auto intro: telling)
  have "tells (teardown_until W network d)
      ([CloseChannel, CancelDomain, ReapHelper, DrainChildren] @ ReleaseNamespace # (if network then [CloseNetwork] else []))"
    unfolding teardown_until_def
    by (intro tells_bind [OF helper] tells_after [OF tells_check] tells_one [OF tells_release] tells_last [OF net] telling)
  then show ?thesis by (simp add: quiet_story_def)
qed

lemma tells_teardown: "tells (teardown W network) (quiet_story network)"
  unfolding teardown_def by (intro tells_after [OF tells_now] tells_last [OF tells_teardown_until] telling)

section \<open>Storage that a command may use\<close>

locale assigned_storage =
  fixes R :: command_storage and send_story unmount_all validate_story :: "effect list"
  assumes sends: "tells (cs_send R) send_story"
    and unmounts: "tells (cs_unmount_until R d) unmount_all"
    and validates: "tells (cs_validate R) validate_story"
    and silent: "AcknowledgeCleanup status \<notin> set send_story"
begin

definition whole_setup :: "exit_status \<Rightarrow> effect list" where
  "whole_setup status = send_story @ start_story @ [AcknowledgeCleanup status]"

definition whole_teardown :: "bool \<Rightarrow> effect list" where
  "whole_teardown network = quiet_story network @ unmount_all @ validate_story"

lemma tells_finalize: "tells (finalize_unmount W R completion) (unmount_all @ validate_story)"
  unfolding finalize_unmount_def
  by (intro tells_after [OF tells_check] tells_bind [OF unmounts] tells_last [OF validates] telling)

text \<open>What follows the setup: a teardown that always requests the cancellation, and never gets to
the storage after a failed acknowledgement.\<close>

definition torn_down :: "bool \<Rightarrow> host \<Rightarrow> host \<Rightarrow> bool \<Rightarrow> bool" where
  "torn_down network s s' complete \<longleftrightarrow>
     (\<exists>t. ho_trace s' = ho_trace s @ t \<and> attempted (whole_teardown network) t \<and>
        (\<exists>ok rest. t = (CloseChannel, True) # (CancelDomain, ok) # rest) \<and>
        (complete \<longrightarrow> t = succeeded (whole_teardown network)))"

lemma teardown_cancels:
  assumes "teardown_until W network d s = Some (r, s')"
  shows "\<exists>t. ho_trace s' = ho_trace s @ t \<and> attempted (quiet_story network) t \<and>
    (\<exists>ok rest. t = (CloseChannel, True) # (CancelDomain, ok) # rest) \<and> (isOk r \<longrightarrow> t = succeeded (quiet_story network))"
proof -
  obtain t where t: "ho_trace s' = ho_trace s @ t" "attempted (quiet_story network) t" "isOk r \<longrightarrow> t = succeeded (quiet_story network)"
    using tells_teardown_until [of W network d] assms unfolding tells_def by blast
  moreover have "prefix (ho_trace s @ [(CloseChannel, True), (CancelDomain, isOk (wd_answer W (ho_calls s) CancelDomain))]) (ho_trace s')"
  proof -
    define s1 where "s1 = s\<lparr>ho_calls := ho_calls s + 1,
      ho_trace := ho_trace s @ [(CloseChannel, True), (CancelDomain, isOk (wd_answer W (ho_calls s) CancelDomain))]\<rparr>"
    have more: "prefix (ho_trace s1) (ho_trace s')" if "tells m story" "m s1 = Some (q, s')" for m :: "exit_status step_op" and story q
      using that unfolding tells_def by (metis prefixI)
    show ?thesis
    proof (cases "wd_answer W (ho_calls s) CancelDomain")
      case (Inl e)
      then have "s' = s1" using assms
        by (auto simp: s1_def teardown_until_def helper_finish_def step_bind_def then_result_def release_def perform_def step_fail_def Let_def)
      then show ?thesis by (simp add: s1_def)
    next
      case (Inr u)
      define rest where "rest = step_bind (step_bind (perform W ReapHelper) (\<lambda>_.
         step_bind (\<lambda>s. Some (Inr (wd_helper_status W (ho_calls s)), s)) (\<lambda>status.
         step_bind (perform W DrainChildren) (\<lambda>_. step_return status)))) (\<lambda>status.
         step_bind (check_deadline W ''fixed step teardown deadline expired'' d) (\<lambda>_.
         step_bind (release ReleaseNamespace) (\<lambda>_.
         step_bind (if network then perform W CloseNetwork else step_return ()) (\<lambda>_.
           step_return status))))"
      have net: "tells (if network then perform W CloseNetwork else step_return ()) (if network then [CloseNetwork] else [])"
        by (auto intro: telling)
      have "tells rest ([ReapHelper, DrainChildren] @ ReleaseNamespace # (if network then [CloseNetwork] else []))"
        unfolding rest_def
        by (intro tells_bind tells_one tells_after [OF tells_silent] tells_after [OF tells_check] tells_last [OF net] telling)
      moreover have "rest s1 = Some (r, s')" using assms Inr
        by (simp add: rest_def s1_def teardown_until_def helper_finish_def step_bind_def then_result_def release_def perform_def Let_def)
      ultimately show ?thesis using more by (simp add: s1_def)
    qed
  qed
  ultimately show ?thesis by (auto simp: prefix_def)
qed

end


context assigned_storage
begin

lemma tellsD:
  assumes "tells m story" "m s = Some (r, s')"
  obtains t where "ho_trace s' = ho_trace s @ t" "attempted story t" "isOk r \<longrightarrow> t = succeeded story"
  using assms unfolding tells_def by blast

lemma finish_teardown:
  assumes "ho_trace s1 = ho_trace s @ q" "attempted (quiet_story network) q" "isOk cleanup \<longrightarrow> q = succeeded (quiet_story network)"
    and "q = (CloseChannel, True) # (CancelDomain, ok) # rest"
    and "after_teardown W R outcome cleanup s1 = Some (r, s')"
  shows "torn_down network s s' (isOk r) \<and> (isOk r \<longrightarrow> execution_success outcome \<and> isOk cleanup) \<and>
    (\<not> isOk cleanup \<longrightarrow> (\<exists>t. ho_trace s' = ho_trace s @ t \<and> attempted (quiet_story network) t))"
proof (cases cleanup)
  case (Inl e)
  with assms(5) have "s' = s1" "\<not> isOk r" by (auto simp: after_teardown_def then_result_def step_fail_def)
  with assms Inl show ?thesis unfolding torn_down_def whole_teardown_def by (auto intro: attempted_more)
next
  case (Inr completion)
  with assms(5) obtain f s2 where f: "finalize_unmount W R completion s1 = Some (f, s2)" "s' = s2"
    "isOk r \<longrightarrow> isOk f \<and> execution_success outcome"
    by (auto simp: after_teardown_def then_result_def split: option.splits sum.splits if_splits)
  obtain t where t: "ho_trace s2 = ho_trace s1 @ t" "attempted (unmount_all @ validate_story) t"
    "isOk f \<longrightarrow> t = succeeded (unmount_all @ validate_story)"
    by (rule tellsD [OF tells_finalize f(1)])
  have q: "q = succeeded (quiet_story network)" using assms(3) Inr by simp
  have "ho_trace s' = ho_trace s @ q @ t" using t(1) f(2) assms(1) by simp
  moreover have "attempted (whole_teardown network) (q @ t)"
    unfolding whole_teardown_def q by (rule attempted_append [OF t(2)])
  ultimately show ?thesis using f(3) t(3) assms(4) Inr unfolding torn_down_def
    by (intro conjI exI [of _ "q @ t"]) (auto simp: whole_teardown_def q)
qed

lemma reject_run:
  assumes "reject_setup W R network e s = Some (r, s')"
  shows "torn_down network s s' False \<and> \<not> isOk r"
proof -
  from assms obtain c s1 where c: "teardown W network s = Some (c, s1)" "after_teardown W R (SetupFailed e) c s1 = Some (r, s')"
    by (auto simp: reject_setup_def then_result_def split: option.splits)
  define s0 where "s0 = s\<lparr>ho_calls := ho_calls s + 1\<rparr>"
  define d where "d = ch_clock (wd_channel W) (ho_calls s) + seconds 30"
  from c(1) obtain c' where c': "teardown_until W network d s0 = Some (c', s1)" "isOk c \<longleftrightarrow> isOk c'"
    by (auto simp: teardown_def step_bind_def then_result_def instant_now_def clock_now_def s0_def d_def step_fail_def step_return_def
        split: option.splits sum.splits)
  from teardown_cancels [OF c'(1)] obtain q ok rest where q: "ho_trace s1 = ho_trace s @ q" "attempted (quiet_story network) q"
    "q = (CloseChannel, True) # (CancelDomain, ok) # rest" "isOk c \<longrightarrow> q = succeeded (quiet_story network)"
    using c'(2) by (auto simp: s0_def)
  from finish_teardown [OF q(1,2,4,3) c(2)] show ?thesis by (auto simp: execution_success_def torn_down_def)
qed

lemma command_run:
  assumes "observed_teardown W network (outcome, d) s = Some (c, s1)" "after_teardown W R (Commanded outcome) c s1 = Some (r, s')"
  shows "\<exists>pre t status. ho_trace s' = ho_trace s @ pre @ t \<and>
    (case outcome of Exited raw \<Rightarrow> status = raw \<and> (pre = [(AcknowledgeCleanup raw, True)] \<or>
        pre = [(AcknowledgeCleanup raw, False)] \<and> attempted (quiet_story network) t \<and> \<not> isOk r)
      | ObservationFailed e \<Rightarrow> pre = [] \<and> \<not> isOk r) \<and>
    attempted (whole_teardown network) t \<and> (\<exists>ok rest. t = (CloseChannel, True) # (CancelDomain, ok) # rest) \<and>
    (isOk r \<longrightarrow> t = succeeded (whole_teardown network) \<and> command_success outcome)"
proof (cases outcome)
  case (ObservationFailed e)
  with assms(1) obtain c' where c': "teardown_until W network d s = Some (c', s1)" "isOk c \<longleftrightarrow> isOk c'"
    by (auto simp: observed_teardown_def step_bind_def then_result_def step_fail_def step_return_def split: option.splits sum.splits)
  from teardown_cancels [OF c'(1)] obtain q ok rest where q: "ho_trace s1 = ho_trace s @ q" "attempted (quiet_story network) q"
    "q = (CloseChannel, True) # (CancelDomain, ok) # rest" "isOk c \<longrightarrow> q = succeeded (quiet_story network)"
    using c'(2) by auto
  from finish_teardown [OF q(1,2,4,3) assms(2)] ObservationFailed show ?thesis
    by (auto simp: execution_success_def command_success_def torn_down_def)
next
  case (Exited raw)
  define ack where "ack = wd_answer W (ho_calls s) (AcknowledgeCleanup raw)"
  define s0 where "s0 = s\<lparr>ho_calls := ho_calls s + 1, ho_trace := ho_trace s @ [(AcknowledgeCleanup raw, isOk ack)]\<rparr>"
  from assms(1) Exited obtain c' where c': "teardown_until W network d s0 = Some (c', s1)" "isOk c \<longleftrightarrow> isOk ack \<and> isOk c'"
    by (auto simp: observed_teardown_def teardown_after_command_def perform_def Let_def ack_def [symmetric] s0_def
        step_bind_def then_result_def step_fail_def step_return_def split: option.splits sum.splits)
  from teardown_cancels [OF c'(1)] obtain q ok rest where q: "ho_trace s1 = ho_trace s0 @ q" "attempted (quiet_story network) q"
    "q = (CloseChannel, True) # (CancelDomain, ok) # rest" "isOk c \<longrightarrow> q = succeeded (quiet_story network)"
    using c'(2) by auto
  note fin = finish_teardown [OF q(1,2,4,3) assms(2)]
  from fin obtain t ok' rest' where t: "ho_trace s' = ho_trace s0 @ t" "attempted (whole_teardown network) t"
    "t = (CloseChannel, True) # (CancelDomain, ok') # rest'" "isOk r \<longrightarrow> t = succeeded (whole_teardown network)"
    unfolding torn_down_def by blast
  from fin have r: "isOk r \<longrightarrow> command_success outcome \<and> isOk c" by (simp add: execution_success_def)
  from fin t(1) have "\<not> isOk c \<longrightarrow> attempted (quiet_story network) t" by auto
  then have bad: "\<not> isOk ack \<longrightarrow> attempted (quiet_story network) t \<and> \<not> isOk r" using r c'(2) by blast
  have "ho_trace s' = ho_trace s @ [(AcknowledgeCleanup raw, isOk ack)] @ t" using t(1) by (simp add: s0_def)
  then show ?thesis using Exited t(2,4) bad r
    by (intro exI [of _ "[(AcknowledgeCleanup raw, isOk ack)]"] exI [of _ t] exI [of _ raw])
       (cases "isOk ack"; simp; use t(3) in blast)
qed

end


lemma observe_run:
  assumes "observe W fuel d s = Some ((outcome, d'), s')"
  shows "\<exists>ok. ho_trace s' = ho_trace s @ [(ReceiveStatus, ok)] \<and>
    (\<forall>raw. outcome = Exited raw \<longrightarrow> ok \<and> (\<exists>i. receive_attempt 9 check_completion (ch_recv (wd_channel W) i) = Some (Inr raw)))"
proof -
  from assms obtain r k where r: "completion_until fuel (wd_channel W) d (ho_calls s) = Some (r, k)"
    "ho_trace s' = ho_trace s @ [(ReceiveStatus, isOk r)]" "\<forall>raw. outcome = Exited raw \<longrightarrow> r = Inr raw"
    by (auto simp: observe_def gate_op_def clock_now_def Let_def split: option.splits sum.splits if_splits)
  have "\<exists>i. receive_attempt 9 check_completion (ch_recv (wd_channel W) i) = Some (Inr raw)" if "r = Inr raw" for raw
  proof -
    from r(1) that have "until_settled fuel (\<lambda>f. gate_wait f (wd_channel W) d)
        (\<lambda>k'. receive_attempt 9 check_completion (ch_recv (wd_channel W) k')) (ho_calls s) = Some (Inr raw, k)"
      by (simp add: completion_until_def)
    from gate.settled_attempt [OF this] show ?thesis by blast
  qed
  with r(2,3) show ?thesis by (intro exI [of _ "isOk r"]) auto
qed

context assigned_storage
begin

lemma reject_story:
  assumes "reject_setup W R network e s1 = Some (r, s')" "ho_trace s1 = ho_trace s @ pre"
    and "attempted (send_story @ start_story) pre"
  shows "\<exists>pre t status. ho_trace s' = ho_trace s @ pre @ t \<and> attempted (whole_setup status) pre \<and>
    attempted (whole_teardown network) t \<and> (\<exists>ok rest. t = (CloseChannel, True) # (CancelDomain, ok) # rest) \<and>
    ((AcknowledgeCleanup status, False) \<in> set pre \<longrightarrow> attempted (quiet_story network) t) \<and> \<not> isOk r"
proof -
  have found: "attempted story q \<Longrightarrow> (f, ok) \<in> set q \<Longrightarrow> f \<in> set story" for story q f ok
    by (induction story q rule: attempted.induct) (auto split: if_splits)
  have "AcknowledgeCleanup 0 \<notin> set (send_story @ start_story)" using silent by (simp add: start_story_def)
  then have no: "(AcknowledgeCleanup 0, False) \<notin> set pre" using found [OF assms(3)] by blast
  have "attempted (whole_setup 0) pre" unfolding whole_setup_def
    using attempted_more [OF assms(3), of "[AcknowledgeCleanup 0]"] by simp
  moreover from reject_run [OF assms(1)] obtain t ok rest where "ho_trace s' = ho_trace s1 @ t"
    "attempted (whole_teardown network) t" "t = (CloseChannel, True) # (CancelDomain, ok) # rest" "\<not> isOk r"
    unfolding torn_down_def by blast
  ultimately show ?thesis using assms(2) no by (intro exI [of _ pre] exI [of _ t] exI [of _ 0]) simp
qed

lemma execute_story:
  assumes "step_execute W R fuel network budget timeout s = Some (r, s')"
  shows "\<exists>pre t status. ho_trace s' = ho_trace s @ pre @ t \<and> attempted (whole_setup status) pre \<and>
    attempted (whole_teardown network) t \<and> (\<exists>ok rest. t = (CloseChannel, True) # (CancelDomain, ok) # rest) \<and>
    ((AcknowledgeCleanup status, False) \<in> set pre \<longrightarrow> attempted (quiet_story network) t) \<and>
    (isOk r \<longrightarrow> pre = succeeded (whole_setup status) \<and> t = succeeded (whole_teardown network) \<and>
       status_success status \<and> (\<exists>i. receive_attempt 9 check_completion (ch_recv (wd_channel W) i) = Some (Inr status)))"
proof -
  have sends_now: "tells (step_bind (setup_check W budget) (\<lambda>_. cs_send R)) send_story"
    unfolding setup_check_def by (intro tells_after [OF tells_check] sends)
  from assms obtain a s1 where a: "step_bind (setup_check W budget) (\<lambda>_. cs_send R) s = Some (a, s1)"
    by (auto simp: step_execute_def then_result_def split: option.splits)
  obtain t1 where t1: "ho_trace s1 = ho_trace s @ t1" "attempted send_story t1" "isOk a \<longrightarrow> t1 = succeeded send_story"
    by (rule tellsD [OF sends_now a])
  show ?thesis
  proof (cases a)
    case (Inl e)
    with assms a have "reject_setup W R network e s1 = Some (r, s')" by (simp add: step_execute_def then_result_def)
    from reject_story [OF this t1(1) attempted_more [OF t1(2)]] show ?thesis by blast
  next
    case (Inr u)
    with assms a obtain b s2 where b: "await_prepared W fuel budget s1 = Some (b, s2)"
      by (auto simp: step_execute_def then_result_def split: option.splits)
    obtain t2 where t2: "ho_trace s2 = ho_trace s1 @ t2" "attempted [PairGate, SendGate, WaitReady] t2"
      "isOk b \<longrightarrow> t2 = succeeded [PairGate, SendGate, WaitReady]"
      by (rule tellsD [OF tells_await b])
    have tr2: "ho_trace s2 = ho_trace s @ succeeded send_story @ t2" using t1 t2(1) Inr by simp
    show ?thesis
    proof (cases b)
      case (Inl e)
      with assms a b \<open>a = Inr u\<close> have "reject_setup W R network e s2 = Some (r, s')"
        by (simp add: step_execute_def then_result_def)
      moreover have "attempted (send_story @ start_story) (succeeded send_story @ t2)"
        using attempted_append [OF attempted_more [OF t2(2), of "[SendStart, ReceiveStatus]"], of send_story]
        by (simp add: start_story_def)
      ultimately show ?thesis using reject_story tr2 by blast
    next
      case (Inr v)
      with assms a b \<open>a = Inr u\<close> obtain c s3 where c: "prepared_start W fuel budget timeout s2 = Some (c, s3)"
        by (auto simp: step_execute_def then_result_def split: option.splits)
      obtain t3 where t3: "ho_trace s3 = ho_trace s2 @ t3" "attempted [SendStart] t3" "isOk c \<longrightarrow> t3 = succeeded [SendStart]"
        by (rule tellsD [OF tells_start c])
      have tr3: "ho_trace s3 = ho_trace s @ succeeded (send_story @ [PairGate, SendGate, WaitReady]) @ t3"
        using tr2 t2(3) t3(1) Inr by simp
      show ?thesis
      proof (cases c)
        case (Inl e)
        with assms a b c \<open>a = Inr u\<close> \<open>b = Inr v\<close> have "reject_setup W R network e s3 = Some (r, s')"
          by (simp add: step_execute_def then_result_def)
        moreover have "attempted (send_story @ start_story) (succeeded (send_story @ [PairGate, SendGate, WaitReady]) @ t3)"
          using attempted_append [OF attempted_more [OF t3(2), of "[ReceiveStatus]"], of "send_story @ [PairGate, SendGate, WaitReady]"]
          by (simp add: start_story_def)
        ultimately show ?thesis using reject_story tr3 by blast
      next
        case (Inr d)
        with assms a b c \<open>a = Inr u\<close> \<open>b = Inr v\<close> obtain outcome d' s4 q s5 where o: "observe W fuel d s3 = Some ((outcome, d'), s4)"
          "observed_teardown W network (outcome, d') s4 = Some (q, s5)" "after_teardown W R (Commanded outcome) q s5 = Some (r, s')"
          by (auto simp: step_execute_def then_result_def split: option.splits)
        from observe_run [OF o(1)] obtain ok where ok: "ho_trace s4 = ho_trace s3 @ [(ReceiveStatus, ok)]"
          "\<forall>raw. outcome = Exited raw \<longrightarrow> ok \<and> (\<exists>i. receive_attempt 9 check_completion (ch_recv (wd_channel W) i) = Some (Inr raw))" by blast
        define begun where "begun = send_story @ [PairGate, SendGate, WaitReady, SendStart]"
        have tr4: "ho_trace s4 = ho_trace s @ succeeded begun @ [(ReceiveStatus, ok)]"
          using tr3 t3(3) Inr ok(1) by (simp add: begun_def)
        have whole: "whole_setup status = begun @ [ReceiveStatus, AcknowledgeCleanup status]" for status
          by (simp add: whole_setup_def begun_def start_story_def)
        from command_run [OF o(2,3)] obtain pre t status where run: "ho_trace s' = ho_trace s4 @ pre @ t"
          "case outcome of Exited raw \<Rightarrow> status = raw \<and> (pre = [(AcknowledgeCleanup raw, True)] \<or>
              pre = [(AcknowledgeCleanup raw, False)] \<and> attempted (quiet_story network) t \<and> \<not> isOk r)
            | ObservationFailed e \<Rightarrow> pre = [] \<and> \<not> isOk r"
          "attempted (whole_teardown network) t" "\<exists>ok rest. t = (CloseChannel, True) # (CancelDomain, ok) # rest"
          "isOk r \<longrightarrow> t = succeeded (whole_teardown network) \<and> command_success outcome" by blast
        have quiet: "(AcknowledgeCleanup x, False) \<notin> set (succeeded begun @ [(ReceiveStatus, ok)])" for x
          by simp
        have "attempted (whole_setup status) (succeeded begun @ (ReceiveStatus, ok) # pre)" unfolding whole
          using run(2) ok(2) by (intro attempted_append) (cases outcome; auto)
        moreover have "ho_trace s' = ho_trace s @ (succeeded begun @ (ReceiveStatus, ok) # pre) @ t"
          using run(1) tr4 by simp
        moreover have "(AcknowledgeCleanup status, False) \<in> set (succeeded begun @ (ReceiveStatus, ok) # pre) \<longrightarrow> attempted (quiet_story network) t"
          using run(2) quiet by (cases outcome) auto
        moreover have "isOk r \<longrightarrow> succeeded begun @ (ReceiveStatus, ok) # pre = succeeded (whole_setup status) \<and>
            status_success status \<and> (\<exists>i. receive_attempt 9 check_completion (ch_recv (wd_channel W) i) = Some (Inr status))"
          using run(2,5) ok(2) unfolding whole by (cases outcome) (auto simp: command_success_def)
        ultimately show ?thesis using run(3-5)
          by (intro exI [of _ "succeeded begun @ (ReceiveStatus, ok) # pre"] exI [of _ t] exI [of _ status]) simp
      qed
    qed
  qed
qed

end


section \<open>The two kinds of storage\<close>

datatype storage_kind = StageStorage | BootstrapStorage

definition storage_ops :: "world \<Rightarrow> storage_kind \<Rightarrow> bool \<Rightarrow> command_storage" where
  "storage_ops W kind network =
     (case kind of StageStorage \<Rightarrow> volume_storage W network | BootstrapStorage \<Rightarrow> bootstrap_storage W network)"

definition view_story :: "volume_name \<Rightarrow> effect list" where
  "view_story v = [VerifyScope, OpenView v]"

definition send_effects :: "storage_kind \<Rightarrow> bool \<Rightarrow> effect list" where
  "send_effects kind network =
     (case kind of
        StageStorage \<Rightarrow> view_story StageVolume @ (if network then view_story StageVolume else []) @ [SendVolume]
      | BootstrapStorage \<Rightarrow> [VerifyScope, PrepareMountpoint] @ view_story ToolVolume @ view_story OutputVolume @
          (if network then view_story ToolVolume else []) @ [SendVolume])"

definition unmount_effects :: "storage_kind \<Rightarrow> effect list" where
  "unmount_effects kind =
     (case kind of StageStorage \<Rightarrow> unmount_story StageVolume
      | BootstrapStorage \<Rightarrow> unmount_story OutputVolume @ unmount_story ToolVolume)"

definition validate_effects :: "storage_kind \<Rightarrow> effect list" where
  "validate_effects kind =
     (case kind of StageStorage \<Rightarrow> [ValidateSnapshot StageVolume]
      | BootstrapStorage \<Rightarrow> [ValidateSnapshot ToolVolume, ValidateSnapshot OutputVolume])"

lemma tells_view_story: "tells (volume_view W v) (view_story v)"
  unfolding view_story_def by (rule tells_view)

lemma tells_sent:
  "tells (if network then step_bind (volume_view W v) (\<lambda>_. perform W SendVolume) else perform W SendVolume)
     ((if network then view_story v else []) @ [SendVolume])"
  by (cases network) (auto intro: tells_perform tells_bind [OF tells_view_story tells_perform, simplified])

lemma tells_storage_send: "tells (cs_send (storage_ops W kind network)) (send_effects kind network)"
proof (cases kind)
  case StageStorage
  have "tells (volume_send W network) (view_story StageVolume @ (if network then view_story StageVolume else []) @ [SendVolume])"
    unfolding volume_send_def by (intro tells_bind tells_view_story tells_sent)
  with StageStorage show ?thesis by (simp add: storage_ops_def volume_storage_def send_effects_def)
next
  case BootstrapStorage
  have point: "tells (prepare_output_mountpoint W) [VerifyScope, PrepareMountpoint]"
    unfolding prepare_output_mountpoint_def by (intro tells_one telling)
  have "tells (bootstrap_send W network) ([VerifyScope, PrepareMountpoint] @ view_story ToolVolume @ view_story OutputVolume @
      (if network then view_story ToolVolume else []) @ [SendVolume])"
    unfolding bootstrap_send_def by (intro tells_bind tells_view_story tells_sent point)
  with BootstrapStorage show ?thesis by (simp add: storage_ops_def bootstrap_storage_def send_effects_def)
qed

interpretation step_storage: assigned_storage "storage_ops W kind network" "send_effects kind network"
  "unmount_effects kind" "validate_effects kind" for W kind network
proof unfold_locales
  show "tells (cs_send (storage_ops W kind network)) (send_effects kind network)" by (rule tells_storage_send)
  show "tells (cs_unmount_until (storage_ops W kind network) d) (unmount_effects kind)" for d
    by (cases kind) (auto simp: storage_ops_def volume_storage_def bootstrap_storage_def unmount_effects_def intro: telling)
  show "tells (cs_validate (storage_ops W kind network)) (validate_effects kind)"
    by (cases kind) (auto simp: storage_ops_def volume_storage_def bootstrap_storage_def validate_effects_def intro: tells_one telling)
  show "AcknowledgeCleanup status \<notin> set (send_effects kind network)" for status
    by (auto simp: send_effects_def view_story_def split: storage_kind.splits)
qed

definition setup_story :: "storage_kind \<Rightarrow> bool \<Rightarrow> exit_status \<Rightarrow> effect list" where
  "setup_story kind network status = send_effects kind network @ start_story @ [AcknowledgeCleanup status]"

definition teardown_story :: "storage_kind \<Rightarrow> bool \<Rightarrow> effect list" where
  "teardown_story kind network = quiet_story network @ unmount_effects kind @ validate_effects kind"

lemmas stories = step_storage.whole_setup_def step_storage.whole_teardown_def

lemma attempted_found: "attempted story t \<Longrightarrow> (e, ok) \<in> set t \<Longrightarrow> e \<in> set story"
  by (induction story t rule: attempted.induct) (auto split: if_splits)

lemma attempted_later: "attempted (a @ b) t \<Longrightarrow> (e, ok) \<in> set t \<Longrightarrow> e \<notin> set a \<Longrightarrow> prefix (succeeded a) t"
proof (induction a arbitrary: t)
  case (Cons x a)
  then show ?case by (auto simp: attempted_Cons)
qed simp

lemma unmount_not_before: "Unmount v \<notin> set (setup_story kind network status)" "Unmount v \<notin> set (quiet_story network)"
  by (auto simp: setup_story_def send_effects_def view_story_def start_story_def quiet_story_def split: storage_kind.splits)

section \<open>Properties\<close>

text \<open>C1: A command is accepted only when everything happened, in this order: its storage was sent
to the contained helper, init was ready and authorised to start, the gate delivered the status of
a success before the deadline, the cleanup was acknowledged, the domain was cancelled, the helper
reaped, every descendant drained, the namespace and the network released, and every volume was
synchronised, unmounted and its snapshot validated.\<close>

theorem step_accepted:
  assumes "step_execute W (storage_ops W kind network) fuel network budget timeout s = Some (Inr u, s')"
  shows "\<exists>status. ho_trace s' = ho_trace s @ succeeded (setup_story kind network status @ teardown_story kind network) \<and>
    status_success status \<and> (\<exists>i. receive_attempt 9 check_completion (ch_recv (wd_channel W) i) = Some (Inr status))"
  using step_storage.execute_story [OF assms] unfolding stories setup_story_def teardown_story_def by fastforce

text \<open>C2: However a step ends, it first attempted the setup and then the teardown, each in the order of
its story up to a first failure; the cancellation of everything that may run is requested in every
case, and no volume is unmounted before all descendants are drained and the namespace is released,
nor after the cleanup was not acknowledged.\<close>

theorem step_cleanup_ordered:
  assumes "step_execute W (storage_ops W kind network) fuel network budget timeout s = Some (r, s')"
  shows "\<exists>pre t status. ho_trace s' = ho_trace s @ pre @ t \<and>
    attempted (setup_story kind network status) pre \<and> attempted (teardown_story kind network) t \<and>
    (\<exists>ok. (CancelDomain, ok) \<in> set t) \<and>
    (\<forall>v ok. (Unmount v, ok) \<in> set (pre @ t) \<longrightarrow>
       prefix (succeeded (quiet_story network)) t \<and> (AcknowledgeCleanup status, False) \<notin> set pre)"
proof -
  from step_storage.execute_story [OF assms] obtain pre t status ok' rest where st:
    "ho_trace s' = ho_trace s @ pre @ t" "attempted (setup_story kind network status) pre"
    "attempted (teardown_story kind network) t" "t = (CloseChannel, True) # (CancelDomain, ok') # rest"
    "(AcknowledgeCleanup status, False) \<in> set pre \<longrightarrow> attempted (quiet_story network) t"
    unfolding stories setup_story_def [symmetric] teardown_story_def [symmetric] by blast
  have "prefix (succeeded (quiet_story network)) t \<and> (AcknowledgeCleanup status, False) \<notin> set pre"
    if "(Unmount v, ok) \<in> set (pre @ t)" for v ok
  proof -
    have "(Unmount v, ok) \<notin> set pre" using attempted_found [OF st(2)] unmount_not_before(1) by blast
    with that have u: "(Unmount v, ok) \<in> set t" by simp
    then have "\<not> attempted (quiet_story network) t" using attempted_found unmount_not_before(2) by blast
    moreover have "prefix (succeeded (quiet_story network)) t"
      using attempted_later [OF st(3) [unfolded teardown_story_def] u unmount_not_before(2)] .
    ultimately show ?thesis using st(5) by blast
  qed
  with st(1-4) show ?thesis by (intro exI [of _ pre] exI [of _ t] exI [of _ status]) auto
qed


section \<open>An example\<close>

definition example_recv :: "nat \<Rightarrow> errno + datagram" where
  "example_recv k = Inr (plain (if k < 12 then gate_bytes 1 else completion_prefix @ [0, 0, 0, 0]))"

definition example_world :: world where
  "example_world =
     \<lparr>wd_channel = \<lparr>ch_clock = (\<lambda>_. 1), ch_poll = (\<lambda>_. PollEvents True), ch_send = (\<lambda>_. Inr 3), ch_recv = example_recv\<rparr>,
      wd_answer = (\<lambda>_ _. Inr ()), wd_helper_status = (\<lambda>_. 0)\<rparr>"

definition example_host :: host where
  "example_host = \<lparr>ho_calls = 0, ho_trace = []\<rparr>"

lemmas example_parts =
  step_execute_def then_result_def step_bind_def setup_check_def check_deadline_def instant_now_def clock_now_def
  storage_ops_def volume_storage_def volume_send_def volume_view_def perform_def await_prepared_def gate_op_def
  prepared_start_def instant_checked_add_def observe_def observed_teardown_def teardown_after_command_def
  teardown_until_def helper_finish_def release_def step_return_def step_fail_def after_teardown_def finalize_unmount_def
  volume_unmount_until_def volume_unmount_def mount_lease_close_def execution_success_def command_success_def
  status_success_def seconds_def example_host_def

lemma example_gate_receive: "wait_ready_until 1 (wd_channel example_world) 5 7 = Some (Inr (), 9)"
  unfolding One_nat_def
  by (simp add: wait_ready_until_def gate_receive_def deadline_remaining_def example_world_def example_recv_def
      receive_attempt_def receive_now_def plain_def gate_bytes_def check_gate_def failIf_def)

lemma example_gate_send: "start_reporting_until 1 (wd_channel example_world) 5 12 = Some (Inr (), 14)"
  unfolding One_nat_def
  by (simp add: start_reporting_until_def gate_send_def deadline_remaining_def example_world_def send_attempt_def failIf_def)

lemma example_completion: "completion_until 1 (wd_channel example_world) 11 15 = Some (Inr 0, 17)"
  unfolding One_nat_def
  by (simp add: completion_until_def deadline_remaining_def example_world_def example_recv_def failIf_def
      receive_attempt_def receive_now_def plain_def check_completion_def completion_status_def completion_prefix_def
      completion_validate_def Let_def)

lemma example_world_parts:
  "ch_clock (wd_channel example_world) k = 1" "wd_answer example_world k e = Inr ()" "wd_helper_status example_world k = 0"
  by (simp_all add: example_world_def)

lemma example_run:
  "\<exists>s'. step_execute example_world (storage_ops example_world StageStorage False) 1 False 5 10 example_host = Some (Inr (), s')"
  by (simp del: One_nat_def add: example_parts example_world_parts Let_def example_gate_receive example_gate_send example_completion)

lemma step_accepted_witness:
  "\<exists>s' status. step_execute example_world (storage_ops example_world StageStorage False) 1 False 5 10 example_host = Some (Inr (), s') \<and>
     ho_trace s' = succeeded (setup_story StageStorage False status @ teardown_story StageStorage False)"
proof -
  from example_run obtain s' where run:
    "step_execute example_world (storage_ops example_world StageStorage False) 1 False 5 10 example_host = Some (Inr (), s')" by blast
  from step_accepted [OF run] run show ?thesis by (auto simp: example_host_def)
qed

lemma step_cleanup_ordered_witness:
  "\<exists>s' ok. step_execute example_world (storage_ops example_world StageStorage False) 1 False 5 10 example_host = Some (Inr (), s') \<and>
     (CancelDomain, ok) \<in> set (ho_trace s')"
proof -
  from example_run obtain s' where run:
    "step_execute example_world (storage_ops example_world StageStorage False) 1 False 5 10 example_host = Some (Inr (), s')" by blast
  from step_cleanup_ordered [OF run] run show ?thesis by (auto simp: example_host_def)
qed

end
