(* ===== verification/Supervision_Packets.thy ===== *)
theory Supervision_Packets
  imports Isolation_Gate
begin

text \<open>
  The control channel between the supervisor and a contained helper: \<open>process/identity.rs\<close>,
  \<open>process/supervision/joining.rs\<close>, \<open>control.rs\<close> and \<open>volume.rs\<close>.  A packet is bytes with
  descriptors, and each phase of the helper accepts one kind of packet.  Texts are encoded by
  the CBOR crate, a parameter: what it writes it reads back, and a text of fewer than 2^16
  bytes gets a header of at most three bytes.
\<close>

section \<open>The codec of texts\<close>

record cbor_text =
  ct_write :: "string \<Rightarrow> byte list"
  ct_read :: "byte list \<Rightarrow> io_error + string"

definition cbor_text_laws :: "cbor_text \<Rightarrow> bool" where
  "cbor_text_laws X \<longleftrightarrow>
     (\<forall>m. length m < 2 ^ 64 \<longrightarrow> ct_read X (ct_write X m) = Inr m) \<and>
     (\<forall>m. length m < 2 ^ 16 \<longrightarrow> length (ct_write X m) \<le> length m + 3) \<and> (\<forall>m. m \<noteq> [] \<longrightarrow> 2 \<le> length (ct_write X m))"

section \<open>Identities\<close>

definition identity_offer :: "byte list" where
  "identity_offer = [0x82, 0x01, 0x00]"

text \<open>Any event ends the wait: the receive reports errors and the end of the channel.\<close>

fun identity_ready :: "nat \<Rightarrow> channel \<Rightarrow> nat \<Rightarrow> nat \<Rightarrow> unit gate_run" where
  "identity_ready 0 C deadline k = None"
| "identity_ready (Suc fuel) C deadline k =
     (case deadline_remaining ''identity exchange deadline expired'' deadline (ch_clock C k) of
        Inl e \<Rightarrow> Some (Inl e, k + 1)
      | Inr timeout \<Rightarrow>
          (case ch_poll C k of
             PollNothing \<Rightarrow> identity_ready fuel C deadline (k + 1)
           | PollEvents interest \<Rightarrow> Some (Inr (), k + 1)
           | PollErrno EINTR \<Rightarrow> identity_ready fuel C deadline (k + 1)
           | PollErrno EAGAIN \<Rightarrow> Some (Inl (OsError ''EAGAIN''), k + 1)
           | PollErrno (OtherErrno e) \<Rightarrow> Some (Inl (OsError e), k + 1)))"

definition check_identity :: "byte list \<times> nat list \<Rightarrow> io_error + nat" where
  "check_identity received =
     bindE (failIf (length (fst received) = 0) (OsError ''identity peer closed'')) (\<lambda>_.
     bindE (failIf (length (fst received) \<noteq> 3 \<or> fst received \<noteq> identity_offer \<or> length (snd received) \<noteq> 1)
       (OsError ''invalid identity offer'')) (\<lambda>_.
       Inr (hd (snd received))))"

definition send_identity :: "nat \<Rightarrow> channel \<Rightarrow> nat \<Rightarrow> nat \<Rightarrow> unit gate_run" where
  "send_identity fuel C deadline k =
     until_settled fuel (\<lambda>f. identity_ready f C deadline) (\<lambda>k'. send_attempt 3 ''short descriptor packet'' (ch_send C k')) k"

definition receive_identity :: "nat \<Rightarrow> channel \<Rightarrow> nat \<Rightarrow> nat \<Rightarrow> nat gate_run" where
  "receive_identity fuel C deadline k =
     until_settled fuel (\<lambda>f. identity_ready f C deadline) (\<lambda>k'. receive_attempt 3 check_identity (ch_recv C k')) k"

text \<open>Both peers send their own identity and then receive the other.\<close>

definition exchange_until :: "nat \<Rightarrow> channel \<Rightarrow> nat \<Rightarrow> nat \<Rightarrow> nat gate_run" where
  "exchange_until fuel C deadline k =
     (case send_identity fuel C deadline k of
        None \<Rightarrow> None
      | Some (Inl e, k') \<Rightarrow> Some (Inl e, k')
      | Some (Inr u, k') \<Rightarrow> receive_identity fuel C deadline k')"

section \<open>Packets\<close>

text \<open>The numbers are the descriptors that a packet carries, in the order of the code.\<close>

datatype control_packet =
    DomainOffer nat
  | DomainJoined
  | GatePacket nat
  | VolumePacket nat nat
  | BootstrapPacket nat nat nat
  | VolumeNetwork nat nat nat nat
  | BootstrapNetwork nat nat nat nat nat
  | Cleaned exit_status
  | CleanupRefused string

fun packet_parts :: "control_packet \<Rightarrow> byte \<times> nat list" where
  "packet_parts (DomainOffer fd) = (1, [fd])"
| "packet_parts (GatePacket fd) = (13, [fd])"
| "packet_parts DomainJoined = (2, [])"
| "packet_parts (VolumePacket root namespace) = (5, [root, namespace])"
| "packet_parts (BootstrapPacket root out namespace) = (8, [root, out, namespace])"
| "packet_parts (VolumeNetwork root user resolver raw) = (9, [root, user, resolver, raw])"
| "packet_parts (BootstrapNetwork root out user resolver raw) = (10, [root, out, user, resolver, raw])"
| "packet_parts (CleanupRefused message) = (12, [])"
| "packet_parts (Cleaned status) = (11, [])"

fun packet_bytes :: "cbor_text \<Rightarrow> control_packet \<Rightarrow> io_error + byte list" where
  "packet_bytes X (CleanupRefused message) =
     bindE (failIf (message = [] \<or> 1024 < length message) (OsError ''invalid cleanup diagnostic size'')) (\<lambda>_.
       Inr ([0x83, 1, 12] @ ct_write X message))"
| "packet_bytes X (Cleaned status) = Inr ([0x83, 1, fst (packet_parts (Cleaned status)), 0x44] @ rev (le_bytes 4 (unat status)))"
| "packet_bytes X packet = Inr [0x82, 1, fst (packet_parts packet)]"

definition packet_send :: "cbor_text \<Rightarrow> control_packet \<Rightarrow> nat \<Rightarrow> channel \<Rightarrow> nat \<Rightarrow> nat \<Rightarrow> unit gate_run" where
  "packet_send X packet fuel C deadline k =
     (case packet_bytes X packet of
        Inl e \<Rightarrow> Some (Inl e, k)
      | Inr bytes \<Rightarrow>
          until_settled fuel (\<lambda>f. identity_ready f C deadline)
            (\<lambda>k'. send_attempt (length bytes) ''short descriptor packet'' (ch_send C k')) k)"

text \<open>The framing that is accepted before the opcode is looked at.\<close>

definition packet_framed :: "byte list \<Rightarrow> bool" where
  "packet_framed bytes \<longleftrightarrow>
     length bytes = 3 \<and> take 2 bytes = [0x82, 1] \<and> bytes ! 2 \<noteq> 11 \<or>
     length bytes = 8 \<and> take 4 bytes = [0x83, 1, 11, 0x44] \<or>
     5 \<le> length bytes \<and> take 3 bytes = [0x83, 1, 12]"

definition refused_decode :: "cbor_text \<Rightarrow> byte list \<Rightarrow> io_error + control_packet" where
  "refused_decode X payload =
     bindE (mapErr (\<lambda>_. OsError ''invalid cleanup diagnostic'') (ct_read X payload)) (\<lambda>message.
     bindE (failIf (message = [] \<or> 1024 < length message \<or> ct_write X message \<noteq> payload)
       (OsError ''invalid cleanup diagnostic encoding or size'')) (\<lambda>_.
       Inr (CleanupRefused message)))"

definition cleaned_decode :: "byte list \<Rightarrow> io_error + control_packet" where
  "cleaned_decode payload =
     (let raw = word_of_nat (le_value (rev payload)) in
      bindE (mapErr (\<lambda>_. OsError ''nonterminal or invalid command status'') (completion_validate raw)) (\<lambda>_.
        Inr (Cleaned raw)))"

definition packet_decode :: "cbor_text \<Rightarrow> byte list \<times> nat list \<Rightarrow> io_error + control_packet" where
  "packet_decode X received =
     (case received of (bytes, fds) \<Rightarrow>
      bindE (failIf (length bytes = 0) (OsError ''joining peer closed'')) (\<lambda>_.
      bindE (failIf (\<not> packet_framed bytes) (OsError ''invalid joining packet'')) (\<lambda>_.
      let opcode = unat (bytes ! 2) in
      if opcode = 1 \<and> length fds = 1 then Inr (DomainOffer (fds ! 0))
      else if opcode = 13 \<and> length fds = 1 then Inr (GatePacket (fds ! 0))
      else if opcode = 2 \<and> length fds = 0 then Inr DomainJoined
      else if opcode = 12 \<and> length fds = 0 then refused_decode X (drop 3 bytes)
      else if opcode = 11 \<and> length fds = 0 then cleaned_decode (drop 4 bytes)
      else if opcode = 9 \<and> length fds = 4 then Inr (VolumeNetwork (fds ! 0) (fds ! 1) (fds ! 2) (fds ! 3))
      else if opcode = 10 \<and> length fds = 5 then Inr (BootstrapNetwork (fds ! 0) (fds ! 1) (fds ! 2) (fds ! 3) (fds ! 4))
      else if opcode = 8 \<and> length fds = 3 then Inr (BootstrapPacket (fds ! 0) (fds ! 1) (fds ! 2))
      else if opcode = 5 \<and> length fds = 2 then Inr (VolumePacket (fds ! 0) (fds ! 1))
      else Inl (OsError ''joining opcode/descriptor mismatch''))))"

definition packet_receive :: "cbor_text \<Rightarrow> nat \<Rightarrow> channel \<Rightarrow> nat \<Rightarrow> nat \<Rightarrow> control_packet gate_run" where
  "packet_receive X fuel C deadline k =
     until_settled fuel (\<lambda>f. identity_ready f C deadline) (\<lambda>k'. receive_attempt 1030 (packet_decode X) (ch_recv C k')) k"

section \<open>The phases of the channel\<close>

definition run_bind :: "'a gate_run \<Rightarrow> ('a \<Rightarrow> nat \<Rightarrow> 'b gate_run) \<Rightarrow> 'b gate_run" where
  "run_bind r f =
     (case r of None \<Rightarrow> None | Some (Inl e, k) \<Rightarrow> Some (Inl e, k) | Some (Inr a, k) \<Rightarrow> f a k)"

definition join_helper :: "cbor_text \<Rightarrow> nat \<Rightarrow> nat \<Rightarrow> channel \<Rightarrow> nat \<Rightarrow> nat \<Rightarrow> unit gate_run" where
  "join_helper X domain fuel C deadline k =
     run_bind (packet_send X (DomainOffer domain) fuel C deadline k) (\<lambda>_ k.
     run_bind (packet_receive X fuel C deadline k) (\<lambda>packet k.
       Some (if packet = DomainJoined then Inr () else Inl (OsError ''expected domain joining acknowledgment''), k)))"

text \<open>The helper: \<open>threads\<close> and \<open>pid\<close> are its own, \<open>cgroup\<close> tells whether a descriptor is of a
cgroup, and \<open>written\<close> is what writing the membership answers.\<close>

definition join_domain ::
    "cbor_text \<Rightarrow> nat \<Rightarrow> nat \<Rightarrow> (nat \<Rightarrow> bool) \<Rightarrow> io_error + unit \<Rightarrow> nat \<Rightarrow> channel \<Rightarrow> nat \<Rightarrow> nat \<Rightarrow> unit gate_run" where
  "join_domain X threads pid cgroup written fuel C deadline k =
     (if threads \<noteq> 1 \<or> pid = 1
      then Some (Inl (OsError ''domain joining requires a dedicated single-threaded helper''), k)
      else run_bind (packet_receive X fuel C deadline k) (\<lambda>packet k.
        case packet of
          DomainOffer fd \<Rightarrow>
            (if \<not> cgroup fd then Some (Inl (OsError ''joining descriptor is not cgroup2''), k)
             else case written of
                Inl e \<Rightarrow> Some (Inl e, k)
              | Inr u \<Rightarrow> packet_send X DomainJoined fuel C deadline k)
        | _ \<Rightarrow> Some (Inl (OsError ''expected domain joining descriptor''), k)))"

definition receive_gate :: "cbor_text \<Rightarrow> (nat \<Rightarrow> bool) \<Rightarrow> nat \<Rightarrow> channel \<Rightarrow> nat \<Rightarrow> nat \<Rightarrow> nat gate_run" where
  "receive_gate X seqpacket fuel C deadline k =
     run_bind (packet_receive X fuel C deadline k) (\<lambda>packet k.
       case packet of
         GatePacket fd \<Rightarrow>
           Some (if seqpacket fd then Inr fd else Inl (OsError ''execution gate requires seqpacket''), k)
       | _ \<Rightarrow> Some (Inl (OsError ''expected execution endpoint''), k))"

record volume_input =
  vi_root :: nat
  vi_namespace :: nat
  vi_output :: "nat option"
  vi_network :: "(nat \<times> nat) option"

definition volume_input_of :: "(nat \<Rightarrow> io_error + unit) \<Rightarrow> control_packet \<Rightarrow> io_error + volume_input" where
  "volume_input_of resolver_view packet =
     (case packet of
        VolumePacket root namespace \<Rightarrow>
          Inr \<lparr>vi_root = root, vi_namespace = namespace, vi_output = None, vi_network = None\<rparr>
      | BootstrapPacket root out namespace \<Rightarrow>
          Inr \<lparr>vi_root = root, vi_namespace = namespace, vi_output = Some out, vi_network = None\<rparr>
      | VolumeNetwork root user resolver raw \<Rightarrow>
          bindE (resolver_view resolver) (\<lambda>_.
            Inr \<lparr>vi_root = root, vi_namespace = user, vi_output = None, vi_network = Some (resolver, raw)\<rparr>)
      | BootstrapNetwork root out user resolver raw \<Rightarrow>
          bindE (resolver_view resolver) (\<lambda>_.
            Inr \<lparr>vi_root = root, vi_namespace = user, vi_output = Some out, vi_network = Some (resolver, raw)\<rparr>)
      | _ \<Rightarrow> Inl (OsError ''expected volume input''))"

definition receive_volume ::
    "cbor_text \<Rightarrow> (nat \<Rightarrow> io_error + unit) \<Rightarrow> (nat \<Rightarrow> bool) \<Rightarrow> (nat \<Rightarrow> bool) \<Rightarrow> nat \<Rightarrow> channel \<Rightarrow> nat \<Rightarrow> nat \<Rightarrow> volume_input gate_run" where
  "receive_volume X resolver_view directory namespace fuel C deadline k =
     run_bind (packet_receive X fuel C deadline k) (\<lambda>packet k.
       Some (bindE (volume_input_of resolver_view packet) (\<lambda>v.
         bindE (failIf (case vi_output v of None \<Rightarrow> False | Some out \<Rightarrow> \<not> directory out) (OsError ''invalid output mount'')) (\<lambda>_.
         bindE (failIf (\<not> directory (vi_root v) \<or> \<not> namespace (vi_namespace v)) (OsError ''invalid volume input objects'')) (\<lambda>_.
           Inr v))), k))"

section \<open>Cleanup\<close>

text \<open>\<open>code\<close> and \<open>signal\<close> of a status.\<close>

definition status_code :: "exit_status \<Rightarrow> nat option" where
  "status_code raw = (if raw AND 0x7f = 0 then Some (unat (drop_bit 8 raw AND 0xff)) else None)"

definition status_signal :: "exit_status \<Rightarrow> nat option" where
  "status_signal raw =
     (let low = unat (raw AND 0x7f) in if 1 \<le> low \<and> low < 127 then Some low else None)"

definition shell_code :: "exit_status \<Rightarrow> nat" where
  "shell_code expected =
     (case status_code expected of
        Some code \<Rightarrow> code
      | None \<Rightarrow> 128 + (case status_signal expected of Some signal \<Rightarrow> signal | None \<Rightarrow> 1))"

definition cleanup_check :: "exit_status \<Rightarrow> control_packet \<Rightarrow> io_error + unit" where
  "cleanup_check expected packet =
     (case packet of
        Cleaned status \<Rightarrow>
          (if status_code status = Some (shell_code expected) then Inr ()
           else Inl (OsError ''namespace helper did not finish with the reported shell outcome''))
      | CleanupRefused message \<Rightarrow> Inl (OsError message)
      | _ \<Rightarrow> Inl (OsError ''expected receiver cleanup''))"

definition cleanup_until :: "cbor_text \<Rightarrow> exit_status \<Rightarrow> nat \<Rightarrow> channel \<Rightarrow> nat \<Rightarrow> nat \<Rightarrow> unit gate_run" where
  "cleanup_until X expected fuel C deadline k =
     run_bind (packet_receive X fuel C deadline k) (\<lambda>packet k. Some (cleanup_check expected packet, k))"

text \<open>\<open>floor_char_boundary\<close>: an index is a boundary unless the byte there continues a character.\<close>

definition char_boundary :: "string \<Rightarrow> nat \<Rightarrow> bool" where
  "char_boundary s i \<longleftrightarrow> i = length s \<or> i < length s \<and> \<not> (128 \<le> (of_char (s ! i) :: nat) \<and> (of_char (s ! i) :: nat) < 192)"

fun floor_char_boundary :: "string \<Rightarrow> nat \<Rightarrow> nat" where
  "floor_char_boundary s 0 = 0"
| "floor_char_boundary s (Suc i) =
     (if length s \<le> Suc i then length s else if char_boundary s (Suc i) then Suc i else floor_char_boundary s i)"

definition cleanup_failure_packet :: "string \<Rightarrow> control_packet" where
  "cleanup_failure_packet error =
     (let message = ''receiver cleanup: '' @ error in CleanupRefused (take (floor_char_boundary message 1024) message))"


section \<open>The waits\<close>

lemma identity_ready_returns:
  "\<forall>i\<ge>n. deadline \<le> ch_clock C i \<Longrightarrow> n \<le> k + m \<Longrightarrow> identity_ready (Suc m) C deadline k \<noteq> None"
proof (induction m arbitrary: k)
  case 0
  then show ?case by (simp add: deadline_remaining_def)
next
  case (Suc m)
  from Suc.IH [of "k + 1"] Suc.prems have "identity_ready (Suc m) C deadline (k + 1) \<noteq> None" by simp
  then show ?case
    by (auto simp del: identity_ready.simps simp add: identity_ready.simps(2) [of "Suc m"]
        split: sum.splits poll_answer.splits errno.splits)
qed

lemma identity_ready_calls: "identity_ready fuel C deadline k = Some (r, k') \<Longrightarrow> k < k'"
  by (induction fuel arbitrary: k) (force split: sum.splits poll_answer.splits errno.splits if_splits)+

lemma identity_ready_before:
  "identity_ready fuel C deadline k = Some (Inr u, k') \<Longrightarrow> \<exists>i. k \<le> i \<and> k' = i + 1 \<and> ch_clock C i < deadline"
  by (induction fuel arbitrary: k)
    (force simp: deadline_remaining_def bindE_Inr_iff split: sum.splits poll_answer.splits errno.splits if_splits)+

interpretation control: bounded_wait C deadline "\<lambda>f. identity_ready f C deadline" for C deadline
proof unfold_locales
  show "identity_ready (Suc m) C deadline k \<noteq> None" if "\<forall>i\<ge>n. deadline \<le> ch_clock C i" "n \<le> k + m" for n k m
    using identity_ready_returns [OF that] .
qed (auto dest: identity_ready_calls identity_ready_before)

text \<open>With fuel beyond the call at which the deadline has passed, every phase returns.\<close>

lemma packet_receive_returns:
  "\<forall>i\<ge>n. deadline \<le> ch_clock C i \<Longrightarrow> packet_receive X (Suc n) C deadline k \<noteq> None"
  unfolding packet_receive_def by (rule control.settled_returns) (blast, rule le_add2)

lemma packet_send_returns:
  "\<forall>i\<ge>n. deadline \<le> ch_clock C i \<Longrightarrow> packet_send X packet (Suc n) C deadline k \<noteq> None"
  unfolding packet_send_def using control.settled_returns [of n deadline C k n, OF _ le_add2]
  by (auto simp del: until_settled.simps split: sum.splits)

lemma run_bind_returns: "r \<noteq> None \<Longrightarrow> (\<And>a k. f a k \<noteq> None) \<Longrightarrow> run_bind r f \<noteq> None"
  by (auto simp: run_bind_def split: sum.splits)

lemma exchange_returns:
  "\<forall>i\<ge>n. deadline \<le> ch_clock C i \<Longrightarrow> exchange_until (Suc n) C deadline k \<noteq> None"
  unfolding exchange_until_def send_identity_def receive_identity_def
  using control.settled_returns [where 'a = unit, of n deadline C _ n, OF _ le_add2]
    control.settled_returns [where 'a = nat, of n deadline C _ n, OF _ le_add2]
  by (auto simp del: until_settled.simps split: option.splits sum.splits)

lemma phases_return:
  assumes "\<forall>i\<ge>n. deadline \<le> ch_clock C i"
  shows "join_helper X domain (Suc n) C deadline k \<noteq> None" "cleanup_until X expected (Suc n) C deadline k \<noteq> None"
    "receive_gate X seqpacket (Suc n) C deadline k \<noteq> None"
    "receive_volume X resolver_view directory namespace (Suc n) C deadline k \<noteq> None"
  unfolding join_helper_def cleanup_until_def receive_gate_def receive_volume_def
  by (intro run_bind_returns packet_receive_returns [OF assms] packet_send_returns [OF assms] option.simps(3);
      auto split: control_packet.splits)+

section \<open>Packets are exact\<close>

text \<open>Accepted framing, by opcode.\<close>

lemma framed_short:
  "packet_framed bytes \<Longrightarrow> bytes ! 2 \<noteq> 11 \<Longrightarrow> bytes ! 2 \<noteq> 12 \<Longrightarrow> bytes = [0x82, 1, bytes ! 2]"
proof -
  assume a: "packet_framed bytes" "bytes ! 2 \<noteq> 11" "bytes ! 2 \<noteq> 12"
  then have "length bytes = 3" "take 2 bytes = [0x82, 1]"
    by (auto simp: packet_framed_def) (auto dest: arg_cong [where f = "\<lambda>x. x ! 2"])
  then show ?thesis by (auto simp: length_Suc_conv numeral_eq_Suc)
qed

lemma framed_cleaned:
  "packet_framed bytes \<Longrightarrow> bytes ! 2 = 11 \<Longrightarrow> length bytes = 8 \<and> bytes = [0x83, 1, 11, 0x44] @ drop 4 bytes"
proof -
  assume a: "packet_framed bytes" "bytes ! 2 = 11"
  then have "length bytes = 8" "take 4 bytes = [0x83, 1, 11, 0x44]"
    by (auto simp: packet_framed_def) (auto dest: arg_cong [where f = "\<lambda>x. x ! 2"])
  then show ?thesis by (metis append_take_drop_id)
qed

lemma framed_refused:
  "packet_framed bytes \<Longrightarrow> bytes ! 2 = 12 \<Longrightarrow> bytes = [0x82, 1, 12] \<or> bytes = [0x83, 1, 12] @ drop 3 bytes"
proof -
  assume a: "packet_framed bytes" "bytes ! 2 = 12"
  then consider "length bytes = 3" "take 2 bytes = [0x82, 1]" | "take 3 bytes = [0x83, 1, 12]"
    by (auto simp: packet_framed_def) (auto dest: arg_cong [where f = "\<lambda>x. x ! 2"])
  then show ?thesis
  proof cases
    case 1
    with a(2) show ?thesis by (auto simp: length_Suc_conv numeral_eq_Suc)
  next
    case 2
    then show ?thesis by (metis append_take_drop_id)
  qed
qed

lemma refused_decode_iff:
  "cbor_text_laws X \<Longrightarrow> refused_decode X payload = Inr packet \<longleftrightarrow>
     (\<exists>message. packet = CleanupRefused message \<and> message \<noteq> [] \<and> length message \<le> 1024 \<and> payload = ct_write X message)"
  by (auto simp: refused_decode_def cbor_text_laws_def bindE_Inr_iff mapErr_def split: sum.splits)

lemma cleaned_decode_iff:
  assumes "length payload = 4"
  shows "cleaned_decode payload = Inr packet \<longleftrightarrow>
    (\<exists>raw. packet = Cleaned raw \<and> terminal_status raw \<and> payload = rev (le_bytes 4 (unat raw)))"
proof -
  have v: "le_value (rev payload) < 2 ^ 32" using le_value_bound [of "rev payload"] assms by simp
  have "payload = rev (le_bytes 4 (unat raw)) \<longleftrightarrow> raw = word_of_nat (le_value (rev payload))" for raw :: exit_status
  proof
    assume "payload = rev (le_bytes 4 (unat raw))"
    then have "le_value (rev payload) = unat raw" using unsigned_less [where 'a = nat and w = raw] by simp
    then show "raw = word_of_nat (le_value (rev payload))" by simp
  next
    assume "raw = word_of_nat (le_value (rev payload))"
    then have "unat raw = le_value (rev payload)" using v by (simp add: unat_word32)
    then show "payload = rev (le_bytes 4 (unat raw))" using assms by (simp add: le_bytes_value)
  qed
  then show ?thesis
    by (auto simp: cleaned_decode_def Let_def bindE_Inr_iff terminal_status_iff)
qed

lemma opcode_iff: "unat (b :: byte) = v \<longleftrightarrow> v < 256 \<and> b = word_of_nat v"
  using unat_byte [of b] by (auto simp: unat_of_nat)

definition packet_sendable :: "control_packet \<Rightarrow> bool" where
  "packet_sendable packet \<longleftrightarrow> (case packet of Cleaned status \<Rightarrow> terminal_status status | _ \<Rightarrow> True)"

lemma packet_decode_encode:
  assumes "cbor_text_laws X" "packet_bytes X packet = Inr bytes" "packet_sendable packet"
  shows "packet_decode X (bytes, snd (packet_parts packet)) = Inr packet"
proof (cases packet)
  case (CleanupRefused message)
  with assms(1,2) have b: "bytes = [0x83, 1, 12] @ ct_write X message" "message \<noteq> []" "length message \<le> 1024"
    by (auto simp: bindE_Inr_iff)
  moreover have "2 \<le> length (ct_write X message)" using assms(1) b(2) by (simp add: cbor_text_laws_def)
  ultimately have "packet_framed bytes" "bytes ! 2 = 12" "drop 3 bytes = ct_write X message"
    by (auto simp: packet_framed_def)
  with CleanupRefused b refused_decode_iff [OF assms(1), of "ct_write X message" packet] show ?thesis
    by (auto simp: packet_decode_def Let_def)
next
  case (Cleaned raw)
  with assms(2,3) have b: "bytes = [0x83, 1, 11, 0x44] @ rev (le_bytes 4 (unat raw))" "terminal_status raw"
    by (simp_all add: packet_sendable_def)
  then have "packet_framed bytes" "bytes ! 2 = 11" "drop 4 bytes = rev (le_bytes 4 (unat raw))"
    by (simp_all add: packet_framed_def)
  with Cleaned b cleaned_decode_iff [of "rev (le_bytes 4 (unat raw))" packet] show ?thesis
    by (auto simp: packet_decode_def Let_def)
qed (use assms(2) in \<open>auto simp: packet_decode_def packet_framed_def Let_def\<close>)

lemma list_of_length:
  "length xs = 1 \<longleftrightarrow> xs = [xs ! 0]" "length xs = 2 \<longleftrightarrow> xs = [xs ! 0, xs ! 1]"
  "length xs = 3 \<longleftrightarrow> xs = [xs ! 0, xs ! 1, xs ! 2]" "length xs = 4 \<longleftrightarrow> xs = [xs ! 0, xs ! 1, xs ! 2, xs ! 3]"
  "length xs = 5 \<longleftrightarrow> xs = [xs ! 0, xs ! 1, xs ! 2, xs ! 3, xs ! 4]"
  by (rule iffI; (auto simp: length_Suc_conv numeral_eq_Suc)[1]; metis list.size(3,4) numeral_eq_Suc pred_numeral_simps One_nat_def add_Suc_right add_0_right)+


lemma packet_encode_decode:
  assumes "cbor_text_laws X" "packet_decode X (bytes, fds) = Inr packet"
  shows "packet_bytes X packet = Inr bytes \<and> snd (packet_parts packet) = fds \<and> packet_sendable packet"
proof -
  define opcode where "opcode = unat (bytes ! 2)"
  from assms(2) have framed: "packet_framed bytes" by (auto simp: packet_decode_def bindE_Inr_iff)
  have plain: "bytes = [0x82, 1, word_of_nat v]" if "opcode = v" "v \<notin> {11, 12}" for v
    using framed_short [OF framed] that opcode_iff [of "bytes ! 2" 11] opcode_iff [of "bytes ! 2" 12] unfolding opcode_def by auto
  have one: "xs = [xs ! 0]" if "length xs = 1" for xs :: "nat list" using that list_of_length(1) by blast
  have two: "xs = [xs ! 0, xs ! 1]" if "length xs = 2" for xs :: "nat list" using that list_of_length(2) by blast
  have three: "xs = [xs ! 0, xs ! 1, xs ! 2]" if "length xs = 3" for xs :: "nat list" using that list_of_length(3) by blast
  have four: "xs = [xs ! 0, xs ! 1, xs ! 2, xs ! 3]" if "length xs = 4" for xs :: "nat list" using that list_of_length(4) by blast
  have five: "xs = [xs ! 0, xs ! 1, xs ! 2, xs ! 3, xs ! 4]" if "length xs = 5" for xs :: "nat list" using that list_of_length(5) by blast
  from assms(2) framed consider
      (offer) "opcode = 1" "length fds = 1" "packet = DomainOffer (fds ! 0)"
    | (gate) "opcode = 13" "length fds = 1" "packet = GatePacket (fds ! 0)"
    | (joined) "opcode = 2" "fds = []" "packet = DomainJoined"
    | (refused) "opcode = 12" "fds = []" "refused_decode X (drop 3 bytes) = Inr packet"
    | (cleaned) "opcode = 11" "fds = []" "cleaned_decode (drop 4 bytes) = Inr packet"
    | (network) "opcode = 9" "length fds = 4" "packet = VolumeNetwork (fds ! 0) (fds ! 1) (fds ! 2) (fds ! 3)"
    | (both) "opcode = 10" "length fds = 5" "packet = BootstrapNetwork (fds ! 0) (fds ! 1) (fds ! 2) (fds ! 3) (fds ! 4)"
    | (boot) "opcode = 8" "length fds = 3" "packet = BootstrapPacket (fds ! 0) (fds ! 1) (fds ! 2)"
    | (volume) "opcode = 5" "length fds = 2" "packet = VolumePacket (fds ! 0) (fds ! 1)"
    by (auto simp: packet_decode_def Let_def opcode_def [symmetric] bindE_Inr_iff split: if_splits)
  then show ?thesis
  proof cases
    case offer
    with plain [of 1] one show ?thesis by (simp add: packet_sendable_def)
  next
    case gate
    with plain [of 13] one show ?thesis by (simp add: packet_sendable_def)
  next
    case joined
    with plain [of 2] show ?thesis by (simp add: packet_sendable_def)
  next
    case refused
    then obtain message where m: "packet = CleanupRefused message" "message \<noteq> []" "length message \<le> 1024" "drop 3 bytes = ct_write X message"
      using refused_decode_iff [OF assms(1)] by blast
    have "2 \<le> length (drop 3 bytes)" using assms(1) m(2,4) by (simp add: cbor_text_laws_def)
    moreover have "bytes ! 2 = 12" using refused(1) by (simp add: opcode_def opcode_iff)
    ultimately have "bytes = [0x83, 1, 12] @ drop 3 bytes" using framed_refused [OF framed] by auto
    with m refused(2) show ?thesis by (simp add: packet_sendable_def)
  next
    case cleaned
    then have "bytes ! 2 = 11" by (simp add: opcode_def opcode_iff)
    from framed_cleaned [OF framed this] have b: "length (drop 4 bytes) = 4" "bytes = [0x83, 1, 11, 0x44] @ drop 4 bytes" by simp_all
    from cleaned cleaned_decode_iff [OF b(1)] obtain raw where
      "packet = Cleaned raw" "terminal_status raw" "drop 4 bytes = rev (le_bytes 4 (unat raw))" by blast
    with b(2) cleaned(2) show ?thesis by (simp add: packet_sendable_def)
  next
    case network
    with plain [of 9] four show ?thesis by (simp add: packet_sendable_def)
  next
    case both
    with plain [of 10] five show ?thesis by (simp add: packet_sendable_def)
  next
    case boot
    with plain [of 8] three show ?thesis by (simp add: packet_sendable_def)
  next
    case volume
    with plain [of 5] two show ?thesis by (simp add: packet_sendable_def)
  qed
qed

lemma packet_bytes_length:
  assumes "cbor_text_laws X" "packet_bytes X packet = Inr bytes"
  shows "0 < length bytes \<and> length bytes \<le> 1030"
proof (cases packet)
  case (CleanupRefused message)
  with assms(2) have "bytes = [0x83, 1, 12] @ ct_write X message" "length message \<le> 1024" by (auto simp: bindE_Inr_iff)
  moreover then have "length (ct_write X message) \<le> length message + 3" using assms(1) by (simp add: cbor_text_laws_def)
  ultimately show ?thesis by simp
qed (use assms(2) in auto)

section \<open>Acknowledging the cleanup\<close>

lemma floor_char_boundary_bound: "floor_char_boundary s i \<le> i \<and> (s \<noteq> [] \<longrightarrow> floor_char_boundary s i \<le> length s)"
  by (induction s i rule: floor_char_boundary.induct) auto

text \<open>A failure of the receiver can always be sent, however long its text is.\<close>

lemma floor_char_boundary_prefix:
  "k \<le> i \<Longrightarrow> k \<le> length s \<Longrightarrow> char_boundary s k \<or> k = 0 \<Longrightarrow> k \<le> floor_char_boundary s i"
  by (induction s i rule: floor_char_boundary.induct) (auto simp: le_Suc_eq)

lemma cleanup_failure_sendable:
  assumes "cbor_text_laws X"
  shows "\<exists>bytes. packet_bytes X (cleanup_failure_packet e) = Inr bytes"
proof -
  define message where "message = ''receiver cleanup: '' @ e"
  have "char_boundary message 1" by (simp add: char_boundary_def message_def)
  then have "1 \<le> floor_char_boundary message 1024" by (intro floor_char_boundary_prefix) (simp_all add: message_def)
  moreover have "floor_char_boundary message 1024 \<le> 1024" using floor_char_boundary_bound by blast
  moreover have "message \<noteq> []" by (simp add: message_def)
  ultimately show ?thesis unfolding cleanup_failure_packet_def Let_def message_def [symmetric]
    by (auto simp: failIf_def)
qed

lemma terminal_code:
  assumes "code < 256"
  shows "status_code (word_of_nat (code * 256)) = Some code"
proof -
  have u: "unat (word_of_nat (code * 256) :: 32 word) = code * 256" using assms unat_word32 [of "code * 256"] by simp
  have "unat ((word_of_nat (code * 256) :: 32 word) AND mask 7) = code * 256 mod 128"
    by (simp only: take_bit_eq_mask [symmetric] unsigned_take_bit_eq u) (simp add: take_bit_eq_mod)
  also have "\<dots> = 0" by presburger
  finally have low: "(word_of_nat (code * 256) :: 32 word) AND 0x7f = 0" by (simp add: status_masks(3) unat_eq_0)
  have "unat (drop_bit 8 (word_of_nat (code * 256) :: 32 word) AND mask 8) = code"
    using assms by (simp only: take_bit_eq_mask [symmetric] unsigned_take_bit_eq unsigned_drop_bit_eq u)
      (simp add: take_bit_eq_mod drop_bit_eq_div)
  moreover have "(0xff :: 32 word) = mask 8" by (simp add: mask_eq_exp_minus_1)
  ultimately show ?thesis using low by (simp add: status_code_def)
qed

lemma terminal_signal:
  assumes "1 \<le> signal" "signal \<le> 64" "raw = word_of_nat signal \<or> raw = word_of_nat (signal + 128)"
  shows "status_code raw = None" "status_signal raw = Some signal"
proof -
  have "unat (raw AND 0x7f) = signal" using assms low_bits(1) [of signal] low_bits(1) [of "signal + 128"] by auto
  then show "status_code raw = None" "status_signal raw = Some signal"
    using assms(1,2) by (auto simp: status_code_def status_signal_def)
qed


lemma terminal_cases:
  assumes "terminal_status raw"
  obtains (code) code where "code < 256" "raw = word_of_nat (code * 256)" "status_code raw = Some code" "shell_code raw = code"
  | (signal) signal where "1 \<le> signal" "signal \<le> 64" "raw = word_of_nat signal \<or> raw = word_of_nat (signal + 128)"
      "status_code raw = None" "shell_code raw = 128 + signal"
proof -
  from assms consider code where "code < 256" "raw = word_of_nat (code * 256)"
    | signal where "1 \<le> signal" "signal \<le> 64" "raw = word_of_nat signal \<or> raw = word_of_nat (signal + 128)"
    unfolding terminal_status_def by blast
  then show ?thesis
  proof cases
    case 1
    with terminal_code [OF 1(1)] code [of code] show ?thesis by (simp add: shell_code_def)
  next
    case 2
    with terminal_signal [OF 2] signal [of signal] show ?thesis by (simp add: shell_code_def)
  qed
qed

section \<open>Properties\<close>

text \<open>What a helper or the supervisor accepts from the control channel are exactly the packets
that the other side can send, with exactly their descriptors, and every packet fits the buffer.\<close>

theorem control_packets_exact:
  assumes "cbor_text_laws X"
  shows "(packet_decode X (bytes, fds) = Inr packet \<longleftrightarrow>
      packet_bytes X packet = Inr bytes \<and> snd (packet_parts packet) = fds \<and> packet_sendable packet) \<and>
    (packet_bytes X packet = Inr bytes \<longrightarrow> 0 < length bytes \<and> length bytes \<le> 1030)"
  using packet_decode_encode [OF assms] packet_encode_decode [OF assms] packet_bytes_length [OF assms] by blast

text \<open>C4: A cleanup counts as acknowledged only when, before the deadline, the helper itself sent
that its namespace ended with the outcome of the shell: the same exit code, or 128 and the number
of the signal that ended it.\<close>

theorem cleanup_acknowledged:
  assumes "cbor_text_laws X" "terminal_status expected"
    and "cleanup_until X expected fuel C deadline k = Some (Inr (), k')"
  shows "\<exists>i d code. ch_clock C i < deadline \<and> ch_recv C (i + 1) = Inr d \<and> code < 256 \<and>
    packet_bytes X (Cleaned (word_of_nat (code * 256))) = Inr (dg_bytes d) \<and> dg_descriptors d = [] \<and>
    (expected = word_of_nat (code * 256) \<or>
     (\<exists>signal. code = 128 + signal \<and> (expected = word_of_nat signal \<or> expected = word_of_nat (signal + 128))))"
proof -
  from assms(3) obtain packet where r: "packet_receive X fuel C deadline k = Some (Inr packet, k')"
    and c: "cleanup_check expected packet = Inr ()"
    by (auto simp: cleanup_until_def run_bind_def split: option.splits sum.splits)
  from c obtain status where st: "packet = Cleaned status" "status_code status = Some (shell_code expected)"
    by (auto simp: cleanup_check_def split: control_packet.splits if_splits)
  from control.settled_attempt [OF r [unfolded packet_receive_def]] obtain i d where i: "ch_clock C i < deadline"
    "ch_recv C (i + 1) = Inr d" "packet_decode X (dg_bytes d, dg_descriptors d) = Inr (Cleaned status)"
    by (auto simp: receive_attempt_accepts st(1))
  from packet_encode_decode [OF assms(1) i(3)] have p: "packet_bytes X (Cleaned status) = Inr (dg_bytes d)"
    "dg_descriptors d = []" "terminal_status status" by (simp_all add: packet_sendable_def)
  from p(3) st(2) have s: "status = word_of_nat (shell_code expected * 256)" "shell_code expected < 256"
    by (cases rule: terminal_cases; simp)+
  from assms(2) have "expected = word_of_nat (shell_code expected * 256) \<or>
     (\<exists>signal. shell_code expected = 128 + signal \<and> (expected = word_of_nat signal \<or> expected = word_of_nat (signal + 128)))"
    by (cases rule: terminal_cases) auto
  with i p s show ?thesis by blast
qed

section \<open>An example\<close>

definition cbor_text_ref :: cbor_text where
  "cbor_text_ref =
     \<lparr>ct_write = (\<lambda>m. (if length m < 2 ^ 16 then 0x79 # rev (le_bytes 2 (length m)) else 0x7b # rev (le_bytes 8 (length m))) @
        map (\<lambda>c. word_of_nat (of_char c)) m),
      ct_read = (\<lambda>bs. case bs of [] \<Rightarrow> Inl (OsError ''end'')
        | b # rest \<Rightarrow> let width = (if b = 0x79 then 2 else 8) in
            Inr (map (\<lambda>w. char_of (unat w)) (take (le_value (rev (take width rest))) (drop width rest))))\<rparr>"

lemma cbor_char_byte: "char_of (unat (word_of_nat (of_char c :: nat) :: byte)) = c"
proof -
  have "(of_char c :: nat) < 256" using of_char_mod_256 [of c, where 'a = nat] by (metis mod_less_divisor zero_less_numeral)
  then show ?thesis by (simp add: unat_of_nat)
qed

lemma cbor_text_ref_laws: "cbor_text_laws cbor_text_ref"
proof -
  have small: "n < 2 ^ 16 \<Longrightarrow> le_value (le_bytes 2 n) = n" "n < 2 ^ 64 \<Longrightarrow> le_value (le_bytes 8 n) = n" for n
    by simp_all
  have "ct_read cbor_text_ref (ct_write cbor_text_ref m) = Inr m" if "length m < 2 ^ 64" for m
    using that small [of "length m"] by (simp add: cbor_text_ref_def Let_def comp_def cbor_char_byte)
  moreover have "2 \<le> length (ct_write cbor_text_ref m)" if "m \<noteq> []" for m
    using that by (simp add: cbor_text_ref_def)
  ultimately show ?thesis by (auto simp: cbor_text_laws_def) (simp add: cbor_text_ref_def)
qed

lemma control_packets_exact_witness:
  "packet_decode cbor_text_ref ([0x82, 1, 5], [7, 9]) = Inr (VolumePacket 7 9) \<and>
   packet_decode cbor_text_ref ([0x82, 1, 5], [7]) \<noteq> Inr (VolumePacket 7 9)"
  using control_packets_exact [OF cbor_text_ref_laws, of "[0x82, 1, 5]" "[7, 9]" "VolumePacket 7 9"]
    control_packets_exact [OF cbor_text_ref_laws, of "[0x82, 1, 5]" "[7]" "VolumePacket 7 9"]
  by (simp add: packet_sendable_def)

definition cleaned_channel :: channel where
  "cleaned_channel =
     \<lparr>ch_clock = id, ch_poll = (\<lambda>_. PollEvents True), ch_send = (\<lambda>_. Inl EAGAIN),
      ch_recv = (\<lambda>_. Inr (plain [0x83, 1, 11, 0x44, 0, 0, 137, 0]))\<rparr>"

lemma cleaned_channel_run: "cleanup_until cbor_text_ref 9 (Suc 0) cleaned_channel 5 0 = Some (Inr (), 2)"
proof -
  have "packet_decode cbor_text_ref ([0x83, 1, 11, 0x44, 0, 0, 137, 0], []) = Inr (Cleaned 35072)"
  proof -
    have "le_bytes 4 35072 = [0, 137, 0, 0]" by code_simp
    then have "packet_bytes cbor_text_ref (Cleaned 35072) = Inr [0x83, 1, 11, 0x44, 0, 0, 137, 0]" by simp
    moreover have "terminal_status 35072" unfolding terminal_status_def by (intro disjI1 exI [of _ 137]) simp
    ultimately show ?thesis
      using packet_decode_encode [OF cbor_text_ref_laws, of "Cleaned 35072"] by (simp add: packet_sendable_def)
  qed
  moreover have "cleanup_check 9 (Cleaned 35072) = Inr ()"
    by (simp add: cleanup_check_def status_code_def shell_code_def status_signal_def)
  ultimately show ?thesis
    by (simp add: cleanup_until_def run_bind_def packet_receive_def deadline_remaining_def cleaned_channel_def failIf_def
        receive_attempt_def receive_now_def plain_def)
qed

lemma cleanup_acknowledged_witness:
  "\<exists>i d. ch_clock cleaned_channel i < 5 \<and> ch_recv cleaned_channel (i + 1) = Inr d \<and> dg_descriptors d = []"
proof -
  have "terminal_status 9" unfolding terminal_status_def by (intro disjI2 exI [of _ 9]) simp
  from cleanup_acknowledged [OF cbor_text_ref_laws this cleaned_channel_run] show ?thesis by blast
qed

end
