(* ===== verification/Text_Lines.thy ===== *)
theory Text_Lines
  imports Prelude
begin

text \<open>
  The parts of the standard library that take texts of the kernel and of tools apart:
  \<open>lines\<close>, \<open>split_whitespace\<close> and \<open>trim\<close>.  A string is its UTF-8 bytes, and white space is
  that of Unicode.
\<close>

section \<open>White space\<close>

definition byte_at :: "string \<Rightarrow> nat \<Rightarrow> nat" where
  "byte_at s i = (if i < length s then of_char (s ! i) else 0)"

text \<open>The length of the white space character that a text starts with, zero when it starts with
none: the ASCII ones, U+0085, U+00A0, U+1680, U+2000 to U+200A, U+2028, U+2029, U+202F, U+205F
and U+3000.\<close>

definition space_at :: "string \<Rightarrow> nat" where
  "space_at s =
     (let a = byte_at s 0; b = byte_at s 1; c = byte_at s 2 in
      if 9 \<le> a \<and> a \<le> 13 \<or> a = 32 then 1
      else if a = 0xC2 \<and> (b = 0x85 \<or> b = 0xA0) then 2
      else if a = 0xE1 \<and> b = 0x9A \<and> c = 0x80 then 3
      else if a = 0xE2 \<and> b = 0x80 \<and> (0x80 \<le> c \<and> c \<le> 0x8A \<or> c = 0xA8 \<or> c = 0xA9 \<or> c = 0xAF) then 3
      else if a = 0xE2 \<and> b = 0x81 \<and> c = 0x9F then 3
      else if a = 0xE3 \<and> b = 0x80 \<and> c = 0x80 then 3
      else 0)"

function split_words :: "string \<Rightarrow> string \<Rightarrow> string list" where
  "split_words word [] = (if word = [] then [] else [word])"
| "split_words word (c # s) =
     (if space_at (c # s) = 0 then split_words (word @ [c]) s
      else (if word = [] then [] else [word]) @ split_words [] (drop (space_at (c # s)) (c # s)))"
  by pat_completeness auto

termination
  by (relation "measure (\<lambda>(_, s). length s)") (auto simp: Suc_le_eq)

definition split_whitespace :: "string \<Rightarrow> string list" where
  "split_whitespace s = split_words [] s"

function trim_start :: "string \<Rightarrow> string" where
  "trim_start s = (if s = [] \<or> space_at s = 0 then s else trim_start (drop (space_at s) s))"
  by auto

termination
  by (relation "measure length") auto

declare trim_start.simps [simp del]

fun trim_end :: "string \<Rightarrow> string" where
  "trim_end [] = []"
| "trim_end (c # s) = (if trim_start (c # s) = [] then [] else c # trim_end s)"

definition trim_text :: "string \<Rightarrow> string" where
  "trim_text s = trim_end (trim_start s)"

section \<open>Lines\<close>

definition strip_return :: "string \<Rightarrow> string" where
  "strip_return s = (if s \<noteq> [] \<and> last s = CHR 0x0D then butlast s else s)"

text \<open>A last line without a line feed keeps its carriage return.\<close>

definition text_lines :: "string \<Rightarrow> string list" where
  "text_lines s =
     (let parts = split_on (CHR 0x0A) s in
      map strip_return (butlast parts) @ (if last parts = [] then [] else [last parts]))"

section \<open>Words of plain texts\<close>

definition plain_word :: "string \<Rightarrow> bool" where
  "plain_word w \<longleftrightarrow> w \<noteq> [] \<and> (\<forall>c\<in>set w. 32 < (of_char c :: nat) \<and> (of_char c :: nat) < 128)"

lemma plain_space: "32 < (of_char c :: nat) \<Longrightarrow> (of_char c :: nat) < 128 \<Longrightarrow> space_at (c # s) = 0"
  by (simp add: space_at_def byte_at_def Let_def)

lemma blank_space: "space_at (CHR '' '' # s) = 1"
  by (simp add: space_at_def byte_at_def Let_def)

lemma split_words_plain:
  assumes "\<forall>c\<in>set w. 32 < (of_char c :: nat) \<and> (of_char c :: nat) < 128"
  shows "split_words v (w @ s) = split_words (v @ w) s"
  using assms by (induction w arbitrary: v) (simp_all add: plain_space)

lemma split_plain_word [simp]: "plain_word w \<Longrightarrow> split_whitespace w = [w]"
  using split_words_plain [of w "[]" "[]"] by (simp add: plain_word_def split_whitespace_def)

lemma split_plain_words [simp]:
  "plain_word w \<Longrightarrow> split_whitespace (w @ CHR '' '' # s) = w # split_whitespace s"
  using split_words_plain [of w "[]" "CHR '' '' # s"] by (simp add: plain_word_def split_whitespace_def blank_space)

end
