(* ===== verification/Domain_Quiescence.thy ===== *)
theory Domain_Quiescence
  imports Isolation_Gate Text_Lines
begin

text \<open>
  How the supervisor knows that nothing of a command runs any more: the cancellation of its
  control group (\<open>domain/mod.rs\<close>, \<open>domain/events.rs\<close>), the observation of a process
  (\<open>process/observation.rs\<close>) and the draining of adopted children (\<open>process/reaper.rs\<close>).  As
  for the gate, the answers of the kernel are functions of the number of calls made so far,
  and the loops run on fuel.
\<close>

section \<open>Waiting for a state\<close>

text \<open>The common form of both waits: sample the state, which may settle the result, and only
then look at the deadline and wait for a notification, which leads to another sample.\<close>

fun watch_until ::
    "nat \<Rightarrow> (nat \<Rightarrow> nat) \<Rightarrow> string \<Rightarrow> (nat \<Rightarrow> (io_error + unit) option) \<Rightarrow>
     (nat \<Rightarrow> (io_error + unit) option) \<Rightarrow> nat \<Rightarrow> nat \<Rightarrow> unit gate_run" where
  "watch_until 0 clock expired sample notice deadline k = None"
| "watch_until (Suc fuel) clock expired sample notice deadline k =
     (case sample k of
        Some r \<Rightarrow> Some (r, k + 1)
      | None \<Rightarrow>
          (case deadline_remaining expired deadline (clock (k + 1)) of
             Inl e \<Rightarrow> Some (Inl e, k + 2)
           | Inr timeout \<Rightarrow>
               (case notice (k + 2) of
                  Some r \<Rightarrow> Some (r, k + 3)
                | None \<Rightarrow> watch_until fuel clock expired sample notice deadline (k + 3))))"

text \<open>Once the clock has passed the deadline, one round is enough.\<close>

lemma watch_returns:
  "\<forall>i\<ge>n. deadline \<le> clock i \<Longrightarrow> n \<le> k + 1 + m \<Longrightarrow>
     watch_until (Suc m) clock expired sample notice deadline k \<noteq> None"
proof (induction m arbitrary: k)
  case 0
  then have "deadline \<le> clock (k + 1)" by simp
  then show ?case by (auto simp: deadline_remaining_def failIf_def split: option.split)
next
  case (Suc m)
  from Suc.IH [OF Suc.prems(1), of "k + 3"] Suc.prems(2)
  have "watch_until (Suc m) clock expired sample notice deadline (k + 3) \<noteq> None" by simp
  then show ?case
    unfolding watch_until.simps(2) [of "Suc m" clock expired sample notice deadline k]
    by (simp split: option.split sum.split del: watch_until.simps)
qed

text \<open>A wait succeeds by a sample, unless a notice alone can report success.\<close>

lemma watch_success:
  "watch_until fuel clock expired sample notice deadline k = Some (Inr u, k') \<Longrightarrow>
     \<forall>j. notice j \<noteq> Some (Inr ()) \<Longrightarrow> \<exists>j\<ge>k. sample j = Some (Inr ()) \<and> k' = j + 1"
proof (induction fuel arbitrary: k)
  case (Suc fuel)
  show ?case
  proof (cases "sample k")
    case None
    with Suc.prems have "watch_until fuel clock expired sample notice deadline (k + 3) = Some (Inr u, k')"
      by (auto split: option.splits sum.splits)
    from Suc.IH [OF this Suc.prems(2)] obtain j where "k + 3 \<le> j" "sample j = Some (Inr ())" "k' = j + 1" by blast
    then show ?thesis by (intro exI [of _ j]) simp
  qed (use Suc.prems in auto)
qed simp

section \<open>The events of a control group\<close>

fun events_scan :: "string list \<Rightarrow> bool option \<Rightarrow> io_error + bool option" where
  "events_scan [] populated = Inr populated"
| "events_scan (line # rest) populated =
     (case split_whitespace line of
        [] \<Rightarrow> events_scan rest populated
      | key # words \<Rightarrow>
          if key \<noteq> ''populated'' then events_scan rest populated
          else
            bindE (case words of
                [] \<Rightarrow> Inl (OsError ''invalid cgroup populated value'')
              | v # others \<Rightarrow>
                  if v = ''0'' then Inr False else if v = ''1'' then Inr True
                  else Inl (OsError ''invalid cgroup populated value'')) (\<lambda>v.
            bindE (failIf (tl words \<noteq> [] \<or> populated \<noteq> None) (OsError ''ambiguous cgroup populated value'')) (\<lambda>_.
              events_scan rest (Some v))))"

definition domain_events :: "string \<Rightarrow> io_error + bool" where
  "domain_events events =
     bindE (events_scan (text_lines events) None) (okOr (OsError ''missing cgroup populated value''))"

record domain_kernel =
  dk_clock :: "nat \<Rightarrow> nat"
  dk_lease :: "nat \<Rightarrow> io_error + unit"
  dk_open :: "nat \<Rightarrow> string \<Rightarrow> io_error + unit"
  dk_text :: "nat \<Rightarrow> string \<Rightarrow> io_error + string"
  dk_write :: "nat \<Rightarrow> string \<Rightarrow> string \<Rightarrow> io_error + unit"
  dk_remove :: "nat \<Rightarrow> io_error + unit"
  dk_poll_events :: "nat \<Rightarrow> errno + bool"

text \<open>\<open>dk_poll_events\<close>: whether the poll reports that the descriptor is gone.  A text is read up to
4097 bytes, so that more than 4096 are noticed.\<close>

definition read_control :: "domain_kernel \<Rightarrow> nat \<Rightarrow> string \<Rightarrow> string \<Rightarrow> io_error + string" where
  "read_control D k oversized name =
     bindE (dk_text D k name) (\<lambda>contents.
     bindE (failIf (4096 < length (take 4097 contents)) (OsError oversized)) (\<lambda>_. Inr (take 4097 contents)))"

definition domain_validate_new :: "domain_kernel \<Rightarrow> nat \<Rightarrow> io_error + unit" where
  "domain_validate_new D k =
     bindE (dk_open D k ''cgroup.type'') (\<lambda>_.
     bindE (read_control D (k + 1) ''oversized cgroup control value'' ''cgroup.type'') (\<lambda>kind.
     if trim_text kind \<noteq> ''domain'' then Inl (OsError ''fresh command cgroup is not an empty domain'')
     else
       bindE (dk_open D (k + 2) ''cgroup.events'') (\<lambda>_.
       bindE (read_control D (k + 3) ''oversized cgroup control value'' ''cgroup.events'') (\<lambda>events.
       bindE (domain_events events) (\<lambda>populated.
         failIf populated (OsError ''fresh command cgroup is not an empty domain''))))))"

text \<open>The notification: only that the descriptor is gone ends the wait.\<close>

definition events_poll :: "errno + bool \<Rightarrow> (io_error + unit) option" where
  "events_poll answer =
     (case answer of
        Inr gone \<Rightarrow> if gone then Some (Inl (OsError ''cgroup event descriptor unavailable'')) else None
      | Inl EINTR \<Rightarrow> None
      | Inl EAGAIN \<Rightarrow> Some (Inl (OsError ''EAGAIN''))
      | Inl (OtherErrno e) \<Rightarrow> Some (Inl (OsError e)))"

definition wait_empty :: "nat \<Rightarrow> domain_kernel \<Rightarrow> nat \<Rightarrow> nat \<Rightarrow> unit gate_run" where
  "wait_empty fuel D deadline k =
     watch_until fuel (dk_clock D) ''command domain remains populated''
       (\<lambda>j. case bindE (read_control D j ''oversized cgroup event value'' ''cgroup.events'') domain_events of
              Inl e \<Rightarrow> Some (Inl e)
            | Inr populated \<Rightarrow> if \<not> populated then Some (Inr ()) else None)
       (\<lambda>j. events_poll (dk_poll_events D j)) deadline k"

text \<open>The cancellation is requested whatever the deadline says.\<close>

definition domain_cancel :: "nat \<Rightarrow> domain_kernel \<Rightarrow> nat \<Rightarrow> nat \<Rightarrow> unit gate_run" where
  "domain_cancel fuel D deadline k =
     (case bindE (dk_lease D k) (\<lambda>_.
           bindE (dk_open D (k + 1) ''cgroup.kill'') (\<lambda>_.
           bindE (dk_write D (k + 2) ''cgroup.kill'' ''1'') (\<lambda>_.
             dk_open D (k + 3) ''cgroup.events''))) of
        Inl e \<Rightarrow> Some (Inl e, k + 4)
      | Inr u \<Rightarrow>
          (case wait_empty fuel D deadline (k + 4) of
             None \<Rightarrow> None
           | Some (Inl e, k') \<Rightarrow> Some (Inl e, k')
           | Some (Inr u, k') \<Rightarrow> Some (dk_remove D k', k' + 1)))"

section \<open>Children\<close>

text \<open>What \<open>waitpid\<close> answers: \<open>ECHILD\<close>, a child collected, or children that run or have only
changed their state.\<close>

datatype wait_answer = NoChildren | WaitErrno errno | ChildEnded | ChildAlive

record child_kernel =
  ck_clock :: "nat \<Rightarrow> nat"
  ck_wait :: "nat \<Rightarrow> wait_answer"
  ck_children :: "nat \<Rightarrow> io_error + string"
  ck_pidfd :: "nat \<Rightarrow> nat \<Rightarrow> io_error + string"
  ck_exited :: "nat \<Rightarrow> io_error + bool"
  ck_poll :: "nat \<Rightarrow> errno + unit"

text \<open>\<open>ck_pidfd\<close> opens the descriptor of a process and gives
its description under \<open>fdinfo\<close>.\<close>

definition exit_poll :: "errno + unit \<Rightarrow> (io_error + unit) option" where
  "exit_poll answer =
     (case answer of
        Inr u \<Rightarrow> None
      | Inl EINTR \<Rightarrow> None
      | Inl EAGAIN \<Rightarrow> Some (Inl (OsError ''EAGAIN''))
      | Inl (OtherErrno e) \<Rightarrow> Some (Inl (OsError e)))"

definition observe_exit :: "nat \<Rightarrow> child_kernel \<Rightarrow> nat \<Rightarrow> nat \<Rightarrow> unit gate_run" where
  "observe_exit fuel K deadline k =
     watch_until fuel (ck_clock K) ''process exit deadline expired''
       (\<lambda>j. case ck_exited K j of Inl e \<Rightarrow> Some (Inl e) | Inr exited \<Rightarrow> if exited then Some (Inr ()) else None)
       (\<lambda>j. exit_poll (ck_poll K j)) deadline k"

definition i32_max :: nat where "i32_max = 2 ^ 31 - 1"

definition first_child :: "string \<Rightarrow> io_error + nat" where
  "first_child children =
     okOr (OsError ''waitable children missing from procfs'')
       (case split_whitespace children of
          [] \<Rightarrow> None
        | word # rest \<Rightarrow> (case parse_uint i32_max word of Some 0 \<Rightarrow> None | pid \<Rightarrow> pid))"

definition visible_pid :: "string \<Rightarrow> nat option" where
  "visible_pid info =
     (case List.find (\<lambda>line. starts_with (''Pid:'' @ [CHR 0x09]) line) (text_lines info) of
        None \<Rightarrow> None
      | Some line \<Rightarrow> parse_uint i32_max (trim_text (drop 5 line)))"

definition wait_for_child :: "nat \<Rightarrow> child_kernel \<Rightarrow> nat \<Rightarrow> nat \<Rightarrow> unit gate_run" where
  "wait_for_child fuel K deadline k =
     (case bindE (ck_children K k) (\<lambda>children.
           bindE (first_child children) (\<lambda>pid.
           bindE (ck_pidfd K (k + 1) pid) (\<lambda>info.
             failIf (visible_pid info \<noteq> Some pid) (OsError ''child pidfd does not match procfs PID view'')))) of
        Inl e \<Rightarrow> Some (Inl e, k + 2)
      | Inr u \<Rightarrow> observe_exit fuel K deadline (k + 2))"

text \<open>The number of children collected, up to and including those of this drain.\<close>

fun drain_loop :: "nat \<Rightarrow> child_kernel \<Rightarrow> nat \<Rightarrow> nat \<Rightarrow> nat \<Rightarrow> nat gate_run" where
  "drain_loop 0 K deadline collected k = None"
| "drain_loop (Suc fuel) K deadline collected k =
     (case ck_wait K k of
        NoChildren \<Rightarrow> Some (Inr collected, k + 1)
      | WaitErrno EINTR \<Rightarrow> drain_loop fuel K deadline collected (k + 1)
      | WaitErrno EAGAIN \<Rightarrow> Some (Inl (OsError ''EAGAIN''), k + 1)
      | WaitErrno (OtherErrno e) \<Rightarrow> Some (Inl (OsError e), k + 1)
      | ChildEnded \<Rightarrow>
          (case checked_add u64_max collected 1 of
             None \<Rightarrow> Some (Inl (OsError ''child drain count overflow''), k + 1)
           | Some n \<Rightarrow>
               if deadline \<le> ck_clock K (k + 1) then Some (Inl (OsError ''child drain deadline expired''), k + 2)
               else drain_loop fuel K deadline n (k + 2))
      | ChildAlive \<Rightarrow>
          (case wait_for_child fuel K deadline (k + 1) of
             None \<Rightarrow> None
           | Some (Inl e, k') \<Rightarrow> Some (Inl e, k')
           | Some (Inr u, k') \<Rightarrow> drain_loop fuel K deadline collected k'))"

definition drain_children :: "bool \<Rightarrow> nat \<Rightarrow> child_kernel \<Rightarrow> nat \<Rightarrow> nat \<Rightarrow> nat \<Rightarrow> nat gate_run" where
  "drain_children own fuel K deadline collected k =
     (if \<not> own then Some (Inl (OsError ''supervisor subreaper identity or setting changed''), k)
      else drain_loop fuel K deadline collected k)"

section \<open>What an accepted description says\<close>

definition population_entries :: "string \<Rightarrow> string list list" where
  "population_entries events = filter (\<lambda>w. w \<noteq> [] \<and> hd w = ''populated'') (map split_whitespace (text_lines events))"

definition population_entry :: "bool \<Rightarrow> string list" where
  "population_entry populated = [''populated'', if populated then ''1'' else ''0'']"

lemma events_scan_more:
  "events_scan lines (Some v) = Inr r \<longleftrightarrow>
     filter (\<lambda>w. w \<noteq> [] \<and> hd w = ''populated'') (map split_whitespace lines) = [] \<and> r = Some v"
  by (induction lines) (auto simp: bindE_def failIf_def split: list.splits if_splits)

lemma events_scan_first:
  "events_scan lines None = Inr r \<longleftrightarrow>
     (let entries = filter (\<lambda>w. w \<noteq> [] \<and> hd w = ''populated'') (map split_whitespace lines) in
      entries = [] \<and> r = None \<or> (\<exists>b. entries = [population_entry b] \<and> r = Some b))"
proof (induction lines)
  case (Cons line lines)
  show ?case
  proof (cases "split_whitespace line")
    case (Cons key words)
    then show ?thesis
      by (cases words) (auto simp: Cons.IH events_scan_more population_entry_def bindE_def failIf_def Let_def
          split: if_splits)
  qed (use Cons.IH in simp)
qed auto

theorem domain_events_exact:
  "domain_events events = Inr populated \<longleftrightarrow> population_entries events = [population_entry populated]"
  by (auto simp: domain_events_def population_entries_def events_scan_first bindE_Inr_iff population_entry_def Let_def
      split: if_splits)

section \<open>Cancellation\<close>

lemma wait_empty_returns:
  "\<forall>i\<ge>n. deadline \<le> dk_clock D i \<Longrightarrow> n \<le> k + 1 + m \<Longrightarrow> wait_empty (Suc m) D deadline k \<noteq> None"
  unfolding wait_empty_def by (rule watch_returns)

lemma domain_cancel_returns:
  "\<forall>i\<ge>n. deadline \<le> dk_clock D i \<Longrightarrow> n \<le> k + 5 + m \<Longrightarrow> domain_cancel (Suc m) D deadline k \<noteq> None"
  using wait_empty_returns [of n deadline D "k + 4" m]
  by (auto simp: domain_cancel_def split: sum.split option.split)

lemma wait_empty_observed:
  assumes "wait_empty fuel D deadline k = Some (Inr u, k')"
  shows "\<exists>j\<ge>k. k' = j + 1 \<and>
    (\<exists>events. dk_text D j ''cgroup.events'' = Inr events \<and> population_entries events = [population_entry False])"
proof -
  obtain j where j: "k \<le> j" "k' = j + 1"
    "bindE (read_control D j ''oversized cgroup event value'' ''cgroup.events'') domain_events = Inr False"
    using watch_success [OF assms [unfolded wait_empty_def]]
    by (force simp: events_poll_def split: sum.splits if_splits errno.splits)
  then obtain events where "read_control D j ''oversized cgroup event value'' ''cgroup.events'' = Inr events"
    "population_entries events = [population_entry False]"
    by (auto simp: bindE_Inr_iff domain_events_exact)
  with j show ?thesis by (auto simp: read_control_def bindE_Inr_iff failIf_def split: if_splits)
qed

lemma domain_cancel_steps:
  assumes "domain_cancel fuel D deadline k = Some (Inr u, k')"
  shows "dk_write D (k + 2) ''cgroup.kill'' ''1'' = Inr ()"
    and "\<exists>l. wait_empty fuel D deadline (k + 4) = Some (Inr (), l) \<and> dk_remove D l = Inr () \<and> k' = l + 1"
  using assms by (auto simp: domain_cancel_def bindE_Inr_iff split: sum.splits option.splits)

text \<open>C5: A control group is reported as cancelled only if the request to kill everything in it
was written, after that its events were read and said, in exactly one entry, that nothing is
left in it, and after that its directory was removed.\<close>

theorem domain_cancel_sound:
  assumes "domain_cancel fuel D deadline k = Some (Inr u, k')"
  shows "dk_write D (k + 2) ''cgroup.kill'' ''1'' = Inr () \<and>
    (\<exists>j>k + 2. k' = j + 2 \<and> dk_remove D (j + 1) = Inr () \<and>
      (\<exists>events. dk_text D j ''cgroup.events'' = Inr events \<and> population_entries events = [population_entry False]))"
proof -
  obtain l where l: "wait_empty fuel D deadline (k + 4) = Some (Inr (), l)" "dk_remove D l = Inr ()" "k' = l + 1"
    using domain_cancel_steps(2) [OF assms] by blast
  from wait_empty_observed [OF this(1)] obtain j events where "k + 4 \<le> j" "l = j + 1"
    "dk_text D j ''cgroup.events'' = Inr events" "population_entries events = [population_entry False]" by blast
  with l domain_cancel_steps(1) [OF assms] show ?thesis by (intro conjI exI [of _ j]) auto
qed

definition example_domain :: domain_kernel where
  "example_domain =
     \<lparr>dk_clock = id, dk_lease = (\<lambda>_. Inr ()), dk_open = (\<lambda>_ _. Inr ()),
      dk_text = (\<lambda>k _. Inr (if k < 6 then ''populated 1'' else ''populated 0'')),
      dk_write = (\<lambda>_ _ _. Inr ()), dk_remove = (\<lambda>_. Inr ()), dk_poll_events = (\<lambda>_. Inr False)\<rparr>"

lemma population_words [simp]: "plain_word ''populated''" "plain_word ''0''" "plain_word ''1''"
  by (simp_all add: plain_word_def)

lemma example_words:
  "split_whitespace ''populated 1'' = [''populated'', ''1'']" "split_whitespace ''populated 0'' = [''populated'', ''0'']"
  using split_plain_words [of "''populated''" "''1''"] split_plain_words [of "''populated''" "''0''"] by simp_all

lemma example_events:
  "domain_events ''populated 1'' = Inr True" "domain_events ''populated 0'' = Inr False"
  by (simp_all add: domain_events_def text_lines_def bindE_def failIf_def example_words)

lemma example_domain_run: "domain_cancel 2 example_domain 20 0 = Some (Inr (), 9)"
  by (simp add: domain_cancel_def wait_empty_def example_domain_def read_control_def example_events events_poll_def
      deadline_remaining_def bindE_def failIf_def numeral_2_eq_2 del: One_nat_def)

lemma domain_cancel_sound_witness:
  "dk_write example_domain 2 ''cgroup.kill'' ''1'' = Inr () \<and>
   (\<exists>j>2. 9 = j + 2 \<and> dk_remove example_domain (j + 1) = Inr () \<and>
     (\<exists>events. dk_text example_domain j ''cgroup.events'' = Inr events \<and>
       population_entries events = [population_entry False]))"
  using domain_cancel_sound [OF example_domain_run] by (simp add: numeral_2_eq_2)

section \<open>Draining\<close>

lemma observe_exit_returns:
  "\<forall>i\<ge>n. deadline \<le> ck_clock K i \<Longrightarrow> n \<le> k + 1 + m \<Longrightarrow> observe_exit (Suc m) K deadline k \<noteq> None"
  unfolding observe_exit_def by (rule watch_returns)

lemma observe_exit_observed:
  assumes "observe_exit fuel K deadline k = Some (Inr u, k')"
  shows "\<exists>j\<ge>k. k' = j + 1 \<and> ck_exited K j = Inr True"
  using watch_success [OF assms [unfolded observe_exit_def]]
  by (force simp: exit_poll_def split: sum.splits if_splits errno.splits)

lemma wait_for_child_returns:
  "\<forall>i\<ge>n. deadline \<le> ck_clock K i \<Longrightarrow> n \<le> k + 3 + m \<Longrightarrow> wait_for_child (Suc m) K deadline k \<noteq> None"
  using observe_exit_returns [of n deadline K "k + 2" m] by (simp add: wait_for_child_def split: sum.split)

lemma wait_for_child_observed:
  "wait_for_child fuel K deadline k = Some (Inr u, k') \<Longrightarrow> \<exists>j\<ge>k + 2. k' = j + 1 \<and> ck_exited K j = Inr True"
  using observe_exit_observed by (fastforce simp: wait_for_child_def split: sum.splits)

theorem drain_sound:
  assumes "drain_loop fuel K deadline collected k = Some (Inr n, k')"
  shows "collected \<le> n \<and> (\<exists>j\<ge>k. k' = j + 1 \<and> ck_wait K j = NoChildren)"
  using assms
proof (induction fuel arbitrary: collected k)
  case (Suc fuel)
  show ?case
  proof (cases "ck_wait K k")
    case NoChildren
    with Suc.prems show ?thesis by auto
  next
    case (WaitErrno e)
    with Suc.prems Suc.IH [of collected "k + 1"] show ?thesis by (cases e) force+
  next
    case ChildEnded
    with Suc.prems obtain "drain_loop fuel K deadline (collected + 1) (k + 2) = Some (Inr n, k')"
      by (auto simp: checked_add_def split: if_splits)
    from Suc.IH [OF this] show ?thesis by force
  next
    case ChildAlive
    with Suc.prems obtain u l where w: "wait_for_child fuel K deadline (k + 1) = Some (Inr u, l)"
      and d: "drain_loop fuel K deadline collected l = Some (Inr n, k')"
      by (auto split: option.splits sum.splits)
    from wait_for_child_observed [OF w] have "k \<le> l" by auto
    with Suc.IH [OF d] show ?thesis using le_trans by blast
  qed
qed simp

text \<open>What the kernel promises about children: a child that was seen to have exited is collected
by the next wait, and a wait that does not block is not interrupted.\<close>

definition waits_collect :: "child_kernel \<Rightarrow> bool" where
  "waits_collect K \<longleftrightarrow>
     (\<forall>i. ck_exited K i = Inr True \<longrightarrow> ck_wait K (i + 1) = ChildEnded) \<and> (\<forall>i. ck_wait K i \<noteq> WaitErrno EINTR)"

lemma drain_late:
  assumes late: "\<forall>i\<ge>n. deadline \<le> ck_clock K i" and K: "waits_collect K" and n: "n \<le> k"
  shows "drain_loop (Suc (Suc m)) K deadline collected k \<noteq> None"
proof (cases "ck_wait K k = ChildAlive")
  case True
  from wait_for_child_returns [OF late, of "k + 1" m] n
  obtain r l where w: "wait_for_child (Suc m) K deadline (k + 1) = Some (r, l)" by auto
  show ?thesis
  proof (cases r)
    case (Inr u)
    from wait_for_child_observed [OF w [unfolded this]] K n
    have "ck_wait K l = ChildEnded" "n \<le> l" by (auto simp: waits_collect_def)
    with late True w Inr show ?thesis by (simp split: option.split)
  qed (use True w in simp)
next
  case False
  from late n have "deadline \<le> ck_clock K (Suc k)" by simp
  with False K show ?thesis
    by (auto simp: waits_collect_def split: wait_answer.split errno.split option.split)
qed

lemma drain_round:
  assumes "wait_for_child f K deadline (k + 1) \<noteq> None"
    and "\<And>c l. k < l \<Longrightarrow> drain_loop f K deadline c l \<noteq> None"
  shows "drain_loop (Suc f) K deadline collected k \<noteq> None"
proof (cases "ck_wait K k")
  case (WaitErrno e)
  with assms(2) show ?thesis by (cases e) auto
next
  case ChildAlive
  from assms(1) obtain r l where w: "wait_for_child f K deadline (k + 1) = Some (r, l)" by auto
  show ?thesis
  proof (cases r)
    case (Inr u)
    from wait_for_child_observed [OF w [unfolded this]] have "k < l" by auto
    from assms(2) [OF this] ChildAlive w Inr show ?thesis by simp
  qed (use ChildAlive w in simp)
qed (use assms(2) in \<open>auto split: option.split\<close>)

text \<open>C37: Draining the children ends once the deadline has passed, if a child that was seen to
have exited is collected by the next wait: fuel for the calls up to the deadline and one
more child is enough.\<close>

theorem drain_returns:
  assumes "\<forall>i\<ge>n. deadline \<le> ck_clock K i" and "waits_collect K" and "n \<le> k + m"
  shows "drain_loop (Suc (Suc m)) K deadline collected k \<noteq> None"
  using assms(3)
proof (induction m arbitrary: collected k)
  case 0
  with drain_late [OF assms(1,2)] show ?case by simp
next
  case (Suc m)
  show ?case
  proof (rule drain_round)
    show "wait_for_child (Suc (Suc m)) K deadline (k + 1) \<noteq> None"
      using wait_for_child_returns [OF assms(1), of "k + 1" "Suc m"] Suc.prems by simp
    show "drain_loop (Suc (Suc m)) K deadline c l \<noteq> None" if "k < l" for c l
      using Suc.IH [of l c] Suc.prems that by simp
  qed
qed

definition example_children :: child_kernel where
  "example_children =
     \<lparr>ck_clock = id, ck_wait = (\<lambda>k. if k = 0 then ChildAlive else if k = 4 then ChildEnded else NoChildren),
      ck_children = (\<lambda>_. Inr ''7 ''), ck_pidfd = (\<lambda>_ _. Inr (''Pid:'' @ [CHR 0x09] @ ''7'')),
      ck_exited = (\<lambda>k. Inr (k = 3)), ck_poll = (\<lambda>_. Inr ())\<rparr>"

lemma drain_returns_witness: "drain_loop 12 example_children 10 0 0 \<noteq> None"
  using drain_returns [of 10 10 example_children 0 10 0]
  by (simp add: waits_collect_def example_children_def numeral_eq_Suc)

end
