(* ===== verification/Image_Store.thy ===== *)
theory Image_Store
  imports Cache_Read Paths
begin

text \<open>
  The root of an image as the code sees it through system calls: a store of nodes, where a
  descriptor is the number of its node.  Every system call has its effect on the store, and may
  instead fail for a reason outside the store: \<open>fk_fault\<close> says for the number of calls made so
  far whether one does (it never stands for a missing entry).  Owners and modes are not in the
  store.
\<close>

section \<open>The store\<close>

datatype fs_error = NoEntry | FsErrno string | FsOther string

datatype tree_node = TreeDirectory "(string \<times> nat) list" | TreeFile "byte list" | TreeLink string | TreeSpecial

definition is_directory :: "tree_node option \<Rightarrow> bool" where
  "is_directory node = (case node of Some (TreeDirectory entries) \<Rightarrow> True | _ \<Rightarrow> False)"

definition is_regular :: "tree_node option \<Rightarrow> bool" where
  "is_regular node = (case node of Some (TreeFile bytes) \<Rightarrow> True | _ \<Rightarrow> False)"

text \<open>\<open>ts_entries\<close> is what an operation has noted, the latest first.\<close>

record 'e image_store =
  ts_nodes :: "nat \<rightharpoonup> tree_node"
  ts_next :: nat
  ts_calls :: nat
  ts_entries :: "'e list"

text \<open>\<open>fk_open\<close> is the resolution of a path inside the root by the kernel, links included: to a
directory, to a directory on the same device, to any node, to any node on the same device, and
to any node without a link on the way.\<close>

datatype open_how = AnyDirectory | NearDirectory | AnyNode | NearNode | PlainNode

record fs_kernel =
  fk_fault :: "nat \<Rightarrow> string option"
  fk_open :: "open_how \<Rightarrow> (nat \<rightharpoonup> tree_node) \<Rightarrow> nat \<Rightarrow> path \<Rightarrow> fs_error + nat"

type_synonym ('e, 'a) fs_op = "'e image_store \<Rightarrow> (fs_error + 'a) \<times> 'e image_store"

definition bindF :: "('e, 'a) fs_op \<Rightarrow> ('a \<Rightarrow> ('e, 'b) fs_op) \<Rightarrow> ('e, 'b) fs_op" where
  "bindF run next_run s = (case run s of (Inl e, s') \<Rightarrow> (Inl e, s') | (Inr v, s') \<Rightarrow> next_run v s')"

definition handleF :: "('e, 'a) fs_op \<Rightarrow> ('a \<Rightarrow> ('e, 'b) fs_op) \<Rightarrow> (fs_error \<Rightarrow> ('e, 'b) fs_op) \<Rightarrow> ('e, 'b) fs_op" where
  "handleF run next_run failed s = (case run s of (Inl e, s') \<Rightarrow> failed e s' | (Inr v, s') \<Rightarrow> next_run v s')"

definition failF :: "fs_error \<Rightarrow> ('e, 'a) fs_op" where
  "failF e s = (Inl e, s)"

definition returnF :: "'a \<Rightarrow> ('e, 'a) fs_op" where
  "returnF v s = (Inr v, s)"

text \<open>One system call, which sees and changes only the nodes and the next free number.\<close>

definition syscall :: "fs_kernel \<Rightarrow> ((nat \<rightharpoonup> tree_node) \<Rightarrow> nat \<Rightarrow> fs_error + 'a \<times> (nat \<rightharpoonup> tree_node) \<times> nat) \<Rightarrow> ('e, 'a) fs_op" where
  "syscall K effect s =
     (let s' = s\<lparr>ts_calls := ts_calls s + 1\<rparr> in
      case fk_fault K (ts_calls s) of
        Some e \<Rightarrow> (Inl (FsErrno e), s')
      | None \<Rightarrow>
          (case effect (ts_nodes s) (ts_next s) of
             Inl e \<Rightarrow> (Inl e, s')
           | Inr (v, nodes, n) \<Rightarrow> (Inr v, s'\<lparr>ts_nodes := nodes, ts_next := n\<rparr>)))"

definition look :: "fs_kernel \<Rightarrow> ((nat \<rightharpoonup> tree_node) \<Rightarrow> fs_error + 'a) \<Rightarrow> ('e, 'a) fs_op" where
  "look K observe = syscall K (\<lambda>nodes n. bindE (observe nodes) (\<lambda>v. Inr (v, nodes, n)))"

definition entry_of :: "(nat \<rightharpoonup> tree_node) \<Rightarrow> nat \<Rightarrow> string \<Rightarrow> fs_error + nat" where
  "entry_of nodes parent name =
     (case nodes parent of
        Some (TreeDirectory entries) \<Rightarrow> okOr NoEntry (map_of entries name)
      | _ \<Rightarrow> Inl (FsErrno ''ENOTDIR''))"

text \<open>A node that is open has metadata.\<close>

definition node_of :: "(nat \<rightharpoonup> tree_node) \<Rightarrow> nat \<Rightarrow> fs_error + tree_node" where
  "node_of nodes i = okOr (FsErrno ''EBADF'') (nodes i)"

definition link_of :: "(nat \<rightharpoonup> tree_node) \<Rightarrow> nat \<Rightarrow> fs_error + string" where
  "link_of nodes i = (case nodes i of Some (TreeLink target) \<Rightarrow> Inr target | _ \<Rightarrow> Inl (FsErrno ''EINVAL''))"

definition add_entry ::
    "tree_node \<Rightarrow> nat \<Rightarrow> string \<Rightarrow> (nat \<rightharpoonup> tree_node) \<Rightarrow> nat \<Rightarrow> fs_error + nat \<times> (nat \<rightharpoonup> tree_node) \<times> nat" where
  "add_entry node parent name nodes fresh =
     (case nodes parent of
        Some (TreeDirectory entries) \<Rightarrow>
          if map_of entries name \<noteq> None then Inl (FsErrno ''EEXIST'')
          else Inr (fresh, nodes(parent \<mapsto> TreeDirectory ((name, fresh) # entries), fresh \<mapsto> node), fresh + 1)
      | _ \<Rightarrow> Inl (FsErrno ''ENOTDIR''))"

definition remove_entry ::
    "bool \<Rightarrow> nat \<Rightarrow> string \<Rightarrow> (nat \<rightharpoonup> tree_node) \<Rightarrow> nat \<Rightarrow> fs_error + unit \<times> (nat \<rightharpoonup> tree_node) \<times> nat" where
  "remove_entry directory parent name nodes fresh =
     (case nodes parent of
        Some (TreeDirectory entries) \<Rightarrow>
          bindE (okOr NoEntry (map_of entries name)) (\<lambda>i.
          bindE (failIf (directory \<and> nodes i \<noteq> Some (TreeDirectory [])) (FsErrno ''ENOTEMPTY'')) (\<lambda>_.
          bindE (failIf (\<not> directory \<and> is_directory (nodes i)) (FsErrno ''EISDIR'')) (\<lambda>_.
            Inr ((), nodes(parent \<mapsto> TreeDirectory (filter (\<lambda>e. fst e \<noteq> name) entries)), fresh))))
      | _ \<Rightarrow> Inl (FsErrno ''ENOTDIR''))"

definition push_entry :: "'e \<Rightarrow> 'e image_store \<Rightarrow> 'e image_store" where
  "push_entry e s = s\<lparr>ts_entries := e # ts_entries s\<rparr>"

lemma push_calls: "push_entry e (s\<lparr>ts_calls := c\<rparr>) = (push_entry e s)\<lparr>ts_calls := c\<rparr>"
  by (simp add: push_entry_def)

section \<open>Runs of system calls\<close>

lemma bindF_Inr:
  "bindF run next_run s = (Inr v, s') \<longleftrightarrow> (\<exists>a s1. run s = (Inr a, s1) \<and> next_run a s1 = (Inr v, s'))"
  by (auto simp: bindF_def split: prod.splits sum.splits)

lemma look_state: "look K observe s = (r, s') \<Longrightarrow> s' = s\<lparr>ts_calls := ts_calls s + 1\<rparr>"
  by (cases s) (auto simp: look_def syscall_def Let_def bindE_def split: option.splits sum.splits)

lemma look_Inr: "look K observe s = (Inr v, s') \<Longrightarrow> observe (ts_nodes s) = Inr v"
  by (auto simp: look_def syscall_def Let_def bindE_def split: option.splits sum.splits)

lemma look_missing: "look K observe s = (Inl NoEntry, s') \<Longrightarrow> observe (ts_nodes s) = Inl NoEntry"
  by (auto simp: look_def syscall_def Let_def bindE_def split: option.splits sum.splits)

definition keeps :: "('e image_store \<Rightarrow> bool) \<Rightarrow> ('e, 'a) fs_op \<Rightarrow> bool" where
  "keeps P run \<longleftrightarrow> (\<forall>s r s'. P s \<longrightarrow> run s = (r, s') \<longrightarrow> P s')"

definition ignores_calls :: "('e image_store \<Rightarrow> bool) \<Rightarrow> bool" where
  "ignores_calls P \<longleftrightarrow> (\<forall>s n. P (s\<lparr>ts_calls := n\<rparr>) = P s)"

named_theorems keeps_rules \<open>which runs keep a property of the state\<close>

lemma keepsD: "keeps P run \<Longrightarrow> P s \<Longrightarrow> run s = (r, s') \<Longrightarrow> P s'"
  by (auto simp: keeps_def)

lemma keepsI: "(\<And>s r s'. P s \<Longrightarrow> run s = (r, s') \<Longrightarrow> P s') \<Longrightarrow> keeps P run"
  by (auto simp: keeps_def)

lemma keeps_handleF [keeps_rules]:
  assumes "keeps P run" "\<And>v. keeps P (next_run v)" "\<And>e. keeps P (failed e)"
  shows "keeps P (handleF run next_run failed)"
proof (rule keepsI)
  fix s r s'
  assume s: "P s" "handleF run next_run failed s = (r, s')"
  obtain q l where q: "run s = (q, l)" by fastforce
  from keepsD [OF assms(1) s(1) q] have "P l" .
  with s(2) q show "P s'" by (cases q) (auto simp: handleF_def dest: keepsD [OF assms(2)] keepsD [OF assms(3)])
qed

lemma bindF_handleF: "bindF run next_run = handleF run next_run failF"
  by (rule ext) (simp add: bindF_def handleF_def failF_def split: prod.split sum.split)

lemma keeps_failF [keeps_rules]: "keeps P (failF e)"
  by (simp add: keeps_def failF_def)

lemma keeps_returnF [keeps_rules]: "keeps P (returnF v)"
  by (simp add: keeps_def returnF_def)

lemma keeps_bindF [keeps_rules]: "keeps P run \<Longrightarrow> (\<And>v. keeps P (next_run v)) \<Longrightarrow> keeps P (bindF run next_run)"
  unfolding bindF_handleF by (intro keeps_handleF keeps_failF)

lemma keeps_if [keeps_rules]: "(c \<Longrightarrow> keeps P a) \<Longrightarrow> (\<not> c \<Longrightarrow> keeps P b) \<Longrightarrow> keeps P (if c then a else b)"
  by simp

lemma keeps_node [keeps_rules]:
  assumes "\<And>entries. keeps P (f entries)" "\<And>bytes. keeps P (file bytes)" "\<And>target. keeps P (g target)" "keeps P special"
  shows "keeps P (case node of TreeDirectory entries \<Rightarrow> f entries | TreeFile bytes \<Rightarrow> file bytes | TreeLink target \<Rightarrow> g target
    | TreeSpecial \<Rightarrow> special)"
  using assms by (cases node) simp_all

lemma keeps_look [keeps_rules]: "ignores_calls P \<Longrightarrow> keeps P (look K observe)"
  using look_state by (fastforce simp: keeps_def ignores_calls_def)

lemma syscall_Inr:
  "syscall K effect s = (Inr v, s') \<Longrightarrow>
     \<exists>nodes n. effect (ts_nodes s) (ts_next s) = Inr (v, nodes, n) \<and>
       s' = s\<lparr>ts_nodes := nodes, ts_next := n, ts_calls := ts_calls s + 1\<rparr>"
  by (cases s) (auto simp: syscall_def Let_def split: option.splits sum.splits)

lemma syscall_Inl: "syscall K effect s = (Inl e, s') \<Longrightarrow> s' = s\<lparr>ts_calls := ts_calls s + 1\<rparr>"
  by (cases s) (auto simp: syscall_def Let_def split: option.splits sum.splits)

lemma add_entry_Inr:
  "add_entry node parent name nodes fresh = Inr (i, nodes', n) \<Longrightarrow>
     \<exists>entries. nodes parent = Some (TreeDirectory entries) \<and> map_of entries name = None \<and> i = fresh \<and> n = fresh + 1 \<and>
       nodes' = nodes(parent \<mapsto> TreeDirectory ((name, fresh) # entries), fresh \<mapsto> node)"
  by (auto simp: add_entry_def split: option.splits tree_node.splits if_splits)

lemma look_nodes: "look K observe s = (r, s') \<Longrightarrow> ts_nodes s' = ts_nodes s"
  using look_state by fastforce

section \<open>Mount points\<close>

text \<open>Of the nodes below \<open>n\<close> only the directory \<open>base\<close> has changed, by new names of empty
directories.\<close>

definition only_mount_points :: "(nat \<rightharpoonup> tree_node) \<Rightarrow> nat \<Rightarrow> nat \<Rightarrow> 'e image_store \<Rightarrow> bool" where
  "only_mount_points before n base s \<longleftrightarrow>
     n \<le> ts_next s \<and> (\<forall>i<n. i \<noteq> base \<longrightarrow> ts_nodes s i = before i) \<and>
     (\<exists>new old. before base = Some (TreeDirectory old) \<and> ts_nodes s base = Some (TreeDirectory (new @ old)) \<and>
       (\<forall>(x, i)\<in>set new. n \<le> i \<and> i < ts_next s \<and> ts_nodes s i = Some (TreeDirectory []) \<and> x \<notin> fst ` set old))"

lemma only_mount_points_calls: "ignores_calls (only_mount_points before n base)"
  by (simp add: ignores_calls_def only_mount_points_def)

lemma only_mount_points_start:
  "before = ts_nodes s \<Longrightarrow> n = ts_next s \<Longrightarrow> ts_nodes s base = Some (TreeDirectory old) \<Longrightarrow> only_mount_points before n base s"
  by (auto simp: only_mount_points_def intro!: exI [of _ "[]"])

lemma only_mount_points_add:
  assumes "base < n"
  shows "keeps (only_mount_points before n base) (syscall K (add_entry (TreeDirectory []) base name))"
proof (rule keepsI)
  fix s :: "'e image_store" and r s'
  assume s: "only_mount_points before n base s"
    and run: "syscall K (add_entry (TreeDirectory []) base name) s = (r, s')"
  show "only_mount_points before n base s'"
  proof (cases r)
    case (Inl e)
    from syscall_Inl [OF run [unfolded this]] s show ?thesis by (simp add: only_mount_points_def)
  next
    case (Inr i)
    from syscall_Inr [OF run [unfolded this]] obtain nodes m where
      add: "add_entry (TreeDirectory []) base name (ts_nodes s) (ts_next s) = Inr (i, nodes, m)"
      and s': "s' = s\<lparr>ts_nodes := nodes, ts_next := m, ts_calls := ts_calls s + 1\<rparr>" by blast
    from add_entry_Inr [OF add] obtain entries where e: "ts_nodes s base = Some (TreeDirectory entries)" "map_of entries name = None"
      "m = ts_next s + 1" "nodes = (ts_nodes s)(base \<mapsto> TreeDirectory ((name, ts_next s) # entries), ts_next s \<mapsto> TreeDirectory [])"
      by blast
    from s e(1) obtain new old where o: "before base = Some (TreeDirectory old)" "entries = new @ old"
      "\<forall>(x, i)\<in>set new. n \<le> i \<and> i < ts_next s \<and> ts_nodes s i = Some (TreeDirectory []) \<and> x \<notin> fst ` set old"
      by (auto simp: only_mount_points_def)
    have fresh: "n \<le> ts_next s" "base \<noteq> ts_next s" "name \<notin> fst ` set old"
      using s assms e(2) o(2) by (auto simp: only_mount_points_def map_of_eq_None_iff)
    have "\<forall>(x, i)\<in>set ((name, ts_next s) # new). n \<le> i \<and> i < ts_next s' \<and> ts_nodes s' i = Some (TreeDirectory []) \<and> x \<notin> fst ` set old"
      using o(3) fresh assms by (auto simp: s' e)
    moreover have "ts_nodes s' base = Some (TreeDirectory (((name, ts_next s) # new) @ old))"
      using fresh o(2) by (simp add: s' e)
    moreover have "n \<le> ts_next s'" "\<forall>i<n. i \<noteq> base \<longrightarrow> ts_nodes s' i = before i"
      using s fresh by (auto simp: s' e only_mount_points_def)
    ultimately show ?thesis unfolding only_mount_points_def using o(1) by blast
  qed
qed

end
