(* ===== verification/Resolver_Target.thy ===== *)
theory Resolver_Target
  imports Image_Store
begin

text \<open>
  The resolver file of a command: \<open>network/resolver_target.rs\<close>.  A file is selected inside the
  root of a command by following the links of the image, missing directories and the file are
  created as a scaffold, and the scaffold is removed again afterwards.  The scaffold is what the
  state notes.
\<close>

section \<open>The scaffold\<close>

record created_entry =
  ce_parent :: nat
  ce_node :: "nat option"
  ce_name :: string
  ce_directory :: bool

definition entry_remove :: "fs_kernel \<Rightarrow> created_entry \<Rightarrow> (created_entry, unit) fs_op" where
  "entry_remove K e =
     bindF (look K (\<lambda>nodes. entry_of nodes (ce_parent e) (ce_name e))) (\<lambda>actual.
     bindF (case ce_node e of
              Some i \<Rightarrow> look K (\<lambda>nodes. bindE (node_of nodes i) (\<lambda>_. Inr i))
            | None \<Rightarrow> failF (FsOther ''cannot safely remove unpinned resolver directory; discard build layer'')) (\<lambda>expected.
     if actual \<noteq> expected then failF (FsOther ''resolver scaffold entry was replaced'')
     else syscall K (remove_entry (ce_directory e) (ce_parent e) (ce_name e))))"

fun scaffold_release :: "fs_kernel \<Rightarrow> created_entry list \<Rightarrow> (created_entry, unit) fs_op" where
  "scaffold_release K [] = returnF ()"
| "scaffold_release K (e # es) = bindF (entry_remove K e) (\<lambda>_. scaffold_release K es)"

text \<open>Bookkeeping is reserved first, which may fail like a system call.  A directory that could not
be opened after its creation stays in the scaffold without a node.\<close>

definition pin_directory :: "fs_kernel \<Rightarrow> nat \<Rightarrow> string \<Rightarrow> (created_entry, nat) fs_op" where
  "pin_directory K parent name s =
     (case look K (\<lambda>nodes. bindE (entry_of nodes parent name) (\<lambda>i.
             bindE (failIf (\<not> is_directory (nodes i)) (FsErrno ''ENOTDIR'')) (\<lambda>_. Inr i))) s of
        (Inr i, s') \<Rightarrow> (Inr i, s')
      | (Inl e, s') \<Rightarrow>
          (Inl e, push_entry \<lparr>ce_parent = parent, ce_node = None, ce_name = name, ce_directory = True\<rparr> s'))"

definition clone_pinned :: "fs_kernel \<Rightarrow> nat \<Rightarrow> string \<Rightarrow> bool \<Rightarrow> nat \<Rightarrow> (created_entry, nat) fs_op" where
  "clone_pinned K parent name directory i s =
     (case look K (\<lambda>_. Inr i) s of
        (r, s') \<Rightarrow>
          (r, push_entry \<lparr>ce_parent = parent, ce_node = Some i, ce_name = name, ce_directory = directory\<rparr> s'))"

definition scaffold_create :: "fs_kernel \<Rightarrow> nat \<Rightarrow> string \<Rightarrow> bool \<Rightarrow> (created_entry, nat) fs_op" where
  "scaffold_create K parent name directory =
     bindF (look K (\<lambda>_. Inr ())) (\<lambda>_.
     bindF (if directory then
              bindF (syscall K (add_entry (TreeDirectory []) parent name)) (\<lambda>_. pin_directory K parent name)
            else syscall K (add_entry (TreeFile []) parent name)) (\<lambda>i.
       clone_pinned K parent name directory i))"

section \<open>The walk\<close>

definition runtime_names :: "string list" where
  "runtime_names = [''dev'', ''proc'', ''sys'']"

fun forbidden_nodes :: "fs_kernel \<Rightarrow> nat \<Rightarrow> string list \<Rightarrow> nat list \<Rightarrow> (created_entry, nat list) fs_op" where
  "forbidden_nodes K root [] forbidden = returnF forbidden"
| "forbidden_nodes K root (name # names) forbidden =
     handleF (look K (\<lambda>nodes. fk_open K AnyDirectory nodes root [name]))
       (\<lambda>i. bindF (look K (\<lambda>nodes. node_of nodes i)) (\<lambda>_. forbidden_nodes K root names (forbidden @ [i])))
       (\<lambda>e. if e = NoEntry then forbidden_nodes K root names forbidden else failF e)"

definition find_or_create :: "fs_kernel \<Rightarrow> bool \<Rightarrow> nat \<Rightarrow> string \<Rightarrow> bool \<Rightarrow> (created_entry, nat) fs_op" where
  "find_or_create K create parent name directory =
     handleF (look K (\<lambda>nodes. entry_of nodes parent name)) returnF
       (\<lambda>e. if e = NoEntry \<and> create then scaffold_create K parent name directory else failF e)"

text \<open>The kernel resolves the original path once more, with the last word.\<close>

definition select_final :: "fs_kernel \<Rightarrow> nat \<Rightarrow> nat \<Rightarrow> path \<Rightarrow> (created_entry, (nat \<times> path)) fs_op" where
  "select_final K root node resolved =
     bindF (look K (\<lambda>nodes. fk_open K NearNode nodes root [''etc'', ''resolv.conf''])) (\<lambda>selected.
     bindF (look K (\<lambda>nodes. node_of nodes selected)) (\<lambda>_.
     if selected \<noteq> node then failF (FsOther ''resolver target changed during selection'')
     else returnF (selected, resolved)))"

fun target_walk ::
    "nat \<Rightarrow> fs_kernel \<Rightarrow> bool \<Rightarrow> nat \<Rightarrow> nat list \<Rightarrow> string list \<Rightarrow> path \<Rightarrow> nat \<Rightarrow> (created_entry, (nat \<times> path)) fs_op" where
  "target_walk 0 K create root forbidden pending resolved links =
     failF (FsOther ''resolver path expansion limit exceeded'')"
| "target_walk (Suc n) K create root forbidden pending resolved links =
     (case pending of
        [] \<Rightarrow> failF (FsOther ''resolver target is a directory'')
      | part # rest \<Rightarrow>
          if part = ''/'' then target_walk n K create root forbidden rest [] links
          else if part = ''.'' then target_walk n K create root forbidden rest resolved links
          else if part = ''..'' then
            (if resolved = [] then failF (FsOther ''resolver symlink escapes command root'')
             else target_walk n K create root forbidden rest (butlast resolved) links)
          else
            bindF (look K (\<lambda>nodes. fk_open K NearDirectory nodes root resolved)) (\<lambda>parent.
            bindF (find_or_create K create parent part (rest \<noteq> [])) (\<lambda>node.
            bindF (look K (\<lambda>nodes. node_of nodes node)) (\<lambda>metadata.
              case metadata of
                TreeLink target \<Rightarrow>
                  if links + 1 > 40 then failF (FsOther ''resolver symlink limit exceeded'')
                  else bindF (look K (\<lambda>nodes. link_of nodes node)) (\<lambda>target.
                    target_walk n K create root forbidden (path_iter target @ rest) resolved (links + 1))
              | _ \<Rightarrow>
                  if hd (resolved @ [part]) \<in> set runtime_names \<or> node \<in> set forbidden
                  then failF (FsOther ''resolver target is inside a command runtime mount'')
                  else if rest = [] then
                    (if \<not> is_regular (Some metadata) then failF (FsOther ''resolver target must be a regular file'')
                     else select_final K root node (resolved @ [part]))
                  else if \<not> is_directory (Some metadata) then failF (FsOther ''resolver ancestor is not a directory'')
                  else target_walk n K create root forbidden rest (resolved @ [part]) links))))"

definition resolver_walk :: "fs_kernel \<Rightarrow> bool \<Rightarrow> nat \<Rightarrow> (created_entry, (nat \<times> path)) fs_op" where
  "resolver_walk K create root =
     bindF (look K (\<lambda>nodes. node_of nodes root)) (\<lambda>metadata.
     if \<not> is_directory (Some metadata) then failF (FsOther ''resolver root is not a directory'')
     else bindF (forbidden_nodes K root runtime_names []) (\<lambda>forbidden.
       target_walk 4096 K create root forbidden (path_iter ''etc/resolv.conf'') [] 0))"

text \<open>A failed selection removes its scaffold; the second error is that of the removal.\<close>

definition resolver_select ::
    "fs_kernel \<Rightarrow> bool \<Rightarrow> nat \<Rightarrow> created_entry image_store \<Rightarrow> (fs_error \<times> fs_error option + nat \<times> path) \<times> created_entry image_store" where
  "resolver_select K create root s =
     (case look K (\<lambda>_. Inr ()) (s\<lparr>ts_entries := []\<rparr>) of
        (Inl e, s1) \<Rightarrow> (Inl (e, None), s1)
      | (Inr u, s1) \<Rightarrow>
          (case resolver_walk K create root s1 of
             (Inr selected, s2) \<Rightarrow> (Inr selected, s2)
           | (Inl e, s2) \<Rightarrow>
               (case scaffold_release K (ts_entries s2) s2 of
                  (Inr u, s3) \<Rightarrow> (Inl (e, None), s3)
                | (Inl cleanup, s3) \<Rightarrow> (Inl (e, Some cleanup), s3))))"

section \<open>Which runs keep what\<close>

lemma keeps_forbidden [keeps_rules]: "ignores_calls P \<Longrightarrow> keeps P (forbidden_nodes K root names forbidden)"
  by (induction names arbitrary: forbidden) (auto intro!: keeps_rules)

lemma keeps_find_or_create [keeps_rules]:
  assumes "ignores_calls P" and "create \<Longrightarrow> keeps P (scaffold_create K parent name directory)"
  shows "keeps P (find_or_create K create parent name directory)"
  unfolding find_or_create_def using assms by (auto intro!: keeps_rules)

lemma keeps_target_walk [keeps_rules]:
  assumes "ignores_calls P" and "\<And>parent name directory. create \<Longrightarrow> keeps P (scaffold_create K parent name directory)"
  shows "keeps P (target_walk n K create root forbidden pending resolved links)"
proof (induction n arbitrary: pending resolved links)
  case (Suc n)
  note rules = keeps_rules Suc.IH assms
  show ?case
  proof (cases pending)
    case (Cons part rest)
    show ?thesis
      unfolding Cons target_walk.simps list.case select_final_def
      by (intro rules)
  qed (simp add: keeps_rules)
qed (simp add: keeps_rules)

lemma keeps_resolver_walk:
  assumes "ignores_calls P" and "\<And>parent name directory. create \<Longrightarrow> keeps P (scaffold_create K parent name directory)"
  shows "keeps P (resolver_walk K create root)"
  unfolding resolver_walk_def using assms by (auto intro!: keeps_rules)

section \<open>Undoing a scaffold\<close>

definition without_entry :: "string \<Rightarrow> tree_node \<Rightarrow> tree_node" where
  "without_entry name node =
     (case node of TreeDirectory entries \<Rightarrow> TreeDirectory (filter (\<lambda>e. fst e \<noteq> name) entries) | _ \<Rightarrow> node)"

fun undo :: "created_entry list \<Rightarrow> (nat \<rightharpoonup> tree_node) \<Rightarrow> (nat \<rightharpoonup> tree_node)" where
  "undo [] nodes = nodes"
| "undo (e # es) nodes =
     undo es (\<lambda>i. if i = ce_parent e then map_option (without_entry (ce_name e)) (nodes i) else nodes i)"

lemma undo_pointwise: "nodes i = nodes' i \<Longrightarrow> undo es nodes i = undo es nodes' i"
proof (induction es arbitrary: nodes nodes')
  case (Cons e es)
  show ?case unfolding undo.simps by (rule Cons.IH) (use Cons.prems in auto)
qed simp

text \<open>The nodes of before, plus the scaffold.\<close>

definition scaffolded :: "(nat \<rightharpoonup> tree_node) \<Rightarrow> nat \<Rightarrow> created_entry image_store \<Rightarrow> bool" where
  "scaffolded nodes n s \<longleftrightarrow> n \<le> ts_next s \<and> (\<forall>i<n. undo (ts_entries s) (ts_nodes s) i = nodes i)"

lemma scaffolded_calls: "ignores_calls (scaffolded nodes n)"
  by (simp add: ignores_calls_def scaffolded_def)

lemma without_new [simp]:
  assumes "map_of entries name = None"
  shows "without_entry name (TreeDirectory ((name, i) # entries)) = TreeDirectory entries"
proof -
  have "filter (\<lambda>e. fst e \<noteq> name) entries = entries"
    using assms by (auto simp: filter_id_conv map_of_eq_None_iff)
  then show ?thesis by (simp add: without_entry_def)
qed

lemma scaffolded_push:
  assumes s: "scaffolded nodes n s" and add: "add_entry node parent name (ts_nodes s) (ts_next s) = Inr (i, nodes', m)"
    and e: "ce_parent e = parent" "ce_name e = name"
  shows "scaffolded nodes n (push_entry e (s\<lparr>ts_nodes := nodes', ts_next := m, ts_calls := c\<rparr>))"
proof -
  from add_entry_Inr [OF add] obtain entries where parent: "ts_nodes s parent = Some (TreeDirectory entries)"
    and free: "map_of entries name = None" and m: "m = ts_next s + 1"
    and nodes': "nodes' = (ts_nodes s)(parent \<mapsto> TreeDirectory ((name, ts_next s) # entries), ts_next s \<mapsto> node)" by blast
  have "undo (e # ts_entries s) nodes' j = nodes j" if "j < n" for j
  proof -
    have "j \<noteq> ts_next s" using that s by (simp add: scaffolded_def)
    then have "undo (e # ts_entries s) nodes' j = undo (ts_entries s) (ts_nodes s) j"
      using e parent free by (auto simp: nodes' intro!: undo_pointwise)
    then show ?thesis using s that by (simp add: scaffolded_def)
  qed
  moreover have "n \<le> m" using s m by (simp add: scaffolded_def)
  ultimately show ?thesis by (simp add: scaffolded_def push_entry_def)
qed

lemma scaffolded_call [simp]: "scaffolded nodes n (s\<lparr>ts_calls := c\<rparr>) = scaffolded nodes n s"
  by (simp add: scaffolded_def)

lemma clone_pinned_state:
  "clone_pinned K parent name directory i s = (r, s') \<Longrightarrow>
     s' = (push_entry \<lparr>ce_parent = parent, ce_node = Some i, ce_name = name, ce_directory = directory\<rparr> s)
            \<lparr>ts_calls := ts_calls s + 1\<rparr>"
  by (auto simp: clone_pinned_def push_calls split: prod.splits dest: look_state)

lemma pin_directory_state:
  "pin_directory K parent name s = (r, s') \<Longrightarrow>
     s' = (if isOk r then s else
        push_entry \<lparr>ce_parent = parent, ce_node = None, ce_name = name, ce_directory = True\<rparr> s)\<lparr>ts_calls := ts_calls s + 1\<rparr>"
  by (auto simp: pin_directory_def push_calls split: prod.splits sum.splits dest: look_state)

text \<open>Whatever fails while something is created, what was created is in the scaffold.\<close>

lemma scaffold_create_keeps: "keeps (scaffolded nodes n) (scaffold_create K parent name directory)"
proof (rule keepsI)
  fix s r s'
  assume s: "scaffolded nodes n s" and run: "scaffold_create K parent name directory s = (r, s')"
  obtain q l where q: "look K (\<lambda>_. Inr ()) s = (q, l)" by fastforce
  from look_state [OF q] s have l: "scaffolded nodes n l" by simp
  let ?add = "syscall K (add_entry (if directory then TreeDirectory [] else TreeFile []) parent name)"
  show "scaffolded nodes n s'"
  proof (cases q)
    case (Inr u)
    obtain a l' where a: "?add l = (a, l')" by fastforce
    show ?thesis
    proof (cases a)
      case (Inl e)
      from run q Inr a Inl have "s' = l'" by (auto simp: scaffold_create_def bindF_def split: if_splits)
      with syscall_Inl [OF a [unfolded Inl]] l show ?thesis by simp
    next
      case (Inr i)
      from syscall_Inr [OF a [unfolded this]] obtain nodes' m where
        add: "add_entry (if directory then TreeDirectory [] else TreeFile []) parent name (ts_nodes l) (ts_next l) = Inr (i, nodes', m)"
        and l': "l' = l\<lparr>ts_nodes := nodes', ts_next := m, ts_calls := ts_calls l + 1\<rparr>" by blast
      have pushed: "scaffolded nodes n (push_entry e l')" if "ce_parent e = parent" "ce_name e = name" for e
        unfolding l' by (rule scaffolded_push [OF l add that])
      show ?thesis
        using run q \<open>q = Inr u\<close> a Inr pushed
        by (auto simp: scaffold_create_def bindF_def push_calls split: if_splits prod.splits sum.splits
            dest!: clone_pinned_state pin_directory_state)
    qed
  qed (use run q l in \<open>simp add: scaffold_create_def bindF_def\<close>)
qed

section \<open>Releasing\<close>

lemma remove_entry_Inr:
  "remove_entry directory parent name nodes fresh = Inr (u, nodes', n) \<Longrightarrow>
     nodes' = (\<lambda>i. if i = parent then map_option (without_entry name) (nodes i) else nodes i) \<and> n = fresh"
  by (auto simp: remove_entry_def without_entry_def bindE_Inr_iff failIf_def fun_eq_iff
      split: option.splits tree_node.splits if_splits)

lemma entry_remove_Inr:
  assumes "entry_remove K e s = (Inr u, s')"
  shows "ts_nodes s' = undo [e] (ts_nodes s) \<and> ts_entries s' = ts_entries s \<and>
    (\<exists>i. ce_node e = Some i \<and> entry_of (ts_nodes s) (ce_parent e) (ce_name e) = Inr i)"
proof -
  from assms obtain actual s1 s2 i where
    first: "look K (\<lambda>nodes. entry_of nodes (ce_parent e) (ce_name e)) s = (Inr actual, s1)" and
    i: "ce_node e = Some i" "look K (\<lambda>nodes. bindE (node_of nodes i) (\<lambda>_. Inr i)) s1 = (Inr actual, s2)" and
    last: "syscall K (remove_entry (ce_directory e) (ce_parent e) (ce_name e)) s2 = (Inr u, s')"
    by (auto simp: entry_remove_def bindF_Inr failF_def split: option.splits if_splits)
  have same: "ts_nodes s2 = ts_nodes s" "ts_entries s2 = ts_entries s"
    using look_state [OF first] look_state [OF i(2)] by simp_all
  from look_Inr [OF i(2)] have "actual = i" by (auto simp: bindE_Inr_iff)
  with look_Inr [OF first] i syscall_Inr [OF last] same show ?thesis
    by (auto dest!: remove_entry_Inr)
qed

lemma entry_remove_Inl: "entry_remove K e s = (Inl x, s') \<Longrightarrow> ts_nodes s' = ts_nodes s"
  by (auto simp: entry_remove_def bindF_def failF_def split: prod.splits sum.splits option.splits if_splits
      dest!: look_state syscall_Inl)

lemma scaffold_release_Inr: "scaffold_release K es s = (Inr u, s') \<Longrightarrow> ts_nodes s' = undo es (ts_nodes s)"
proof (induction es arbitrary: s)
  case (Cons e es)
  then show ?case by (auto simp: bindF_Inr dest!: entry_remove_Inr)
qed (simp add: returnF_def)

section \<open>What a selection leaves behind\<close>

lemma resolver_walk_scaffolded:
  assumes "resolver_walk K create root s = (r, s')" and "ts_entries s = []"
  shows "scaffolded (ts_nodes s) (ts_next s) s'"
proof (rule keepsD [OF keeps_resolver_walk _ assms(1)])
  show "keeps (scaffolded (ts_nodes s) (ts_next s)) (scaffold_create K parent name directory)" for parent name directory
    by (rule scaffold_create_keeps)
  show "ignores_calls (scaffolded (ts_nodes s) (ts_next s))" by (rule scaffolded_calls)
  show "scaffolded (ts_nodes s) (ts_next s) s" using assms(2) by (simp add: scaffolded_def)
qed

lemma released_restores:
  assumes "scaffolded nodes n s" and "scaffold_release K (ts_entries s) s = (Inr u, s')" and "i < n"
  shows "ts_nodes s' i = nodes i"
  using assms scaffold_release_Inr [OF assms(2)] by (simp add: scaffolded_def)

text \<open>A selection with the release of what it selected, and whether a cleanup failed.\<close>

definition resolver_life :: "fs_kernel \<Rightarrow> bool \<Rightarrow> nat \<Rightarrow> created_entry image_store \<Rightarrow> fs_error option \<times> created_entry image_store" where
  "resolver_life K create root s =
     (case resolver_select K create root s of
        (Inl (e, cleanup), s1) \<Rightarrow> (cleanup, s1)
      | (Inr selected, s1) \<Rightarrow>
          (case scaffold_release K (ts_entries s1) s1 of
             (Inl e, s2) \<Rightarrow> (Some e, s2)
           | (Inr u, s2) \<Rightarrow> (None, s2)))"


text \<open>An existing file is selected without any change.\<close>

lemma resolver_existing_unchanged:
  assumes "resolver_select K False root s = (r, s')"
  shows "ts_nodes s' = ts_nodes s \<and> ts_entries s' = []"
proof -
  let ?P = "\<lambda>l. ts_nodes l = ts_nodes s \<and> ts_entries l = []"
  obtain q l where q: "look K (\<lambda>_. Inr ()) (s\<lparr>ts_entries := []\<rparr>) = (q, l)" by fastforce
  then have "?P l" using look_state by fastforce
  obtain w m where m: "resolver_walk K False root l = (w, m)" by fastforce
  have "keeps ?P (resolver_walk K False root)"
    by (rule keeps_resolver_walk) (simp_all add: ignores_calls_def)
  from keepsD [OF this \<open>?P l\<close> m] have "?P m" .
  with assms q m \<open>?P l\<close> show ?thesis
    by (auto simp: resolver_select_def returnF_def split: sum.splits prod.splits)
qed

section \<open>Release in a changed root\<close>

lemma map_of_without: "map_of (filter (\<lambda>e. fst e \<noteq> y) entries) x = (if x = y then None else map_of entries x)"
  by (induction entries) auto

lemma entry_of_undone: "entry_of (undo [e] nodes) parent name = Inr i \<Longrightarrow> entry_of nodes parent name = Inr i"
  by (cases "nodes parent"; cases "the (nodes parent)")
    (auto simp: entry_of_def without_entry_def map_of_without split: if_splits)

definition names_own :: "(nat \<rightharpoonup> tree_node) \<Rightarrow> created_entry \<Rightarrow> bool" where
  "names_own nodes e \<longleftrightarrow>
     (case ce_node e of None \<Rightarrow> False | Some i \<Rightarrow> entry_of nodes (ce_parent e) (ce_name e) = Inr i)"

lemma names_own_undone: "names_own (undo [e] nodes) x \<Longrightarrow> names_own nodes x"
  unfolding names_own_def by (cases "ce_node x") (auto intro: entry_of_undone simp del: undo.simps)

text \<open>C7: Whatever a command did to its root, a release removes from it nothing but entries of the
scaffold that still name the node created for them, the latest first, and it succeeds exactly
when it has removed all of them.\<close>

theorem release_own_entries:
  "\<exists>n. n \<le> length es \<and> ts_nodes (snd (scaffold_release K es s)) = undo (take n es) (ts_nodes s) \<and>
     list_all (names_own (ts_nodes s)) (take n es) \<and> (isOk (fst (scaffold_release K es s)) \<longleftrightarrow> n = length es)"
proof (induction es arbitrary: s)
  case (Cons e es)
  obtain q l where q: "entry_remove K e s = (q, l)" by fastforce
  show ?case
  proof (cases q)
    case (Inl x)
    with q entry_remove_Inl [of K e s x l] show ?thesis by (intro exI [of _ 0]) (simp add: bindF_def)
  next
    case (Inr u)
    with q have l: "ts_nodes l = undo [e] (ts_nodes s)" and own: "names_own (ts_nodes s) e"
      using entry_remove_Inr [of K e s u l] by (auto simp: names_own_def)
    from Cons.IH [of l] obtain n where n: "n \<le> length es"
      "ts_nodes (snd (scaffold_release K es l)) = undo (take n es) (ts_nodes l)"
      "list_all (names_own (ts_nodes l)) (take n es)" "isOk (fst (scaffold_release K es l)) \<longleftrightarrow> n = length es" by blast
    have "list_all (names_own (ts_nodes s)) (take n es)"
      using n(3) names_own_undone unfolding list_all_iff l by blast
    with n l own q Inr show ?thesis by (intro exI [of _ "Suc n"]) (simp add: bindF_def)
  qed
qed (simp add: returnF_def)

section \<open>What is selected\<close>

lemma select_final_Inr:
  "select_final K root node resolved s = (Inr (t, p), s') \<Longrightarrow> t = node \<and> p = resolved \<and> ts_nodes s' = ts_nodes s"
  by (auto simp: select_final_def bindF_Inr returnF_def failF_def split: if_splits dest!: look_nodes)

definition good_target :: "nat list \<Rightarrow> (nat \<rightharpoonup> tree_node) \<Rightarrow> nat \<Rightarrow> path \<Rightarrow> bool" where
  "good_target forbidden nodes t p \<longleftrightarrow>
     is_regular (nodes t) \<and> t \<notin> set forbidden \<and> p \<noteq> [] \<and> hd p \<notin> set runtime_names \<and> list_all plain p"

lemma target_walk_good:
  assumes "target_walk n K create root forbidden pending resolved links s = (Inr (t, p), s')"
    and "list_all plain resolved" and "\<forall>part\<in>set pending. part = ''/'' \<or> part = ''.'' \<or> part = ''..'' \<or> plain part"
  shows "good_target forbidden (ts_nodes s') t p"
  using assms
proof (induction n arbitrary: pending resolved links s)
  case (Suc n)
  show ?case
  proof (cases pending)
    case (Cons part rest)
    have parts: "\<forall>part\<in>set (path_iter target @ rest). part = ''/'' \<or> part = ''.'' \<or> part = ''..'' \<or> plain part" for target
      using path_iter_parts Suc.prems(3) Cons by auto
    consider (root) "part = ''/''" | (dot) "part = ''.''" | (up) "part = ''..''"
      | (name) "part \<noteq> ''/''" "part \<noteq> ''.''" "part \<noteq> ''..''" "plain part"
      using Suc.prems(3) Cons by auto
    then show ?thesis
    proof cases
      case root
      with Suc.prems Cons Suc.IH [of rest "[]" links s] show ?thesis by simp
    next
      case dot
      with Suc.prems Cons Suc.IH [of rest resolved links s] show ?thesis by simp
    next
      case up
      have "list_all plain (butlast resolved)" using Suc.prems(2) by (auto simp: list_all_iff dest: in_set_butlastD)
      with up Suc.prems Cons Suc.IH [of rest "butlast resolved" links s] show ?thesis
        by (simp add: failF_def split: if_splits)
    next
      case name
      let ?r = "resolved @ [part]"
      from Suc.prems(1) Cons name obtain node metadata s1 s2 where
        meta: "look K (\<lambda>nodes. node_of nodes node) s1 = (Inr metadata, s2)" and
        go: "(case metadata of
                TreeLink target \<Rightarrow>
                  if links + 1 > 40 then failF (FsOther ''resolver symlink limit exceeded'')
                  else bindF (look K (\<lambda>nodes. link_of nodes node)) (\<lambda>target.
                    target_walk n K create root forbidden (path_iter target @ rest) resolved (links + 1))
              | _ \<Rightarrow>
                  if hd ?r \<in> set runtime_names \<or> node \<in> set forbidden
                  then failF (FsOther ''resolver target is inside a command runtime mount'')
                  else if rest = [] then
                    (if \<not> is_regular (Some metadata) then failF (FsOther ''resolver target must be a regular file'')
                     else select_final K root node ?r)
                  else if \<not> is_directory (Some metadata) then failF (FsOther ''resolver ancestor is not a directory'')
                  else target_walk n K create root forbidden rest ?r links) s2 = (Inr (t, p), s')"
        by (auto simp: bindF_Inr)
      have here: "ts_nodes s2 node = Some metadata"
        using look_Inr [OF meta] look_nodes [OF meta] by (simp add: node_of_def)
      have plain: "list_all plain ?r" using Suc.prems(2) name(4) by simp
      show ?thesis
      proof (cases "\<exists>target. metadata = TreeLink target")
        case True
        with go obtain target s3 where
          "target_walk n K create root forbidden (path_iter target @ rest) resolved (links + 1) s3 = (Inr (t, p), s')"
          by (auto simp: bindF_Inr failF_def split: if_splits)
        from Suc.IH [OF this Suc.prems(2) parts] show ?thesis .
      next
        case False
        with go have allowed: "hd ?r \<notin> set runtime_names" "node \<notin> set forbidden"
          by (auto simp: failF_def split: tree_node.splits if_splits)
        show ?thesis
        proof (cases "rest = []")
          case True
          with go False allowed have "is_regular (Some metadata)" "select_final K root node ?r s2 = (Inr (t, p), s')"
            by (auto simp: failF_def split: tree_node.splits if_splits)
          with select_final_Inr [OF this(2)] here allowed plain show ?thesis by (simp add: good_target_def)
        next
          case nonempty: False
          with go False allowed have "target_walk n K create root forbidden rest ?r links s2 = (Inr (t, p), s')"
            by (auto simp: failF_def split: tree_node.splits if_splits)
          from Suc.IH [OF this plain] Suc.prems(3) Cons show ?thesis by simp
        qed
      qed
    qed
  qed (use Suc.prems in \<open>simp add: failF_def\<close>)
qed (simp add: failF_def)

lemma forbidden_nodes_complete:
  "forbidden_nodes K root names forbidden s = (Inr r, s') \<Longrightarrow>
     set forbidden \<subseteq> set r \<and> ts_nodes s' = ts_nodes s \<and>
     (\<forall>name\<in>set names. \<forall>i. fk_open K AnyDirectory (ts_nodes s) root [name] = Inr i \<longrightarrow> i \<in> set r)"
proof (induction names arbitrary: forbidden s)
  case (Cons name names)
  obtain q s1 where q: "look K (\<lambda>nodes. fk_open K AnyDirectory nodes root [name]) s = (q, s1)" by fastforce
  note same = look_nodes [OF q]
  show ?case
  proof (cases q)
    case (Inl e)
    with Cons.prems q have "e = NoEntry" "forbidden_nodes K root names forbidden s1 = (Inr r, s')"
      by (auto simp: handleF_def failF_def split: if_splits)
    with Cons.IH [OF this(2)] look_missing [OF q [unfolded Inl \<open>e = NoEntry\<close>]] same show ?thesis by auto
  next
    case (Inr i)
    with Cons.prems q obtain m s2 where m: "look K (\<lambda>nodes. node_of nodes i) s1 = (Inr m, s2)"
      and rest: "forbidden_nodes K root names (forbidden @ [i]) s2 = (Inr r, s')"
      by (auto simp: handleF_def bindF_Inr)
    from Cons.IH [OF rest] look_nodes [OF m] look_Inr [OF q [unfolded Inr]] same show ?thesis by auto
  qed
qed (simp add: returnF_def)


section \<open>A dangling link\<close>

text \<open>A kernel that follows links and never fails, and a root whose resolver is a link to a file
that does not exist.\<close>

fun example_open :: "nat \<Rightarrow> (nat \<rightharpoonup> tree_node) \<Rightarrow> nat \<Rightarrow> nat \<Rightarrow> path \<Rightarrow> fs_error + nat" where
  "example_open 0 nodes root i names = Inl (FsErrno ''ELOOP'')"
| "example_open (Suc n) nodes root i names =
     (case names of
        [] \<Rightarrow> Inr i
      | name # rest \<Rightarrow>
          if name = ''/'' then example_open n nodes root root rest
          else bindE (entry_of nodes i name) (\<lambda>j.
            case nodes j of
              Some (TreeLink target) \<Rightarrow> example_open n nodes root i (path_iter target @ rest)
            | _ \<Rightarrow> example_open n nodes root j rest))"

definition example_kernel :: fs_kernel where
  "example_kernel = \<lparr>fk_fault = (\<lambda>_. None), fk_open = (\<lambda>how nodes root. example_open 9 nodes root root)\<rparr>"

definition example_root :: "created_entry image_store" where
  "example_root =
     \<lparr>ts_nodes = [0 \<mapsto> TreeDirectory [(''etc'', 1)], 1 \<mapsto> TreeDirectory [(''resolv.conf'', 2)], 2 \<mapsto> TreeLink ''/run/resolver''],
      ts_next = 3, ts_calls = 0, ts_entries = []\<rparr>"

lemma example_paths: "path_iter ''etc/resolv.conf'' = [''etc'', ''resolv.conf'']" "path_iter ''/run/resolver'' = [''/'', ''run'', ''resolver'']"
  by code_simp+

lemma example_selected:
  "fst (resolver_select example_kernel True 0 example_root) = Inr (4, [''run'', ''resolver''])"
  by code_simp


lemma example_released: "fst (resolver_life example_kernel True 0 example_root) = None"
  by code_simp


end
