(* ===== verification/Network_Route.thy ===== *)
theory Network_Route
  imports Isolation_Gate
begin

text \<open>
  Requests to the routing of the kernel: \<open>network/route.rs\<close> and \<open>network/loopback.rs\<close>.  The codec of
  netlink messages is a parameter: what \<open>deserialize\<close> makes of the rest of a datagram.
\<close>

section \<open>Replies\<close>

text \<open>A link has an index, and the kernel says whether it is a loopback.\<close>

datatype route_message = GetLink string | NewLink nat bool | LinkUp nat | OtherRoute string

datatype netlink_payload = NetlinkAck | NetlinkError string | RouteMessage route_message | NetlinkOther

record netlink_packet =
  np_length :: nat
  np_sequence :: nat
  np_interrupted :: bool
  np_payload :: netlink_payload

type_synonym netlink = "byte list \<Rightarrow> string + netlink_packet"

definition frame_aligned :: "nat \<Rightarrow> nat" where
  "frame_aligned n = 4 * ((n + 3) div 4)"

definition check_frame :: "netlink_packet \<Rightarrow> byte list \<Rightarrow> bool \<Rightarrow> io_error + unit" where
  "check_frame packet remaining acknowledged =
     failIf (np_length packet < 16 \<or> length remaining < np_length packet \<or> np_sequence packet \<noteq> 1 \<or>
         np_interrupted packet \<or> acknowledged)
       (OsError ''invalid route reply framing or sequence'')"

definition take_payload ::
    "netlink_payload \<Rightarrow> route_message list \<Rightarrow> bool \<Rightarrow> io_error + route_message list \<times> bool" where
  "take_payload payload messages acknowledged =
     (case payload of
        NetlinkAck \<Rightarrow> Inr (messages, True)
      | NetlinkError e \<Rightarrow> Inl (OsError e)
      | RouteMessage m \<Rightarrow> Inr (messages @ [m], acknowledged)
      | NetlinkOther \<Rightarrow> Inl (OsError ''unexpected route control message''))"

definition after_frame :: "nat \<Rightarrow> byte list \<Rightarrow> io_error + byte list" where
  "after_frame n remaining =
     (if length remaining < frame_aligned n then
        bindE (failIf (n \<noteq> length remaining) (OsError ''truncated route alignment'')) (\<lambda>_. Inr [])
      else Inr (drop (frame_aligned n) remaining))"

lemma aligned_bounds: "n \<le> frame_aligned n" "frame_aligned n \<le> n + 3"
  by (simp_all add: frame_aligned_def)

lemma after_frame_shorter:
  assumes "after_frame n remaining = Inr later" "16 \<le> n" "remaining \<noteq> []"
  shows "length later < length remaining"
  using assms aligned_bounds(1) [of n] by (auto simp: after_frame_def bindE_Inr_iff split: if_splits)

function reply_frames ::
    "netlink \<Rightarrow> byte list \<Rightarrow> bool \<Rightarrow> route_message list \<Rightarrow> io_error + route_message list \<times> bool" where
  "reply_frames decode remaining acknowledged messages =
     (if remaining = [] then Inr (messages, acknowledged)
      else
        (case decode remaining of
           Inl e \<Rightarrow> Inl (OsError e)
         | Inr packet \<Rightarrow>
             (case check_frame packet remaining acknowledged of
                Inl e \<Rightarrow> Inl e
              | Inr u \<Rightarrow>
                  (case take_payload (np_payload packet) messages acknowledged of
                     Inl e \<Rightarrow> Inl e
                   | Inr (messages', acknowledged') \<Rightarrow>
                       (case after_frame (np_length packet) remaining of
                          Inl e \<Rightarrow> Inl e
                        | Inr later \<Rightarrow> reply_frames decode later acknowledged' messages')))))"
  by pat_completeness auto

termination
proof (relation "measure (\<lambda>(_, remaining, _, _). length remaining)")
  fix decode remaining acknowledged messages packet u pair messages' acknowledged' later
  assume "remaining \<noteq> []" "check_frame packet remaining acknowledged = Inr u"
    "after_frame (np_length packet) remaining = Inr later"
  then show "((decode, later, acknowledged', messages'), (decode, remaining, acknowledged, messages))
      \<in> measure (\<lambda>(_, remaining, _, _). length remaining)"
    using after_frame_shorter by (simp add: check_frame_def failIf_def split: if_splits)
qed simp

declare reply_frames.simps [simp del]

definition reply_receive :: "netlink \<Rightarrow> route_message list \<Rightarrow> byte list \<Rightarrow> io_error + route_message list \<times> bool" where
  "reply_receive decode messages bytes =
     bindE (failIf (bytes = []) (OsError ''empty route datagram'')) (\<lambda>_. reply_frames decode bytes False messages)"

section \<open>What a datagram may be\<close>

inductive framed :: "netlink \<Rightarrow> byte list \<Rightarrow> netlink_payload list \<Rightarrow> bool" for decode where
  framed_end: "framed decode [] []"
| framed_packet:
    "remaining \<noteq> [] \<Longrightarrow> decode remaining = Inr packet \<Longrightarrow> check_frame packet remaining False = Inr u \<Longrightarrow>
     after_frame (np_length packet) remaining = Inr later \<Longrightarrow> framed decode later payloads \<Longrightarrow>
     framed decode remaining (np_payload packet # payloads)"

inductive_simps framed_Nil: "framed decode [] payloads"

lemma reply_frames_acknowledged: "reply_frames decode remaining True messages = Inr r \<longleftrightarrow> remaining = [] \<and> r = (messages, True)"
  by (subst reply_frames.simps) (auto simp: check_frame_def failIf_def split: sum.splits)

lemma reply_frames_sound:
  "reply_frames decode remaining False messages = Inr (r, acknowledged) \<Longrightarrow>
     \<exists>new. framed decode remaining (map RouteMessage new @ (if acknowledged then [NetlinkAck] else [])) \<and> r = messages @ new"
proof (induction decode remaining False messages rule: reply_frames.induct)
  case (1 decode remaining messages)
  show ?case
  proof (cases "remaining = []")
    case True
    with 1(2) show ?thesis by (subst (asm) reply_frames.simps) (auto intro: framed_end)
  next
    case False
    from 1(2) False obtain packet u messages' acknowledged' later where
      d: "decode remaining = Inr packet" "check_frame packet remaining False = Inr u"
      and t: "take_payload (np_payload packet) messages False = Inr (messages', acknowledged')"
      and l: "after_frame (np_length packet) remaining = Inr later"
      and rest: "reply_frames decode later acknowledged' messages' = Inr (r, acknowledged)"
      by (subst (asm) reply_frames.simps) (auto split: sum.splits)
    note packet = framed_packet [where decode = decode, OF False d l]
    show ?thesis
    proof (cases acknowledged')
      case True
      with t have "np_payload packet = NetlinkAck" "messages' = messages"
        by (auto simp: take_payload_def split: netlink_payload.splits)
      moreover have "later = []" "r = messages'" "acknowledged"
        using rest True by (simp_all add: reply_frames_acknowledged)
      ultimately show ?thesis using packet [of "[]"] by (intro exI [of _ "[]"]) (simp add: framed_end)
    next
      case no: False
      with t obtain m where m: "np_payload packet = RouteMessage m" "messages' = messages @ [m]"
        by (auto simp: take_payload_def split: netlink_payload.splits)
      have t': "take_payload (np_payload packet) messages False = Inr (messages', False)" using t no by simp
      from 1(1) [OF False d t' refl l] rest no obtain new where
        "framed decode later (map RouteMessage new @ (if acknowledged then [NetlinkAck] else []))" "r = messages' @ new"
        by auto
      with packet m show ?thesis by (intro exI [of _ "m # new"]) auto
    qed
  qed
qed

lemma reply_frames_complete:
  "framed decode remaining payloads \<Longrightarrow>
     payloads = map RouteMessage new @ (if acknowledged then [NetlinkAck] else []) \<Longrightarrow>
     reply_frames decode remaining False messages = Inr (messages @ new, acknowledged)"
proof (induction arbitrary: new messages rule: framed.induct)
  case framed_end
  then show ?case by (subst reply_frames.simps) (auto split: if_splits)
next
  case (framed_packet remaining packet u later payloads)
  note step = reply_frames.simps [of decode remaining False messages]
  show ?case
  proof (cases new)
    case Nil
    with framed_packet.prems have ack: acknowledged "np_payload packet = NetlinkAck" "payloads = []"
      by (auto split: if_splits)
    with framed_packet.hyps(5) have "later = []" by (cases rule: framed.cases) auto
    with framed_packet.hyps ack Nil show ?thesis
      by (simp add: step take_payload_def reply_frames_acknowledged)
  next
    case (Cons m new')
    with framed_packet.prems have m: "np_payload packet = RouteMessage m"
      "payloads = map RouteMessage new' @ (if acknowledged then [NetlinkAck] else [])" by simp_all
    from framed_packet.IH [OF m(2), of "messages @ [m]"] framed_packet.hyps m(1) Cons show ?thesis
      by (simp add: step take_payload_def)
  qed
qed


section \<open>A request\<close>

text \<open>A socket of its own per request: whether it was opened and bound, its answers, and who sent
what is received.\<close>

record route_socket =
  rs_open :: "io_error + unit"
  rs_channel :: channel
  rs_sender :: "nat \<Rightarrow> (nat \<times> nat) option"

fun route_ready :: "nat \<Rightarrow> channel \<Rightarrow> nat \<Rightarrow> nat \<Rightarrow> unit gate_run" where
  "route_ready 0 C deadline k = None"
| "route_ready (Suc fuel) C deadline k =
     (case deadline_remaining ''route request deadline expired'' deadline (ch_clock C k) of
        Inl e \<Rightarrow> Some (Inl e, k + 1)
      | Inr timeout \<Rightarrow>
          (case ch_poll C k of
             PollNothing \<Rightarrow> route_ready fuel C deadline (k + 1)
           | PollEvents interest \<Rightarrow>
               Some (if interest then Inr () else Inl (OsError ''route socket closed or failed''), k + 1)
           | PollErrno EINTR \<Rightarrow> route_ready fuel C deadline (k + 1)
           | PollErrno EAGAIN \<Rightarrow> Some (Inl (OsError ''EAGAIN''), k + 1)
           | PollErrno (OtherErrno e) \<Rightarrow> Some (Inl (OsError e), k + 1)))"

definition check_sender :: "(nat \<times> nat) option \<Rightarrow> nat \<Rightarrow> io_error + unit" where
  "check_sender sender received =
     bindE (okOr (OsError ''missing route reply sender'') sender) (\<lambda>(pid, groups).
       failIf (pid \<noteq> 0 \<or> groups \<noteq> 0 \<or> 65536 < received) (OsError ''invalid route reply sender or truncation''))"

text \<open>What one answer to a receive leads to: nothing, the end, or more messages.\<close>

definition route_received ::
    "netlink \<Rightarrow> (nat \<times> nat) option \<Rightarrow> route_message list \<Rightarrow> errno + datagram \<Rightarrow>
     (io_error + route_message list \<times> bool)" where
  "route_received decode sender messages answer =
     (case answer of
        Inl (OtherErrno e) \<Rightarrow> Inl (OsError e)
      | Inl _ \<Rightarrow> Inr (messages, False)
      | Inr d \<Rightarrow> bindE (check_sender sender (length (dg_bytes d))) (\<lambda>_. reply_receive decode messages (dg_bytes d)))"

fun route_replies ::
    "nat \<Rightarrow> netlink \<Rightarrow> route_socket \<Rightarrow> nat \<Rightarrow> route_message list \<Rightarrow> nat \<Rightarrow> route_message list gate_run" where
  "route_replies 0 decode S deadline messages k = None"
| "route_replies (Suc fuel) decode S deadline messages k =
     (case route_ready (Suc fuel) (rs_channel S) deadline k of
        None \<Rightarrow> None
      | Some (Inl e, k') \<Rightarrow> Some (Inl e, k')
      | Some (Inr u, k') \<Rightarrow>
          (case route_received decode (rs_sender S k') messages (ch_recv (rs_channel S) k') of
             Inl e \<Rightarrow> Some (Inl e, k' + 1)
           | Inr (messages', acknowledged) \<Rightarrow>
               if acknowledged then Some (Inr messages', k' + 1)
               else route_replies fuel decode S deadline messages' (k' + 1)))"

definition route_execute :: "nat \<Rightarrow> netlink \<Rightarrow> nat \<Rightarrow> route_socket \<Rightarrow> nat \<Rightarrow> route_message list gate_run" where
  "route_execute fuel decode request_length S deadline =
     (case rs_open S of
        Inl e \<Rightarrow> Some (Inl e, 0)
      | Inr u \<Rightarrow>
          (case until_settled fuel (\<lambda>f. route_ready f (rs_channel S) deadline)
             (\<lambda>k. send_attempt request_length ''short route request'' (ch_send (rs_channel S) k)) 0 of
             None \<Rightarrow> None
           | Some (Inl e, k) \<Rightarrow> Some (Inl e, k)
           | Some (Inr u, k) \<Rightarrow> route_replies fuel decode S deadline [] k))"

text \<open>The loopback of a fresh namespace: \<open>sockets\<close> gives the length of a request and the socket it
is made on.\<close>

definition loopback_activate ::
    "nat \<Rightarrow> netlink \<Rightarrow> (route_message \<Rightarrow> nat \<times> route_socket) \<Rightarrow> nat \<Rightarrow> (io_error + unit) option" where
  "loopback_activate fuel decode sockets deadline =
     (case sockets (GetLink ''lo'') of (n, S) \<Rightarrow>
        (case route_execute fuel decode n S deadline of
           None \<Rightarrow> None
         | Some (Inl e, k) \<Rightarrow> Some (Inl e)
         | Some (Inr [NewLink i loopback], k) \<Rightarrow>
             if \<not> loopback then Some (Inl (OsError ''invalid private loopback''))
             else (case sockets (LinkUp i) of (n, S) \<Rightarrow>
               map_option (\<lambda>(r, k). bindE r (\<lambda>_. Inr ())) (route_execute fuel decode n S deadline))
         | Some (Inr replies, k) \<Rightarrow> Some (Inl (OsError ''missing private loopback''))))"

lemma route_ready_returns:
  "\<forall>i\<ge>n. deadline \<le> ch_clock C i \<Longrightarrow> n \<le> k + m \<Longrightarrow> route_ready (Suc m) C deadline k \<noteq> None"
proof (induction m arbitrary: k)
  case 0
  then show ?case by (simp add: deadline_remaining_def)
next
  case (Suc m)
  from Suc.IH [of "k + 1"] Suc.prems have "route_ready (Suc m) C deadline (k + 1) \<noteq> None" by simp
  then show ?case
    by (auto simp del: route_ready.simps simp add: route_ready.simps(2) [of "Suc m"]
        split: sum.splits poll_answer.splits errno.splits)
qed

lemma route_ready_before:
  "route_ready fuel C deadline k = Some (r, k') \<Longrightarrow>
     k < k' \<and> (isOk r \<longrightarrow> ch_clock C (k' - 1) < deadline)"
  by (induction fuel arbitrary: k)
    (force simp: deadline_remaining_def bindE_Inr_iff split: sum.splits poll_answer.splits errno.splits if_splits)+

interpretation route: bounded_wait C deadline "\<lambda>f. route_ready f C deadline" for C deadline
proof unfold_locales
  show "route_ready (Suc m) C deadline k \<noteq> None" if "\<forall>i\<ge>n. deadline \<le> ch_clock C i" "n \<le> k + m" for n k m
    using route_ready_returns [OF that] .
  show "k < k'" if "route_ready fuel C deadline k = Some (r, k')" for fuel k r k'
    using route_ready_before [OF that] by simp
  show "\<exists>i\<ge>k. k' = i + 1 \<and> ch_clock C i < deadline" if "route_ready fuel C deadline k = Some (Inr u, k')" for fuel k u k'
    using route_ready_before [OF that] by (intro exI [of _ "k' - 1"]) auto
qed

lemma route_replies_return:
  "\<forall>i\<ge>n. deadline \<le> ch_clock (rs_channel S) i \<Longrightarrow> n \<le> k + m \<Longrightarrow>
     route_replies (Suc m) decode S deadline messages k \<noteq> None"
proof (induction m arbitrary: k messages)
  case 0
  have "\<not> (\<exists>u k'. route_ready (Suc 0) (rs_channel S) deadline k = Some (Inr u, k'))"
  proof
    assume "\<exists>u k'. route_ready (Suc 0) (rs_channel S) deadline k = Some (Inr u, k')"
    then obtain i where "k \<le> i" "ch_clock (rs_channel S) i < deadline" using route.before by blast
    with 0 show False by (metis add.right_neutral leD le_trans)
  qed
  with route.returns [OF 0] show ?case
    by (auto simp del: route_ready.simps split: sum.splits)
next
  case (Suc m)
  obtain r k' where w: "route_ready (Suc (Suc m)) (rs_channel S) deadline k = Some (r, k')"
    using route.returns [OF Suc.prems] by auto
  then have "n \<le> k' + 1 + m" using route.calls [OF w] Suc.prems(2) by simp
  from Suc.IH [OF Suc.prems(1) this] w show ?case
    by (subst route_replies.simps) (auto simp del: route_replies.simps route_ready.simps split: sum.split)
qed

text \<open>A request returns once its deadline has passed.\<close>

theorem route_execute_returns:
  assumes "\<forall>i\<ge>n. deadline \<le> ch_clock (rs_channel S) i"
  shows "route_execute (Suc n) decode request_length S deadline \<noteq> None"
proof -
  let ?attempt = "\<lambda>k. send_attempt request_length ''short route request'' (ch_send (rs_channel S) k)"
  have "until_settled (Suc n) (\<lambda>f. route_ready f (rs_channel S) deadline) ?attempt 0 \<noteq> None"
    by (rule route.settled_returns [OF assms]) simp
  then obtain r k where "until_settled (Suc n) (\<lambda>f. route_ready f (rs_channel S) deadline) ?attempt 0 = Some (r, k)"
    by auto
  then show ?thesis
    using route_replies_return [OF assms, of k n decode "[]"]
    by (simp add: route_execute_def del: route_replies.simps until_settled.simps split: sum.split)
qed

end
