(* ===== verification/Runtime_Targets.thy ===== *)
theory Runtime_Targets
  imports Image_Store
begin

text \<open>
  The mount points of the runtime file systems of a command: \<open>isolation/runtime.rs\<close>.  They are
  created in the image where they are missing, and they must neither alias nor contain one
  another.  \<open>up\<close> is the parent directory that the kernel finds for a directory.
\<close>

section \<open>Opening the directories\<close>

definition runtime_directory :: "fs_kernel \<Rightarrow> nat \<Rightarrow> string \<Rightarrow> ('e, nat) fs_op" where
  "runtime_directory K root path =
     (let open_directory = look K (\<lambda>nodes. fk_open K NearDirectory nodes root [path]) in
      handleF open_directory returnF (\<lambda>e.
        if e = NoEntry then
          handleF (syscall K (add_entry (TreeDirectory []) root path))
            (\<lambda>_. bindF (look K (\<lambda>_. Inr ())) (\<lambda>_. open_directory))
            (\<lambda>e. if e = FsErrno ''EEXIST'' then open_directory else failF e)
        else failF e))"

type_synonym parents = "(nat \<rightharpoonup> tree_node) \<Rightarrow> nat \<Rightarrow> fs_error + nat"

fun reject_nested :: "nat \<Rightarrow> fs_kernel \<Rightarrow> parents \<Rightarrow> nat \<Rightarrow> nat \<Rightarrow> nat \<Rightarrow> ('e, unit) fs_op" where
  "reject_nested 0 K up current other root =
     failF (FsOther ''runtime target ancestry is not bounded by image root'')"
| "reject_nested (Suc n) K up current other root =
     bindF (look K (\<lambda>nodes. up nodes current)) (\<lambda>parent.
     bindF (look K (\<lambda>nodes. node_of nodes parent)) (\<lambda>_.
     if parent = other then failF (FsOther ''runtime mount targets are nested'')
     else if parent = root then returnF ()
     else bindF (look K (\<lambda>nodes. node_of nodes current)) (\<lambda>_.
       if parent = current then failF (FsOther ''runtime target ancestry is not bounded by image root'')
       else reject_nested n K up parent other root)))"

definition check_nested :: "fs_kernel \<Rightarrow> parents \<Rightarrow> nat \<Rightarrow> nat \<Rightarrow> nat \<Rightarrow> ('e, unit) fs_op" where
  "check_nested K up directory other root =
     bindF (look K (\<lambda>_. Inr ())) (\<lambda>_. reject_nested 4096 K up directory other root)"

definition identified :: "fs_kernel \<Rightarrow> nat \<Rightarrow> ('e, unit) fs_op" where
  "identified K i = bindF (look K (\<lambda>nodes. node_of nodes i)) (\<lambda>_. returnF ())"

record runtime_targets =
  rt_proc :: nat
  rt_sys :: nat
  rt_dev :: nat

definition runtime_check :: "fs_kernel \<Rightarrow> parents \<Rightarrow> nat \<Rightarrow> runtime_targets \<Rightarrow> ('e, unit) fs_op" where
  "runtime_check K up root T =
     bindF (identified K root) (\<lambda>_. bindF (identified K (rt_proc T)) (\<lambda>_. bindF (identified K (rt_sys T)) (\<lambda>_.
     if rt_proc T = root \<or> rt_sys T = root \<or> rt_proc T = rt_sys T
     then failF (FsOther ''runtime mount targets alias root or each other'')
     else
       bindF (check_nested K up (rt_proc T) (rt_sys T) root) (\<lambda>_.
       bindF (check_nested K up (rt_sys T) (rt_proc T) root) (\<lambda>_.
       bindF (identified K (rt_dev T)) (\<lambda>_.
       if rt_dev T \<in> {root, rt_proc T, rt_sys T} then failF (FsOther ''device target aliases another runtime target'')
       else
         bindF (check_nested K up (rt_dev T) (rt_proc T) root) (\<lambda>_.
         bindF (check_nested K up (rt_proc T) (rt_dev T) root) (\<lambda>_.
         bindF (check_nested K up (rt_dev T) (rt_sys T) root) (\<lambda>_.
           check_nested K up (rt_sys T) (rt_dev T) root)))))))))"

definition runtime_resolve :: "fs_kernel \<Rightarrow> parents \<Rightarrow> nat \<Rightarrow> ('e, runtime_targets) fs_op" where
  "runtime_resolve K up root =
     bindF (runtime_directory K root ''dev'') (\<lambda>dev.
     bindF (runtime_directory K root ''proc'') (\<lambda>proc.
     bindF (runtime_directory K root ''sys'') (\<lambda>sys.
     let T = \<lparr>rt_proc = proc, rt_sys = sys, rt_dev = dev\<rparr> in
     bindF (runtime_check K up root T) (\<lambda>_. returnF T))))"

section \<open>Ancestors\<close>

fun climb :: "parents \<Rightarrow> (nat \<rightharpoonup> tree_node) \<Rightarrow> nat \<Rightarrow> nat \<Rightarrow> fs_error + nat" where
  "climb up nodes 0 i = Inr i"
| "climb up nodes (Suc n) i = bindE (up nodes i) (climb up nodes n)"

text \<open>The way up from \<open>i\<close> reaches the root and does not pass \<open>other\<close>.\<close>

definition apart :: "parents \<Rightarrow> (nat \<rightharpoonup> tree_node) \<Rightarrow> nat \<Rightarrow> nat \<Rightarrow> nat \<Rightarrow> bool" where
  "apart up nodes root i other \<longleftrightarrow>
     (\<exists>n. 0 < n \<and> n \<le> 4096 \<and> climb up nodes n i = Inr root \<and> Inr other \<notin> (\<lambda>m. climb up nodes m i) ` {1..n})"

lemma reject_nested_Inr:
  "reject_nested f K up i other root s = (Inr u, s') \<Longrightarrow>
     ts_nodes s' = ts_nodes s \<and>
     (\<exists>n. 0 < n \<and> n \<le> f \<and> climb up (ts_nodes s) n i = Inr root \<and> Inr other \<notin> (\<lambda>m. climb up (ts_nodes s) m i) ` {1..n})"
proof (induction f arbitrary: i s)
  case (Suc f)
  from Suc.prems obtain parent s1 s2 m where p: "look K (\<lambda>nodes. up nodes i) s = (Inr parent, s1)"
    "look K (\<lambda>nodes. node_of nodes parent) s1 = (Inr m, s2)" "parent \<noteq> other"
    and rest: "(if parent = root then returnF ()
      else bindF (look K (\<lambda>nodes. node_of nodes i)) (\<lambda>_.
        if parent = i then failF (FsOther ''runtime target ancestry is not bounded by image root'')
        else reject_nested f K up parent other root)) s2 = (Inr u, s')"
    by (auto simp: bindF_Inr failF_def split: if_splits)
  have step: "up (ts_nodes s) i = Inr parent" using look_Inr [OF p(1)] .
  have same: "ts_nodes s2 = ts_nodes s" using look_nodes [OF p(1)] look_nodes [OF p(2)] by simp
  show ?case
  proof (cases "parent = root")
    case True
    with rest same step p(3) show ?thesis
      by (auto simp: returnF_def bindE_def intro!: exI [of _ 1])
  next
    case False
    with rest obtain v s3 where l: "look K (\<lambda>nodes. node_of nodes i) s2 = (Inr v, s3)"
      and go: "reject_nested f K up parent other root s3 = (Inr u, s')"
      by (auto simp: bindF_Inr failF_def split: if_splits)
    from Suc.IH [OF go] same look_nodes [OF l] obtain n where n: "ts_nodes s' = ts_nodes s" "0 < n" "n \<le> f"
      "climb up (ts_nodes s) n parent = Inr root" "Inr other \<notin> (\<lambda>m. climb up (ts_nodes s) m parent) ` {1..n}" by auto
    have "Inr other \<noteq> climb up (ts_nodes s) m i" if "m \<in> {1..Suc n}" for m
    proof (cases m)
      case (Suc k)
      with that n(5) step p(3) show ?thesis by (cases k) (force simp: bindE_def)+
    qed (use that in simp)
    then have "Inr other \<notin> (\<lambda>m. climb up (ts_nodes s) m i) ` {1..Suc n}" by blast
    with n(1-4) step show ?thesis by (intro conjI exI [of _ "Suc n"]) (simp_all add: bindE_def)
  qed
qed (simp add: failF_def)

lemma check_nested_Inr:
  assumes "check_nested K up i other root s = (Inr u, s')"
  shows "ts_nodes s' = ts_nodes s \<and> apart up (ts_nodes s) root i other"
proof -
  from assms obtain l where l: "look K (\<lambda>_. Inr ()) s = (Inr (), l)" "reject_nested 4096 K up i other root l = (Inr u, s')"
    by (auto simp: check_nested_def bindF_Inr)
  from reject_nested_Inr [OF l(2)] look_nodes [OF l(1)] show ?thesis unfolding apart_def by simp
qed

lemma identified_Inr: "identified K i s = (Inr u, s') \<Longrightarrow> ts_nodes s' = ts_nodes s"
  by (auto simp: identified_def bindF_Inr returnF_def dest: look_nodes)

text \<open>C11: Runtime targets that are accepted are distinct from the root and from one another, and
none lies above another.\<close>

theorem runtime_targets_apart:
  assumes "runtime_resolve K up root s = (Inr T, s')"
  shows "distinct [root, rt_proc T, rt_sys T, rt_dev T] \<and>
    apart up (ts_nodes s') root (rt_proc T) (rt_sys T) \<and> apart up (ts_nodes s') root (rt_sys T) (rt_proc T) \<and>
    apart up (ts_nodes s') root (rt_dev T) (rt_proc T) \<and> apart up (ts_nodes s') root (rt_proc T) (rt_dev T) \<and>
    apart up (ts_nodes s') root (rt_dev T) (rt_sys T) \<and> apart up (ts_nodes s') root (rt_sys T) (rt_dev T)"
proof -
  from assms obtain l u where "runtime_check K up root T l = (Inr u, s')"
    by (auto simp: runtime_resolve_def Let_def bindF_Inr returnF_def)
  then show ?thesis
    by (auto simp: runtime_check_def bindF_Inr failF_def split: if_splits
        dest!: identified_Inr check_nested_Inr)
qed

section \<open>The image\<close>

lemma keeps_reject_nested [keeps_rules]: "ignores_calls P \<Longrightarrow> keeps P (reject_nested n K up i other root)"
  by (induction n arbitrary: i) (auto intro!: keeps_rules)

text \<open>Resolving the runtime targets changes nothing in an image but its root, which gets at
most empty directories under new names, even when it fails.\<close>

theorem runtime_only_mount_points:
  assumes "ts_nodes s root = Some (TreeDirectory old)" and "root < ts_next s"
  shows "only_mount_points (ts_nodes s) (ts_next s) root (snd (runtime_resolve K up root s))"
proof -
  let ?P = "only_mount_points (ts_nodes s) (ts_next s) root"
  note rules = keeps_rules only_mount_points_calls only_mount_points_add [OF assms(2)]
  have "keeps ?P (runtime_resolve K up root)"
    unfolding runtime_resolve_def runtime_directory_def runtime_check_def check_nested_def identified_def Let_def
    by (intro rules)
  from keepsD [OF this only_mount_points_start [OF refl refl assms(1)]] show ?thesis by (metis prod.collapse)
qed

section \<open>A bare root\<close>

definition bare_root :: "unit image_store" where
  "bare_root = \<lparr>ts_nodes = [0 \<mapsto> TreeDirectory []], ts_next = 1, ts_calls = 0, ts_entries = []\<rparr>"

definition flat_kernel :: fs_kernel where
  "flat_kernel = \<lparr>fk_fault = (\<lambda>_. None), fk_open = (\<lambda>how nodes root path. entry_of nodes root (hd path))\<rparr>"

definition flat_parents :: parents where
  "flat_parents nodes i = Inr 0"

lemma bare_root_resolved:
  "fst (runtime_resolve flat_kernel flat_parents 0 bare_root) = Inr \<lparr>rt_proc = 2, rt_sys = 3, rt_dev = 1\<rparr>"
  by code_simp

lemma runtime_targets_apart_witness:
  "apart flat_parents (ts_nodes (snd (runtime_resolve flat_kernel flat_parents 0 bare_root))) 0 2 3"
proof -
  have "runtime_resolve flat_kernel flat_parents 0 bare_root =
      (Inr \<lparr>rt_proc = 2, rt_sys = 3, rt_dev = 1\<rparr>, snd (runtime_resolve flat_kernel flat_parents 0 bare_root))"
    using bare_root_resolved by (simp add: prod_eq_iff)
  from runtime_targets_apart [OF this] show ?thesis by simp
qed

lemma runtime_only_mount_points_witness:
  "only_mount_points (ts_nodes bare_root) 1 0 (snd (runtime_resolve flat_kernel flat_parents 0 bare_root))"
  using runtime_only_mount_points [of bare_root 0 "[]" flat_kernel flat_parents] by (simp add: bare_root_def)

end
