(* ===== verification/Command_Shell.thy ===== *)
theory Command_Shell
  imports Image_Store Text_Lines
begin

text \<open>
  The shell of a command whose root has none: \<open>isolation/shell.rs\<close>.  The shell of the appliance,
  \<open>cat\<close> and the libraries that \<open>ldd\<close> names for them are copied to private file systems that are
  mounted over top-level directories of the image.  What the state notes are the mounts: the
  directory of the image that is covered, and the root of the file system that covers it.
\<close>

section \<open>What the loader needs\<close>

fun contains_text :: "string \<Rightarrow> string \<Rightarrow> bool" where
  "contains_text p [] = (p = [])"
| "contains_text p (c # s) = (starts_with p (c # s) \<or> contains_text p s)"

fun split_text :: "string \<Rightarrow> string \<Rightarrow> (string \<times> string) option" where
  "split_text p [] = (if p = [] then Some ([], []) else None)"
| "split_text p (c # s) =
     (if starts_with p (c # s) then Some ([], drop (length p) (c # s))
      else map_option (\<lambda>(a, b). (c # a, b)) (split_text p s))"

definition first_word :: "string \<Rightarrow> string" where
  "first_word s = (case split_whitespace s of [] \<Rightarrow> [] | w # ws \<Rightarrow> w)"

definition ldd_line :: "string \<Rightarrow> string + string option" where
  "ldd_line text =
     (let line = trim_text text in
      if line = [] \<or> contains_text ''linux-vdso'' line \<or> contains_text ''linux-gate'' line then Inr None
      else
        bindE (case split_text ''=>'' line of
            Some (_, target) \<Rightarrow>
              bindE (failIf (starts_with ''not found'' (trim_text target)) (''missing library in '' @ line)) (\<lambda>_.
                Inr (first_word (trim_text target)))
          | None \<Rightarrow> Inr (first_word line)) (\<lambda>path.
        Inr (if starts_with ''/'' path then Some path else None)))"

fun ldd_lines :: "string list \<Rightarrow> string + string list" where
  "ldd_lines [] = Inr []"
| "ldd_lines (line # lines) =
     bindE (ldd_line line) (\<lambda>path. bindE (ldd_lines lines) (\<lambda>paths.
       Inr ((case path of None \<Rightarrow> [] | Some p \<Rightarrow> [p]) @ paths)))"

definition parse_ldd :: "string \<Rightarrow> string + string list" where
  "parse_ldd stdout = ldd_lines (text_lines stdout)"

text \<open>The appliance: which of its paths are files, their size and contents, and what \<open>ldd\<close> exits
with and prints.\<close>

record appliance_files =
  af_is_file :: "string \<Rightarrow> bool"
  af_stat :: "string \<Rightarrow> fs_error + bool \<times> nat"
  af_read :: "string \<Rightarrow> fs_error + byte list"
  af_ldd :: "string \<Rightarrow> string \<Rightarrow> fs_error + bool \<times> string"

definition host_tool :: "appliance_files \<Rightarrow> string \<Rightarrow> fs_error + string" where
  "host_tool H name =
     okOr (FsOther (''appliance has no '' @ name @ '' for a root without /bin/sh''))
       (List.find (af_is_file H) [''/bin/'' @ name, ''/usr/bin/'' @ name])"

definition max_loader_bytes :: nat where
  "max_loader_bytes = 32 * 1024 * 1024"

definition read_loader :: "appliance_files \<Rightarrow> string \<Rightarrow> fs_error + byte list" where
  "read_loader H path =
     bindE (af_stat H path) (\<lambda>(regular, size).
     bindE (failIf (\<not> regular \<or> max_loader_bytes < size) (FsOther (''refusing loader file '' @ path))) (\<lambda>_.
       af_read H path))"

definition loader_paths :: "appliance_files \<Rightarrow> string \<Rightarrow> fs_error + string list" where
  "loader_paths H binary =
     bindE (host_tool H ''ldd'') (\<lambda>ldd.
     bindE (af_ldd H ldd binary) (\<lambda>(success, stdout).
     bindE (failIf (\<not> success) (FsOther (''ldd failed''))) (\<lambda>_.
       mapErr FsOther (parse_ldd stdout))))"

fun relative_components :: "component list \<Rightarrow> path option" where
  "relative_components [] = Some []"
| "relative_components (RootDir # cs) = relative_components cs"
| "relative_components (Normal name # cs) = map_option (Cons name) (relative_components cs)"
| "relative_components (c # cs) = None"

definition relative_from_absolute :: "string \<Rightarrow> fs_error + path" where
  "relative_from_absolute path =
     (case relative_components (components path) of
        None \<Rightarrow> Inl (FsOther (''refusing loader path '' @ path))
      | Some relative \<Rightarrow>
          bindE (failIf (relative = []) (FsOther (''refusing loader path '' @ path))) (\<lambda>_. Inr relative))"

record placed_file =
  pf_relative :: path
  pf_bytes :: "byte list"
  pf_required :: bool

text \<open>A set of paths is ordered by their components and keeps the first of equal ones.\<close>

definition add_path :: "string \<Rightarrow> (path, string) btree \<Rightarrow> (path, string) btree" where
  "add_path p paths = (if bt_get paths (path_iter p) = None then bt_insert (path_iter p) p paths else paths)"

fun add_loaders :: "appliance_files \<Rightarrow> string list \<Rightarrow> placed_file list \<Rightarrow> fs_error + placed_file list" where
  "add_loaders H [] files = Inr files"
| "add_loaders H (library # libraries) files =
     bindE (relative_from_absolute library) (\<lambda>relative.
     if relative \<in> set (map pf_relative files) then add_loaders H libraries files
     else
       bindE (read_loader H library) (\<lambda>bytes.
         add_loaders H libraries (files @ [\<lparr>pf_relative = relative, pf_bytes = bytes, pf_required = False\<rparr>])))"

definition shell_files :: "appliance_files \<Rightarrow> fs_error + placed_file list" where
  "shell_files H =
     bindE (host_tool H ''sh'') (\<lambda>shell.
     bindE (host_tool H ''cat'') (\<lambda>cat.
     bindE (loader_paths H shell) (\<lambda>shell_libraries.
     bindE (loader_paths H cat) (\<lambda>cat_libraries.
     let libraries = map snd (fold add_path (shell_libraries @ cat_libraries) []) in
     bindE (read_loader H shell) (\<lambda>shell_bytes.
     bindE (read_loader H cat) (\<lambda>cat_bytes.
       add_loaders H libraries
         [\<lparr>pf_relative = [''bin'', ''sh''], pf_bytes = shell_bytes, pf_required = True\<rparr>,
          \<lparr>pf_relative = [''bin'', ''cat''], pf_bytes = cat_bytes, pf_required = True\<rparr>]))))))"

section \<open>Placing the files\<close>

type_synonym mount = "nat \<times> nat"

definition open_beneath :: "(nat \<rightharpoonup> tree_node) \<Rightarrow> nat \<Rightarrow> string \<Rightarrow> fs_error + nat" where
  "open_beneath nodes directory name =
     bindE (entry_of nodes directory name) (\<lambda>i.
       case nodes i of
         Some (TreeDirectory entries) \<Rightarrow> Inr i
       | Some (TreeLink target) \<Rightarrow> Inl (FsErrno ''ELOOP'')
       | _ \<Rightarrow> Inl (FsErrno ''ENOTDIR''))"

definition explain_top :: "string \<Rightarrow> fs_error \<Rightarrow> fs_error" where
  "explain_top name error =
     (if error = FsErrno ''ELOOP'' then FsOther (''command shell mount point /'' @ name @ '' is a symlink; not following it'')
      else error)"

text \<open>A directory of mode 0755; the mode is set by a second call.\<close>

definition make_directory :: "fs_kernel \<Rightarrow> nat \<Rightarrow> string \<Rightarrow> ('e, unit) fs_op" where
  "make_directory K directory name =
     bindF (syscall K (add_entry (TreeDirectory []) directory name)) (\<lambda>_. look K (\<lambda>_. Inr ()))"

definition make_tmpfs :: "fs_kernel \<Rightarrow> ('e, nat) fs_op" where
  "make_tmpfs K = syscall K (\<lambda>nodes fresh. Inr (fresh, nodes(fresh \<mapsto> TreeDirectory []), fresh + 1))"

definition move_mount :: "fs_kernel \<Rightarrow> nat \<Rightarrow> nat \<Rightarrow> (mount, unit) fs_op" where
  "move_mount K tree point = bindF (look K (\<lambda>_. Inr ())) (\<lambda>_ s. (Inr (), push_entry (point, tree) s))"

text \<open>\<open>private\<close> are the file systems of this layout by their top-level names.\<close>

definition layout_directory ::
    "fs_kernel \<Rightarrow> nat \<Rightarrow> (string \<times> nat) list \<Rightarrow> string \<Rightarrow> (mount, nat \<times> (string \<times> nat) list) fs_op" where
  "layout_directory K base private name =
     (case map_of private name of
        Some root \<Rightarrow> bindF (look K (\<lambda>_. Inr ())) (\<lambda>_. returnF (root, private))
      | None \<Rightarrow>
          bindF (handleF (look K (\<lambda>nodes. open_beneath nodes base name)) (\<lambda>_. returnF ())
            (\<lambda>e. if e = NoEntry then make_directory K base name else failF (explain_top name e))) (\<lambda>_.
          bindF (handleF (look K (\<lambda>nodes. open_beneath nodes base name)) returnF (\<lambda>e. failF (explain_top name e))) (\<lambda>point.
          bindF (make_tmpfs K) (\<lambda>tree.
          bindF (move_mount K tree point) (\<lambda>_.
          bindF (look K (\<lambda>_. Inr ())) (\<lambda>_. returnF (tree, private @ [(name, tree)])))))))"

fun make_parents :: "fs_kernel \<Rightarrow> nat \<Rightarrow> string list \<Rightarrow> ('e, nat) fs_op" where
  "make_parents K directory [] = returnF directory"
| "make_parents K directory (name # names) =
     bindF (handleF (look K (\<lambda>nodes. open_beneath nodes directory name)) returnF
       (\<lambda>e. if e = NoEntry then
              bindF (make_directory K directory name) (\<lambda>_. look K (\<lambda>nodes. open_beneath nodes directory name))
            else failF e)) (\<lambda>inner.
       make_parents K inner names)"

text \<open>The contents are written to the new file, and its mode is set.\<close>

definition write_new :: "fs_kernel \<Rightarrow> byte list \<Rightarrow> nat \<Rightarrow> ('e, unit) fs_op" where
  "write_new K bytes i =
     bindF (syscall K (\<lambda>nodes n. Inr ((), nodes(i \<mapsto> TreeFile bytes), n))) (\<lambda>_. look K (\<lambda>_. Inr ()))"

definition write_bytes :: "fs_kernel \<Rightarrow> nat \<Rightarrow> path \<Rightarrow> byte list \<Rightarrow> bool \<Rightarrow> ('e, unit) fs_op" where
  "write_bytes K directory relative bytes required =
     bindF (look K (\<lambda>_. Inr ())) (\<lambda>_.
     if relative = [] then failF (FsOther ''empty shell path'')
     else
       bindF (make_parents K directory (butlast relative)) (\<lambda>parent.
       handleF (syscall K (add_entry (TreeFile []) parent (last relative))) (write_new K bytes)
         (\<lambda>e. if e = FsErrno ''EEXIST'' then
                (if \<not> required then returnF ()
                 else failF (FsOther ''command shell target exists and is not a usable regular file''))
              else failF e)))"

definition place_file ::
    "fs_kernel \<Rightarrow> nat \<Rightarrow> (string \<times> nat) list \<Rightarrow> placed_file \<Rightarrow> (mount, (string \<times> nat) list) fs_op" where
  "place_file K base private file =
     (case pf_relative file of
        [] \<Rightarrow> failF (FsOther ''refusing shell path'')
      | name # names \<Rightarrow>
          if names = [] then failF (FsOther ''refusing shell path'')
          else
            bindF (layout_directory K base private name) (\<lambda>(directory, private').
            bindF (write_bytes K directory names (pf_bytes file) (pf_required file)) (\<lambda>_. returnF private')))"

fun place_all ::
    "fs_kernel \<Rightarrow> nat \<Rightarrow> (string \<times> nat) list \<Rightarrow> placed_file list \<Rightarrow> (mount, (string \<times> nat) list) fs_op" where
  "place_all K base private [] = returnF private"
| "place_all K base private (file # files) =
     bindF (place_file K base private file) (\<lambda>private'. place_all K base private' files)"

section \<open>Installing\<close>

definition reject_non_regular :: "fs_kernel \<Rightarrow> nat \<Rightarrow> path \<Rightarrow> ('e, unit) fs_op" where
  "reject_non_regular K base relative =
     handleF (look K (\<lambda>nodes. fk_open K PlainNode nodes base relative))
       (\<lambda>i. bindF (look K (\<lambda>nodes. node_of nodes i)) (\<lambda>metadata.
          if is_regular (Some metadata) then returnF ()
          else failF (FsOther ''command shell target is not a regular file'')))
       (\<lambda>e. if e = NoEntry then returnF ()
             else if e = FsErrno ''ELOOP'' then failF (FsOther ''command shell target is a symlink'') else failF e)"

definition shell_present :: "fs_kernel \<Rightarrow> nat \<Rightarrow> ('e, bool) fs_op" where
  "shell_present K base =
     handleF (look K (\<lambda>nodes. fk_open K AnyNode nodes base [''bin'', ''sh'']))
       (\<lambda>i. bindF (look K (\<lambda>nodes. node_of nodes i)) (\<lambda>metadata. returnF (is_regular (Some metadata))))
       (\<lambda>e. if e = NoEntry \<or> e = FsErrno ''ENOTDIR'' then returnF False else failF e)"

text \<open>The result is \<open>None\<close> when the image has a shell, and the private file systems otherwise.\<close>

definition shell_install :: "fs_kernel \<Rightarrow> appliance_files \<Rightarrow> nat \<Rightarrow> (mount, (string \<times> nat) list option) fs_op" where
  "shell_install K H base =
     bindF (shell_present K base) (\<lambda>present.
     if present then returnF None
     else
       bindF (reject_non_regular K base [''bin'', ''sh'']) (\<lambda>_.
       bindF (reject_non_regular K base [''bin'', ''cat'']) (\<lambda>_.
         case shell_files H of
           Inl e \<Rightarrow> failF e
         | Inr files \<Rightarrow> bindF (place_all K base [] files) (\<lambda>private. returnF (Some private)))))"

section \<open>Stores that grow\<close>

text \<open>Directories only get new names and everything else stays.\<close>

fun node_grows :: "tree_node \<Rightarrow> tree_node \<Rightarrow> bool" where
  "node_grows (TreeDirectory es) (TreeDirectory es') = map_le (map_of es) (map_of es')"
| "node_grows node node' = (node = node')"

definition grows :: "(nat \<rightharpoonup> tree_node) \<Rightarrow> (nat \<rightharpoonup> tree_node) \<Rightarrow> bool" where
  "grows nodes nodes' \<longleftrightarrow> (\<forall>i node. nodes i = Some node \<longrightarrow> (\<exists>node'. nodes' i = Some node' \<and> node_grows node node'))"

fun walk_to :: "(nat \<rightharpoonup> tree_node) \<Rightarrow> nat \<Rightarrow> path \<Rightarrow> nat \<Rightarrow> bool" where
  "walk_to nodes i [] j = (i = j)"
| "walk_to nodes i (name # names) j = (case entry_of nodes i name of Inl e \<Rightarrow> False | Inr k \<Rightarrow> walk_to nodes k names j)"

definition file_at :: "(nat \<rightharpoonup> tree_node) \<Rightarrow> nat \<Rightarrow> path \<Rightarrow> byte list \<Rightarrow> bool" where
  "file_at nodes root path bytes \<longleftrightarrow> (\<exists>i. walk_to nodes root path i \<and> nodes i = Some (TreeFile bytes))"

lemma node_grows_refl [simp]: "node_grows node node"
  by (cases node) simp_all

lemma node_grows_trans: "node_grows a b \<Longrightarrow> node_grows b c \<Longrightarrow> node_grows a c"
  by (cases a; cases b; cases c) (auto intro: map_le_trans)

lemma grows_refl [simp]: "grows nodes nodes"
  by (auto simp: grows_def)

lemma grows_trans: "grows a b \<Longrightarrow> grows b c \<Longrightarrow> grows a c"
  unfolding grows_def using node_grows_trans by meson

lemma node_grows_directory: "node_grows (TreeDirectory es) node \<longleftrightarrow> (\<exists>es'. node = TreeDirectory es' \<and> map_le (map_of es) (map_of es'))"
  by (cases node) auto

lemma node_grows_file [simp]: "node_grows (TreeFile bytes) node \<longleftrightarrow> node = TreeFile bytes"
  by (cases node) auto

lemma entry_of_Inr: "entry_of nodes i name = Inr j \<longleftrightarrow> (\<exists>es. nodes i = Some (TreeDirectory es) \<and> map_of es name = Some j)"
  by (auto simp: entry_of_def split: option.splits tree_node.splits)

lemma entry_of_grows: "grows nodes nodes' \<Longrightarrow> entry_of nodes i name = Inr j \<Longrightarrow> entry_of nodes' i name = Inr j"
  by (fastforce simp: grows_def entry_of_Inr node_grows_directory map_le_def dom_def)

lemma walk_to_grows: "grows nodes nodes' \<Longrightarrow> walk_to nodes i names j \<Longrightarrow> walk_to nodes' i names j"
  by (induction names arbitrary: i) (auto split: sum.splits dest: entry_of_grows)

lemma file_at_grows: "grows nodes nodes' \<Longrightarrow> file_at nodes root path bytes \<Longrightarrow> file_at nodes' root path bytes"
  unfolding file_at_def by (fastforce simp: grows_def dest: walk_to_grows [of nodes nodes'])

lemma walk_to_append: "walk_to nodes i (names @ [name]) j \<longleftrightarrow> (\<exists>k. walk_to nodes i names k \<and> entry_of nodes k name = Inr j)"
  by (induction names arbitrary: i) (auto split: sum.splits)

lemma add_entry_grows:
  assumes "add_entry node parent name nodes fresh = Inr (i, nodes', m)" and "nodes fresh = None"
  shows "grows nodes nodes'"
proof -
  from add_entry_Inr [OF assms(1)] obtain entries where e: "nodes parent = Some (TreeDirectory entries)"
    "map_of entries name = None" "nodes' = nodes(parent \<mapsto> TreeDirectory ((name, fresh) # entries), fresh \<mapsto> node)" by blast
  then have "map_le (map_of entries) (map_of ((name, fresh) # entries))" by (simp add: map_le_def dom_def)
  with e assms(2) show ?thesis by (auto simp: grows_def)
qed

section \<open>The invariant of a layout\<close>

text \<open>\<open>T\<close> are the nodes of the private file systems: all new, closed under entries, and none of them
an entry of the image.\<close>

definition private_nodes :: "nat \<Rightarrow> nat \<Rightarrow> nat set \<Rightarrow> (nat \<rightharpoonup> tree_node) \<Rightarrow> nat \<Rightarrow> bool" where
  "private_nodes n base T nodes fresh \<longleftrightarrow>
     (\<forall>t\<in>T. n \<le> t \<and> t < fresh) \<and>
     (\<forall>t\<in>T. \<forall>es. nodes t = Some (TreeDirectory es) \<longrightarrow> snd ` set es \<subseteq> T) \<and>
     (\<forall>es. nodes base = Some (TreeDirectory es) \<longrightarrow> snd ` set es \<inter> T = {} \<and> snd ` set es \<subseteq> {..<fresh})"

definition layout_inv ::
    "(nat \<rightharpoonup> tree_node) \<Rightarrow> nat \<Rightarrow> nat \<Rightarrow> nat set \<Rightarrow> mount image_store \<Rightarrow> bool" where
  "layout_inv before n base T s \<longleftrightarrow>
     only_mount_points before n base s \<and> base < n \<and> dom (ts_nodes s) \<subseteq> {..<ts_next s} \<and>
     private_nodes n base T (ts_nodes s) (ts_next s)"

text \<open>One state leads to another: the invariant goes on, with more private nodes, and what there
was stays.\<close>

definition leads :: "(nat \<rightharpoonup> tree_node) \<Rightarrow> nat \<Rightarrow> nat \<Rightarrow> nat set \<Rightarrow> mount image_store \<Rightarrow> nat set \<Rightarrow> mount image_store \<Rightarrow> bool" where
  "leads before n base T s T' s' \<longleftrightarrow>
     T \<subseteq> T' \<and> layout_inv before n base T' s' \<and> grows (ts_nodes s) (ts_nodes s') \<and>
     set (ts_entries s) \<subseteq> set (ts_entries s')"

lemma leads_trans:
  "leads before n base T s T' s' \<Longrightarrow> leads before n base T' s' T'' s'' \<Longrightarrow> leads before n base T s T'' s''"
  using grows_trans unfolding leads_def by blast

lemma leads_refl: "layout_inv before n base T s \<Longrightarrow> leads before n base T s T s"
  by (simp add: leads_def)

lemma leads_calls [simp]:
  "leads before n base T s T' (s'\<lparr>ts_calls := c\<rparr>) = leads before n base T s T' s'"
  "layout_inv before n base T (s\<lparr>ts_calls := c\<rparr>) = layout_inv before n base T s"
  by (simp_all add: leads_def layout_inv_def only_mount_points_def)

lemma leads_look:
  assumes "layout_inv before n base T s" and "look K observe s = (r, s')"
  shows "leads before n base T s T s'"
  unfolding look_state [OF assms(2)] by (simp add: leads_refl [OF assms(1)])

lemma layout_base:
  "layout_inv before n base T s \<Longrightarrow>
     \<exists>es. ts_nodes s base = Some (TreeDirectory es) \<and> snd ` set es \<inter> T = {} \<and> snd ` set es \<subseteq> {..<ts_next s}"
  by (auto simp: layout_inv_def only_mount_points_def private_nodes_def)

lemma layout_fresh: "layout_inv before n base T s \<Longrightarrow> ts_nodes s (ts_next s) = None"
  by (auto simp: layout_inv_def)

text \<open>What is outside of the private file systems stays.\<close>

lemma only_mount_points_outside:
  assumes "layout_inv before n base T s"
    and "\<And>i. i < ts_next s \<Longrightarrow> i \<notin> T \<Longrightarrow> nodes i = ts_nodes s i" and "ts_next s \<le> m"
  shows "only_mount_points before n base (s\<lparr>ts_nodes := nodes, ts_next := m\<rparr>)"
proof -
  from assms(1) obtain new old where o: "before base = Some (TreeDirectory old)"
    "ts_nodes s base = Some (TreeDirectory (new @ old))"
    "\<forall>(x, i)\<in>set new. n \<le> i \<and> i < ts_next s \<and> ts_nodes s i = Some (TreeDirectory []) \<and> x \<notin> fst ` set old"
    by (auto simp: layout_inv_def only_mount_points_def)
  have n: "n \<le> ts_next s" "base < n" and T: "\<forall>t\<in>T. n \<le> t" and apart: "snd ` set new \<inter> T = {}"
    using assms(1) o(2) by (auto simp: layout_inv_def only_mount_points_def private_nodes_def)
  have "base < ts_next s" "base \<notin> T" using n T by (auto dest: bspec)
  then have "nodes base = Some (TreeDirectory (new @ old))" using assms(2) o(2) by simp
  moreover have "\<forall>(x, i)\<in>set new. n \<le> i \<and> i < m \<and> nodes i = Some (TreeDirectory []) \<and> x \<notin> fst ` set old"
    using o(3) apart assms(2,3) by (fastforce simp: image_iff)
  moreover have "\<forall>i<n. i \<noteq> base \<longrightarrow> nodes i = before i"
  proof (intro allI impI)
    fix i
    assume i: "i < n" "i \<noteq> base"
    with T n have "nodes i = ts_nodes s i" by (intro assms(2)) (auto dest: bspec)
    with i assms(1) show "nodes i = before i" by (simp add: layout_inv_def only_mount_points_def)
  qed
  ultimately show ?thesis using o(1) n assms(3) unfolding only_mount_points_def by auto
qed

text \<open>A new node inside a private file system.\<close>

lemma leads_private_entry:
  assumes s: "layout_inv before n base T s" and parent: "parent \<in> T"
    and add: "add_entry node parent name (ts_nodes s) (ts_next s) = Inr (i, nodes, m)"
    and node: "node = TreeDirectory [] \<or> node = TreeFile bytes"
  shows "leads before n base T s (insert i T) (s\<lparr>ts_nodes := nodes, ts_next := m\<rparr>)"
proof -
  note fresh = layout_fresh [OF s]
  from add_entry_Inr [OF add] obtain entries where e: "ts_nodes s parent = Some (TreeDirectory entries)"
    "i = ts_next s" "m = ts_next s + 1"
    "nodes = (ts_nodes s)(parent \<mapsto> TreeDirectory ((name, ts_next s) # entries), ts_next s \<mapsto> node)" by blast
  have T: "\<forall>t\<in>T. n \<le> t \<and> t < ts_next s" "\<forall>t\<in>T. \<forall>es. ts_nodes s t = Some (TreeDirectory es) \<longrightarrow> snd ` set es \<subseteq> T"
    and n: "n \<le> ts_next s" "base < n" and dom: "dom (ts_nodes s) \<subseteq> {..<ts_next s}"
    using s by (auto simp: layout_inv_def private_nodes_def only_mount_points_def)
  have "only_mount_points before n base (s\<lparr>ts_nodes := nodes, ts_next := m\<rparr>)"
    by (rule only_mount_points_outside [OF s]) (use e parent in auto)
  moreover have "private_nodes n base (insert i T) nodes m"
  proof -
    obtain es where es: "ts_nodes s base = Some (TreeDirectory es)" "snd ` set es \<inter> T = {}" "snd ` set es \<subseteq> {..<ts_next s}"
      using layout_base [OF s] by blast
    have "base \<noteq> parent" "base \<noteq> ts_next s" using T(1) parent n by auto
    then have "nodes base = Some (TreeDirectory es)" using es(1) e(4) by simp
    moreover have "snd ` set fs \<subseteq> insert i T" if t: "t \<in> insert i T" "nodes t = Some (TreeDirectory fs)" for t fs
    proof -
      consider "t = ts_next s" | "t = parent" "parent \<noteq> ts_next s" | "t \<in> T" "t \<noteq> parent" "t \<noteq> ts_next s"
        using t(1) e(2) by blast
      then show ?thesis
      proof cases
        case 1
        with t(2) e(4) node show ?thesis by auto
      next
        case 2
        with t(2) e(4) have "fs = (name, ts_next s) # entries" by simp
        moreover have "snd ` set entries \<subseteq> T" using T(2) parent e(1) by blast
        ultimately show ?thesis using e(2) by auto
      next
        case 3
        with t(2) e(4) have "ts_nodes s t = Some (TreeDirectory fs)" by simp
        with T(2) 3(1) show ?thesis by blast
      qed
    qed
    ultimately show ?thesis using es T(1) n(1) e(2,3) unfolding private_nodes_def by auto
  qed
  moreover have "dom nodes \<subseteq> {..<m}" using dom e T(1) parent by auto
  moreover have "grows (ts_nodes s) nodes" using add_entry_grows [OF add fresh] .
  ultimately show ?thesis using n by (auto simp: leads_def layout_inv_def)
qed

text \<open>A new private file system.\<close>

lemma leads_tmpfs:
  assumes s: "layout_inv before n base T s"
  shows "leads before n base T s (insert (ts_next s) T)
    (s\<lparr>ts_nodes := (ts_nodes s)(ts_next s \<mapsto> TreeDirectory []), ts_next := ts_next s + 1\<rparr>)" (is "leads _ _ _ _ _ _ ?s'")
proof -
  note fresh = layout_fresh [OF s]
  have "only_mount_points before n base ?s'" by (rule only_mount_points_outside [OF s]) auto
  moreover have "private_nodes n base (insert (ts_next s) T) (ts_nodes ?s') (ts_next ?s')"
  proof -
    obtain es where es: "ts_nodes s base = Some (TreeDirectory es)" "snd ` set es \<inter> T = {}" "snd ` set es \<subseteq> {..<ts_next s}"
      using layout_base [OF s] by blast
    have T: "\<forall>t\<in>T. n \<le> t \<and> t < ts_next s" "n \<le> ts_next s" "base < n"
      and closed: "\<forall>t\<in>T. \<forall>es. ts_nodes s t = Some (TreeDirectory es) \<longrightarrow> snd ` set es \<subseteq> T"
      using s by (auto simp: layout_inv_def private_nodes_def only_mount_points_def)
    have "snd ` set fs \<subseteq> insert (ts_next s) T"
      if "t \<in> insert (ts_next s) T" "ts_nodes ?s' t = Some (TreeDirectory fs)" for t fs
      using that closed by (cases "t = ts_next s") (simp, simp, blast)
    moreover have "ts_nodes ?s' base = Some (TreeDirectory es)" using es(1) T(2,3) by simp
    ultimately show ?thesis using es(2,3) T unfolding private_nodes_def by (auto simp: less_Suc_eq)
  qed
  moreover have "grows (ts_nodes s) (ts_nodes ?s')" using fresh by (auto simp: grows_def)
  ultimately show ?thesis using s by (auto simp: leads_def layout_inv_def)
qed

text \<open>A new mount point.\<close>

lemma leads_mount_point:
  assumes s: "layout_inv before n base T s"
    and run: "syscall K (add_entry (TreeDirectory []) base name) s = (r, s')"
  shows "leads before n base T s T s'"
proof (cases r)
  case (Inl e)
  from syscall_Inl [OF run [unfolded this]] s show ?thesis by (simp add: leads_refl)
next
  case (Inr i)
  from syscall_Inr [OF run [unfolded this]] obtain nodes m where
    add: "add_entry (TreeDirectory []) base name (ts_nodes s) (ts_next s) = Inr (i, nodes, m)"
    and s': "s' = s\<lparr>ts_nodes := nodes, ts_next := m, ts_calls := ts_calls s + 1\<rparr>" by blast
  from add_entry_Inr [OF add] obtain entries where e: "ts_nodes s base = Some (TreeDirectory entries)"
    "m = ts_next s + 1"
    "nodes = (ts_nodes s)(base \<mapsto> TreeDirectory ((name, ts_next s) # entries), ts_next s \<mapsto> TreeDirectory [])" by blast
  have inv: "only_mount_points before n base s" "base < n" "dom (ts_nodes s) \<subseteq> {..<ts_next s}"
    "private_nodes n base T (ts_nodes s) (ts_next s)" using s by (simp_all add: layout_inv_def)
  have "only_mount_points before n base s'" using keepsD [OF only_mount_points_add [OF inv(2)] inv(1) run] .
  moreover have "private_nodes n base T nodes m"
    using inv(2,4) e inv(1) by (auto simp: private_nodes_def only_mount_points_def split: if_splits)
  moreover have "grows (ts_nodes s) nodes" using add_entry_grows [OF add layout_fresh [OF s]] .
  moreover have "dom nodes \<subseteq> {..<m}" using inv(1-3) e by (auto simp: only_mount_points_def)
  ultimately show ?thesis using inv(2) by (auto simp: leads_def layout_inv_def s')
qed

section \<open>Operations advance the layout\<close>

definition advances ::
    "(nat \<rightharpoonup> tree_node) \<Rightarrow> nat \<Rightarrow> nat \<Rightarrow> nat set \<Rightarrow> mount image_store \<Rightarrow> (mount, 'a) fs_op \<Rightarrow>
     (nat set \<Rightarrow> mount image_store \<Rightarrow> 'a \<Rightarrow> bool) \<Rightarrow> bool" where
  "advances before n base T s run Q \<longleftrightarrow>
     (\<forall>r s'. run s = (r, s') \<longrightarrow> (\<exists>T'. leads before n base T s T' s' \<and> (\<forall>v. r = Inr v \<longrightarrow> Q T' s' v)))"

lemma advancesI:
  "(\<And>r s'. run s = (r, s') \<Longrightarrow> \<exists>T'. leads before n base T s T' s' \<and> (\<forall>v. r = Inr v \<longrightarrow> Q T' s' v)) \<Longrightarrow>
     advances before n base T s run Q"
  by (simp add: advances_def)

lemma advances_handle:
  assumes run: "advances before n base T s run Q"
    and ok: "\<And>T' s1 v. leads before n base T s T' s1 \<Longrightarrow> Q T' s1 v \<Longrightarrow> advances before n base T' s1 (f v) R"
    and err: "\<And>T' s1 e. leads before n base T s T' s1 \<Longrightarrow> advances before n base T' s1 (g e) R"
  shows "advances before n base T s (handleF run f g) R"
proof (rule advancesI)
  fix r s'
  assume h: "handleF run f g s = (r, s')"
  obtain q s1 where q: "run s = (q, s1)" by fastforce
  with run obtain T1 where T1: "leads before n base T s T1 s1" "\<forall>v. q = Inr v \<longrightarrow> Q T1 s1 v" by (auto simp: advances_def)
  have "\<exists>T'. leads before n base T1 s1 T' s' \<and> (\<forall>v. r = Inr v \<longrightarrow> R T' s' v)"
  proof (cases q)
    case (Inl e)
    with h q err [OF T1(1), of e] show ?thesis by (simp add: handleF_def advances_def)
  next
    case (Inr v)
    with h q ok [OF T1(1), of v] T1(2) show ?thesis by (simp add: handleF_def advances_def)
  qed
  with T1(1) leads_trans show "\<exists>T'. leads before n base T s T' s' \<and> (\<forall>v. r = Inr v \<longrightarrow> R T' s' v)" by blast
qed

lemma leads_inv: "leads before n base T s T' s' \<Longrightarrow> layout_inv before n base T' s'"
  by (simp add: leads_def)

lemma advances_fail: "layout_inv before n base T s \<Longrightarrow> advances before n base T s (failF e) R"
  by (auto simp: advances_def failF_def dest: leads_refl)

lemma advances_return: "layout_inv before n base T s \<Longrightarrow> R T s v \<Longrightarrow> advances before n base T s (returnF v) R"
  by (auto simp: advances_def returnF_def dest: leads_refl)

lemma advances_bind:
  assumes "advances before n base T s run Q"
    and "\<And>T' s1 v. leads before n base T s T' s1 \<Longrightarrow> Q T' s1 v \<Longrightarrow> advances before n base T' s1 (f v) R"
  shows "advances before n base T s (bindF run f) R"
  unfolding bindF_handleF using assms by (rule advances_handle) (auto intro: advances_fail leads_inv)

lemma advances_look:
  assumes "layout_inv before n base T s"
    and "\<And>s' v. ts_nodes s' = ts_nodes s \<Longrightarrow> ts_entries s' = ts_entries s \<Longrightarrow> observe (ts_nodes s) = Inr v \<Longrightarrow> Q T s' v"
  shows "advances before n base T s (look K observe) Q"
proof (rule advancesI)
  fix r s'
  assume r: "look K observe s = (r, s')"
  show "\<exists>T'. leads before n base T s T' s' \<and> (\<forall>v. r = Inr v \<longrightarrow> Q T' s' v)"
    using leads_look [OF assms(1) r] assms(2) [of s'] look_state [OF r] look_Inr [of K observe s _ s'] r by auto
qed

lemma advances_if:
  "(c \<Longrightarrow> advances before n base T s a R) \<Longrightarrow> (\<not> c \<Longrightarrow> advances before n base T s b R) \<Longrightarrow>
     advances before n base T s (if c then a else b) R"
  by simp

lemma advances_true: "advances before n base T s run Q \<Longrightarrow> advances before n base T s run (\<lambda>_ _ _. True)"
  by (auto simp: advances_def)

text \<open>Directories and files inside a private file system.\<close>

lemma private_entry:
  "layout_inv before n base T s \<Longrightarrow> directory \<in> T \<Longrightarrow> entry_of (ts_nodes s) directory name = Inr i \<Longrightarrow> i \<in> T"
  unfolding layout_inv_def private_nodes_def entry_of_Inr by (auto dest!: map_of_SomeD bspec) force

lemma open_beneath_Inr: "open_beneath nodes directory name = Inr i \<Longrightarrow> entry_of nodes directory name = Inr i"
  by (auto simp: open_beneath_def bindE_def split: sum.splits option.splits tree_node.splits)

lemma advances_entry:
  assumes "layout_inv before n base T s" "parent \<in> T" "node = TreeDirectory [] \<or> node = TreeFile bytes"
  shows "advances before n base T s (syscall K (add_entry node parent name))
    (\<lambda>T' s' i. i \<in> T' \<and> entry_of (ts_nodes s') parent name = Inr i)"
proof (rule advancesI)
  fix r s'
  assume run: "syscall K (add_entry node parent name) s = (r, s')"
  show "\<exists>T'. leads before n base T s T' s' \<and> (\<forall>v. r = Inr v \<longrightarrow> v \<in> T' \<and> entry_of (ts_nodes s') parent name = Inr v)"
  proof (cases r)
    case (Inl e)
    from syscall_Inl [OF run [unfolded this]] Inl leads_refl [OF assms(1)] show ?thesis by (intro exI [of _ T]) simp
  next
    case (Inr i)
    from syscall_Inr [OF run [unfolded this]] obtain nodes m where
      add: "add_entry node parent name (ts_nodes s) (ts_next s) = Inr (i, nodes, m)"
      and s': "s' = s\<lparr>ts_nodes := nodes, ts_next := m, ts_calls := ts_calls s + 1\<rparr>" by blast
    have "parent \<noteq> ts_next s" using assms(1,2) by (auto simp: layout_inv_def private_nodes_def)
    then have "entry_of nodes parent name = Inr i" using add_entry_Inr [OF add] by (auto simp: entry_of_Inr)
    with leads_private_entry [OF assms(1,2) add assms(3)] Inr show ?thesis by (auto simp: s')
  qed
qed

lemma advances_make_directory:
  assumes "layout_inv before n base T s" "directory \<in> T"
  shows "advances before n base T s (make_directory K directory name) (\<lambda>_ _ _. True)"
  unfolding make_directory_def
  by (rule advances_bind [OF advances_entry [OF assms disjI1 [OF refl]]]) (auto intro: advances_look leads_inv)

lemma advances_parents:
  "layout_inv before n base T s \<Longrightarrow> directory \<in> T \<Longrightarrow>
     advances before n base T s (make_parents K directory names)
       (\<lambda>T' s' p. p \<in> T' \<and> walk_to (ts_nodes s') directory names p)"
proof (induction names arbitrary: T s directory)
  case Nil
  then show ?case by (simp add: advances_return)
next
  case (Cons name names)
  let ?found = "\<lambda>T' s' i. i \<in> T' \<and> entry_of (ts_nodes s') directory name = Inr i"
  have found: "advances before n base T' s' (look K (\<lambda>nodes. open_beneath nodes directory name)) ?found"
    if "layout_inv before n base T' s'" "T \<subseteq> T'" for T' s'
    using that Cons.prems(2)
    by (intro advances_look) (auto dest!: open_beneath_Inr intro: private_entry)
  have "advances before n base T s (handleF (look K (\<lambda>nodes. open_beneath nodes directory name)) returnF
       (\<lambda>e. if e = NoEntry then
              bindF (make_directory K directory name) (\<lambda>_. look K (\<lambda>nodes. open_beneath nodes directory name))
            else failF e)) ?found"
  proof (rule advances_handle [OF found [OF Cons.prems(1) subset_refl]])
    fix T' s1 e
    assume l: "leads before n base T s T' s1"
    then have T': "layout_inv before n base T' s1" "T \<subseteq> T'" "directory \<in> T'" using Cons.prems(2) by (auto simp: leads_def)
    show "advances before n base T' s1 (if e = NoEntry then
        bindF (make_directory K directory name) (\<lambda>_. look K (\<lambda>nodes. open_beneath nodes directory name))
      else failF e) ?found"
    proof (intro advances_if advances_fail T'(1) advances_bind [OF advances_make_directory [OF T'(1,3)]])
      fix T2 s2
      assume "leads before n base T' s1 T2 s2"
      then show "advances before n base T2 s2 (look K (\<lambda>nodes. open_beneath nodes directory name)) ?found"
        using T'(2) by (intro found) (auto simp: leads_def)
    qed
  qed (auto intro: advances_return leads_inv)
  then show ?case
    unfolding make_parents.simps
  proof (rule advances_bind)
    fix T1 s1 i
    assume l: "leads before n base T s T1 s1" and i: "i \<in> T1 \<and> entry_of (ts_nodes s1) directory name = Inr i"
    show "advances before n base T1 s1 (make_parents K i names)
        (\<lambda>T' s' p. p \<in> T' \<and> walk_to (ts_nodes s') directory (name # names) p)"
    proof (rule advancesI)
      fix r s'
      assume "make_parents K i names s1 = (r, s')"
      with Cons.IH [OF leads_inv [OF l], of i] i obtain T' where T': "leads before n base T1 s1 T' s'"
        "\<forall>v. r = Inr v \<longrightarrow> v \<in> T' \<and> walk_to (ts_nodes s') i names v" by (auto simp: advances_def)
      moreover have "entry_of (ts_nodes s') directory name = Inr i"
        using T'(1) i by (auto simp: leads_def intro: entry_of_grows)
      ultimately show "\<exists>T'. leads before n base T1 s1 T' s' \<and>
          (\<forall>v. r = Inr v \<longrightarrow> v \<in> T' \<and> walk_to (ts_nodes s') directory (name # names) v)" by auto
    qed
  qed
qed

lemma add_entry_node:
  "add_entry (TreeFile []) parent name nodes fresh = Inr (i, nodes', m) \<Longrightarrow>
     add_entry (TreeFile bytes) parent name nodes fresh = Inr (i, nodes'(i \<mapsto> TreeFile bytes), m)"
  by (auto simp: add_entry_def split: option.splits tree_node.splits if_splits)

text \<open>Creation and contents together are one new file; when the contents fail it stays empty.\<close>

lemma advances_create:
  assumes s: "layout_inv before n base T s" "parent \<in> T"
    and err: "\<And>T' s1 e. leads before n base T s T' s1 \<Longrightarrow> advances before n base T' s1 (failed e) Q"
    and ok: "\<And>T' s' v. leads before n base T s T' s' \<Longrightarrow>
        (\<exists>i. entry_of (ts_nodes s') parent name = Inr i \<and> ts_nodes s' i = Some (TreeFile bytes)) \<Longrightarrow> Q T' s' v"
  shows "advances before n base T s (handleF (syscall K (add_entry (TreeFile []) parent name)) (write_new K bytes) failed) Q"
proof (rule advancesI)
  fix r s'
  assume run: "handleF (syscall K (add_entry (TreeFile []) parent name)) (write_new K bytes) failed s = (r, s')"
  obtain q s1 where q: "syscall K (add_entry (TreeFile []) parent name) s = (q, s1)" by fastforce
  show "\<exists>T'. leads before n base T s T' s' \<and> (\<forall>v. r = Inr v \<longrightarrow> Q T' s' v)"
  proof (cases q)
    case (Inl e)
    from syscall_Inl [OF q [unfolded this]] s(1) have l: "leads before n base T s T s1" by (simp add: leads_refl)
    from run q Inl have "failed e s1 = (r, s')" by (simp add: handleF_def)
    with err [OF l, of e] obtain T' where "leads before n base T s1 T' s'" "\<forall>v. r = Inr v \<longrightarrow> Q T' s' v"
      by (auto simp: advances_def)
    with leads_trans [OF l] show ?thesis by blast
  next
    case (Inr i)
    from syscall_Inr [OF q [unfolded this]] obtain nodes m where
      add: "add_entry (TreeFile []) parent name (ts_nodes s) (ts_next s) = Inr (i, nodes, m)"
      and s1: "s1 = s\<lparr>ts_nodes := nodes, ts_next := m, ts_calls := ts_calls s + 1\<rparr>" by blast
    have "parent \<noteq> ts_next s" using s by (auto simp: layout_inv_def private_nodes_def)
    then have entry: "entry_of nodes parent name = Inr i" "i \<noteq> parent" using add_entry_Inr [OF add] by (auto simp: entry_of_Inr)
    from run q Inr have w: "write_new K bytes i s1 = (r, s')" by (simp add: handleF_def)
    obtain p s2 where p: "syscall K (\<lambda>nodes n. Inr ((), nodes(i \<mapsto> TreeFile bytes), n)) s1 = (p, s2)" by fastforce
    show ?thesis
    proof (cases p)
      case (Inl e)
      with w p have r: "r = Inl e" "s' = s2" by (auto simp: write_new_def bindF_def)
      from syscall_Inl [OF p [unfolded Inl]] leads_private_entry [OF s add disjI2 [OF refl]] r
      show ?thesis by (auto simp: s1)
    next
      case (Inr u)
      with w p have l: "look K (\<lambda>_. Inr ()) s2 = (r, s')" by (auto simp: write_new_def bindF_def)
      have s2: "s2 = s\<lparr>ts_nodes := nodes(i \<mapsto> TreeFile bytes), ts_next := m, ts_calls := ts_calls s + 2\<rparr>"
        using syscall_Inr [OF p [unfolded Inr]] by (auto simp: s1)
      have written: "leads before n base T s (insert i T) s'"
        using leads_private_entry [OF s add_entry_node [OF add] disjI2 [OF refl]] look_state [OF l] by (simp add: s2)
      have "ts_nodes s' = nodes(i \<mapsto> TreeFile bytes)" using look_nodes [OF l] by (simp add: s2)
      then have "entry_of (ts_nodes s') parent name = Inr i \<and> ts_nodes s' i = Some (TreeFile bytes)"
        using entry by (simp add: entry_of_Inr)
      then have "Q (insert i T) s' v" for v using ok [OF written exI] by simp
      with written show ?thesis by (intro exI [of _ "insert i T"]) simp
    qed
  qed
qed

lemma advances_write:
  assumes s: "layout_inv before n base T s" "directory \<in> T"
  shows "advances before n base T s (write_bytes K directory relative bytes required)
    (\<lambda>T' s' u. required \<longrightarrow> file_at (ts_nodes s') directory relative bytes)"
  unfolding write_bytes_def
proof (rule advances_bind [OF advances_look [OF s(1)]])
  fix T1 s1 and v :: unit
  assume l1: "leads before n base T s T1 s1"
  then have inv1: "layout_inv before n base T1 s1" "directory \<in> T1" using s(2) by (auto simp: leads_def)
  let ?Q = "\<lambda>T' s' u. required \<longrightarrow> file_at (ts_nodes s') directory relative bytes"
  show "advances before n base T1 s1 (if relative = [] then failF (FsOther ''empty shell path'')
      else bindF (make_parents K directory (butlast relative)) (\<lambda>parent.
        handleF (syscall K (add_entry (TreeFile []) parent (last relative))) (write_new K bytes)
         (\<lambda>e. if e = FsErrno ''EEXIST'' then
                (if \<not> required then returnF ()
                 else failF (FsOther ''command shell target exists and is not a usable regular file''))
              else failF e))) ?Q"
  proof (intro advances_if advances_fail inv1(1) advances_bind [OF advances_parents [OF inv1]])
    fix T2 s2 p
    assume rel: "relative \<noteq> []" and l2: "leads before n base T1 s1 T2 s2"
      and p: "p \<in> T2 \<and> walk_to (ts_nodes s2) directory (butlast relative) p"
    show "advances before n base T2 s2 (handleF (syscall K (add_entry (TreeFile []) p (last relative))) (write_new K bytes)
         (\<lambda>e. if e = FsErrno ''EEXIST'' then
                (if \<not> required then returnF ()
                 else failF (FsOther ''command shell target exists and is not a usable regular file''))
              else failF e)) ?Q"
    proof (rule advances_create [OF leads_inv [OF l2] conjunct1 [OF p]])
      fix T3 s3 and w :: unit
      assume l3: "leads before n base T2 s2 T3 s3"
        and found: "\<exists>i. entry_of (ts_nodes s3) p (last relative) = Inr i \<and> ts_nodes s3 i = Some (TreeFile bytes)"
      have "walk_to (ts_nodes s3) directory (butlast relative) p"
        using p l3 by (auto simp: leads_def intro: walk_to_grows)
      with found rel have "file_at (ts_nodes s3) directory (butlast relative @ [last relative]) bytes"
        unfolding file_at_def walk_to_append by blast
      then show "?Q T3 s3 w" using rel by simp
    next
      fix T3 s3 e
      assume "leads before n base T2 s2 T3 s3"
      note inv3 = leads_inv [OF this]
      show "advances before n base T3 s3 (if e = FsErrno ''EEXIST'' then
                (if \<not> required then returnF ()
                 else failF (FsOther ''command shell target exists and is not a usable regular file''))
              else failF e) ?Q"
        by (intro advances_if advances_fail advances_return inv3) simp
    qed
  qed
qed auto

text \<open>A private file system is mounted over an entry of the image.\<close>

definition covers :: "nat \<Rightarrow> mount image_store \<Rightarrow> string \<Rightarrow> nat \<Rightarrow> bool" where
  "covers base s name root \<longleftrightarrow> (\<exists>point. entry_of (ts_nodes s) base name = Inr point \<and> (point, root) \<in> set (ts_entries s))"

definition private_ok :: "nat \<Rightarrow> (string \<times> nat) list \<Rightarrow> nat set \<Rightarrow> mount image_store \<Rightarrow> bool" where
  "private_ok base private T s \<longleftrightarrow> (\<forall>(name, root)\<in>set private. root \<in> T \<and> covers base s name root)"

lemma covers_leads: "leads before n base T s T' s' \<Longrightarrow> covers base s name root \<Longrightarrow> covers base s' name root"
  unfolding leads_def covers_def using entry_of_grows by blast

lemma private_ok_leads: "leads before n base T s T' s' \<Longrightarrow> private_ok base private T s \<Longrightarrow> private_ok base private T' s'"
  unfolding private_ok_def using covers_leads by (fastforce simp: leads_def)

lemma leads_push: "layout_inv before n base T s \<Longrightarrow> leads before n base T s T (push_entry e s)"
  by (auto simp: leads_def layout_inv_def only_mount_points_def push_entry_def)

lemma advances_make_point:
  assumes "layout_inv before n base T s"
  shows "advances before n base T s (make_directory K base name) (\<lambda>_ _ _. True)"
  unfolding make_directory_def
proof (rule advances_bind)
  show "advances before n base T s (syscall K (add_entry (TreeDirectory []) base name)) (\<lambda>_ _ _. True)"
    by (intro advancesI exI [of _ T]) (simp add: leads_mount_point [OF assms])
qed (auto intro: advances_look leads_inv)

lemma advances_tmpfs:
  assumes "layout_inv before n base T s"
  shows "advances before n base T s (make_tmpfs K) (\<lambda>T' s' tree. tree \<in> T')"
proof (rule advancesI)
  fix r s'
  assume run: "make_tmpfs K s = (r, s')"
  show "\<exists>T'. leads before n base T s T' s' \<and> (\<forall>v. r = Inr v \<longrightarrow> v \<in> T')"
  proof (cases r)
    case (Inl e)
    from syscall_Inl [OF run [unfolded make_tmpfs_def this]] Inl leads_refl [OF assms] show ?thesis
      by (intro exI [of _ T]) simp
  next
    case (Inr i)
    from syscall_Inr [OF run [unfolded make_tmpfs_def this]] leads_tmpfs [OF assms] Inr show ?thesis by auto
  qed
qed

lemma advances_mount:
  assumes "layout_inv before n base T s"
  shows "advances before n base T s (move_mount K tree point) (\<lambda>T' s' u. (point, tree) \<in> set (ts_entries s'))"
  unfolding move_mount_def
proof (rule advances_bind [OF advances_look [OF assms]])
  fix T1 s1 and v :: unit
  assume "leads before n base T s T1 s1"
  from leads_push [OF leads_inv [OF this]]
  show "advances before n base T1 s1 (\<lambda>s. (Inr (), push_entry (point, tree) s))
      (\<lambda>T' s' u. (point, tree) \<in> set (ts_entries s'))"
    by (auto simp: advances_def push_entry_def)
qed auto

lemma advances_layout_directory:
  assumes s: "layout_inv before n base T s" and owned: "private_ok base private T s"
  shows "advances before n base T s (layout_directory K base private name)
    (\<lambda>T' s' (root, private'). private_ok base private' T' s' \<and> map_of private' name = Some root \<and>
       map_le (map_of private) (map_of private'))"
    (is "advances _ _ _ _ _ _ ?Q")
proof (cases "map_of private name")
  case (Some root)
  have "advances before n base T s (bindF (look K (\<lambda>_. Inr ())) (\<lambda>_. returnF (root, private))) ?Q"
  proof (rule advances_bind [OF advances_look [OF s, where Q = "\<lambda>_ _ _. True"]])
    fix T1 s1 and v :: unit
    assume "leads before n base T s T1 s1"
    with owned Some show "advances before n base T1 s1 (returnF (root, private)) ?Q"
      by (intro advances_return) (auto intro: leads_inv private_ok_leads)
  qed simp
  with Some show ?thesis by (simp add: layout_directory_def)
next
  case None
  let ?R = "\<lambda>T' s' (root, private'). private_ok base private' T' s' \<and> map_of private' name = Some root \<and>
       map_le (map_of private) (map_of private')"
  have point: "advances before n base T' s' (handleF (look K (\<lambda>nodes. open_beneath nodes base name)) returnF
      (\<lambda>e. failF (explain_top name e))) (\<lambda>T' s' point. entry_of (ts_nodes s') base name = Inr point)"
    if "layout_inv before n base T' s'" for T' s'
    by (rule advances_handle [OF advances_look [OF that, where Q = "\<lambda>T' s' point. entry_of (ts_nodes s') base name = Inr point"]])
      (auto intro: advances_return advances_fail leads_inv dest: open_beneath_Inr)
  have made: "advances before n base T s (handleF (look K (\<lambda>nodes. open_beneath nodes base name)) (\<lambda>_. returnF ())
            (\<lambda>e. if e = NoEntry then make_directory K base name else failF (explain_top name e))) (\<lambda>_ _ _. True)"
    by (rule advances_handle [OF advances_look [OF s, where Q = "\<lambda>_ _ _. True"]])
      (auto intro: advances_return advances_fail advances_make_point leads_inv)
  show ?thesis
    unfolding layout_directory_def None option.case
  proof (rule advances_bind [OF made], goal_cases)
    case (1 T1 s1 u1)
    note l1 = 1(1)
    show ?case
    proof (rule advances_bind [OF point [OF leads_inv [OF l1]]], goal_cases)
      case (1 T2 s2 p)
      note l2 = leads_trans [OF l1 1(1)] and p = 1(2)
      show ?case
      proof (rule advances_bind [OF advances_tmpfs [OF leads_inv [OF l2]]], goal_cases)
        case (1 T3 s3 tree)
        note l3 = 1(1) and tree = 1(2)
        show ?case
        proof (rule advances_bind [OF advances_mount [OF leads_inv [OF l3]]], goal_cases)
          case (1 T4 s4 u4)
          note l4 = 1(1) and mounted = 1(2)
          show ?case
          proof (rule advances_bind [OF advances_look [OF leads_inv [OF l4], where Q = "\<lambda>_ _ _. True"]], goal_cases)
            case (2 T5 s5 u5)
            note l35 = leads_trans [OF l4 2(1)]
            note l25 = leads_trans [OF l3 l35]
            have "entry_of (ts_nodes s5) base name = Inr p" "(p, tree) \<in> set (ts_entries s5)" "tree \<in> T5"
              using l25 l35 2(1) p tree mounted by (auto simp: leads_def intro: entry_of_grows)
            with private_ok_leads [OF leads_trans [OF l2 l25] owned] None leads_inv [OF 2(1)] show ?case
              by (intro advances_return)
                (auto simp: private_ok_def covers_def map_le_def dom_def map_add_def split: option.split)
          qed simp
        qed
      qed
    qed
  qed
qed

section \<open>What is placed\<close>

definition placed_at :: "(string \<times> nat) list \<Rightarrow> mount image_store \<Rightarrow> placed_file \<Rightarrow> bool" where
  "placed_at private s file \<longleftrightarrow>
     (pf_required file \<longrightarrow>
        (\<exists>root. map_of private (hd (pf_relative file)) = Some root \<and>
           file_at (ts_nodes s) root (tl (pf_relative file)) (pf_bytes file)))"

lemma placed_at_leads:
  "leads before n base T s T' s' \<Longrightarrow> map_le (map_of private) (map_of private') \<Longrightarrow> placed_at private s file \<Longrightarrow>
     placed_at private' s' file"
  unfolding placed_at_def leads_def map_le_def dom_def by (force intro: file_at_grows)

definition layout_post ::
    "nat \<Rightarrow> (string \<times> nat) list \<Rightarrow> placed_file list \<Rightarrow> nat set \<Rightarrow> mount image_store \<Rightarrow> (string \<times> nat) list \<Rightarrow> bool" where
  "layout_post base private files T s private' \<longleftrightarrow>
     private_ok base private' T s \<and> map_le (map_of private) (map_of private') \<and> list_all (placed_at private' s) files"

lemma advances_place_file:
  assumes s: "layout_inv before n base T s" and owned: "private_ok base private T s"
  shows "advances before n base T s (place_file K base private file) (layout_post base private [file])"
proof (cases "pf_relative file")
  case Nil
  with s show ?thesis by (simp add: place_file_def advances_fail)
next
  case (Cons name names)
  show ?thesis
    unfolding place_file_def Cons list.case
  proof (intro advances_if advances_fail s advances_bind [OF advances_layout_directory [OF s owned]], goal_cases)
    case (1 T1 s1 v)
    note l1 = 1(2)
    obtain directory private' where v: "v = (directory, private')" by fastforce
    with 1(3) have ok: "private_ok base private' T1 s1" "map_of private' name = Some directory"
      "map_le (map_of private) (map_of private')" by auto
    then have "directory \<in> T1" by (auto simp: private_ok_def dest!: map_of_SomeD bspec)
    show ?case
      unfolding v prod.case
    proof (rule advances_bind [OF advances_write [OF leads_inv [OF l1] \<open>directory \<in> T1\<close>]], goal_cases)
      case (1 T2 s2 u)
      with ok Cons show ?case
        by (intro advances_return)
          (auto simp: layout_post_def placed_at_def intro: leads_inv private_ok_leads)
    qed
  qed
qed

lemma advances_place_all:
  "layout_inv before n base T s \<Longrightarrow> private_ok base private T s \<Longrightarrow>
     advances before n base T s (place_all K base private files) (layout_post base private files)"
proof (induction files arbitrary: "private" T s)
  case Nil
  then show ?case by (simp add: advances_return layout_post_def)
next
  case (Cons f files)
  show ?case
    unfolding place_all.simps
  proof (rule advances_bind [OF advances_place_file [OF Cons.prems]])
    fix T1 s1 private'
    assume l1: "leads before n base T s T1 s1" and p: "layout_post base private [f] T1 s1 private'"
    show "advances before n base T1 s1 (place_all K base private' files) (layout_post base private (f # files))"
    proof (rule advancesI)
      fix r s'
      assume "place_all K base private' files s1 = (r, s')"
      with Cons.IH [OF leads_inv [OF l1], of "private'"] p obtain T' where T': "leads before n base T1 s1 T' s'"
        "\<forall>v. r = Inr v \<longrightarrow> layout_post base private' files T' s' v"
        by (auto simp: advances_def layout_post_def)
      have "layout_post base private (f # files) T' s' v" if "layout_post base private' files T' s' v" for v
      proof -
        from that have le: "map_le (map_of private') (map_of v)" by (simp add: layout_post_def)
        from p have "placed_at private' s1 f" "map_le (map_of private) (map_of private')" by (simp_all add: layout_post_def)
        with placed_at_leads [OF T'(1) le] map_le_trans [OF _ le] that show ?thesis by (simp add: layout_post_def)
      qed
      with T' show "\<exists>T'. leads before n base T1 s1 T' s' \<and>
          (\<forall>v. r = Inr v \<longrightarrow> layout_post base private (f # files) T' s' v)" by (intro exI [of _ T']) simp
    qed
  qed
qed

section \<open>What is installed\<close>

definition root_wf :: "nat \<Rightarrow> 'e image_store \<Rightarrow> bool" where
  "root_wf base s \<longleftrightarrow>
     (\<exists>es. ts_nodes s base = Some (TreeDirectory es) \<and> snd ` set es \<subseteq> {..<ts_next s}) \<and>
     base < ts_next s \<and> dom (ts_nodes s) \<subseteq> {..<ts_next s}"

lemma layout_start: "root_wf base s \<Longrightarrow> layout_inv (ts_nodes s) (ts_next s) base {} s"
  using only_mount_points_start [OF refl refl, of s base] by (auto simp: root_wf_def layout_inv_def private_nodes_def image_subset_iff)

lemma looked: "layout_inv before n base T s \<Longrightarrow> advances before n base T s (look K observe) (\<lambda>_ _ _. True)"
  by (rule advances_look) simp_all

lemma advances_reject:
  "layout_inv before n base T s \<Longrightarrow> advances before n base T s (reject_non_regular K base relative) (\<lambda>_ _ _. True)"
  unfolding reject_non_regular_def
  by (rule advances_handle [OF looked])
    (auto intro!: advances_if advances_fail advances_return advances_bind [OF looked] intro: leads_inv)

lemma advances_present:
  "layout_inv before n base T s \<Longrightarrow> advances before n base T s (shell_present K base) (\<lambda>_ _ _. True)"
  unfolding shell_present_def
  by (rule advances_handle [OF looked])
    (auto intro!: advances_if advances_fail advances_return advances_bind [OF looked] intro: leads_inv)

definition installed :: "appliance_files \<Rightarrow> nat \<Rightarrow> nat set \<Rightarrow> mount image_store \<Rightarrow> (string \<times> nat) list option \<Rightarrow> bool" where
  "installed H base T s result =
     (case result of
        None \<Rightarrow> True
      | Some private \<Rightarrow> (\<exists>files. shell_files H = Inr files \<and> layout_post base [] files T s private))"

lemma advances_install:
  assumes s: "layout_inv before n base T s"
  shows "advances before n base T s (shell_install K H base) (installed H base)"
  unfolding shell_install_def
proof (rule advances_bind [OF advances_present [OF s]], goal_cases)
  case (1 T1 s1 present)
  note inv1 = leads_inv [OF 1(1)]
  show ?case
  proof (rule advances_if, goal_cases)
    case 1
    show ?case using inv1 by (intro advances_return) (simp_all add: installed_def)
  next
    case 2
    show ?case
    proof (rule advances_bind [OF advances_reject [OF inv1]], goal_cases)
      case (1 T2 s2 u)
      show ?case
      proof (rule advances_bind [OF advances_reject [OF leads_inv [OF 1(1)]]], goal_cases)
        case (1 T3 s3 u')
        note inv3 = leads_inv [OF 1(1)]
        show ?case
        proof (cases "shell_files H")
          case (Inl e)
          with inv3 show ?thesis by (simp add: advances_fail)
        next
          case (Inr files)
          have "private_ok base [] T3 s3" by (simp add: private_ok_def)
          from advances_place_all [OF inv3 this]
          show ?thesis
            unfolding Inr sum.case
            by (rule advances_bind) (auto intro!: advances_return simp: installed_def Inr intro: leads_inv)
        qed
      qed
    qed
  qed
qed

text \<open>C9: Whatever happens while a shell is installed, the layer below only gets empty directories
under new names of its root: none of the copied files stays in it.\<close>

theorem shell_layer_clean:
  assumes "root_wf base s"
  shows "only_mount_points (ts_nodes s) (ts_next s) base (snd (shell_install K H base s))"
proof -
  obtain r s' where r: "shell_install K H base s = (r, s')" by fastforce
  with advances_install [OF layout_start [OF assms], of K H] obtain T' where
    "leads (ts_nodes s) (ts_next s) base {} s T' s'" by (auto simp: advances_def)
  with r show ?thesis by (simp add: leads_def layout_inv_def)
qed

lemma add_loaders_prefix: "add_loaders H libraries files = Inr r \<Longrightarrow> \<exists>more. r = files @ more"
proof (induction libraries arbitrary: files)
  case (Cons library libraries)
  then obtain new where "add_loaders H libraries (files @ new) = Inr r"
    by (auto simp: bindE_Inr_iff split: if_splits) (metis append_Nil2)
  from Cons.IH [OF this] show ?case by auto
qed simp

text \<open>C10: A shell that was installed is the one of the appliance: a private file system covers
\<open>bin\<close>, with exactly the bytes of the appliance in \<open>sh\<close> and \<open>cat\<close>.\<close>

theorem shell_tools_installed:
  assumes "root_wf base s" and "shell_install K H base s = (Inr (Some private), s')"
  shows "\<exists>root sh cat sh_bytes cat_bytes. host_tool H ''sh'' = Inr sh \<and> read_loader H sh = Inr sh_bytes \<and>
    host_tool H ''cat'' = Inr cat \<and> read_loader H cat = Inr cat_bytes \<and> covers base s' ''bin'' root \<and>
    file_at (ts_nodes s') root [''sh''] sh_bytes \<and> file_at (ts_nodes s') root [''cat''] cat_bytes"
proof -
  from advances_install [OF layout_start [OF assms(1)], of K H] assms(2) obtain T' files where
    files: "shell_files H = Inr files" and post: "layout_post base [] files T' s' private"
    by (auto simp: advances_def installed_def)
  from files obtain sh cat sh_bytes cat_bytes more where host: "host_tool H ''sh'' = Inr sh" "read_loader H sh = Inr sh_bytes"
    "host_tool H ''cat'' = Inr cat" "read_loader H cat = Inr cat_bytes"
    and f: "files = [\<lparr>pf_relative = [''bin'', ''sh''], pf_bytes = sh_bytes, pf_required = True\<rparr>,
          \<lparr>pf_relative = [''bin'', ''cat''], pf_bytes = cat_bytes, pf_required = True\<rparr>] @ more"
    by (auto simp: shell_files_def bindE_Inr_iff Let_def dest!: add_loaders_prefix)
  from post f obtain root where root: "map_of private ''bin'' = Some root" "file_at (ts_nodes s') root [''sh''] sh_bytes"
    "file_at (ts_nodes s') root [''cat''] cat_bytes"
    by (auto simp: layout_post_def placed_at_def)
  moreover have "covers base s' ''bin'' root"
    using post map_of_SomeD [OF root(1)] by (auto simp: layout_post_def private_ok_def)
  ultimately show ?thesis using host by blast
qed

text \<open>An image with a shell is left as it is.\<close>

lemma shell_existing_unchanged:
  "shell_install K H base s = (Inr None, s') \<Longrightarrow> ts_nodes s' = ts_nodes s \<and> ts_entries s' = ts_entries s"
  by (auto simp: shell_install_def shell_present_def handleF_def bindF_def returnF_def failF_def
      split: prod.splits sum.splits if_splits dest!: look_state)

section \<open>An image without a shell\<close>

definition example_appliance :: appliance_files where
  "example_appliance =
     \<lparr>af_is_file = (\<lambda>path. path = ''/bin/sh'' \<or> path = ''/usr/bin/cat'' \<or> path = ''/usr/bin/ldd''),
      af_stat = (\<lambda>path. Inr (True, 2)), af_read = (\<lambda>path. Inr (if path = ''/bin/sh'' then [1, 2] else [3, 4])),
      af_ldd = (\<lambda>ldd binary. Inr (True, []))\<rparr>"

definition empty_image :: "mount image_store" where
  "empty_image = \<lparr>ts_nodes = [0 \<mapsto> TreeDirectory []], ts_next = 1, ts_calls = 0, ts_entries = []\<rparr>"

definition missing_kernel :: fs_kernel where
  "missing_kernel = \<lparr>fk_fault = (\<lambda>_. None), fk_open = (\<lambda>how nodes root path. Inl NoEntry)\<rparr>"

lemma empty_image_installed:
  "fst (shell_install missing_kernel example_appliance 0 empty_image) = Inr (Some [(''bin'', 2)])"
  by code_simp

lemma empty_image_wf: "root_wf 0 empty_image"
  by (simp add: root_wf_def empty_image_def)

lemma shell_layer_clean_witness:
  "only_mount_points (ts_nodes empty_image) 1 0 (snd (shell_install missing_kernel example_appliance 0 empty_image))"
  using shell_layer_clean [OF empty_image_wf, of missing_kernel example_appliance] by (simp add: empty_image_def)

lemma shell_tools_installed_witness:
  "\<exists>root. covers 0 (snd (shell_install missing_kernel example_appliance 0 empty_image)) ''bin'' root \<and>
     file_at (ts_nodes (snd (shell_install missing_kernel example_appliance 0 empty_image))) root [''sh''] [1, 2]"
proof -
  have "shell_install missing_kernel example_appliance 0 empty_image =
      (Inr (Some [(''bin'', 2)]), snd (shell_install missing_kernel example_appliance 0 empty_image))"
    using empty_image_installed by (simp add: prod_eq_iff)
  from shell_tools_installed [OF empty_image_wf this] show ?thesis
    by (auto simp: host_tool_def read_loader_def example_appliance_def bindE_def failIf_def max_loader_bytes_def)
qed

end
