(* ===== verification/Spec2Isabelle.thy ===== *)
theory Spec2Isabelle
  imports Disk_Roundtrip Output_Assembled Copy_Destination Storage_Seal Step_Execution Supervision_Packets Domain_Quiescence Resolver_Target Network_Route Runtime_Targets Command_Shell
begin

text \<open>
  Conglobate builds a bootable virtual machine image from a plan that is committed to a
  Git repository.  A build captures the plan and its lock, orders the stages, resolves
  every remote image against a local cache of verified content, runs the stages in
  sandboxes, seals what each one changed as a layer on top of the layers it was given,
  and assembles and publishes an image in a private staging directory.  The theories
  model the code under \<open>src/src\<close>, file by file.

  \<^bold>\<open>Names and values.\<close> \<open>Prelude\<close> (results, strings, decimal numbers, ordered maps),
  \<open>Bytes\<close>, \<open>Artifact_Digest\<close> and \<open>Artifact_Reference\<close> (\<open>artifact/digest.rs\<close>,
  \<open>artifact/reference.rs\<close>), \<open>Plan_Names\<close>, \<open>Std_Net\<close>, \<open>Plan_Remote\<close> (the vocabulary of a
  plan, \<open>plan/*.rs\<close>; \<open>Std_Net\<close> is the part of the standard library that reads addresses),
  \<open>Paths\<close> (\<open>path.rs\<close>) and \<open>Copy_Pattern\<close> (\<open>copy/pattern.rs\<close>).  Their lemmas are round
  trips of printing and parsing and the exact domains of the parsers.

  \<^bold>\<open>Documents.\<close> \<open>Serde_Model\<close> is the tree of values between a type and its JSON or YAML
  text; \<open>Artifact_Config\<close>, \<open>Artifact_Manifest\<close> and \<open>Manifest_Wire\<close> are the launch
  contract, the manifest with its validation, and the readers and writers of both
  (\<open>artifact/*.rs\<close>).  \<open>Boot_Config\<close>, \<open>Boot_Config_Text\<close> and \<open>Boot_Config_Roundtrip\<close> are the
  boot configuration language (\<open>boot_config.rs\<close>); its parser runs on fuel, one more than
  the length of the text, which is proved to be enough.

  \<^bold>\<open>Disks.\<close> \<open>Disk_Format\<close>, \<open>Disk_Layout\<close>, \<open>Disk_Read\<close> and \<open>Disk_Roundtrip\<close> are the GPT
  writer and reader (\<open>disk/*.rs\<close>): what is written is read back, and what is read stays
  inside the device.

  \<^bold>\<open>Planning.\<close> \<open>Plan_Model\<close>, \<open>Planner\<close> and \<open>Planner_Order\<close> (\<open>planner/mod.rs\<close>): a plan is
  accepted exactly when its graph has no cycle and no missing stage, and its order puts
  every stage behind those it needs.  \<open>Graph\<close> (\<open>image.rs\<close>, \<open>lock.rs\<close>, \<open>graph.rs\<close>) is the
  set of remote inputs with their pins.  \<open>Copy_Source\<close> and \<open>Copy_Destination\<close> (\<open>copy/*\<close>)
  resolve what a copy reads from a captured context and where it writes in an image; the
  number of links they follow is bounded by 40, as in the code.

  \<^bold>\<open>Content.\<close> \<open>Cache_Read\<close>, \<open>Cache_Resolve\<close>, \<open>Cache_Chain\<close> (\<open>cache/*.rs\<close>) and
  \<open>Input_Resolve\<close> (\<open>input/*.rs\<close>): the reads of a cache that may change or fail at any
  moment.  The locale \<open>content_store\<close> is the contract of a store whose contents stay; over
  it, resolution is characterised by the contents alone.

  \<^bold>\<open>Building and publishing.\<close> \<open>Pipeline_Boot\<close>, \<open>Pipeline_Output\<close> (\<open>pipeline/*.rs\<close>),
  \<open>Output_Stage\<close> and \<open>Output_Assembly\<close> (\<open>output/*.rs\<close>): the components every stage has, the
  staging directory with the outcome of every system call, the manifest of the result with
  the binding to its build, and its publication.  \<open>Output_Assembly_Layers\<close> reads the written
  manifest back, \<open>Output_Assembly_Sound\<close> follows the blobs through the assembly, and
  \<open>Output_Assembled\<close> holds the properties of the result.

  Code outside the repository is a parameter: the hexadecimal codec (\<open>hexlib\<close>), the size
  limits of the carapace crate (\<open>carapace_limits\<close>), the checksum and the random identities
  of a disk, the Zstandard codec (\<open>zstd\<close>), SHA-256 (\<open>sha256\<close>), the readers of JSON
  (\<open>json\<close>, \<open>codec\<close>), the decoder of a verity header (\<open>verity_decoder\<close>), the files that the
  operating system opens (\<open>cache\<close>, \<open>prepared\<close>, \<open>image_view\<close>), and the sandboxed work of a
  stage (\<open>worker\<close>).

  \<^bold>\<open>Not modelled.\<close> Processes, namespaces, mounts, device mapper and loop devices, the YAML
  and Git libraries, and the command line: they are effects on a kernel or code of other
  crates.
\<close>

end
